(* ===== verification/Softbus_Prelude.thy ===== *)
theory Softbus_Prelude
  imports Main "HOL-Library.Word" "HOL-Library.Multiset"
begin

text \<open>
  Shared vocabulary of the development: the return codes of
  \<^verbatim>\<open>softbus_errcode.h\<close>, the counted list \<^verbatim>\<open>SoftBusList\<close> of
  \<^verbatim>\<open>softbus_def.h\<close> with its constructor and destructor, the bounded copies of the C
  library, and the lemmas on list searches, first-match deletion and first-match update
  that every list-based component uses. The last section states the contract of a
  registry of keyed entries as a locale; the components that keep such a registry
  interpret it.
\<close>

named_theorems registry_simps
  \<open>rewrite rules for the list searches, deletions and updates of the registries\<close>

named_theorems word_ring
  \<open>rewrite rules that move 32-bit ring indices to natural numbers\<close>

section \<open>Return codes\<close>

text \<open>
  The enumerators of \<^verbatim>\<open>enum SoftBusErrNo\<close> the modelled code returns, with the values the
  compiler gives them. They are input abbreviations, so that comparing codes is integer
  arithmetic and a test such as \<^verbatim>\<open>ret < 0\<close> of the source means what it means in C.
\<close>

abbreviation (input) SOFTBUS_OK :: int where "SOFTBUS_OK \<equiv> 0"
abbreviation (input) SOFTBUS_ERR :: int where "SOFTBUS_ERR \<equiv> - 1"
abbreviation (input) SOFTBUS_TIMOUT :: int where "SOFTBUS_TIMOUT \<equiv> - 999"
abbreviation (input) SOFTBUS_INVALID_PARAM :: int where "SOFTBUS_INVALID_PARAM \<equiv> - 998"
abbreviation (input) SOFTBUS_MEM_ERR :: int where "SOFTBUS_MEM_ERR \<equiv> - 997"
abbreviation (input) SOFTBUS_NO_INIT :: int where "SOFTBUS_NO_INIT \<equiv> - 994"
abbreviation (input) SOFTBUS_MALLOC_ERR :: int where "SOFTBUS_MALLOC_ERR \<equiv> - 991"
abbreviation (input) SOFTBUS_ENCRYPT_ERR :: int where "SOFTBUS_ENCRYPT_ERR \<equiv> - 990"
abbreviation (input) SOFTBUS_DECRYPT_ERR :: int where "SOFTBUS_DECRYPT_ERR \<equiv> - 989"
abbreviation (input) SOFTBUS_INVALID_NUM :: int where "SOFTBUS_INVALID_NUM \<equiv> - 987"
abbreviation (input) SOFTBUS_SERVER_NAME_REPEATED :: int where
  "SOFTBUS_SERVER_NAME_REPEATED \<equiv> - 986"
abbreviation (input) SOFTBUS_LOCK_ERR :: int where "SOFTBUS_LOCK_ERR \<equiv> - 984"
abbreviation (input) SOFTBUS_DATA_NOT_ENOUGH :: int where "SOFTBUS_DATA_NOT_ENOUGH \<equiv> - 978"
abbreviation (input) SOFTBUS_SLICE_ERROR :: int where "SOFTBUS_SLICE_ERROR \<equiv> - 977"
abbreviation (input) SOFTBUS_CONN_MANAGER_TYPE_NOT_SUPPORT :: int where
  "SOFTBUS_CONN_MANAGER_TYPE_NOT_SUPPORT \<equiv> - 4998"
abbreviation (input) SOFTBUS_CONN_MANAGER_OP_NOT_SUPPORT :: int where
  "SOFTBUS_CONN_MANAGER_OP_NOT_SUPPORT \<equiv> - 4997"
abbreviation (input) SOFTBUS_CONN_MANAGER_PKT_LEN_INVALID :: int where
  "SOFTBUS_CONN_MANAGER_PKT_LEN_INVALID \<equiv> - 4996"
abbreviation (input) SOFTBUS_TCPCONNECTION_SOCKET_ERR :: int where
  "SOFTBUS_TCPCONNECTION_SOCKET_ERR \<equiv> - 4980"
abbreviation (input) SOFTBUS_TRANS_INVALID_DATA_LENGTH :: int where
  "SOFTBUS_TRANS_INVALID_DATA_LENGTH \<equiv> - 10990"
abbreviation (input) SOFTBUS_TRANS_PROXY_PACKMSG_ERR :: int where
  "SOFTBUS_TRANS_PROXY_PACKMSG_ERR \<equiv> - 10988"
abbreviation (input) SOFTBUS_TRANS_PROXY_SENDMSG_ERR :: int where
  "SOFTBUS_TRANS_PROXY_SENDMSG_ERR \<equiv> - 10987"
abbreviation (input) SOFTBUS_TRANS_PROXY_SEND_CHANNELID_INVALID :: int where
  "SOFTBUS_TRANS_PROXY_SEND_CHANNELID_INVALID \<equiv> - 10986"
abbreviation (input) SOFTBUS_TRANS_PROXY_CHANNLE_STATUS_INVALID :: int where
  "SOFTBUS_TRANS_PROXY_CHANNLE_STATUS_INVALID \<equiv> - 10985"
abbreviation (input) SOFTBUS_TRANS_PROXY_DEL_CHANNELID_INVALID :: int where
  "SOFTBUS_TRANS_PROXY_DEL_CHANNELID_INVALID \<equiv> - 10984"
abbreviation (input) SOFTBUS_TRANS_PROXY_SESS_ENCRYPT_ERR :: int where
  "SOFTBUS_TRANS_PROXY_SESS_ENCRYPT_ERR \<equiv> - 10983"
abbreviation (input) SOFTBUS_TRANS_PROXY_INVALID_SLICE_HEAD :: int where
  "SOFTBUS_TRANS_PROXY_INVALID_SLICE_HEAD \<equiv> - 10982"
abbreviation (input) SOFTBUS_TRANS_PROXY_ASSEMBLE_PACK_NO_INVALID :: int where
  "SOFTBUS_TRANS_PROXY_ASSEMBLE_PACK_NO_INVALID \<equiv> - 10981"
abbreviation (input) SOFTBUS_TRANS_PROXY_ASSEMBLE_PACK_EXCEED_LENGTH :: int where
  "SOFTBUS_TRANS_PROXY_ASSEMBLE_PACK_EXCEED_LENGTH \<equiv> - 10980"
abbreviation (input) SOFTBUS_TRANS_PROXY_ASSEMBLE_PACK_DATA_NULL :: int where
  "SOFTBUS_TRANS_PROXY_ASSEMBLE_PACK_DATA_NULL \<equiv> - 10979"

section \<open>Bounded copies of the C library\<close>

text \<open>
  \<^verbatim>\<open>memcpy_s\<close> copies when the source fits a non-empty destination and reports an error otherwise;
  \<^verbatim>\<open>strcpy_s\<close> also needs room for the terminating zero byte, which is not part of a
  \<^typ>\<open>string\<close>.
\<close>

definition memcpy_s :: "nat \<Rightarrow> 'a list \<Rightarrow> 'a list option" where
  "memcpy_s dmax src = (if dmax \<noteq> 0 \<and> length src \<le> dmax then Some src else None)"

definition strcpy_s :: "nat \<Rightarrow> string \<Rightarrow> string option" where
  "strcpy_s dmax src = (if length src < dmax then Some src else None)"

text \<open>
  The allocations of \<^verbatim>\<open>softbus_adapter_mem.c\<close>: whether a block of the size is given, for the outcome of
  \<^verbatim>\<open>malloc\<close> by size. The cleared block has to be non-empty, because \<^verbatim>\<open>memset_s\<close> rejects an empty one.
\<close>

abbreviation (input) MAX_MALLOC_SIZE :: "32 word" where "MAX_MALLOC_SIZE \<equiv> 512 * 1024 * 1024"
abbreviation (input) SESSION_KEY_LENGTH :: nat where "SESSION_KEY_LENGTH \<equiv> 32"

definition SoftBusMalloc :: "(32 word \<Rightarrow> bool) \<Rightarrow> 32 word \<Rightarrow> bool" where
  "SoftBusMalloc malloc sz = (if sz > MAX_MALLOC_SIZE then False else malloc sz)"

definition SoftBusCalloc :: "(32 word \<Rightarrow> bool) \<Rightarrow> 32 word \<Rightarrow> bool" where
  "SoftBusCalloc malloc sz = (if \<not> SoftBusMalloc malloc sz then False else sz \<noteq> 0)"

section \<open>Little-endian fields\<close>

text \<open>The bytes of an integer field of a packet header in memory order, and the field read back.\<close>

primrec le_bytes :: "nat \<Rightarrow> 'a::len word \<Rightarrow> 8 word list" where
  "le_bytes 0 w = []"
| "le_bytes (Suc n) w = ucast w # le_bytes n (drop_bit 8 w)"

primrec le_word :: "8 word list \<Rightarrow> 'a::len word" where
  "le_word [] = 0"
| "le_word (b # bs) = or (ucast b) (push_bit 8 (le_word bs))"

lemma length_le_bytes [simp]: "length (le_bytes n w) = n"
  by (induction n arbitrary: w) simp_all

lemma le_word_le_bytes: "(le_word (le_bytes n w) :: 'a::len word) = take_bit (8 * n) w"
proof (induction n arbitrary: w)
  case 0
  show ?case by simp
next
  case (Suc n)
  show ?case
    by (rule bit_word_eqI)
      (auto simp: Suc.IH bit_simps not_le less_diff_conv2 dest: bit_imp_le_length)
qed

lemma le_word_32 [simp]: "(le_word (le_bytes 4 w) :: 32 word) = w"
  by (simp add: le_word_le_bytes take_bit_word_eq_self)

lemma le_word_64 [simp]: "(le_word (le_bytes 8 w) :: 64 word) = w"
  by (simp add: le_word_le_bytes take_bit_word_eq_self)

lemma le_bytes_4:
  "le_bytes 4 w = [ucast w, ucast (drop_bit 8 w), ucast (drop_bit 8 (drop_bit 8 w)), ucast (drop_bit 8 (drop_bit 8 (drop_bit 8 w)))]"
proof -
  have "le_bytes (Suc (Suc (Suc (Suc 0)))) w = le_bytes 4 w" by (simp add: eval_nat_numeral)
  then show ?thesis by simp
qed

lemma sint_of_small_nat: "n < 2 ^ 31 \<Longrightarrow> sint (of_nat n :: 32 word) = int n"
  unfolding signed_of_nat by (simp add: signed_take_bit_int_eq_self)

section \<open>First-match deletion and update\<close>

text \<open>
  The loops over intrusive lists that stop at the first entry satisfying a test: removing
  that entry, and changing it in place.
\<close>

fun del_first :: "('a \<Rightarrow> bool) \<Rightarrow> 'a list \<Rightarrow> 'a list" where
  "del_first P [] = []"
| "del_first P (x # xs) = (if P x then xs else x # del_first P xs)"

fun upd_first :: "('a \<Rightarrow> bool) \<Rightarrow> ('a \<Rightarrow> 'a) \<Rightarrow> 'a list \<Rightarrow> 'a list" where
  "upd_first P f [] = []"
| "upd_first P f (x # xs) = (if P x then f x # xs else x # upd_first P f xs)"

lemma del_first_none [registry_simps]: "\<forall>x \<in> set xs. \<not> P x \<Longrightarrow> del_first P xs = xs"
  by (induction xs) auto

lemma upd_first_none [registry_simps]: "\<forall>x \<in> set xs. \<not> P x \<Longrightarrow> upd_first P f xs = xs"
  by (induction xs) auto

lemma set_del_first_subset: "set (del_first P xs) \<subseteq> set xs"
  by (induction xs) auto

lemma in_del_firstD: "x \<in> set (del_first P xs) \<Longrightarrow> x \<in> set xs"
  using set_del_first_subset by fast

lemma in_del_first_other: "x \<in> set xs \<Longrightarrow> \<not> P x \<Longrightarrow> x \<in> set (del_first P xs)"
  by (induction xs) auto

lemma length_del_first [registry_simps]:
  "length (del_first P xs) = (if \<exists>x \<in> set xs. P x then length xs - 1 else length xs)"
  by (induction xs) (auto simp: Suc_diff_1 length_greater_0_conv split: if_splits
      dest: length_pos_if_in_set)

lemma length_upd_first [simp, registry_simps]: "length (upd_first P f xs) = length xs"
  by (induction xs) auto

lemma map_upd_first [registry_simps]:
  "(\<And>x. P x \<Longrightarrow> g (f x) = g x) \<Longrightarrow> map g (upd_first P f xs) = map g xs"
  by (induction xs) auto

lemma filter_upd_first_other:
  "(\<And>x. P x \<Longrightarrow> \<not> Q x \<and> \<not> Q (f x)) \<Longrightarrow> filter Q (upd_first P f xs) = filter Q xs"
  by (induction xs) auto

lemma in_upd_firstE:
  assumes "y \<in> set (upd_first P f xs)"
  obtains "y \<in> set xs" | x where "x \<in> set xs" "P x" "y = f x"
  using assms by (induction xs) (auto split: if_splits)

lemma distinct_map_del_first:
  "distinct (map g xs) \<Longrightarrow> distinct (map g (del_first P xs))"
  by (induction xs) (auto dest: in_del_firstD)

lemma del_first_eq_filter:
  "distinct (map g xs) \<Longrightarrow>
   del_first (\<lambda>x. g x = k) xs = filter (\<lambda>x. g x \<noteq> k) xs"
proof (induction xs)
  case Nil
  show ?case by simp
next
  case (Cons x xs)
  show ?case
  proof (cases "g x = k")
    case True
    with Cons.prems have "\<forall>y \<in> set xs. g y \<noteq> k" by (metis distinct.simps(2) imageI list.set_map list.simps(9))
    with True show ?thesis by (simp add: filter_id_conv)
  next
    case False
    with Cons show ?thesis by simp
  qed
qed

lemma find_del_first_same:
  "distinct (map g xs) \<Longrightarrow> find (\<lambda>x. g x = k) (del_first (\<lambda>x. g x = k) xs) = None"
  by (simp add: del_first_eq_filter find_None_iff)

lemma find_del_first_other:
  "k \<noteq> k' \<Longrightarrow> find (\<lambda>x. g x = k') (del_first (\<lambda>x. g x = k) xs) = find (\<lambda>x. g x = k') xs"
  by (induction xs) auto

lemma find_SomeD: "find P xs = Some x \<Longrightarrow> x \<in> set xs \<and> P x"
  by (auto simp: find_Some_iff)

lemma filter_key_find:
  "distinct (map g xs) \<Longrightarrow>
   filter (\<lambda>x. g x = k) xs = (case find (\<lambda>x. g x = k) xs of None \<Rightarrow> [] | Some x \<Rightarrow> [x])"
  by (induction xs) (auto simp: image_iff split: option.splits dest!: find_SomeD)

lemma filter_key_single:
  "distinct (map g xs) \<Longrightarrow> x \<in> set xs \<Longrightarrow> filter (\<lambda>y. g y = g x) xs = [x]"
  by (induction xs) (auto simp: filter_empty_conv image_iff)

lemma mset_del_first: "find P xs = Some x \<Longrightarrow> mset xs = add_mset x (mset (del_first P xs))"
  by (induction xs) (auto split: if_splits)

lemma find_upd_first_same:
  "(\<And>x. P x \<Longrightarrow> P (f x)) \<Longrightarrow>
   find P (upd_first P f xs) = map_option f (find P xs)"
  by (induction xs) auto

lemma find_upd_first_other:
  "(\<And>x. P x \<Longrightarrow> \<not> Q x) \<Longrightarrow> (\<And>x. P x \<Longrightarrow> \<not> Q (f x)) \<Longrightarrow>
   find Q (upd_first P f xs) = find Q xs"
  by (induction xs) auto

section \<open>The counted list SoftBusList\<close>

text \<open>
  \<^verbatim>\<open>SoftBusList\<close> couples an intrusive list with an unsigned counter (and a recursive mutex,
  which the operations of the components take as the outcome of locking it). The entries
  are kept as a HOL list in list order; theory \<open>Common_List\<close> relates that reading to the
  pointer operations.
\<close>

record 'a SoftBusList =
  cnt :: "32 word"
  lst :: "'a list"

text \<open>
  \<^verbatim>\<open>CreateSoftBusList\<close>: the first argument is the outcome of the allocation, the second that
  of \<^verbatim>\<open>pthread_mutex_init\<close>.
\<close>

definition CreateSoftBusList :: "bool \<Rightarrow> bool \<Rightarrow> 'a SoftBusList option" where
  "CreateSoftBusList alloc mutexInit =
     (if \<not> alloc then None
      else if \<not> mutexInit then None
      else Some \<lparr>cnt = 0, lst = []\<rparr>)"

text \<open>The two idioms by which the components change a counted list.\<close>

definition sl_add :: "'a \<Rightarrow> 'a SoftBusList \<Rightarrow> 'a SoftBusList" where
  "sl_add x l = l\<lparr>cnt := cnt l + 1, lst := x # lst l\<rparr>"

definition sl_del_first :: "('a \<Rightarrow> bool) \<Rightarrow> 'a SoftBusList \<Rightarrow> 'a SoftBusList" where
  "sl_del_first P l =
     (if \<exists>x \<in> set (lst l). P x
      then l\<lparr>cnt := cnt l - 1, lst := del_first P (lst l)\<rparr> else l)"

definition sl_upd_first :: "('a \<Rightarrow> bool) \<Rightarrow> ('a \<Rightarrow> 'a) \<Rightarrow> 'a SoftBusList \<Rightarrow> 'a SoftBusList" where
  "sl_upd_first P f l = l\<lparr>lst := upd_first P f (lst l)\<rparr>"

text \<open>Removal of every match, in one pass.\<close>

definition sl_remove :: "('a \<Rightarrow> bool) \<Rightarrow> 'a SoftBusList \<Rightarrow> 'a SoftBusList" where
  "sl_remove P l = l\<lparr>cnt := cnt l - of_nat (length (filter P (lst l))), lst := filter (\<lambda>x. \<not> P x) (lst l)\<rparr>"

definition wf_sl :: "'a SoftBusList \<Rightarrow> bool" where
  "wf_sl l \<longleftrightarrow> cnt l = of_nat (length (lst l))"

lemma lst_sl_simps [simp, registry_simps]:
  "lst (sl_add x l) = x # lst l"
  "lst (sl_del_first P l) = del_first P (lst l)"
  "lst (sl_upd_first P f l) = upd_first P f (lst l)"
  by (auto simp: sl_add_def sl_del_first_def sl_upd_first_def del_first_none)

lemma wf_sl_create: "CreateSoftBusList a m = Some l \<Longrightarrow> wf_sl l \<and> lst l = []"
  by (auto simp: CreateSoftBusList_def wf_sl_def split: if_splits)

lemma wf_sl_add [simp, intro]: "wf_sl l \<Longrightarrow> wf_sl (sl_add x l)"
  by (simp add: wf_sl_def sl_add_def)

lemma wf_sl_del_first [simp, intro]: "wf_sl l \<Longrightarrow> wf_sl (sl_del_first P l)"
proof -
  assume wf: "wf_sl l"
  show ?thesis
  proof (cases "\<exists>x \<in> set (lst l). P x")
    case True
    then have "0 < length (lst l)" by (auto simp: length_pos_if_in_set)
    then have "of_nat (length (lst l) - 1) = (of_nat (length (lst l)) - 1 :: 32 word)"
      by (cases "length (lst l)") simp_all
    with True wf show ?thesis
      by (simp add: wf_sl_def sl_del_first_def length_del_first)
  next
    case False
    with wf show ?thesis by (simp add: sl_del_first_def)
  qed
qed

lemma lst_sl_remove [simp, registry_simps]: "lst (sl_remove P l) = filter (\<lambda>x. \<not> P x) (lst l)"
  by (simp add: sl_remove_def)

lemma wf_sl_remove [simp, intro]: "wf_sl l \<Longrightarrow> wf_sl (sl_remove P l)"
  using sum_length_filter_compl [of P "lst l"]
  by (simp add: wf_sl_def sl_remove_def flip: of_nat_add) (metis add_diff_cancel_left' of_nat_add)

lemma wf_sl_map [simp]: "wf_sl (l\<lparr>lst := map f (lst l)\<rparr>) = wf_sl l"
  by (simp add: wf_sl_def)

lemma wf_sl_upd_first [simp, intro]: "wf_sl l \<Longrightarrow> wf_sl (sl_upd_first P f l)"
  by (simp add: wf_sl_def sl_upd_first_def)

section \<open>The contract of a keyed registry\<close>

text \<open>
  Several components keep a list of entries under a key that must be unique: the session
  servers by session name, the connection listeners by module. The contract they share is
  stated here. \<open>add\<close> and \<open>del\<close> take the outcome of the environment (locking,
  allocation) as their first argument; \<open>granted\<close> tells the outcomes under which a deletion
  really runs.
\<close>

datatype ('e, 'a, 'k) registry_op = RAdd 'e 'a | RDel 'e 'k

fun registry_run ::
  "('e \<Rightarrow> 'a \<Rightarrow> 's \<Rightarrow> int \<times> 's) \<Rightarrow> ('e \<Rightarrow> 'k \<Rightarrow> 's \<Rightarrow> 's) \<Rightarrow>
   ('e, 'a, 'k) registry_op list \<Rightarrow> 's \<Rightarrow> 's" where
  "registry_run add del [] s = s"
| "registry_run add del (RAdd e x # ops) s = registry_run add del ops (snd (add e x s))"
| "registry_run add del (RDel e k # ops) s = registry_run add del ops (del e k s)"

locale keyed_registry =
  fixes items :: "'s \<Rightarrow> 'a list"
    and key :: "'a \<Rightarrow> 'k"
    and granted :: "'e \<Rightarrow> 's \<Rightarrow> bool"
    and add :: "'e \<Rightarrow> 'a \<Rightarrow> 's \<Rightarrow> int \<times> 's"
    and del :: "'e \<Rightarrow> 'k \<Rightarrow> 's \<Rightarrow> 's"
  assumes add_accept: "fst (add e x s) = 0 \<Longrightarrow> items (snd (add e x s)) = x # items s"
    and add_fresh: "fst (add e x s) = 0 \<Longrightarrow> key x \<notin> key ` set (items s)"
    and add_reject: "fst (add e x s) \<noteq> 0 \<Longrightarrow> items (snd (add e x s)) = items s"
    and del_granted: "granted e s \<Longrightarrow> items (del e k s) = del_first (\<lambda>y. key y = k) (items s)"
    and del_refused: "\<not> granted e s \<Longrightarrow> items (del e k s) = items s"
begin

lemma unique_add:
  assumes "distinct (map key (items s))"
  shows "distinct (map key (items (snd (add e x s))))"
proof (cases "fst (add e x s) = 0")
  case True
  with assms add_fresh [OF True] show ?thesis by (simp add: add_accept)
next
  case False
  with assms show ?thesis by (simp add: add_reject)
qed

lemma unique_del:
  assumes "distinct (map key (items s))"
  shows "distinct (map key (items (del e k s)))"
  using assms by (cases "granted e s") (simp_all add: del_granted del_refused distinct_map_del_first)

lemma unique_run:
  "distinct (map key (items s)) \<Longrightarrow> distinct (map key (items (registry_run add del ops s)))"
proof (induction ops arbitrary: s)
  case Nil
  then show ?case by simp
next
  case (Cons op ops)
  then show ?case by (cases op) (simp_all add: unique_add unique_del)
qed

lemma lookup_added:
  "fst (add e x s) = 0 \<Longrightarrow> find (\<lambda>y. key y = key x) (items (snd (add e x s))) = Some x"
  by (simp add: add_accept)

lemma lookup_other:
  "k \<noteq> key x \<Longrightarrow>
   find (\<lambda>y. key y = k) (items (snd (add e x s))) = find (\<lambda>y. key y = k) (items s)"
  by (cases "fst (add e x s) = 0") (auto simp: add_accept add_reject)

lemma lookup_deleted:
  "granted e s \<Longrightarrow> distinct (map key (items s)) \<Longrightarrow>
   find (\<lambda>y. key y = k) (items (del e k s)) = None"
  by (simp add: del_granted find_del_first_same)

lemma lookup_del_other:
  "k \<noteq> k' \<Longrightarrow> find (\<lambda>y. key y = k') (items (del e k s)) = find (\<lambda>y. key y = k') (items s)"
  by (cases "granted e s") (simp_all add: del_granted del_refused find_del_first_other)

lemma lookup_map_add:
  "fst (add e x s) = 0 \<Longrightarrow>
   (\<lambda>k. find (\<lambda>y. key y = k) (items (snd (add e x s)))) = (\<lambda>k. find (\<lambda>y. key y = k) (items s))(key x \<mapsto> x)"
  by (rule ext) (simp add: add_accept)

lemma lookup_map_del:
  "granted e s \<Longrightarrow> distinct (map key (items s)) \<Longrightarrow>
   (\<lambda>k'. find (\<lambda>y. key y = k') (items (del e k s))) = (\<lambda>k'. find (\<lambda>y. key y = k') (items s))(k := None)"
  by (rule ext) (simp add: lookup_deleted lookup_del_other)

lemma card_keys:
  "distinct (map key (items s)) \<Longrightarrow> card (dom (\<lambda>k. find (\<lambda>y. key y = k) (items s))) = length (items s)"
proof -
  assume d: "distinct (map key (items s))"
  have "dom (\<lambda>k. find (\<lambda>y. key y = k) (items s)) = key ` set (items s)"
    by (auto simp: dom_def find_None_iff image_iff)
  then show ?thesis using distinct_card [OF d] by simp
qed

lemma add_repeated_rejected:
  "x' \<in> set (items s) \<Longrightarrow> key x' = key x \<Longrightarrow> fst (add e x s) \<noteq> 0"
  using add_fresh by (metis imageI)

end

end
