(* ===== verification/Common_List.thy ===== *)
theory Common_List
  imports Softbus_Prelude
begin

text \<open>
  The intrusive doubly linked list of \<^verbatim>\<open>core/common/include/common_list.h\<close>. A heap maps the
  address of every list node to its \<^verbatim>\<open>next\<close> and \<^verbatim>\<open>prev\<close> pointers (address 0 is the null
  pointer). The predicate \<open>dlist\<close> says that a head node carries a given list of nodes.
  Each pointer operation is proved to act on that list as the components of this
  development assume: insertion at either end or before a given node, deletion of a node,
  traversal, and the traversal that deletes the entries it visits. The laws are the locale
  \<open>intrusive_list\<close>, interpreted on the pointer operations.
\<close>

section \<open>Nodes and operations\<close>

record dheap =
  nxt :: "nat \<Rightarrow> nat"
  prv :: "nat \<Rightarrow> nat"

definition set_next :: "nat \<Rightarrow> nat \<Rightarrow> dheap \<Rightarrow> dheap" where
  "set_next a v h = h\<lparr>nxt := (nxt h)(a := v)\<rparr>"

definition set_prev :: "nat \<Rightarrow> nat \<Rightarrow> dheap \<Rightarrow> dheap" where
  "set_prev a v h = h\<lparr>prv := (prv h)(a := v)\<rparr>"

lemma set_next_prev [simp]:
  "nxt (set_next a v h) = (nxt h)(a := v)" "prv (set_next a v h) = prv h"
  "prv (set_prev a v h) = (prv h)(a := v)" "nxt (set_prev a v h) = nxt h"
  by (simp_all add: set_next_def set_prev_def)

definition ListInit :: "nat \<Rightarrow> dheap \<Rightarrow> dheap" where
  "ListInit l h = set_prev l l (set_next l l h)"

definition ListAdd :: "nat \<Rightarrow> nat \<Rightarrow> dheap \<Rightarrow> dheap" where
  "ListAdd l node h =
     (let h1 = set_next node (nxt h l) h;
          h2 = set_prev node l h1;
          h3 = set_prev (nxt h2 l) node h2
      in set_next l node h3)"

definition ListTailInsert :: "nat \<Rightarrow> nat \<Rightarrow> dheap \<Rightarrow> dheap" where
  "ListTailInsert l node h = ListAdd (prv h l) node h"

definition ListNodeInsert :: "nat \<Rightarrow> nat \<Rightarrow> dheap \<Rightarrow> dheap" where
  "ListNodeInsert l node h = ListAdd l node h"

definition ListDelete :: "nat \<Rightarrow> dheap \<Rightarrow> dheap" where
  "ListDelete node h =
     (let h1 = (if nxt h node \<noteq> 0 \<and> prv h node \<noteq> 0
                then let h' = set_prev (nxt h node) (prv h node) h
                     in set_next (prv h' node) (nxt h' node) h'
                else h)
      in set_prev node node (set_next node node h1))"

definition IsListEmpty :: "nat \<Rightarrow> dheap \<Rightarrow> bool" where
  "IsListEmpty l h \<longleftrightarrow> nxt h l = l"

definition ListDel :: "nat \<Rightarrow> nat \<Rightarrow> dheap \<Rightarrow> dheap" where
  "ListDel prevNode nextNode h = set_next prevNode nextNode (set_prev nextNode prevNode h)"

definition ListDelInit :: "nat \<Rightarrow> dheap \<Rightarrow> dheap" where
  "ListDelInit l h = ListInit l (ListDel (prv h l) (nxt h l) h)"

text \<open>
  The iteration macros. Pointers may form any graph, so the loops carry fuel and running out
  of it is \<^const>\<open>None\<close>. \<open>LIST_FOR_EACH\<close> collects the visited nodes;
  \<open>LIST_FOR_EACH_SAFE\<close> runs a body that deletes the nodes satisfying \<open>P\<close>, with the
  successor saved before the body as the macro does.
\<close>

fun LIST_FOR_EACH :: "nat \<Rightarrow> dheap \<Rightarrow> nat \<Rightarrow> nat \<Rightarrow> nat list option" where
  "LIST_FOR_EACH fuel h l item =
     (if item = l then Some []
      else case fuel of
        0 \<Rightarrow> None
      | Suc f \<Rightarrow> map_option ((#) item) (LIST_FOR_EACH f h l (nxt h item)))"

fun LIST_FOR_EACH_SAFE ::
  "(nat \<Rightarrow> bool) \<Rightarrow> nat \<Rightarrow> dheap \<Rightarrow> nat \<Rightarrow> nat \<Rightarrow> nat \<Rightarrow> dheap option" where
  "LIST_FOR_EACH_SAFE P fuel h l item nextItem =
     (if item = l then Some h
      else case fuel of
        0 \<Rightarrow> None
      | Suc f \<Rightarrow>
          let h' = (if P item then ListDelete item h else h)
          in LIST_FOR_EACH_SAFE P f h' l nextItem (nxt h' nextItem))"

declare LIST_FOR_EACH.simps [simp del] LIST_FOR_EACH_SAFE.simps [simp del]

section \<open>Which list a head node carries\<close>

fun lseg :: "dheap \<Rightarrow> nat \<Rightarrow> nat list \<Rightarrow> nat \<Rightarrow> bool" where
  "lseg h p [] q \<longleftrightarrow> nxt h p = q \<and> prv h q = p"
| "lseg h p (x # xs) q \<longleftrightarrow> nxt h p = x \<and> prv h x = p \<and> lseg h x xs q"

definition dlist :: "dheap \<Rightarrow> nat \<Rightarrow> nat list \<Rightarrow> bool" where
  "dlist h l xs \<longleftrightarrow> lseg h l xs l \<and> distinct (l # xs) \<and> 0 \<notin> set (l # xs)"

lemma lseg_append [simp]:
  "lseg h p (xs @ y # ys) q \<longleftrightarrow> lseg h p xs y \<and> lseg h y ys q"
  by (induction xs arbitrary: p) auto

lemma lseg_cong:
  assumes "\<forall>a \<in> insert p (set xs). nxt h' a = nxt h a"
    and "\<forall>a \<in> insert q (set xs). prv h' a = prv h a"
  shows "lseg h' p xs q \<longleftrightarrow> lseg h p xs q"
  using assms by (induction xs arbitrary: p) auto

lemma hd_snoc_in: "hd (xs @ [q]) \<in> insert q (set xs)"
  by (cases xs) auto

lemma lseg_nxt: "lseg h p xs q \<Longrightarrow> nxt h p = hd (xs @ [q])"
  by (cases xs) auto

lemma lseg_prv: "lseg h p xs q \<Longrightarrow> prv h q = last (p # xs)"
  by (induction xs arbitrary: p) auto

text \<open>A list is split at any position: the node before it is \<open>last (l # ys)\<close>.\<close>

lemma lseg_split:
  "lseg h l (ys @ zs) q \<Longrightarrow> lseg h (last (l # ys)) zs q"
  by (induction ys arbitrary: l) (auto split: if_splits)

lemma dlist_next: "dlist h l (ys @ zs) \<Longrightarrow> nxt h (last (l # ys)) = hd (zs @ [l])"
  unfolding dlist_def by (blast dest: lseg_split lseg_nxt)

lemma dlist_nxt_head: "dlist h l xs \<Longrightarrow> nxt h l = hd (xs @ [l])"
  using dlist_next [of h l "[]" xs] by simp

lemma dlist_prv_head: "dlist h l xs \<Longrightarrow> prv h l = last (l # xs)"
  unfolding dlist_def by (blast dest: lseg_prv)

lemma dlist_nxt_elem: "dlist h l (ys @ z # zs) \<Longrightarrow> nxt h z = hd (zs @ [l])"
  using dlist_next [of h l "ys @ [z]" zs] by simp

section \<open>The operations on the carried list\<close>

lemma dlist_init: "l \<noteq> 0 \<Longrightarrow> dlist (ListInit l h) l []"
  by (simp add: dlist_def ListInit_def)

lemma ListAdd_fields:
  "nxt (ListAdd l node h) = (nxt h)(node := nxt h l, l := node)"
  "l \<noteq> node \<Longrightarrow> prv (ListAdd l node h) = (prv h)(node := l, nxt h l := node)"
  by (auto simp: ListAdd_def Let_def)

lemma ListDelete_fields:
  assumes "nxt h node \<noteq> 0" "prv h node \<noteq> 0" "nxt h node \<noteq> node"
  shows "nxt (ListDelete node h) = (nxt h)(prv h node := nxt h node, node := node)"
    and "prv (ListDelete node h) = (prv h)(nxt h node := prv h node, node := node)"
  using assms by (auto simp: ListDelete_def Let_def)

text \<open>
  Insertion after the node at the end of \<open>ys\<close>: the one pointer fact behind
  \<^verbatim>\<open>ListAdd\<close>, \<^verbatim>\<open>ListTailInsert\<close> on the head and \<^verbatim>\<open>ListTailInsert\<close> before an entry.
\<close>

lemma lseg_insert:
  assumes seg: "lseg h l (ys @ zs) q"
    and dist: "distinct (l # ys @ zs)" "q \<notin> set (ys @ zs)"
    and fresh: "node \<notin> insert q (set (l # ys @ zs))"
  shows "lseg (ListAdd (last (l # ys)) node h) l (ys @ node # zs) q"
  using seg dist fresh
proof (induction ys arbitrary: l)
  case Nil
  then have ne: "l \<noteq> node" by auto
  show ?case
  proof (cases zs)
    case Nil
    with \<open>lseg h l ([] @ zs) q\<close> ne show ?thesis
      using Nil.prems by (auto simp: ListAdd_fields)
  next
    case (Cons z zs')
    with Nil.prems have z: "nxt h l = z" "lseg h z zs' q" by auto
    have "lseg (ListAdd l node h) z zs' q"
      using Nil.prems Cons z by (subst lseg_cong [where h = h]) (auto simp: ListAdd_fields ne)
    with Cons z ne Nil.prems show ?thesis by (auto simp: ListAdd_fields)
  qed
next
  case (Cons y ys)
  let ?p = "last (y # ys)"
  have p: "?p \<in> set (y # ys)" by (metis last_in_set list.distinct(1))
  from Cons have rest: "lseg (ListAdd ?p node h) y (ys @ node # zs) q"
    by (simp del: last.simps)
  from Cons.prems have l: "l \<noteq> ?p" "l \<noteq> node" "?p \<noteq> node" using p by auto
  have "nxt h ?p = hd (zs @ [q])"
    using Cons.prems(1) by (metis append_Cons lseg.simps(2) lseg_nxt lseg_split)
  then have "nxt h ?p \<noteq> y" using Cons.prems by (cases zs) auto
  with l Cons.prems rest show ?case by (simp add: ListAdd_fields)
qed

lemma dlist_insert:
  assumes "dlist h l (ys @ zs)" "node \<notin> set (l # ys @ zs)" "node \<noteq> 0"
  shows "dlist (ListAdd (last (l # ys)) node h) l (ys @ node # zs)"
  using assms lseg_insert [of h l ys zs l node] by (auto simp: dlist_def)

lemma dlist_add:
  "dlist h l xs \<Longrightarrow> node \<notin> set (l # xs) \<Longrightarrow> node \<noteq> 0 \<Longrightarrow> dlist (ListAdd l node h) l (node # xs)"
  using dlist_insert [of h l "[]" xs node] by simp

lemma dlist_tail_insert:
  assumes "dlist h l xs" "node \<notin> set (l # xs)" "node \<noteq> 0"
  shows "dlist (ListTailInsert l node h) l (xs @ [node])"
  using dlist_insert [of h l xs "[]" node] assms by (simp add: ListTailInsert_def dlist_prv_head)

lemma dlist_insert_before:
  assumes "dlist h l (ys @ z # zs)" "node \<notin> set (l # ys @ z # zs)" "node \<noteq> 0"
  shows "dlist (ListTailInsert z node h) l (ys @ node # z # zs)"
proof -
  from assms(1) have "prv h z = last (l # ys)"
    by (metis dlist_def lseg_append lseg_prv)
  with dlist_insert [OF assms] show ?thesis by (simp add: ListTailInsert_def)
qed


text \<open>Deletion relinks the two neighbours and leaves the node linked to itself.\<close>

lemma lseg_delete:
  assumes seg: "lseg h l (ys @ node # zs) q"
    and dist: "distinct (l # ys @ node # zs)" "q \<notin> set (ys @ node # zs)"
    and nz: "0 \<notin> insert q (set (l # ys @ node # zs))"
  shows "lseg (ListDelete node h) l (ys @ zs) q"
  using seg dist nz
proof (induction ys arbitrary: l)
  case Nil
  then have n: "nxt h node = hd (zs @ [q])" "prv h node = l" "l \<noteq> node" "q \<noteq> node"
    by (auto dest: lseg_nxt)
  have "nxt h node \<in> insert q (set zs)" unfolding n(1) by (rule hd_snoc_in)
  with Nil.prems n(2-4) have ok: "nxt h node \<noteq> 0" "prv h node \<noteq> 0" "nxt h node \<noteq> node"
    by (auto intro!: gr0I)
  note f = ListDelete_fields [OF ok]
  show ?case
  proof (cases zs)
    case Nil
    then show ?thesis using n f by simp
  next
    case (Cons z zs')
    with Nil.prems have z: "lseg h z zs' q" by auto
    have "lseg (ListDelete node h) z zs' q"
      using Nil.prems Cons z n by (subst lseg_cong [where h = h]) (auto simp: f)
    with Cons n f Nil.prems show ?thesis by auto
  qed
next
  case (Cons y ys)
  have prv: "prv h node = last (y # ys)" using Cons.prems(1)
    by (metis append_Cons lseg.simps(2) lseg_append lseg_prv)
  have nxt: "nxt h node = hd (zs @ [q])" using Cons.prems(1)
    by (metis append_Cons lseg_append lseg_nxt)
  have p: "prv h node \<in> set (y # ys)" unfolding prv by (metis last_in_set list.distinct(1))
  have n: "nxt h node \<in> insert q (set zs)" unfolding nxt by (rule hd_snoc_in)
  have ok: "nxt h node \<noteq> 0" "prv h node \<noteq> 0" "nxt h node \<noteq> node" "nxt h node \<noteq> y"
    using Cons.prems(2-4) p n by (auto intro!: gr0I)
  note f = ListDelete_fields [OF ok(1-3)]
  have "lseg (ListDelete node h) y (ys @ zs) q" using Cons by simp
  moreover have "l \<noteq> prv h node" "l \<noteq> node" "y \<noteq> node" using Cons.prems p by auto
  ultimately show ?case using Cons.prems ok by (simp add: f)
qed

lemma dlist_delete:
  "dlist h l (ys @ node # zs) \<Longrightarrow> dlist (ListDelete node h) l (ys @ zs)"
  using lseg_delete [of h l ys node zs l] by (auto simp: dlist_def)

lemma ListDelete_detached: "nxt (ListDelete node h) node = node" "prv (ListDelete node h) node = node"
  by (simp_all add: ListDelete_def Let_def)

lemma ListDelInit_eq_ListDelete:
  "nxt h node \<noteq> 0 \<Longrightarrow> prv h node \<noteq> 0 \<Longrightarrow> nxt h node \<noteq> node \<Longrightarrow> ListDelInit node h = ListDelete node h"
  by (auto simp: ListDelInit_def ListDelete_def ListInit_def ListDel_def Let_def
      set_next_def set_prev_def)

lemma dlist_IsListEmpty: "dlist h l xs \<Longrightarrow> IsListEmpty l h \<longleftrightarrow> xs = []"
  by (cases xs) (auto simp: IsListEmpty_def dlist_def)

text \<open>A node of another list is not touched: the frame that lets one entry sit in one list.\<close>

lemma dlist_frame_delete:
  assumes "dlist h l (ys @ node # zs)" "dlist h m ws" "set (l # ys @ node # zs) \<inter> set (m # ws) = {}"
  shows "dlist (ListDelete node h) m ws"
proof -
  from assms(1) have n: "nxt h node = hd (zs @ [l])" and p: "prv h node = last (l # ys)"
    by (auto simp: dlist_nxt_elem dlist_def dest: lseg_prv)
  have "nxt h node \<in> insert l (set zs)" unfolding n by (rule hd_snoc_in)
  moreover have "prv h node \<in> set (l # ys)" unfolding p by (metis last_in_set list.distinct(1))
  moreover have "nxt h node \<noteq> 0" "prv h node \<noteq> 0" "nxt h node \<noteq> node"
    using assms(1) calculation by (auto simp: dlist_def intro!: gr0I)
  ultimately have "lseg (ListDelete node h) m ws m \<longleftrightarrow> lseg h m ws m"
    using assms(3) by (intro lseg_cong) (auto simp: ListDelete_fields)
  with assms(2) show ?thesis by (simp add: dlist_def)
qed

section \<open>Traversal\<close>

lemma LIST_FOR_EACH_seg:
  "lseg h p xs l \<Longrightarrow> l \<notin> set xs \<Longrightarrow> length xs \<le> fuel
   \<Longrightarrow> LIST_FOR_EACH fuel h l (nxt h p) = Some xs"
proof (induction xs arbitrary: p fuel)
  case Nil
  then show ?case by (simp add: LIST_FOR_EACH.simps)
next
  case (Cons x xs)
  then obtain f where "fuel = Suc f" by (cases fuel) auto
  with Cons show ?case by (subst LIST_FOR_EACH.simps) auto
qed

text \<open>The loop is at the entry after \<open>ys\<close>; the entries of \<open>zs\<close> are still to be visited.\<close>

lemma LIST_FOR_EACH_SAFE_from:
  "dlist h l (ys @ zs) \<Longrightarrow> length zs \<le> fuel \<Longrightarrow> item = hd (zs @ [l]) \<Longrightarrow> nextItem = nxt h item
   \<Longrightarrow> \<exists>h'. LIST_FOR_EACH_SAFE P fuel h l item nextItem = Some h'
          \<and> dlist h' l (ys @ filter (\<lambda>x. \<not> P x) zs)"
proof (induction zs arbitrary: ys fuel h item nextItem)
  case Nil
  then show ?case by (simp add: LIST_FOR_EACH_SAFE.simps)
next
  case (Cons z zs)
  then obtain f where f: "fuel = Suc f" by (cases fuel) auto
  from Cons.prems have item: "item = z" "z \<noteq> l" by (auto simp: dlist_def)
  from Cons.prems have nextItem: "nextItem = hd (zs @ [l])"
    using dlist_nxt_elem item by simp
  define h' where "h' = (if P z then ListDelete z h else h)"
  define ys' where "ys' = (if P z then ys else ys @ [z])"
  have "dlist h' l (ys' @ zs)"
    using Cons.prems(1) by (simp add: h'_def ys'_def dlist_delete)
  from Cons.IH [OF this _ nextItem refl, of f] Cons.prems(2) f
  show ?case
    using item by (subst LIST_FOR_EACH_SAFE.simps) (auto simp: h'_def ys'_def Let_def)
qed

section \<open>The list interface\<close>

locale intrusive_list =
  fixes rep :: "'h \<Rightarrow> 'n \<Rightarrow> 'n list \<Rightarrow> bool"
    and valid :: "'n \<Rightarrow> bool"
    and init :: "'n \<Rightarrow> 'h \<Rightarrow> 'h"
    and add :: "'n \<Rightarrow> 'n \<Rightarrow> 'h \<Rightarrow> 'h"
    and tail_insert :: "'n \<Rightarrow> 'n \<Rightarrow> 'h \<Rightarrow> 'h"
    and delete :: "'n \<Rightarrow> 'h \<Rightarrow> 'h"
    and is_empty :: "'n \<Rightarrow> 'h \<Rightarrow> bool"
  assumes init_rep: "valid l \<Longrightarrow> rep (init l h) l []"
    and add_rep: "rep h l xs \<Longrightarrow> valid n \<Longrightarrow> n \<notin> set (l # xs) \<Longrightarrow> rep (add l n h) l (n # xs)"
    and tail_rep: "rep h l xs \<Longrightarrow> valid n \<Longrightarrow> n \<notin> set (l # xs) \<Longrightarrow> rep (tail_insert l n h) l (xs @ [n])"
    and delete_rep: "rep h l (ys @ n # zs) \<Longrightarrow> rep (delete n h) l (ys @ zs)"
    and empty_rep: "rep h l xs \<Longrightarrow> is_empty l h \<longleftrightarrow> xs = []"
begin

lemma tail_inserts:
  "rep h l xs \<Longrightarrow> distinct ns \<Longrightarrow> set ns \<inter> set (l # xs) = {} \<Longrightarrow> \<forall>n \<in> set ns. valid n
   \<Longrightarrow> rep (fold (tail_insert l) ns h) l (xs @ ns)"
proof (induction ns arbitrary: h xs)
  case (Cons n ns)
  then have "rep (tail_insert l n h) l (xs @ [n])" by (auto intro: tail_rep)
  from Cons.IH [OF this] Cons.prems show ?case by auto
qed simp

lemma adds:
  "rep h l xs \<Longrightarrow> distinct ns \<Longrightarrow> set ns \<inter> set (l # xs) = {} \<Longrightarrow> \<forall>n \<in> set ns. valid n
   \<Longrightarrow> rep (fold (add l) ns h) l (rev ns @ xs)"
proof (induction ns arbitrary: h xs)
  case (Cons n ns)
  then have "rep (add l n h) l (n # xs)" by (auto intro: add_rep)
  from Cons.IH [OF this] Cons.prems show ?case by auto
qed simp

lemma deletes_front:
  "rep h l (ns @ xs) \<Longrightarrow> rep (fold delete ns h) l xs"
proof (induction ns arbitrary: h)
  case (Cons n ns)
  then show ?case using delete_rep [of h l "[]" n "ns @ xs"] by simp
qed simp

text \<open>First in, first out: what tail insertion queued, deletion from the front drains.\<close>

lemma queue_drained:
  assumes "valid l" "distinct (l # ns @ ms)" "\<forall>n \<in> set (ns @ ms). valid n"
  shows "rep (fold delete ns (fold (tail_insert l) (ns @ ms) (init l h))) l ms"
  using tail_inserts [OF init_rep, of l "ns @ ms" h] assms by (intro deletes_front) auto

lemma drained_empty:
  assumes "valid l" "distinct (l # ns)" "\<forall>n \<in> set ns. valid n"
  shows "is_empty l (fold delete ns (fold (tail_insert l) ns (init l h)))"
  using queue_drained [of l ns "[]" h] assms by (simp add: empty_rep)

end

interpretation clist: intrusive_list dlist "\<lambda>n. n \<noteq> 0" ListInit ListAdd ListTailInsert
  ListDelete IsListEmpty
  by unfold_locales
    (auto simp: dlist_init dlist_add dlist_tail_insert dlist_delete dlist_IsListEmpty)


section \<open>Properties\<close>

text \<open>A heap with the list head 1 and the entries 2 and 3, built by the operations.\<close>

definition heap23 :: dheap where
  "heap23 = ListTailInsert 1 3 (ListTailInsert 1 2 (ListInit 1 \<lparr>nxt = \<lambda>_. 0, prv = \<lambda>_. 0\<rparr>))"

lemma heap23_list: "dlist heap23 1 [2, 3]"
  using clist.tail_inserts [OF clist.init_rep, of 1 "[2, 3]"] by (simp add: heap23_def)

text \<open>On a head that carries a list of entries, the pointer operations do to the list what
  their callers rely on: \<open>ListAdd\<close> puts a new node first, \<open>ListTailInsert\<close> on the head puts it
  last and on an entry before that entry, and \<open>ListDelete\<close> removes exactly its node and leaves
  the node linked to itself.\<close>

theorem list_operations:
  assumes "dlist h l (ys @ z # zs)" "node \<notin> set (l # ys @ z # zs)" "node \<noteq> 0"
  shows "dlist (ListAdd l node h) l (node # ys @ z # zs)
    \<and> dlist (ListTailInsert l node h) l (ys @ z # zs @ [node])
    \<and> dlist (ListTailInsert z node h) l (ys @ node # z # zs)
    \<and> dlist (ListDelete z h) l (ys @ zs)
    \<and> nxt (ListDelete z h) z = z \<and> prv (ListDelete z h) z = z"
  using dlist_add [OF assms] dlist_tail_insert [OF assms] dlist_insert_before [OF assms]
    dlist_delete [OF assms(1)] by (simp add: ListDelete_detached)

theorem list_operations_witness:
  "dlist (ListAdd 1 4 heap23) 1 [4, 2, 3] \<and> dlist (ListTailInsert 1 4 heap23) 1 [2, 3, 4]
    \<and> dlist (ListTailInsert 3 4 heap23) 1 [2, 4, 3] \<and> dlist (ListDelete 3 heap23) 1 [2]"
  using list_operations [of heap23 1 "[2]" 3 "[]" 4] heap23_list by simp

text \<open>C25: The loops of the list end. With as much fuel as the list has entries, \<open>LIST_FOR_EACH\<close>
  visits all of them in order, and a \<open>LIST_FOR_EACH_SAFE\<close> loop whose body deletes the entries
  that satisfy \<open>P\<close> leaves exactly the others, in their order.\<close>

theorem list_loops:
  assumes "dlist h l xs" "length xs \<le> fuel"
  shows "LIST_FOR_EACH fuel h l (nxt h l) = Some xs
    \<and> (\<exists>h'. LIST_FOR_EACH_SAFE P fuel h l (nxt h l) (nxt h (nxt h l)) = Some h'
         \<and> dlist h' l (filter (\<lambda>x. \<not> P x) xs))"
  using LIST_FOR_EACH_seg [of h l xs l fuel] assms
    LIST_FOR_EACH_SAFE_from [of h l "[]" xs fuel _ _ P] dlist_nxt_head [OF assms(1)]
  by (auto simp: dlist_def)

theorem list_loops_witness:
  "LIST_FOR_EACH 2 heap23 1 (nxt heap23 1) = Some [2, 3]
    \<and> (\<exists>h'. LIST_FOR_EACH_SAFE even 2 heap23 1 (nxt heap23 1) (nxt heap23 (nxt heap23 1)) = Some h'
         \<and> dlist h' 1 (filter (\<lambda>x. \<not> even x) [2, 3]))"
  using list_loops [OF heap23_list, of 2 even] by simp

end
