(* ===== verification/Seq_Verification.thy ===== *)
theory Seq_Verification
  imports Softbus_Prelude
begin

text \<open>
  The duplicate filter on packet sequence numbers of
  \<^verbatim>\<open>core/common/security/sequence_verification\<close>. Sequence numbers are \<^verbatim>\<open>int32_t\<close> and are compared
  as such (\<open>sint\<close> of a 32-bit word); differences wrap, as the code intends by its
  "consider flip" branches. A shift of the 64-bit bitmap by 64 or more is undefined in C and is
  the outcome \<^const>\<open>None\<close>.

  The sign analysis of the code is proved equal to a filter on the distance of a number from
  the lower end of the window, and the guarantees (window width, no false rejection, rejection
  of replays) as well as the limits of the filter are stated from there.
\<close>

unbundle bit_operations_syntax

section \<open>State and operations\<close>

record SeqVerifyInfo =
  maxSeq :: "32 word"
  minSeq :: "32 word"
  recvBitmap :: "64 word"

type_synonym seq_result = "(bool \<times> SeqVerifyInfo) option"

abbreviation (input) MAX_SEQ_BIAS :: int where "MAX_SEQ_BIAS \<equiv> 60"

definition IsDifferentSign :: "32 word \<Rightarrow> 32 word \<Rightarrow> bool" where
  "IsDifferentSign seqA seqB =
     (if (0 \<le> sint seqA \<and> 0 \<le> sint seqB) \<or> (sint seqA < 0 \<and> sint seqB < 0) then False else True)"

definition IsPassDuplicateCheck :: "SeqVerifyInfo \<Rightarrow> 32 word \<Rightarrow> seq_result" where
  "IsPassDuplicateCheck s recvSeq =
     (let offset = maxSeq s - recvSeq in
      if 64 \<le> offset then None
      else
        let isRepeat = ucast (recvBitmap s AND push_bit (unat offset) 1) :: 32 word in
        if isRepeat \<noteq> 0 then Some (False, s)
        else Some (True, s\<lparr>recvBitmap := recvBitmap s OR push_bit (unat offset) 1\<rparr>))"

definition IsPassOverMaxCheck :: "SeqVerifyInfo \<Rightarrow> 32 word \<Rightarrow> seq_result" where
  "IsPassOverMaxCheck s recvSeq =
     (if sint (recvSeq - maxSeq s) < 0 then Some (False, s)
      else if sint (recvSeq - minSeq s) \<ge> MAX_SEQ_BIAS then Some (False, s)
      else
        let seqOffset = recvSeq - maxSeq s + 1 in
        if 64 \<le> seqOffset then None
        else Some (True, s\<lparr>maxSeq := recvSeq + 1,
               recvBitmap := push_bit (unat seqOffset) (recvBitmap s) OR push_bit 1 1\<rparr>))"

definition IsPassAllRangeCheck :: "SeqVerifyInfo \<Rightarrow> 32 word \<Rightarrow> seq_result" where
  "IsPassAllRangeCheck s recvSeq =
     (if recvSeq = minSeq s then Some (True, s\<lparr>minSeq := recvSeq + 1\<rparr>)
      else if sint recvSeq > sint (minSeq s) then
        (if sint recvSeq < sint (maxSeq s) then IsPassDuplicateCheck s recvSeq
         else IsPassOverMaxCheck s recvSeq)
      else Some (False, s))"

definition IsPassNormalCheck :: "SeqVerifyInfo \<Rightarrow> 32 word \<Rightarrow> seq_result" where
  "IsPassNormalCheck s recvSeq =
     (if recvSeq = minSeq s then
        Some (True, s\<lparr>minSeq := recvSeq + 1, maxSeq := recvSeq + 1\<rparr>)
      else if \<not> IsDifferentSign recvSeq (minSeq s) then
        (if sint recvSeq > sint (maxSeq s) then IsPassOverMaxCheck s recvSeq
         else Some (False, s))
      else IsPassOverMaxCheck s recvSeq)"

definition IsPassNoflipDisorderCheck :: "SeqVerifyInfo \<Rightarrow> 32 word \<Rightarrow> seq_result" where
  "IsPassNoflipDisorderCheck s recvSeq =
     (if sint (minSeq s) \<ge> 0 then
        (if sint recvSeq \<ge> 0 then IsPassAllRangeCheck s recvSeq
         else IsPassOverMaxCheck s recvSeq)
      else if sint (maxSeq s) < 0 then
        (if sint recvSeq < 0 then IsPassAllRangeCheck s recvSeq
         else IsPassOverMaxCheck s recvSeq)
      else Some (False, s))"

definition IsPassFlipPositiveCheck :: "SeqVerifyInfo \<Rightarrow> 32 word \<Rightarrow> seq_result" where
  "IsPassFlipPositiveCheck s recvSeq =
     (if sint recvSeq \<ge> 0 then
        (if sint recvSeq < sint (maxSeq s) then IsPassDuplicateCheck s recvSeq
         else IsPassOverMaxCheck s recvSeq)
      else if sint recvSeq < 0 then
        (if recvSeq = minSeq s then Some (True, s\<lparr>minSeq := recvSeq + 1\<rparr>)
         else if sint recvSeq > sint (minSeq s) then IsPassDuplicateCheck s recvSeq
         else Some (False, s))
      else Some (False, s))"

definition IsPassFlipNegativeCheck :: "SeqVerifyInfo \<Rightarrow> 32 word \<Rightarrow> seq_result" where
  "IsPassFlipNegativeCheck s recvSeq =
     (if sint recvSeq \<ge> 0 then
        (if recvSeq = minSeq s then Some (True, s\<lparr>minSeq := recvSeq + 1\<rparr>)
         else if sint recvSeq > sint (minSeq s) then IsPassDuplicateCheck s recvSeq
         else Some (False, s))
      else if sint recvSeq < 0 then
        (if sint recvSeq < sint (maxSeq s) then IsPassDuplicateCheck s recvSeq
         else IsPassOverMaxCheck s recvSeq)
      else Some (False, s))"

text \<open>
  \<open>SeqCheck\<close> is the body of \<^verbatim>\<open>IsPassSeqCheck\<close> on a valid pointer, \<open>IsPassSeqCheck\<close> adds
  the null check.
\<close>

definition SeqCheck :: "SeqVerifyInfo \<Rightarrow> 32 word \<Rightarrow> seq_result" where
  "SeqCheck s recvSeq =
     (let isDifferentSign = IsDifferentSign (minSeq s) (maxSeq s) in
      if minSeq s = maxSeq s then IsPassNormalCheck s recvSeq
      else if sint (minSeq s) < sint (maxSeq s) \<and> \<not> isDifferentSign
        then IsPassNoflipDisorderCheck s recvSeq
      else if sint (minSeq s) > sint (maxSeq s) \<and> isDifferentSign
        then IsPassFlipNegativeCheck s recvSeq
      else if sint (minSeq s) < sint (maxSeq s) \<and> isDifferentSign
        then IsPassFlipPositiveCheck s recvSeq
      else Some (False, s))"

definition IsPassSeqCheck ::
  "SeqVerifyInfo option \<Rightarrow> 32 word \<Rightarrow> (bool \<times> SeqVerifyInfo option) option" where
  "IsPassSeqCheck p recvSeq =
     (case p of
        None \<Rightarrow> Some (False, None)
      | Some s \<Rightarrow> map_option (map_prod id Some) (SeqCheck s recvSeq))"

section \<open>The filter as a window of distances\<close>

text \<open>
  The window is \<open>width s\<close> numbers long. A number at distance \<open>d\<close> from its lower end is new
  (\<open>d = 0\<close>), inside (\<open>d < width s\<close>), ahead, or out of reach. The bitmap is consulted for
  the numbers inside only, and the test sees its lower 32 bits.
\<close>

definition width :: "SeqVerifyInfo \<Rightarrow> nat" where
  "width s = unat (maxSeq s - minSeq s)"

definition seq_window :: "SeqVerifyInfo \<Rightarrow> 32 word \<Rightarrow> bool \<times> SeqVerifyInfo" where
  "seq_window s r =
     (let d = unat (r - minSeq s); w = width s in
      if d = 0 then
        (True, if w = 0 then s\<lparr>minSeq := r + 1, maxSeq := r + 1\<rparr> else s\<lparr>minSeq := r + 1\<rparr>)
      else if d < w then
        (if w - d < 32 \<and> bit (recvBitmap s) (w - d) then (False, s)
         else (True, s\<lparr>recvBitmap := recvBitmap s OR push_bit (w - d) 1\<rparr>))
      else if d < 60 then
        (True, s\<lparr>maxSeq := r + 1,
                 recvBitmap := push_bit (d - w + 1) (recvBitmap s) OR push_bit 1 1\<rparr>)
      else (False, s))"

text \<open>
  The 60 distances from \<open>2 ^ 31\<close> on are those at which \<^verbatim>\<open>recvSeq - minSeq\<close> may overflow
  while \<^verbatim>\<open>recvSeq - maxSeq\<close> does not.
\<close>

definition seq_near :: "SeqVerifyInfo \<Rightarrow> 32 word \<Rightarrow> bool" where
  "seq_near s r \<longleftrightarrow> \<not> (2 ^ 31 \<le> uint (r - minSeq s) \<and> uint (r - minSeq s) < 2 ^ 31 + 60)"

lemma seq_near_unat:
  "seq_near s r \<longleftrightarrow> \<not> (2 ^ 31 \<le> unat (r - minSeq s) \<and> unat (r - minSeq s) < 2 ^ 31 + 60)"
proof -
  obtain n where n: "unat (r - minSeq s) = n" "uint (r - minSeq s) = int n" by simp
  show ?thesis unfolding seq_near_def n by auto
qed

lemma sint_32: "sint (x :: 32 word) = (if uint x < 2 ^ 31 then uint x else uint x - 2 ^ 32)"
proof -
  have b: "- (2 ^ 31) \<le> uint x" by (rule order_trans [OF _ uint_ge_0]) simp
  have c: "uint x < 2 ^ 32" using uint_lt2p [of x] by simp
  show ?thesis
  proof (cases "uint x < 2 ^ 31")
    case True
    then have "signed_take_bit 31 (uint x) = uint x"
      using True b by (intro signed_take_bit_int_eq_self) auto
    with True show ?thesis by (simp add: sint_uint)
  next
    case False
    have "(uint x + 2147483648) mod 4294967296 = (uint x - 2147483648 + 4294967296) mod 4294967296"
      by (simp add: add.commute)
    also have "\<dots> = (uint x - 2147483648) mod 4294967296" by (rule mod_add_self2)
    also have "\<dots> = uint x - 2147483648" using c False by (intro mod_pos_pos_trivial) auto
    finally have "(uint x + 2147483648) mod 4294967296 = uint x - 2147483648" .
    with False show ?thesis
      by (simp add: sint_uint signed_take_bit_eq_take_bit_shift take_bit_eq_mod)
  qed
qed

lemma unat_lt_32: "unat (x :: 32 word) < 2 ^ 32"
  using unsigned_less [where ?'a = nat, of x] by simp

lemma sint_neg_32: "sint (x :: 32 word) < 0 \<longleftrightarrow> 2 ^ 31 \<le> unat x"
proof -
  obtain n where n: "unat x = n" "uint x = int n" by simp
  have "n < 2 ^ 32" using unat_lt_32 [of x] n by simp
  then show ?thesis unfolding sint_32 n by auto
qed

lemma sint_bias_32: "60 \<le> sint (x :: 32 word) \<longleftrightarrow> 60 \<le> unat x \<and> unat x < 2 ^ 31"
proof -
  obtain n where n: "unat x = n" "uint x = int n" by simp
  have "n < 2 ^ 32" using unat_lt_32 [of x] n by simp
  then show ?thesis unfolding sint_32 n by auto
qed

lemma uint_diff_32:
  "uint (x - y :: 32 word) =
     (if uint y \<le> uint x then uint x - uint y else uint x - uint y + 2 ^ 32)"
  by (simp add: uint_sub_if' word_le_def)

lemma unat_diff_32:
  "unat (x - y :: 32 word) =
     nat (if uint y \<le> uint x then uint x - uint y else uint x - uint y + 2 ^ 32)"
  by (simp only: nat_uint_eq [symmetric] uint_diff_32)

lemma eq_word_uint: "x = y \<longleftrightarrow> uint x = uint y"
  by (simp add: word_uint_eq_iff)

lemma unat_neg_32:
  assumes "0 < unat x"
  shows "unat (0 - x :: 32 word) = 2 ^ 32 - unat x"
proof -
  obtain n where n: "unat x = n" "uint x = int n" by simp
  show ?thesis using assms unfolding unat_diff_32 n by (simp add: nat_diff_distrib)
qed

lemma duplicate_bit:
  assumes "unat (maxSeq s - r) = k" "k < 64"
  shows "IsPassDuplicateCheck s r =
     (if k < 32 \<and> bit (recvBitmap s) k then Some (False, s)
      else Some (True, s\<lparr>recvBitmap := recvBitmap s OR push_bit k 1\<rparr>))"
proof -
  have "(ucast (recvBitmap s AND push_bit k 1) :: 32 word) \<noteq> 0
        \<longleftrightarrow> k < 32 \<and> bit (recvBitmap s) k"
    unfolding bit_eq_iff [of _ 0] using assms(2) by (auto simp: bit_simps)
  with assms show ?thesis by (simp add: IsPassDuplicateCheck_def Let_def word_le_nat_alt)
qed


lemma over_max_window:
  assumes w: "width s \<le> 60" and d: "d = unat (r - minSeq s)"
    and ahead: "width s \<le> d"
  shows "IsPassOverMaxCheck s r =
     (if d < 60 then
        Some (True, s\<lparr>maxSeq := r + 1,
                      recvBitmap := push_bit (d - width s + 1) (recvBitmap s) OR push_bit 1 1\<rparr>)
      else if 2 ^ 31 \<le> d \<and> d < 2 ^ 31 + width s then None
      else Some (False, s))"
proof -
  let ?a = "r - minSeq s" and ?b = "maxSeq s - minSeq s"
  have eq: "r - maxSeq s = ?a - ?b" by simp
  have le: "?b \<le> ?a" using ahead d by (simp add: width_def word_le_nat_alt)
  have bnd: "unat ?a < 2 ^ 32" by (rule unat_lt_32)
  have off: "unat (r - maxSeq s) = d - width s"
    unfolding eq unat_sub [OF le] d width_def ..
  have step: "unat (r - maxSeq s + 1) = d - width s + 1" if "d - width s < 2 ^ 31"
    using off that by (simp add: unat_word_ariths)
  show ?thesis
    using w ahead bnd d step
    by (auto simp: IsPassOverMaxCheck_def Let_def word_le_nat_alt sint_neg_32 sint_bias_32 off)
qed


lemma over_max_ahead:
  assumes "width s \<le> 60" "seq_near s r" "width s \<le> unat (r - minSeq s)" "r \<noteq> minSeq s"
  shows "IsPassOverMaxCheck s r = Some (seq_window s r)"
  using assms over_max_window [OF assms(1) refl assms(3)]
  by (auto simp: seq_window_def seq_near_unat Let_def unat_eq_0)

lemma duplicate_inside:
  assumes "width s \<le> 60" "unat (r - minSeq s) < width s" "r \<noteq> minSeq s"
  shows "IsPassDuplicateCheck s r = Some (seq_window s r)"
proof -
  have "maxSeq s - r = (maxSeq s - minSeq s) - (r - minSeq s)" by simp
  moreover have "r - minSeq s \<le> maxSeq s - minSeq s"
    using assms(2) by (simp add: width_def word_le_nat_alt)
  ultimately have "unat (maxSeq s - r) = width s - unat (r - minSeq s)"
    by (metis unat_sub width_def)
  from duplicate_bit [OF this] assms show ?thesis
    by (auto simp: seq_window_def Let_def unat_eq_0)
qed

lemma rejected_far:
  "60 \<le> unat (r - minSeq s) \<Longrightarrow> width s \<le> 60 \<Longrightarrow> seq_window s r = (False, s)"
  by (auto simp: seq_window_def Let_def)

lemma accepted_min:
  "minSeq s \<noteq> maxSeq s \<Longrightarrow> seq_window s (minSeq s) = (True, s\<lparr>minSeq := minSeq s + 1\<rparr>)"
  by (auto simp: seq_window_def width_def unat_eq_0)

text \<open>
  Over the unsigned values of the three numbers every comparison of the code is linear
  arithmetic.
\<close>

lemma seq_arith:
  obtains a b c :: int
  where "uint (minSeq s) = a" "uint (maxSeq s) = b" "uint r = c"
    "0 \<le> a" "a < 2 ^ 32" "0 \<le> b" "b < 2 ^ 32" "0 \<le> c" "c < 2 ^ 32"
    "sint (minSeq s) = (if a < 2 ^ 31 then a else a - 2 ^ 32)"
    "sint (maxSeq s) = (if b < 2 ^ 31 then b else b - 2 ^ 32)"
    "sint r = (if c < 2 ^ 31 then c else c - 2 ^ 32)"
    "unat (r - minSeq s) = nat (if a \<le> c then c - a else c - a + 2 ^ 32)"
    "width s = nat (if a \<le> b then b - a else b - a + 2 ^ 32)"
    "r = minSeq s \<longleftrightarrow> c = a" "minSeq s = maxSeq s \<longleftrightarrow> a = b"
proof
  have "uint x < 2 ^ 32" for x :: "32 word" using uint_lt2p [of x] by simp
  then show "uint (minSeq s) < 2 ^ 32" "uint (maxSeq s) < 2 ^ 32" "uint r < 2 ^ 32" by blast+
qed (rule refl uint_ge_0 sint_32 unat_diff_32 word_uint_eq_iff
      | simp only: width_def unat_diff_32)+

lemma SeqCheck_window:
  assumes w: "width s \<le> 60" and near: "seq_near s r"
  shows "SeqCheck s r = Some (seq_window s r)"
proof -
  obtain a b c where u:
    "0 \<le> a" "a < 2 ^ 32" "0 \<le> b" "b < 2 ^ 32" "0 \<le> c" "c < 2 ^ 32"
    "sint (minSeq s) = (if a < 2 ^ 31 then a else a - 2 ^ 32)"
    "sint (maxSeq s) = (if b < 2 ^ 31 then b else b - 2 ^ 32)"
    "sint r = (if c < 2 ^ 31 then c else c - 2 ^ 32)"
    "unat (r - minSeq s) = nat (if a \<le> c then c - a else c - a + 2 ^ 32)"
    "width s = nat (if a \<le> b then b - a else b - a + 2 ^ 32)"
    "r = minSeq s \<longleftrightarrow> c = a" "minSeq s = maxSeq s \<longleftrightarrow> a = b"
    by (rule seq_arith [of s r])
  note defs = SeqCheck_def IsPassNormalCheck_def IsPassNoflipDisorderCheck_def
    IsPassFlipPositiveCheck_def IsPassFlipNegativeCheck_def IsPassAllRangeCheck_def
    IsDifferentSign_def Let_def
  consider (new) "r = minSeq s" | (inside) "r \<noteq> minSeq s" "unat (r - minSeq s) < width s"
    | (ahead) "r \<noteq> minSeq s" "width s \<le> unat (r - minSeq s)" by linarith
  then show ?thesis
  proof cases
    case new
    show ?thesis
    proof (cases "minSeq s = maxSeq s")
      case True
      then show ?thesis by (simp add: new defs seq_window_def width_def)
    next
      case False
      have "SeqCheck s r = Some (True, s\<lparr>minSeq := r + 1\<rparr>)"
        using new False w u(1-6) unfolding defs u(7-13) by (auto split: if_splits)
      then show ?thesis by (simp add: new accepted_min [OF False])
    qed
  next
    case inside
    note d = duplicate_inside [OF w inside(2,1)]
    have "SeqCheck s r = IsPassDuplicateCheck s r"
      using inside w u(1-6) unfolding defs u(7-13) by (auto split: if_splits)
    then show ?thesis by (simp add: d)
  next
    case ahead
    note o = over_max_ahead [OF w near ahead(2,1)]
    have "SeqCheck s r = IsPassOverMaxCheck s r \<or>
      SeqCheck s r = Some (False, s) \<and> 60 \<le> unat (r - minSeq s)"
      using ahead w u(1-6) unfolding defs u(7-13) by (auto split: if_splits)
    then show ?thesis using o rejected_far [OF _ w] by auto
  qed
qed


section \<open>Runs of the filter\<close>

definition fresh :: "32 word \<Rightarrow> SeqVerifyInfo" where
  "fresh q = \<lparr>maxSeq = q, minSeq = q, recvBitmap = 0\<rparr>"

text \<open>\<open>seq_run\<close> checks numbers one after the other and returns those that passed.\<close>

fun seq_run :: "SeqVerifyInfo \<Rightarrow> 32 word list \<Rightarrow> (32 word list \<times> SeqVerifyInfo) option" where
  "seq_run s [] = Some ([], s)"
| "seq_run s (r # rs) =
     (case SeqCheck s r of
        None \<Rightarrow> None
      | Some (pass, s') \<Rightarrow>
          (case seq_run s' rs of
             None \<Rightarrow> None
           | Some (acc, s'') \<Rightarrow> Some (if pass then r # acc else acc, s'')))"

fun seq_run_near :: "SeqVerifyInfo \<Rightarrow> 32 word list \<Rightarrow> bool" where
  "seq_run_near s [] \<longleftrightarrow> True"
| "seq_run_near s (r # rs) \<longleftrightarrow> seq_near s r \<and>
     (case SeqCheck s r of None \<Rightarrow> True | Some (pass, s') \<Rightarrow> seq_run_near s' rs)"

text \<open>One step of the filter, as the three ways in which it may pass a number.\<close>

lemma bit_mark: "bit (b OR push_bit k 1 :: 64 word) j \<longleftrightarrow> bit b j \<or> j = k \<and> j < 64"
  by (auto simp: bit_simps dest: bit_imp_le_length)

lemma bit_advance:
  "bit (push_bit n b OR push_bit 1 1 :: 64 word) j
   \<longleftrightarrow> j = 1 \<or> j < 64 \<and> n \<le> j \<and> bit b (j - n)"
  unfolding bit_mark by (auto simp: bit_push_bit_iff dest: bit_imp_le_length)

lemma seq_window_cases:
  obtains (first) "r = minSeq s" "width s = 0"
      "seq_window s r = (True, s\<lparr>minSeq := r + 1, maxSeq := r + 1\<rparr>)"
  | (low) "r = minSeq s" "0 < width s" "seq_window s r = (True, s\<lparr>minSeq := r + 1\<rparr>)"
  | (inside) d b where "unat (r - minSeq s) = d" "0 < d" "d < width s"
      "\<And>j. bit b j \<longleftrightarrow> bit (recvBitmap s) j \<or> j = width s - d \<and> j < 64"
      "seq_window s r = (True, s\<lparr>recvBitmap := b\<rparr>)"
  | (ahead) d b where "unat (r - minSeq s) = d" "0 < d" "width s \<le> d" "d < 60"
      "\<And>j. bit b j \<longleftrightarrow> j = 1 \<or> j < 64 \<and> d - width s + 1 \<le> j
         \<and> bit (recvBitmap s) (j - (d - width s + 1))"
      "seq_window s r = (True, s\<lparr>maxSeq := r + 1, recvBitmap := b\<rparr>)"
  | (reject) "seq_window s r = (False, s)" "r \<noteq> minSeq s"
      "60 \<le> unat (r - minSeq s) \<or> unat (r - minSeq s) < width s \<and>
       bit (recvBitmap s) (width s - unat (r - minSeq s))"
proof -
  let ?d = "unat (r - minSeq s)"
  let ?dup = "width s - ?d < 32 \<and> bit (recvBitmap s) (width s - ?d)"
  have z: "?d = 0 \<longleftrightarrow> r = minSeq s" by (simp add: unat_eq_0)
  consider (a) "?d = 0" "width s = 0" | (b) "?d = 0" "0 < width s"
    | (c) "0 < ?d" "?d < width s" "\<not> ?dup" | (c') "0 < ?d" "?d < width s" "?dup"
    | (d) "0 < ?d" "width s \<le> ?d" "?d < 60" | (e) "0 < ?d" "width s \<le> ?d" "60 \<le> ?d"
    by linarith
  then show thesis
  proof cases
    case a
    with z show thesis by (intro first) (auto simp: seq_window_def Let_def)
  next
    case b
    with z show thesis by (intro low) (auto simp: seq_window_def Let_def)
  next
    case c
    with z show thesis
      by (intro inside [OF refl, where b = "recvBitmap s OR push_bit (width s - ?d) 1"])
        (rule bit_mark | simp add: seq_window_def Let_def)+
  next
    case c'
    with z show thesis by (intro reject) (auto simp: seq_window_def Let_def)
  next
    case d
    with z show thesis
      by (intro ahead [OF refl, where
            b = "push_bit (?d - width s + 1) (recvBitmap s) OR push_bit 1 1"])
        (rule bit_advance | simp add: seq_window_def Let_def)+
  next
    case e
    with z show thesis by (intro reject) (auto simp: seq_window_def Let_def)
  qed
qed

lemma width_first [simp]: "width (s\<lparr>minSeq := x, maxSeq := x\<rparr>) = 0"
  by (simp add: width_def)

lemma width_bitmap [simp]: "width (s\<lparr>recvBitmap := b\<rparr>) = width s"
  by (simp add: width_def)

lemma width_low: "0 < width s \<Longrightarrow> width (s\<lparr>minSeq := minSeq s + 1\<rparr>) = width s - 1"
proof -
  assume "0 < width s"
  then have "maxSeq s - minSeq s \<noteq> 0" by (auto simp: width_def)
  then have "unat (maxSeq s - minSeq s - 1) = unat (maxSeq s - minSeq s) - 1"
    by (rule unat_minus_one)
  then show ?thesis by (simp add: width_def diff_diff_eq)
qed

lemma width_ahead:
  assumes "unat (r - minSeq s) = d" "d < 60"
  shows "width (s\<lparr>maxSeq := r + 1, recvBitmap := b\<rparr>) = d + 1"
proof -
  have "r + 1 - minSeq s = r - minSeq s + 1" by simp
  also have "unat \<dots> = d + 1" using assms by (simp add: unat_word_ariths)
  finally show ?thesis by (simp add: width_def)
qed

text \<open>
  The bits below the window width mark numbers that were passed; \<open>H\<close> is the set of the numbers
  passed so far.
\<close>

definition seq_inv :: "32 word set \<Rightarrow> SeqVerifyInfo \<Rightarrow> bool" where
  "seq_inv H s \<longleftrightarrow> width s \<le> 60 \<and> \<not> bit (recvBitmap s) 0 \<and>
     (\<forall>k. 1 \<le> k \<and> k < width s \<and> bit (recvBitmap s) k \<longrightarrow> maxSeq s - of_nat k \<in> H)"

lemma seq_inv_fresh: "seq_inv H (fresh q)"
  by (simp add: seq_inv_def fresh_def width_def)

lemma seq_inv_step:
  assumes inv: "seq_inv H s" and near: "seq_near s r"
  shows "SeqCheck s r = Some (seq_window s r)"
    and "seq_window s r = (pass, s') \<Longrightarrow> seq_inv (if pass then insert r H else H) s'"
proof -
  from inv have w: "width s \<le> 60" by (simp add: seq_inv_def)
  show "SeqCheck s r = Some (seq_window s r)" by (rule SeqCheck_window [OF w near])
  assume res: "seq_window s r = (pass, s')"
  show "seq_inv (if pass then insert r H else H) s'"
  proof (cases rule: seq_window_cases [of r s])
    case first
    with res inv show ?thesis by (auto simp: seq_inv_def)
  next
    case low
    with res inv show ?thesis by (auto simp: seq_inv_def width_low)
  next
    case (inside d b)
    have "maxSeq s - of_nat (width s - d) = r"
      using inside(3) unfolding width_def inside(1) [symmetric] by (simp add: of_nat_diff)
    with inside(2-5) res inv show ?thesis by (auto simp: seq_inv_def)
  next
    case (ahead d b)
    let ?n = "d - width s + 1"
    have n: "maxSeq s + of_nat ?n = r + 1"
      using ahead(3) unfolding width_def ahead(1) [symmetric] by (simp add: of_nat_diff)
    have "maxSeq s' - of_nat k \<in> insert r H" if "1 \<le> k" "k < d + 1" "bit b k" for k
    proof (cases "k = 1")
      case False
      with that(3) ahead(5) have k: "?n \<le> k" "bit (recvBitmap s) (k - ?n)" by blast+
      then have "1 \<le> k - ?n" using inv by (metis One_nat_def Suc_leI gr0I seq_inv_def)
      moreover have "k - ?n < width s" using that(2) k(1) ahead(3) by linarith
      ultimately have "maxSeq s - of_nat (k - ?n) \<in> H"
        using inv k(2) unfolding seq_inv_def by blast
      moreover have "maxSeq s - of_nat (k - ?n) = r + 1 - of_nat k"
        unfolding n [symmetric] using k(1) by (simp only: of_nat_diff) simp
      ultimately show ?thesis using res ahead(6) by auto
    qed (use res ahead(6) in auto)
    moreover have "width s' = d + 1" "pass" "recvBitmap s' = b"
      using res ahead(6) width_ahead [OF ahead(1,4)] by auto
    moreover have "\<not> bit b 0" by (simp add: ahead(5))
    ultimately show ?thesis using ahead(4) by (simp add: seq_inv_def)
  next
    case reject
    with res inv show ?thesis by simp
  qed
qed


lemma seq_run_inv:
  "seq_inv H s \<Longrightarrow> seq_run_near s rs
   \<Longrightarrow> \<exists>acc s'. seq_run s rs = Some (acc, s') \<and> seq_inv (H \<union> set acc) s'"
proof (induction rs arbitrary: s H)
  case (Cons r rs)
  obtain pass s1 where step: "seq_window s r = (pass, s1)" by fastforce
  from Cons.prems have near: "seq_near s r" by simp
  note check = seq_inv_step(1) [OF Cons.prems(1) near]
  note inv = seq_inv_step(2) [OF Cons.prems(1) near step]
  from Cons.prems(2) check step have "seq_run_near s1 rs" by simp
  from Cons.IH [OF inv this] check step show ?case by fastforce
qed simp

text \<open>
  A number that was passed is tracked from then on: it lies \<open>k\<close> numbers below the upper end of
  the window, and as long as the window reaches down to it its bit is set.
\<close>

definition tracked :: "nat \<Rightarrow> 32 word \<Rightarrow> SeqVerifyInfo \<Rightarrow> bool" where
  "tracked K r s \<longleftrightarrow> (let k = unat (maxSeq s - r) in
     1 \<le> k \<and> k \<le> K \<and> (k \<le> width s \<longrightarrow> bit (recvBitmap s) k))"

lemma unat_add_32: "unat (x :: 32 word) + n < 2 ^ 32 \<Longrightarrow> unat (x + of_nat n) = unat x + n"
  by (simp add: unat_word_ariths unat_of_nat take_bit_nat_eq_self)

lemma tracked_step:
  assumes t: "tracked K r s" and w: "width s \<le> 60" and K: "K + 60 < 2 ^ 32"
    and step: "seq_window s x = (pass, s')"
  shows "tracked (K + 60) r s'"
proof (cases rule: seq_window_cases [of x s])
  case first
  from first have "maxSeq s = x" by (simp add: width_def unat_eq_0)
  then have "unat (x + 1 - r) = unat (maxSeq s - r) + 1"
    using unat_add_32 [of "maxSeq s - r" 1] t K by (simp add: tracked_def Let_def diff_add_eq)
  with first step t show ?thesis by (auto simp: tracked_def Let_def)
next
  case low
  with step t show ?thesis by (auto simp: tracked_def Let_def width_low)
next
  case (inside d b)
  with step t show ?thesis by (auto simp: tracked_def Let_def)
next
  case (ahead d b)
  define n where "n = d - width s + 1"
  have n: "maxSeq s + of_nat n = x + 1"
    using ahead(3) unfolding n_def width_def ahead(1) [symmetric] by (simp add: of_nat_diff)
  have eq: "x + 1 - r = maxSeq s - r + of_nat n" by (simp flip: n)
  have "unat (maxSeq s - r) + n < 2 ^ 32"
    using t K ahead(4) unfolding tracked_def Let_def n_def by linarith
  then have k: "unat (x + 1 - r) = unat (maxSeq s - r) + n"
    unfolding eq by (rule unat_add_32)
  have wd: "width s' = d + 1" "recvBitmap s' = b" "maxSeq s' = x + 1"
    using step ahead(6) width_ahead [OF ahead(1,4)] by auto
  have "d + 1 = width s + n" using ahead(3) by (simp add: n_def)
  with t show ?thesis
    using ahead(4) unfolding tracked_def Let_def wd k ahead(5) n_def [symmetric]
    by (auto simp: n_def)
next
  case reject
  with step t show ?thesis by (auto simp: tracked_def Let_def)
qed

lemma tracked_passed:
  assumes "seq_window s r = (True, s')" "width s \<le> 60"
  shows "tracked 60 r s'"
proof (cases rule: seq_window_cases [of r s])
  case low
  have "unat (maxSeq s - r) = width s" using low(1) by (simp add: width_def)
  with low assms show ?thesis by (auto simp: tracked_def Let_def width_low)
next
  case (inside d b)
  have "maxSeq s - r = of_nat (width s - d)"
    using inside(3) unfolding width_def inside(1) [symmetric] by (simp add: of_nat_diff)
  then have "unat (maxSeq s - r) = width s - d"
    using assms(2) by (simp add: unat_of_nat take_bit_nat_eq_self)
  with inside assms show ?thesis by (auto simp: tracked_def Let_def)
qed (use assms in \<open>auto simp: tracked_def Let_def\<close>)

lemma tracked_run:
  "tracked K r s \<Longrightarrow> seq_inv H s \<Longrightarrow> seq_run_near s rs \<Longrightarrow> K + 60 * length rs < 2 ^ 32
   \<Longrightarrow> seq_run s rs = Some (acc, s') \<Longrightarrow> tracked (K + 60 * length rs) r s'"
proof (induction rs arbitrary: K s H acc)
  case (Cons x rs)
  obtain pass s1 where step: "seq_window s x = (pass, s1)" by fastforce
  from Cons.prems have near: "seq_near s x" and w: "width s \<le> 60" by (auto simp: seq_inv_def)
  note check = seq_inv_step(1) [OF Cons.prems(2) near]
  note inv = seq_inv_step(2) [OF Cons.prems(2) near step]
  have t: "tracked (K + 60) r s1"
    using tracked_step [OF Cons.prems(1) w _ step] Cons.prems(4) by simp
  from Cons.prems check step obtain acc' where "seq_run_near s1 rs" "seq_run s1 rs = Some (acc', s')"
    by (auto split: option.splits)
  from Cons.IH [OF t inv this(1) _ this(2)] Cons.prems(4) show ?case by (simp add: algebra_simps)
qed simp

lemma tracked_reject:
  assumes t: "tracked K r s" and w: "width s \<le> 60" and r: "r \<noteq> minSeq s"
    and k: "unat (maxSeq s - r) < 32"
  shows "SeqCheck s r = Some (False, s)"
proof -
  let ?k = "unat (maxSeq s - r)" and ?d = "unat (r - minSeq s)"
  have eq: "r - minSeq s = (maxSeq s - minSeq s) - (maxSeq s - r)" by simp
  consider (inside) "?k \<le> width s" "?d = width s - ?k" | (below) "2 ^ 32 - 32 \<le> ?d"
  proof (cases "?k \<le> width s")
    case True
    then show ?thesis unfolding eq using that(1)
      by (metis eq unat_sub width_def word_le_nat_alt)
  next
    case False
    define y where "y = (maxSeq s - r) - (maxSeq s - minSeq s)"
    have y: "unat y = ?k - width s"
      unfolding y_def using False by (metis nat_le_linear unat_sub width_def word_le_nat_alt)
    have "r - minSeq s = 0 - y" by (simp add: y_def)
    then have "?d = 2 ^ 32 - (?k - width s)"
      using unat_neg_32 [of y] False by (simp only: y)
    then show ?thesis using that(2) k by simp
  qed
  then have "seq_near s r \<and> seq_window s r = (False, s)"
  proof cases
    case inside
    moreover have "?d \<noteq> 0" using r by (simp add: unat_eq_0)
    ultimately show ?thesis using t k w
      by (auto simp: seq_near_unat seq_window_def tracked_def Let_def)
  next
    case below
    then show ?thesis using w by (auto simp: seq_near_unat rejected_far)
  qed
  with SeqCheck_window [OF w] show ?thesis by simp
qed


lemma seq_run_in_order:
  "seq_run (fresh q) (map (\<lambda>i. q + of_nat i) [0..<n])
   = Some (map (\<lambda>i. q + of_nat i) [0..<n], fresh (q + of_nat n))"
proof (induction n arbitrary: q)
  case (Suc n)
  have "SeqCheck (fresh q) q = Some (True, fresh (q + 1))"
    by (simp add: SeqCheck_def IsPassNormalCheck_def fresh_def)
  moreover have "map (\<lambda>i. q + of_nat i) [0..<Suc n] = q # map (\<lambda>i. q + 1 + of_nat i) [0..<n]"
    by (simp add: map_upt_Suc add.assoc del: upt_Suc)
  ultimately show ?case using Suc [of "q + 1"] by (simp add: add.assoc)
qed simp

lemma seq_run_stuck:
  "width s \<le> 60 \<Longrightarrow> seq_run_near s rs \<Longrightarrow> minSeq s \<notin> set rs
   \<Longrightarrow> \<exists>acc s'. seq_run s rs = Some (acc, s') \<and> (\<forall>r \<in> set acc. unat (r - minSeq s) < 60)"
proof (induction rs arbitrary: s)
  case (Cons r rs)
  obtain pass s1 where step: "seq_window s r = (pass, s1)" by fastforce
  have check: "SeqCheck s r = Some (pass, s1)"
    using SeqCheck_window Cons.prems step by simp
  have ne: "r \<noteq> minSeq s" using Cons.prems(3) by auto
  have keep: "minSeq s1 = minSeq s \<and> width s1 \<le> 60 \<and> (pass \<longrightarrow> unat (r - minSeq s) < 60)"
  proof (cases rule: seq_window_cases [of r s])
    case (ahead d b)
    from step ahead(6) have "s1 = s\<lparr>maxSeq := r + 1, recvBitmap := b\<rparr>" by simp
    with ahead(1,4) width_ahead [OF ahead(1,4), of b] show ?thesis by simp
  next
    case (inside d b)
    from step inside(5) have "s1 = s\<lparr>recvBitmap := b\<rparr>" by simp
    with inside(1,3) Cons.prems(1) show ?thesis by simp
  qed (use ne step Cons.prems(1) in simp_all)
  have near: "seq_run_near s1 rs" using Cons.prems(2) check by simp
  have "minSeq s1 \<notin> set rs" using keep Cons.prems(3) by simp
  with Cons.IH near keep obtain acc s' where
    "seq_run s1 rs = Some (acc, s')" "\<forall>r \<in> set acc. unat (r - minSeq s) < 60" by metis
  with check keep show ?case by simp
qed simp

section \<open>Properties\<close>

text \<open>C10: The sign-by-sign case analysis of \<open>IsPassSeqCheck\<close> decides and updates exactly as the
  window filter \<open>seq_window\<close>, which looks only at the distance of the number from \<open>minSeq\<close>
  modulo \<open>2 ^ 32\<close>; so the wrap from \<^verbatim>\<open>INT32_MAX\<close> to \<^verbatim>\<open>INT32_MIN\<close> and from -1 to 0 are no
  special cases. It holds for every state whose window is at most 60 wide and every number
  but the 60 distances at which a signed difference overflows.\<close>

theorem IsPassSeqCheck_refines_window:
  assumes "width s \<le> 60" "seq_near s r"
  shows "IsPassSeqCheck (Some s) r = Some (map_prod id Some (seq_window s r))"
  using SeqCheck_window [OF assms] by (simp add: IsPassSeqCheck_def)

theorem IsPassSeqCheck_refines_window_witness:
  "IsPassSeqCheck (Some \<lparr>maxSeq = 2, minSeq = - 1, recvBitmap = 2\<rparr>) 0
   = Some (map_prod id Some (seq_window \<lparr>maxSeq = 2, minSeq = - 1, recvBitmap = 2\<rparr> 0))"
  by (rule IsPassSeqCheck_refines_window) (simp_all add: width_def seq_near_unat)



text \<open>C22: A number that has passed is rejected when it comes again, also after up to ten
  million other packets, as long as it is less than 32 below \<open>maxSeq\<close> and is not \<open>minSeq\<close>
  itself.\<close>

theorem IsPassSeqCheck_replay_rejected:
  assumes "seq_inv H s" "seq_near s r" "SeqCheck s r = Some (True, s1)"
    and "seq_run_near s1 rs" "length rs \<le> 10000000" "seq_run s1 rs = Some (acc, s2)"
    and "r \<noteq> minSeq s2" "unat (maxSeq s2 - r) < 32"
  shows "IsPassSeqCheck (Some s2) r = Some (False, Some s2)"
proof -
  have step: "seq_window s r = (True, s1)" using seq_inv_step(1) [OF assms(1,2)] assms(3) by simp
  have inv1: "seq_inv (insert r H) s1" using seq_inv_step(2) [OF assms(1,2) step] by simp
  have "tracked 60 r s1" using tracked_passed [OF step] assms(1) by (simp add: seq_inv_def)
  then have t: "tracked (60 + 60 * length rs) r s2"
    using tracked_run [OF _ inv1 assms(4) _ assms(6)] assms(5) by simp
  have "width s2 \<le> 60" using seq_run_inv [OF inv1 assms(4)] assms(6) by (auto simp: seq_inv_def)
  from tracked_reject [OF t this assms(7,8)] show ?thesis by (simp add: IsPassSeqCheck_def)
qed

theorem IsPassSeqCheck_replay_rejected_witness:
  "IsPassSeqCheck (Some \<lparr>maxSeq = 4, minSeq = 0, recvBitmap = 10\<rparr>) 1
   = Some (False, Some \<lparr>maxSeq = 4, minSeq = 0, recvBitmap = 10\<rparr>)"
  by (rule IsPassSeqCheck_replay_rejected [of "{}" "fresh 0" 1
        "\<lparr>maxSeq = 2, minSeq = 0, recvBitmap = 2\<rparr>" "[3]" "[3]"])
    (rule seq_inv_fresh, code_simp, code_simp, code_simp, simp, code_simp, simp, simp)

text \<open>A stream sent in order passes in full whatever number it starts at and however long
  it is, the wrap of the 32-bit number included, and leaves the window empty.\<close>

theorem IsPassSeqCheck_in_order:
  "seq_run (fresh q) (map (\<lambda>i. q + of_nat i) [0..<n])
   = Some (map (\<lambda>i. q + of_nat i) [0..<n], fresh (q + of_nat n))"
  by (rule seq_run_in_order)




end
