(* ===== verification/Lock_Free_Queue.thy ===== *)
theory Lock_Free_Queue
  imports Softbus_Prelude
begin

text \<open>
  The ring queue of \<^verbatim>\<open>core/common/queue/softbus_queue.c\<close> and
  \<^verbatim>\<open>core/common/include/softbus_queue.h\<close>: its record, its creation, and the operations as they
  run without interference. The four counters are 32-bit words that wrap; an access outside
  the allocated slots is the outcome \<^const>\<open>None\<close>. The operations implement a bounded
  first-in first-out list whatever the value of the counters; the contract is the locale
  \<open>bounded_fifo\<close>. The interleavings of several producers and consumers are in
  \<^verbatim>\<open>Queue_Concurrent\<close>.
\<close>

unbundle bit_operations_syntax

section \<open>The record and its creation\<close>

abbreviation (input) QUEUE_INVAL :: int where "QUEUE_INVAL \<equiv> - 10"
abbreviation (input) QUEUE_FULL :: int where "QUEUE_FULL \<equiv> - 9"
abbreviation (input) QUEUE_EMPTY :: int where "QUEUE_EMPTY \<equiv> - 8"
abbreviation (input) QUEUE_HEADER_MAGIC :: "32 word" where "QUEUE_HEADER_MAGIC \<equiv> 0xccddddcc"
abbreviation (input) QUEUE_SIZE_MAX :: "32 word" where "QUEUE_SIZE_MAX \<equiv> 8192"
abbreviation (input) CACHE_LINE_SIZE :: "32 word" where "CACHE_LINE_SIZE \<equiv> 64"

text \<open>
  \<^verbatim>\<open>producer.head\<close> is \<open>p_head\<close>, \<^verbatim>\<open>consumer.tail\<close> is \<open>c_tail\<close> and so on; \<open>nodes\<close>
  are the slots that the allocation has room for. Nodes are addresses, 0 is the null pointer.
\<close>

record LockFreeQueue =
  magic :: "32 word"
  unitNum :: "32 word"
  p_size :: "32 word"
  p_mask :: "32 word"
  p_head :: "32 word"
  p_tail :: "32 word"
  c_size :: "32 word"
  c_mask :: "32 word"
  c_head :: "32 word"
  c_tail :: "32 word"
  nodes :: "nat list"

text \<open>\<^verbatim>\<open>sizeof(LockFreeQueue)\<close> and \<^verbatim>\<open>sizeof(uintptr_t)\<close> on the 64-bit targets.\<close>

abbreviation (input) sizeof_LockFreeQueue :: "32 word" where "sizeof_LockFreeQueue \<equiv> 192"
abbreviation (input) sizeof_uintptr :: "32 word" where "sizeof_uintptr \<equiv> 8"

definition IS_POWER_OF_2 :: "32 word \<Rightarrow> bool" where
  "IS_POWER_OF_2 x \<longleftrightarrow> (x - 1) AND x = 0"

definition QueueInit :: "LockFreeQueue option \<Rightarrow> 32 word \<Rightarrow> int \<times> LockFreeQueue option" where
  "QueueInit queue num =
     (case queue of
        None \<Rightarrow> (QUEUE_INVAL, None)
      | Some q \<Rightarrow>
          if \<not> IS_POWER_OF_2 num then (QUEUE_INVAL, Some q)
          else (0, Some \<lparr>magic = QUEUE_HEADER_MAGIC, unitNum = num,
                         p_size = num, p_mask = num - 1, p_head = 0, p_tail = 0,
                         c_size = num, c_mask = num - 1, c_head = 0, c_tail = 0,
                         nodes = nodes q\<rparr>))"

definition QueueSizeCalc :: "32 word \<Rightarrow> bool \<Rightarrow> int \<times> 32 word option" where
  "QueueSizeCalc num haveOut =
     (if \<not> haveOut then (QUEUE_INVAL, None)
      else if num > QUEUE_SIZE_MAX then (QUEUE_INVAL, None)
      else
        let sz = sizeof_uintptr * num + sizeof_LockFreeQueue
        in (0, Some ((sz + CACHE_LINE_SIZE - 1) AND NOT (CACHE_LINE_SIZE - 1))))"

definition QueueCountGet :: "LockFreeQueue option \<Rightarrow> bool \<Rightarrow> int \<times> 32 word option" where
  "QueueCountGet queue haveOut =
     (case queue of
        None \<Rightarrow> (QUEUE_INVAL, None)
      | Some q \<Rightarrow>
          if \<not> haveOut then (QUEUE_INVAL, None)
          else (0, Some ((p_tail q - c_tail q) AND p_mask q)))"

text \<open>
  A zeroed allocation of a given number of bytes holds as many slots as fit behind the
  header; \<open>alloc\<close> is the outcome of \<^verbatim>\<open>SoftBusCalloc\<close>.
\<close>

definition calloc_queue :: "32 word \<Rightarrow> LockFreeQueue" where
  "calloc_queue bytes =
     \<lparr>magic = 0, unitNum = 0, p_size = 0, p_mask = 0, p_head = 0, p_tail = 0,
      c_size = 0, c_mask = 0, c_head = 0, c_tail = 0,
      nodes = replicate (unat ((bytes - sizeof_LockFreeQueue) div sizeof_uintptr)) 0\<rparr>"

definition CreateQueue :: "bool \<Rightarrow> 32 word \<Rightarrow> LockFreeQueue option" where
  "CreateQueue alloc num =
     (if \<not> IS_POWER_OF_2 num then None
      else
        case QueueSizeCalc num True of
          (ret, queueSize) \<Rightarrow>
            if ret \<noteq> 0 then None
            else if \<not> alloc then None
            else
              case QueueInit (Some (calloc_queue (the queueSize))) num of
                (ret', queue) \<Rightarrow> if ret' \<noteq> 0 then None else queue)"

section \<open>Operations without interference\<close>

definition QueueIsEmpty :: "LockFreeQueue option \<Rightarrow> int" where
  "QueueIsEmpty queue =
     (case queue of
        None \<Rightarrow> QUEUE_INVAL
      | Some q \<Rightarrow> if (p_tail q - c_tail q) AND p_mask q = 0 then 0 else - 1)"

definition QueueSingleProducerEnqueue ::
  "LockFreeQueue option \<Rightarrow> nat \<Rightarrow> (int \<times> LockFreeQueue option) option" where
  "QueueSingleProducerEnqueue queue node =
     (case queue of
        None \<Rightarrow> Some (QUEUE_INVAL, None)
      | Some q \<Rightarrow>
          if node = 0 then Some (QUEUE_INVAL, Some q)
          else
            let mask = p_mask q;
                producerHead = p_head q;
                consumerTail = c_tail q;
                availableCount = (mask + consumerTail) - producerHead
            in if availableCount < 1 then Some (QUEUE_FULL, Some q)
               else
                 let producerNext = producerHead + 1;
                     q1 = q\<lparr>p_head := producerNext\<rparr>;
                     i = unat (producerHead AND mask)
                 in if i < length (nodes q1)
                    then Some (0, Some (q1\<lparr>nodes := (nodes q1)[i := node], p_tail := producerNext\<rparr>))
                    else None)"

text \<open>The result of a dequeue: return code, the node stored through the out pointer, queue.\<close>

definition QueueSingleConsumerDequeue ::
  "LockFreeQueue option \<Rightarrow> bool \<Rightarrow> (int \<times> nat option \<times> LockFreeQueue option) option" where
  "QueueSingleConsumerDequeue queue haveOut =
     (case queue of
        None \<Rightarrow> Some (QUEUE_INVAL, None, None)
      | Some q \<Rightarrow>
          if \<not> haveOut then Some (QUEUE_INVAL, None, Some q)
          else
            let mask = p_mask q;
                consumerHead = c_head q;
                producerTail = p_tail q;
                availableCount = producerTail - consumerHead
            in if availableCount < 1 then Some (QUEUE_EMPTY, None, Some q)
               else
                 let consumerNext = consumerHead + 1;
                     q1 = q\<lparr>c_head := consumerNext\<rparr>;
                     i = unat (consumerHead AND mask)
                 in if i < length (nodes q1)
                    then Some (0, Some (nodes q1 ! i), Some (q1\<lparr>c_tail := consumerNext\<rparr>))
                    else None)"

section \<open>Slots\<close>

lemma unat_and_mask: "unat ((c :: 32 word) AND (2 ^ k - 1)) = unat c mod 2 ^ k"
proof -
  have "c AND (2 ^ k - 1) = take_bit k c" by (simp only: take_bit_eq_mask mask_eq_exp_minus_1)
  then have "unat (c AND (2 ^ k - 1)) = take_bit k (unat c)" by (simp only: unsigned_take_bit_eq)
  then show ?thesis by (simp only: take_bit_nat_def)
qed

lemma unat_add_mod: "k \<le> 32 \<Longrightarrow> unat (c + of_nat i :: 32 word) mod 2 ^ k = (unat c + i) mod 2 ^ k"
proof -
  assume "k \<le> 32"
  then have dvd: "(2 :: nat) ^ k dvd 2 ^ 32" by (rule le_imp_power_dvd)
  have "unat (c + of_nat i) = (unat c + i mod 2 ^ 32) mod 2 ^ 32"
    unfolding unat_word_ariths(1) unat_of_nat by simp
  also have "\<dots> = (unat c + i) mod 2 ^ 32" by (rule mod_add_right_eq)
  finally show ?thesis using dvd by (simp only: mod_mod_cancel)
qed

lemma slot:
  "k \<le> 32 \<Longrightarrow> unat ((c + of_nat i :: 32 word) AND (2 ^ k - 1)) = (unat c + i) mod 2 ^ k"
  by (simp only: unat_and_mask unat_add_mod)

lemma mod_add_inj:
  assumes "(a + i) mod n = (a + j) mod (n :: nat)" "i < n" "j < n"
  shows "i = j"
  using assms
proof (induction i j rule: linorder_wlog)
  case (le i j)
  then have "n dvd (a + j) - (a + i)"
    by (subst mod_eq_dvd_iff_nat [symmetric]) auto
  then have "n dvd j - i" by simp
  with le show ?case by (metis diff_is_0_eq dvd_imp_le leD le_antisym less_imp_diff_less neq0_conv)
qed simp


section \<open>The list a queue holds\<close>

definition queue_ok :: "nat \<Rightarrow> LockFreeQueue \<Rightarrow> bool" where
  "queue_ok k q \<longleftrightarrow> k \<le> 13 \<and> p_mask q = 2 ^ k - 1 \<and> 2 ^ k \<le> length (nodes q) \<and>
     p_head q = p_tail q \<and> c_head q = c_tail q \<and> unat (p_tail q - c_tail q) < 2 ^ k"

definition queue_inv :: "LockFreeQueue \<Rightarrow> bool" where
  "queue_inv q \<longleftrightarrow> (\<exists>k \<in> {0..13}. queue_ok k q)"

definition queue_cap :: "LockFreeQueue \<Rightarrow> nat" where
  "queue_cap q = unat (p_mask q)"

definition queue_list :: "LockFreeQueue \<Rightarrow> nat list" where
  "queue_list q =
     map (\<lambda>i. nodes q ! unat ((c_tail q + of_nat i) AND p_mask q)) [0..<unat (p_tail q - c_tail q)]"

lemma queue_ok_cap: "queue_ok k q \<Longrightarrow> queue_cap q = 2 ^ k - 1"
proof -
  assume "queue_ok k q"
  then have m: "p_mask q = 2 ^ k - 1" and k: "k \<le> 13" by (auto simp: queue_ok_def)
  have "(2 :: nat) ^ k < 2 ^ 32" using k by (intro power_strict_increasing) auto
  then have "unat ((of_nat (2 ^ k - 1)) :: 32 word) = 2 ^ k - 1"
    unfolding unat_of_nat by simp
  then show ?thesis by (simp add: queue_cap_def m of_nat_diff)
qed

lemma queue_ok_slot:
  "queue_ok k q \<Longrightarrow> unat ((c_tail q + of_nat i) AND p_mask q) = (unat (c_tail q) + i) mod 2 ^ k"
  by (simp add: queue_ok_def slot)

lemma queue_ok_length: "queue_ok k q \<Longrightarrow> length (queue_list q) < 2 ^ k"
  by (simp add: queue_ok_def queue_list_def)

lemma queue_ok_nth:
  "queue_ok k q \<Longrightarrow> i < length (queue_list q)
   \<Longrightarrow> queue_list q ! i = nodes q ! ((unat (c_tail q) + i) mod 2 ^ k)"
  by (simp add: queue_list_def queue_ok_slot)

text \<open>The counters of a queue holding \<open>n\<close> entries.\<close>

lemma queue_ok_p_tail:
  "queue_ok k q \<Longrightarrow> p_tail q = c_tail q + of_nat (length (queue_list q))"
  by (simp add: queue_list_def)

lemma queue_ok_available:
  assumes "queue_ok k q"
  shows "(p_mask q + c_tail q) - p_head q < 1 \<longleftrightarrow> length (queue_list q) = queue_cap q"
proof -
  let ?n = "length (queue_list q)"
  have n: "?n < 2 ^ k" and k: "k \<le> 13" and m: "p_mask q = 2 ^ k - 1" and h: "p_head q = p_tail q"
    using assms queue_ok_length by (auto simp: queue_ok_def)
  have "(2 :: nat) ^ k < 2 ^ 32" using k by (intro power_strict_increasing) auto
  then have u: "unat (of_nat (2 ^ k - 1 - ?n) :: 32 word) = 2 ^ k - 1 - ?n"
    unfolding unat_of_nat by simp
  have "(p_mask q + c_tail q) - p_head q = of_nat (2 ^ k - 1 - ?n)"
    using n by (simp add: m h queue_ok_p_tail [OF assms] of_nat_diff)
  moreover have "of_nat (2 ^ k - 1 - ?n) < (1 :: 32 word) \<longleftrightarrow> 2 ^ k - 1 - ?n = 0"
    unfolding word_less_nat_alt u by simp
  ultimately show ?thesis using n by (auto simp: queue_ok_cap [OF assms])
qed

lemma enqueue_step:
  assumes ok: "queue_ok k q" and x: "x \<noteq> 0" and room: "length (queue_list q) < queue_cap q"
  shows "\<exists>q'. QueueSingleProducerEnqueue (Some q) x = Some (0, Some q') \<and> queue_ok k q' \<and>
    queue_list q' = queue_list q @ [x]"
proof -
  let ?n = "length (queue_list q)" and ?c = "unat (c_tail q)"
  let ?i = "(?c + ?n) mod 2 ^ k"
  define q' where "q' = q\<lparr>p_head := p_head q + 1, nodes := (nodes q)[?i := x], p_tail := p_head q + 1\<rparr>"
  from ok have k: "k \<le> 13" and len: "2 ^ k \<le> length (nodes q)"
    and h: "p_head q = c_tail q + of_nat ?n" by (auto simp: queue_ok_def queue_list_def)
  have n: "?n + 1 < 2 ^ k" using room queue_ok_cap [OF ok] by simp
  have big: "(2 :: nat) ^ k < 2 ^ 32" using k by (intro power_strict_increasing) auto
  have i: "unat (p_head q AND p_mask q) = ?i" unfolding h by (rule queue_ok_slot [OF ok])
  have "?i < 2 ^ k" by simp
  then have il: "?i < length (nodes q)" using len by linarith
  have enq: "QueueSingleProducerEnqueue (Some q) x = Some (0, Some q')"
    using queue_ok_available [OF ok] room x i il
    by (simp add: QueueSingleProducerEnqueue_def Let_def q'_def)
  have tail: "p_tail q' - c_tail q' = of_nat (?n + 1)" by (simp add: q'_def h)
  have cnt: "unat (p_tail q' - c_tail q') = ?n + 1"
    unfolding tail unat_of_nat using n big by simp
  have ok': "queue_ok k q'" using ok n cnt by (simp add: queue_ok_def q'_def)
  have "queue_list q' = queue_list q @ [x]"
  proof (rule nth_equalityI)
    show len': "length (queue_list q') = length (queue_list q @ [x])"
      using cnt by (simp add: queue_list_def [of q'])
    fix j assume j: "j < length (queue_list q')"
    have jn: "j \<le> ?n" using j len' by simp
    have "queue_list q' ! j = (nodes q)[?i := x] ! ((?c + j) mod 2 ^ k)"
      using queue_ok_nth [OF ok' j] by (simp add: q'_def)
    also have "\<dots> = (queue_list q @ [x]) ! j"
    proof (cases "j = ?n")
      case True
      then show ?thesis using il by simp
    next
      case False
      then have "(?c + ?n) mod 2 ^ k \<noteq> (?c + j) mod 2 ^ k"
        using mod_add_inj [of ?c ?n "2 ^ k" j] n jn by auto
      then show ?thesis using False jn queue_ok_nth [OF ok, of j] by (simp add: nth_append)
    qed
    finally show "queue_list q' ! j = (queue_list q @ [x]) ! j" .
  qed
  with enq ok' show ?thesis by blast
qed

lemma enqueue_full:
  assumes "queue_ok k q" "x \<noteq> 0" "length (queue_list q) = queue_cap q"
  shows "QueueSingleProducerEnqueue (Some q) x = Some (QUEUE_FULL, Some q)"
  using queue_ok_available [OF assms(1)] assms(2,3)
  by (simp add: QueueSingleProducerEnqueue_def Let_def)

lemma dequeue_empty:
  assumes "queue_ok k q" "queue_list q = []"
  shows "QueueSingleConsumerDequeue (Some q) True = Some (QUEUE_EMPTY, None, Some q)"
  using assms by (auto simp: QueueSingleConsumerDequeue_def Let_def queue_ok_def queue_list_def
      unat_eq_0)

lemma dequeue_step:
  assumes ok: "queue_ok k q" and xs: "queue_list q = x # xs"
  shows "\<exists>q'. QueueSingleConsumerDequeue (Some q) True = Some (0, Some x, Some q') \<and>
    queue_ok k q' \<and> queue_list q' = xs"
proof -
  let ?n = "length (queue_list q)" and ?c = "unat (c_tail q)"
  define q' where "q' = q\<lparr>c_head := c_tail q + 1, c_tail := c_tail q + 1\<rparr>"
  from ok have k: "k \<le> 13" and len: "2 ^ k \<le> length (nodes q)" and h: "c_head q = c_tail q"
    and n: "?n < 2 ^ k" using queue_ok_length by (auto simp: queue_ok_def)
  have i: "unat (c_tail q AND p_mask q) = ?c mod 2 ^ k" using queue_ok_slot [OF ok, of 0] by simp
  have "?c mod 2 ^ k < 2 ^ k" by simp
  then have il: "?c mod 2 ^ k < length (nodes q)" using len by linarith
  have x: "nodes q ! (?c mod 2 ^ k) = x" using queue_ok_nth [OF ok, of 0] xs by simp
  have "unat (p_tail q - c_tail q) = Suc (length xs)"
    using arg_cong [OF xs, of length] by (simp add: queue_list_def)
  moreover from this have "p_tail q - c_tail q \<noteq> 0" by (metis nat.distinct(1) unat_0)
  ultimately have u: "unat (p_tail q - c_tail q - 1) = length xs" "\<not> p_tail q - c_tail q < 1"
    using unat_minus_one [of "p_tail q - c_tail q"] by (auto simp: word_less_nat_alt)
  have deq: "QueueSingleConsumerDequeue (Some q) True = Some (0, Some x, Some q')"
    using u i il x by (simp add: QueueSingleConsumerDequeue_def Let_def q'_def h)
  have cnt: "unat (p_tail q' - c_tail q') = length xs"
    using u(1) by (simp add: q'_def diff_diff_eq)
  have ok': "queue_ok k q'" using ok n cnt xs by (simp add: queue_ok_def q'_def)
  have "queue_list q' = xs"
  proof (rule nth_equalityI)
    show "length (queue_list q') = length xs" using cnt by (simp add: queue_list_def)
    fix j assume j: "j < length (queue_list q')"
    have "queue_list q' ! j = nodes q ! unat ((c_tail q + of_nat (Suc j)) AND p_mask q)"
      using j by (simp add: queue_list_def q'_def add.assoc)
    also have "\<dots> = queue_list q ! Suc j"
      using j xs cnt queue_ok_nth [OF ok, of "Suc j"] queue_ok_slot [OF ok, of "Suc j"]
      by (simp add: queue_list_def [of q'])
    finally show "queue_list q' ! j = xs ! j" by (simp add: xs)
  qed
  with deq ok' show ?thesis by blast
qed


section \<open>The bounded queue as a contract\<close>

datatype 'a fifo_op = Enq 'a | Deq
datatype 'a fifo_res = REnq int | RDeq int "'a option"

text \<open>What a bounded first-in first-out queue of capacity \<open>c\<close> does.\<close>

fun fifo_spec :: "nat \<Rightarrow> 'a list \<Rightarrow> 'a fifo_op list \<Rightarrow> 'a fifo_res list \<times> 'a list" where
  "fifo_spec c xs [] = ([], xs)"
| "fifo_spec c xs (Enq x # ops) =
     (if length xs < c then apfst ((#) (REnq 0)) (fifo_spec c (xs @ [x]) ops)
      else apfst ((#) (REnq QUEUE_FULL)) (fifo_spec c xs ops))"
| "fifo_spec c [] (Deq # ops) = apfst ((#) (RDeq QUEUE_EMPTY None)) (fifo_spec c [] ops)"
| "fifo_spec c (x # xs) (Deq # ops) = apfst ((#) (RDeq 0 (Some x))) (fifo_spec c xs ops)"

text \<open>A sequence of calls of an implementation; \<^const>\<open>None\<close> when one of them faults.\<close>

fun fifo_run ::
  "('q option \<Rightarrow> 'a \<Rightarrow> (int \<times> 'q option) option)
   \<Rightarrow> ('q option \<Rightarrow> bool \<Rightarrow> (int \<times> 'a option \<times> 'q option) option)
   \<Rightarrow> 'q option \<Rightarrow> 'a fifo_op list \<Rightarrow> ('a fifo_res list \<times> 'q option) option" where
  "fifo_run enq deq q [] = Some ([], q)"
| "fifo_run enq deq q (Enq x # ops) =
     (case enq q x of
        None \<Rightarrow> None
      | Some (r, q') \<Rightarrow> map_option (apfst ((#) (REnq r))) (fifo_run enq deq q' ops))"
| "fifo_run enq deq q (Deq # ops) =
     (case deq q True of
        None \<Rightarrow> None
      | Some (r, x, q') \<Rightarrow> map_option (apfst ((#) (RDeq r x))) (fifo_run enq deq q' ops))"

locale bounded_fifo =
  fixes inv :: "'q \<Rightarrow> bool"
    and contents :: "'q \<Rightarrow> 'a list"
    and cap :: "'q \<Rightarrow> nat"
    and valid :: "'a \<Rightarrow> bool"
    and enq :: "'q option \<Rightarrow> 'a \<Rightarrow> (int \<times> 'q option) option"
    and deq :: "'q option \<Rightarrow> bool \<Rightarrow> (int \<times> 'a option \<times> 'q option) option"
  assumes within: "inv q \<Longrightarrow> length (contents q) \<le> cap q"
    and enq_room: "inv q \<Longrightarrow> valid x \<Longrightarrow> length (contents q) < cap q \<Longrightarrow>
      \<exists>q'. enq (Some q) x = Some (0, Some q') \<and> inv q' \<and> cap q' = cap q
         \<and> contents q' = contents q @ [x]"
    and enq_full: "inv q \<Longrightarrow> valid x \<Longrightarrow> length (contents q) = cap q \<Longrightarrow>
      enq (Some q) x = Some (QUEUE_FULL, Some q)"
    and deq_some: "inv q \<Longrightarrow> contents q = x # xs \<Longrightarrow>
      \<exists>q'. deq (Some q) True = Some (0, Some x, Some q') \<and> inv q' \<and> cap q' = cap q
         \<and> contents q' = xs"
    and deq_none: "inv q \<Longrightarrow> contents q = [] \<Longrightarrow>
      deq (Some q) True = Some (QUEUE_EMPTY, None, Some q)"
begin

lemma refines:
  assumes "inv q" "\<forall>x. Enq x \<in> set ops \<longrightarrow> valid x"
  shows "\<exists>res q'. fifo_run enq deq (Some q) ops = Some (res, Some q') \<and> inv q'
    \<and> fifo_spec (cap q) (contents q) ops = (res, contents q')"
  using assms
proof (induction ops arbitrary: q)
  case (Cons op ops)
  show ?case
  proof (cases op)
    case (Enq x)
    with Cons.prems have v: "valid x" by simp
    show ?thesis
    proof (cases "length (contents q) < cap q")
      case True
      from enq_room [OF Cons.prems(1) v True] obtain q' where
        q': "enq (Some q) x = Some (0, Some q')" "inv q'" "cap q' = cap q"
          "contents q' = contents q @ [x]" by blast
      then show ?thesis using Cons.IH [OF q'(2)] Cons.prems True Enq by fastforce
    next
      case False
      with within [OF Cons.prems(1)] have "length (contents q) = cap q" by simp
      from enq_full [OF Cons.prems(1) v this] show ?thesis
        using Cons.IH [OF Cons.prems(1)] Cons.prems False Enq by fastforce
    qed
  next
    case Deq
    show ?thesis
    proof (cases "contents q")
      case Nil
      from deq_none [OF Cons.prems(1) Nil] show ?thesis
        using Cons.IH [OF Cons.prems(1)] Cons.prems Nil Deq by fastforce
    next
      case (Cons y ys)
      from deq_some [OF Cons.prems(1) Cons] obtain q' where
        q': "deq (Some q) True = Some (0, Some y, Some q')" "inv q'" "cap q' = cap q"
          "contents q' = ys" by blast
      then show ?thesis using Cons.IH [OF q'(2)] Cons.prems Cons Deq by fastforce
    qed
  qed
qed simp

end

interpretation lfq: bounded_fifo queue_inv queue_list queue_cap "\<lambda>x. x \<noteq> 0"
  QueueSingleProducerEnqueue QueueSingleConsumerDequeue
proof
  fix q assume "queue_inv q"
  then obtain k where ok: "queue_ok k q" and k: "k \<le> 13" by (auto simp: queue_inv_def)
  have inv: "queue_inv q'" if "queue_ok k q'" for q' using that k by (auto simp: queue_inv_def)
  have cap: "queue_cap q' = queue_cap q" if "queue_ok k q'" for q'
    using that ok by (simp add: queue_ok_cap)
  show "length (queue_list q) \<le> queue_cap q"
    using queue_ok_length [OF ok] queue_ok_cap [OF ok] by simp
  show "QueueSingleConsumerDequeue (Some q) True = Some (QUEUE_EMPTY, None, Some q)"
    if "queue_list q = []" using dequeue_empty [OF ok that] .
  fix x xs
  show "\<exists>q'. QueueSingleConsumerDequeue (Some q) True = Some (0, Some x, Some q') \<and> queue_inv q'
      \<and> queue_cap q' = queue_cap q \<and> queue_list q' = xs" if "queue_list q = x # xs"
    using dequeue_step [OF ok that] inv cap by blast
  assume x: "x \<noteq> 0"
  show "\<exists>q'. QueueSingleProducerEnqueue (Some q) x = Some (0, Some q') \<and> queue_inv q'
      \<and> queue_cap q' = queue_cap q \<and> queue_list q' = queue_list q @ [x]"
    if "length (queue_list q) < queue_cap q"
    using enqueue_step [OF ok x that] inv cap by blast
  show "QueueSingleProducerEnqueue (Some q) x = Some (QUEUE_FULL, Some q)"
    if "length (queue_list q) = queue_cap q"
    using enqueue_full [OF ok x that] .
qed


section \<open>Creation\<close>

lemma pred_and_nat: "(n - 1) AND n = 0 \<Longrightarrow> 0 < n \<Longrightarrow> \<exists>k. n = 2 ^ k" for n :: nat
proof (induction n rule: less_induct)
  case (less n)
  show ?case
  proof (cases "odd n")
    case True
    then obtain m where n: "n = 2 * m + 1" by (rule oddE)
    have "2 * m AND (2 * m + 1) = 2 * m"
      by (subst and_rec) (simp add: and.idem)
    with less.prems n have "m = 0" by simp
    then have "n = 2 ^ 0" using n by simp
    then show ?thesis by blast
  next
    case False
    then obtain m where n: "n = 2 * m" by (auto elim: evenE)
    with less.prems have m: "0 < m" by simp
    have "(2 * m - 1) div 2 = m - 1" using m by (cases m) auto
    then have "(n - 1) AND n = 2 * ((m - 1) AND m)"
      unfolding n by (subst and_rec) simp
    with less.prems m n less.IH [of m] obtain k where "m = 2 ^ k" by auto
    then have "n = 2 ^ Suc k" using n by simp
    then show ?thesis by blast
  qed
qed

lemma IS_POWER_OF_2_iff: "IS_POWER_OF_2 x \<longleftrightarrow> x = 0 \<or> (\<exists>k < 32. x = 2 ^ k)"
proof
  assume p: "IS_POWER_OF_2 x"
  show "x = 0 \<or> (\<exists>k < 32. x = 2 ^ k)"
  proof (cases "x = 0")
    case False
    then have "unat (x - 1) = unat x - 1" "0 < unat x"
      by (auto simp: unat_minus_one unat_gt_0)
    then have "(unat x - 1) AND unat x = 0"
      using p by (metis IS_POWER_OF_2_def unat_0 unsigned_and_eq)
    then obtain k where k: "unat x = 2 ^ k" using pred_and_nat \<open>0 < unat x\<close> by blast
    then have "(2 :: nat) ^ k < 2 ^ 32" using unsigned_less [where ?'a = nat, of x] by simp
    then have "k < 32" by (metis nat_power_less_imp_less zero_less_numeral)
    moreover have "x = 2 ^ k" using k by (metis of_nat_unat of_nat_numeral of_nat_power ucast_id)
    ultimately show ?thesis by blast
  qed simp
next
  assume "x = 0 \<or> (\<exists>k < 32. x = 2 ^ k)"
  then show "IS_POWER_OF_2 x"
  proof
    assume "\<exists>k < 32. x = 2 ^ k"
    then obtain k where x: "x = 2 ^ k" by blast
    have "mask k AND (2 ^ k) = (0 :: 32 word)"
      by (rule bit_eqI) (auto simp: bit_simps)
    then show ?thesis unfolding IS_POWER_OF_2_def x by (simp add: mask_eq_exp_minus_1)
  qed (simp add: IS_POWER_OF_2_def)
qed


definition queue_bytes :: "32 word \<Rightarrow> 32 word" where
  "queue_bytes num = (sizeof_uintptr * num + sizeof_LockFreeQueue + CACHE_LINE_SIZE - 1)
     AND NOT (CACHE_LINE_SIZE - 1)"

lemma queue_bytes_room:
  assumes "k \<le> 13"
  shows "2 ^ k \<le> unat ((queue_bytes (2 ^ k) - sizeof_LockFreeQueue) div sizeof_uintptr)"
    and "\<not> (2 :: 32 word) ^ k > QUEUE_SIZE_MAX"
proof -
  have "list_all (\<lambda>k. 2 ^ k \<le> (queue_bytes (2 ^ k) - sizeof_LockFreeQueue) div sizeof_uintptr
     \<and> \<not> (2 :: 32 word) ^ k > QUEUE_SIZE_MAX) [0..<14]" by code_simp
  then have all: "2 ^ k \<le> (queue_bytes (2 ^ k) - sizeof_LockFreeQueue) div sizeof_uintptr
     \<and> \<not> (2 :: 32 word) ^ k > QUEUE_SIZE_MAX"
    using assms by (simp add: list_all_iff)
  have "(2 :: nat) ^ k < 2 ^ 32" using assms by (intro power_strict_increasing) auto
  then have "unat ((2 :: 32 word) ^ k) = 2 ^ k"
    using unat_of_nat [of "2 ^ k", where 'a = 32] by simp
  with all show "2 ^ k \<le> unat ((queue_bytes (2 ^ k) - sizeof_LockFreeQueue) div sizeof_uintptr)"
    by (metis word_le_nat_alt)
  from all show "\<not> (2 :: 32 word) ^ k > QUEUE_SIZE_MAX" by blast
qed

lemma CreateQueue_ok:
  assumes "k \<le> 13"
  shows "\<exists>q. CreateQueue True (2 ^ k) = Some q \<and> queue_ok k q \<and> queue_list q = []"
proof -
  have p: "IS_POWER_OF_2 (2 ^ k)" unfolding IS_POWER_OF_2_iff using assms by (intro disjI2 exI [of _ k]) simp
  have sz: "QueueSizeCalc (2 ^ k) True = (0, Some (queue_bytes (2 ^ k)))"
    using queue_bytes_room(2) [OF assms] by (simp add: QueueSizeCalc_def queue_bytes_def Let_def)
  show ?thesis
    using p sz queue_bytes_room(1) [OF assms] assms
    by (simp add: CreateQueue_def QueueInit_def queue_ok_def queue_list_def calloc_queue_def)
qed

section \<open>Properties\<close>

text \<open>C7: For every sequence of enqueues and dequeues on a queue created with a power of two
  of at most 8192 units, and on any such queue later, whatever its 32-bit counters have
  wrapped to, each call returns what a first-in first-out list of capacity \<open>unitNum - 1\<close>
  returns, no access leaves the allocated slots, and the invariant is kept.\<close>

theorem queue_refines_fifo:
  assumes "queue_inv q" "\<forall>x. Enq x \<in> set ops \<longrightarrow> x \<noteq> 0"
  shows "\<exists>res q'. fifo_run QueueSingleProducerEnqueue QueueSingleConsumerDequeue (Some q) ops
      = Some (res, Some q') \<and> queue_inv q'
    \<and> fifo_spec (queue_cap q) (queue_list q) ops = (res, queue_list q')"
  using lfq.refines [OF assms] .

definition wrapping_queue :: LockFreeQueue where
  "wrapping_queue = \<lparr>magic = QUEUE_HEADER_MAGIC, unitNum = 4,
     p_size = 4, p_mask = 3, p_head = 0, p_tail = 0, c_size = 4, c_mask = 3,
     c_head = - 2, c_tail = - 2, nodes = [0, 0, 7, 8]\<rparr>"

theorem queue_refines_fifo_witness:
  "\<exists>res q'. fifo_run QueueSingleProducerEnqueue QueueSingleConsumerDequeue (Some wrapping_queue)
      [Enq 9, Enq 10, Deq, Enq 10] = Some (res, Some q') \<and> queue_inv q'
    \<and> fifo_spec (queue_cap wrapping_queue) (queue_list wrapping_queue) [Enq 9, Enq 10, Deq, Enq 10]
      = (res, queue_list q')"
  by (rule queue_refines_fifo) (code_simp, auto)

text \<open>\<open>CreateQueue\<close> with \<open>2 ^ k\<close> units, \<open>k\<close> at most 13, returns an empty queue in which
  every slot index the mask can produce is inside the allocation; with an allocation failure
  or a number that is neither zero nor a power of two of at most 8192 it returns the null
  pointer.\<close>

theorem CreateQueue_correct:
  "(k \<le> 13 \<longrightarrow> (\<exists>q. CreateQueue True (2 ^ k) = Some q \<and> queue_inv q \<and> queue_list q = []
       \<and> queue_cap q = 2 ^ k - 1 \<and> queue_cap q < length (nodes q)))
   \<and> CreateQueue False num = None
   \<and> (num \<noteq> 0 \<and> \<not> (\<exists>j < 32. num = 2 ^ j) \<longrightarrow> CreateQueue alloc num = None)
   \<and> (num > 8192 \<longrightarrow> CreateQueue alloc num = None)"
proof (intro conjI impI)
  assume k: "k \<le> 13"
  from CreateQueue_ok [OF k] obtain q where
    q: "CreateQueue True (2 ^ k) = Some q" "queue_ok k q" "queue_list q = []" by blast
  then have "queue_inv q" "queue_cap q = 2 ^ k - 1" "queue_cap q < length (nodes q)"
    using k queue_ok_cap by (auto simp: queue_inv_def queue_ok_def less_le_trans [of _ "2 ^ k"])
  with q show "\<exists>q. CreateQueue True (2 ^ k) = Some q \<and> queue_inv q \<and> queue_list q = []
     \<and> queue_cap q = 2 ^ k - 1 \<and> queue_cap q < length (nodes q)" by blast
qed (auto simp: CreateQueue_def QueueSizeCalc_def IS_POWER_OF_2_iff)

theorem CreateQueue_correct_witness:
  "\<exists>q. CreateQueue True (2 ^ 3) = Some q \<and> queue_inv q \<and> queue_list q = []
     \<and> queue_cap q = 2 ^ 3 - 1 \<and> queue_cap q < length (nodes q)"
  using CreateQueue_correct [of 3 0 True] by simp

text \<open>Zero units pass the power-of-two test: \<open>CreateQueue\<close> returns a queue without any slot
  whose mask is \<^verbatim>\<open>0xFFFFFFFF\<close>, and the first enqueue on it writes outside the allocation.\<close>

theorem CreateQueue_zero_units:
  "\<exists>q. CreateQueue True 0 = Some q \<and> nodes q = [] \<and> p_mask q = 0xFFFFFFFF
     \<and> QueueSingleProducerEnqueue (Some q) 1 = None"
proof -
  obtain q where q: "CreateQueue True 0 = Some q" "nodes q = []" "p_mask q = - 1"
    "p_head q = 0" "c_tail q = 0"
    by (simp add: CreateQueue_def IS_POWER_OF_2_def QueueSizeCalc_def QueueInit_def
        calloc_queue_def)
  then show ?thesis by (simp add: QueueSingleProducerEnqueue_def)
qed

end
