(* ===== verification/Queue_Concurrent.thy ===== *)
theory Queue_Concurrent
  imports Lock_Free_Queue
begin

text \<open>
  The thread-safe operations \<^verbatim>\<open>QueueMultiProducerEnqueue\<close> and \<^verbatim>\<open>QueueMultiConsumerDequeue\<close> of
  \<^verbatim>\<open>core/common/include/softbus_queue.h\<close>, run by any number of threads. Each access to the shared
  counters or slots is one step of a thread, and steps of different threads interleave freely
  (the barriers of the code make the accesses of one thread take effect in program order).
  The state also records the history: the nodes in the order in which their
  compare-and-swap succeeded, and the nodes in the order in which they were handed out.

  The theorems hold as long as fewer than \<open>2 ^ 32\<close> enqueues have succeeded since the queue
  was at rest at an arbitrary counter value: after that many a delayed compare-and-swap may
  meet an old counter value again.
\<close>

unbundle bit_operations_syntax

section \<open>Threads\<close>

text \<open>
  The points at which a thread may be interrupted. \<open>P0\<close> to \<open>P6\<close> are in the enqueue: about to
  read \<^verbatim>\<open>producer.head\<close>, \<^verbatim>\<open>consumer.tail\<close>, to test and compare-and-swap, to write the slot,
  to wait for the tail, to read and to write the tail. \<open>C0\<close> to \<open>C6\<close> mirror them in the dequeue.
  The first word of a point is \<^verbatim>\<open>producerHead\<close> or \<^verbatim>\<open>consumerHead\<close>.
\<close>

datatype pc =
    Idle
  | P0 nat | P1 nat "32 word" | P2 nat "32 word" "32 word" | P3 nat "32 word"
  | P4 "32 word" | P5 "32 word" | P6 "32 word" "32 word"
  | C0 | C1 "32 word" | C2 "32 word" "32 word" | C3 "32 word"
  | C4 "32 word" nat | C5 "32 word" nat | C6 "32 word" nat "32 word"
  | Fault

text \<open>
  One step of a thread: the queue and the point after it, the node whose compare-and-swap
  succeeded in it, and the node handed out by it.
\<close>

fun QueueMultiProducerEnqueue
  :: "LockFreeQueue \<Rightarrow> pc \<Rightarrow> LockFreeQueue \<times> pc \<times> nat list \<times> nat list" where
  "QueueMultiProducerEnqueue q (P0 node) = (q, P1 node (p_head q), [], [])"
| "QueueMultiProducerEnqueue q (P1 node h) = (q, P2 node h (c_tail q), [], [])"
| "QueueMultiProducerEnqueue q (P2 node h consumerTail) =
     (if (p_mask q + consumerTail) - h < 1 then (q, Idle, [], [])
      else if p_head q = h then (q\<lparr>p_head := h + 1\<rparr>, P3 node h, [node], [])
      else (q, P0 node, [], []))"
| "QueueMultiProducerEnqueue q (P3 node h) =
     (let i = unat (h AND p_mask q) in
      if i < length (nodes q) then (q\<lparr>nodes := (nodes q)[i := node]\<rparr>, P4 h, [], [])
      else (q, Fault, [], []))"
| "QueueMultiProducerEnqueue q (P4 h) = (if p_tail q \<noteq> h then (q, P4 h, [], []) else (q, P5 h, [], []))"
| "QueueMultiProducerEnqueue q (P5 h) = (q, P6 h (p_tail q), [], [])"
| "QueueMultiProducerEnqueue q (P6 h t) = (q\<lparr>p_tail := t + 1\<rparr>, Idle, [], [])"
| "QueueMultiProducerEnqueue q at = (q, at, [], [])"

fun QueueMultiConsumerDequeue
  :: "LockFreeQueue \<Rightarrow> pc \<Rightarrow> LockFreeQueue \<times> pc \<times> nat list \<times> nat list" where
  "QueueMultiConsumerDequeue q C0 = (q, C1 (c_head q), [], [])"
| "QueueMultiConsumerDequeue q (C1 h) = (q, C2 h (p_tail q), [], [])"
| "QueueMultiConsumerDequeue q (C2 h producerTail) =
     (if producerTail - h < 1 then (q, Idle, [], [])
      else if c_head q = h then (q\<lparr>c_head := h + 1\<rparr>, C3 h, [], [])
      else (q, C0, [], []))"
| "QueueMultiConsumerDequeue q (C3 h) =
     (let i = unat (h AND p_mask q) in
      if i < length (nodes q) then (q, C4 h (nodes q ! i), [], [])
      else (q, Fault, [], []))"
| "QueueMultiConsumerDequeue q (C4 h v) = (if c_tail q \<noteq> h then (q, C4 h v, [], []) else (q, C5 h v, [], []))"
| "QueueMultiConsumerDequeue q (C5 h v) = (q, C6 h v (c_tail q), [], [])"
| "QueueMultiConsumerDequeue q (C6 h v t) = (q\<lparr>c_tail := t + 1\<rparr>, Idle, [], [v])"
| "QueueMultiConsumerDequeue q at = (q, at, [], [])"

text \<open>A thread outside both operations stays where it is.\<close>

definition tstep
  :: "LockFreeQueue \<Rightarrow> pc \<Rightarrow> LockFreeQueue \<times> pc \<times> nat list \<times> nat list" where
  "tstep q at =
     (case at of
        P0 _ \<Rightarrow> QueueMultiProducerEnqueue q at | P1 _ _ \<Rightarrow> QueueMultiProducerEnqueue q at | P2 _ _ _ \<Rightarrow> QueueMultiProducerEnqueue q at
      | P3 _ _ \<Rightarrow> QueueMultiProducerEnqueue q at | P4 _ \<Rightarrow> QueueMultiProducerEnqueue q at | P5 _ \<Rightarrow> QueueMultiProducerEnqueue q at
      | P6 _ _ \<Rightarrow> QueueMultiProducerEnqueue q at
      | _ \<Rightarrow> QueueMultiConsumerDequeue q at)"

lemma tstep_simps [simp]:
  "tstep q (P0 n) = QueueMultiProducerEnqueue q (P0 n)"
  "tstep q (P1 n h) = QueueMultiProducerEnqueue q (P1 n h)"
  "tstep q (P2 n h t) = QueueMultiProducerEnqueue q (P2 n h t)"
  "tstep q (P3 n h) = QueueMultiProducerEnqueue q (P3 n h)"
  "tstep q (P4 h) = QueueMultiProducerEnqueue q (P4 h)"
  "tstep q (P5 h) = QueueMultiProducerEnqueue q (P5 h)"
  "tstep q (P6 h t) = QueueMultiProducerEnqueue q (P6 h t)"
  "tstep q C0 = QueueMultiConsumerDequeue q C0"
  "tstep q (C1 h) = QueueMultiConsumerDequeue q (C1 h)"
  "tstep q (C2 h t) = QueueMultiConsumerDequeue q (C2 h t)"
  "tstep q (C3 h) = QueueMultiConsumerDequeue q (C3 h)"
  "tstep q (C4 h v) = QueueMultiConsumerDequeue q (C4 h v)"
  "tstep q (C5 h v) = QueueMultiConsumerDequeue q (C5 h v)"
  "tstep q (C6 h v t) = QueueMultiConsumerDequeue q (C6 h v t)"
  "tstep q Idle = QueueMultiConsumerDequeue q Idle"
  "tstep q Fault = QueueMultiConsumerDequeue q Fault"
  by (simp_all add: tstep_def)

record cstate =
  queue :: LockFreeQueue
  pcs :: "nat \<Rightarrow> pc"
  enqs :: "nat list"
  outs :: "nat list"

definition run_thread :: "nat \<Rightarrow> cstate \<Rightarrow> cstate" where
  "run_thread t s =
     (case tstep (queue s) (pcs s t) of
        (q', pc', e, d) \<Rightarrow>
          \<lparr>queue = q', pcs = (pcs s)(t := pc'), enqs = enqs s @ e, outs = outs s @ d\<rparr>)"

text \<open>An idle thread may call either operation; calls with a null pointer return at once.\<close>

inductive cstep :: "cstate \<Rightarrow> cstate \<Rightarrow> bool" where
  QueueMultiProducerEnqueue:
    "pcs s t = Idle \<Longrightarrow> node \<noteq> 0 \<Longrightarrow> cstep s (s\<lparr>pcs := (pcs s)(t := P0 node)\<rparr>)"
| QueueMultiConsumerDequeue:
    "pcs s t = Idle \<Longrightarrow> cstep s (s\<lparr>pcs := (pcs s)(t := C0)\<rparr>)"
| run: "cstep s (run_thread t s)"

inductive_cases cstepE: "cstep s s'"

text \<open>At rest: no call is in progress and the queue is empty, all counters at \<open>c\<close>.\<close>

definition at_rest :: "nat \<Rightarrow> 32 word \<Rightarrow> cstate \<Rightarrow> bool" where
  "at_rest k c s \<longleftrightarrow> pcs s = (\<lambda>_. Idle) \<and> enqs s = [] \<and> outs s = [] \<and> k \<le> 13 \<and>
     p_mask (queue s) = 2 ^ k - 1 \<and> 2 ^ k \<le> length (nodes (queue s)) \<and>
     p_head (queue s) = c \<and> p_tail (queue s) = c \<and> c_head (queue s) = c \<and> c_tail (queue s) = c"

inductive reach :: "nat \<Rightarrow> 32 word \<Rightarrow> cstate \<Rightarrow> bool" for k c where
  init: "at_rest k c s \<Longrightarrow> reach k c s"
| step: "reach k c s \<Longrightarrow> cstep s s' \<Longrightarrow> reach k c s'"

section \<open>Tickets\<close>

text \<open>
  The ticket of a counter value is its distance from the value at rest. The thread that
  moved a head past a ticket owns the ticket until it has moved the tail past it.
\<close>

definition tk :: "32 word \<Rightarrow> 32 word \<Rightarrow> nat" where
  "tk c h = unat (h - c)"

lemma tk_self [simp]: "tk c c = 0"
  by (simp add: tk_def)

lemma tk_eq_iff: "tk c h = tk c g \<longleftrightarrow> h = g"
  by (auto simp: tk_def word_unat_eq_iff [symmetric])

lemma tk_Suc: "tk c h + 1 < 2 ^ 32 \<Longrightarrow> tk c (h + 1) = tk c h + 1"
proof -
  assume a: "tk c h + 1 < 2 ^ 32"
  have "h + 1 - c = h - c + 1" by simp
  also have "unat \<dots> = unat (h - c) + 1" using a by (simp add: tk_def unat_word_ariths)
  finally show ?thesis by (simp add: tk_def)
qed

lemma tk_word: "h = c + of_nat (tk c h)"
  by (simp add: tk_def)

lemma tk_slot: "k \<le> 32 \<Longrightarrow> unat (h AND (2 ^ k - 1)) = (unat c + tk c h) mod 2 ^ k"
  by (metis slot tk_word)

lemma tk_full:
  assumes "tk c h + 1 = tk c g + 2 ^ k"
  shows "(2 ^ k - 1 + g) - h < 1"
proof -
  have "h + 1 = c + of_nat (tk c h + 1)" using tk_word [of h c] by simp
  also have "\<dots> = (c + of_nat (tk c g)) + 2 ^ k" unfolding assms by simp
  also have "\<dots> = g + 2 ^ k" by (simp only: tk_word [of g c, symmetric])
  finally have "2 ^ k + g = h + 1" by (simp add: add.commute)
  then have "2 ^ k - 1 + g - h = 0" by (simp add: algebra_simps)
  then show ?thesis by simp
qed

fun pticket :: "pc \<Rightarrow> 32 word option" where
  "pticket (P3 node h) = Some h"
| "pticket (P4 h) = Some h"
| "pticket (P5 h) = Some h"
| "pticket (P6 h t) = Some h"
| "pticket _ = None"

fun cticket :: "pc \<Rightarrow> 32 word option" where
  "cticket (C3 h) = Some h"
| "cticket (C4 h v) = Some h"
| "cticket (C5 h v) = Some h"
| "cticket (C6 h v t) = Some h"
| "cticket _ = None"

section \<open>The invariant\<close>

text \<open>What a thread knows at each point.\<close>

fun pc_ok :: "nat \<Rightarrow> 32 word \<Rightarrow> LockFreeQueue \<Rightarrow> nat list \<Rightarrow> pc \<Rightarrow> bool" where
  "pc_ok k c q es (P1 node h) \<longleftrightarrow> tk c h \<le> length es"
| "pc_ok k c q es (P2 node h ct) \<longleftrightarrow> tk c h \<le> length es \<and> tk c ct \<le> tk c (c_tail q) \<and>
     tk c h < tk c ct + 2 ^ k"
| "pc_ok k c q es (P3 node h) \<longleftrightarrow> tk c (p_tail q) \<le> tk c h \<and> tk c h < length es \<and>
     es ! tk c h = node"
| "pc_ok k c q es (P4 h) \<longleftrightarrow> tk c (p_tail q) \<le> tk c h \<and> tk c h < length es \<and>
     nodes q ! ((unat c + tk c h) mod 2 ^ k) = es ! tk c h"
| "pc_ok k c q es (P5 h) \<longleftrightarrow> p_tail q = h \<and> tk c h < length es \<and>
     nodes q ! ((unat c + tk c h) mod 2 ^ k) = es ! tk c h"
| "pc_ok k c q es (P6 h t) \<longleftrightarrow> p_tail q = h \<and> t = h \<and> tk c h < length es \<and>
     nodes q ! ((unat c + tk c h) mod 2 ^ k) = es ! tk c h"
| "pc_ok k c q es (C1 h) \<longleftrightarrow> tk c h \<le> tk c (c_head q)"
| "pc_ok k c q es (C2 h pt) \<longleftrightarrow> tk c h \<le> tk c (c_head q) \<and> tk c h \<le> tk c pt \<and>
     tk c pt \<le> tk c (p_tail q)"
| "pc_ok k c q es (C3 h) \<longleftrightarrow> tk c (c_tail q) \<le> tk c h \<and> tk c h < tk c (c_head q)"
| "pc_ok k c q es (C4 h v) \<longleftrightarrow> tk c (c_tail q) \<le> tk c h \<and> tk c h < tk c (c_head q) \<and>
     v = es ! tk c h"
| "pc_ok k c q es (C5 h v) \<longleftrightarrow> c_tail q = h \<and> tk c h < tk c (c_head q) \<and> v = es ! tk c h"
| "pc_ok k c q es (C6 h v t) \<longleftrightarrow> c_tail q = h \<and> t = h \<and> tk c h < tk c (c_head q) \<and>
     v = es ! tk c h"
| "pc_ok k c q es Fault \<longleftrightarrow> False"
| "pc_ok k c q es _ \<longleftrightarrow> True"

definition cinv :: "nat \<Rightarrow> 32 word \<Rightarrow> cstate \<Rightarrow> bool" where
  "cinv k c s \<longleftrightarrow> (let q = queue s; es = enqs s in
     k \<le> 13 \<and> p_mask q = 2 ^ k - 1 \<and> 2 ^ k \<le> length (nodes q) \<and>
     tk c (p_head q) = length es \<and> outs s = take (tk c (c_tail q)) es \<and>
     tk c (c_tail q) \<le> tk c (c_head q) \<and> tk c (c_head q) \<le> tk c (p_tail q) \<and>
     tk c (p_tail q) \<le> length es \<and> length es < tk c (c_tail q) + 2 ^ k \<and>
     (\<forall>i. tk c (c_tail q) \<le> i \<and> i < tk c (p_tail q)
        \<longrightarrow> nodes q ! ((unat c + i) mod 2 ^ k) = es ! i) \<and>
     (\<forall>t. pc_ok k c q es (pcs s t)))"

lemma cinvD:
  assumes "cinv k c s"
  shows cinv_mask: "k \<le> 13" "p_mask (queue s) = 2 ^ k - 1" "2 ^ k \<le> length (nodes (queue s))"
    and cinv_head: "tk c (p_head (queue s)) = length (enqs s)"
    and cinv_outs: "outs s = take (tk c (c_tail (queue s))) (enqs s)"
    and cinv_order: "tk c (c_tail (queue s)) \<le> tk c (c_head (queue s))"
      "tk c (c_head (queue s)) \<le> tk c (p_tail (queue s))"
      "tk c (p_tail (queue s)) \<le> length (enqs s)"
      "length (enqs s) < tk c (c_tail (queue s)) + 2 ^ k"
    and cinv_slots: "\<And>i. tk c (c_tail (queue s)) \<le> i \<Longrightarrow> i < tk c (p_tail (queue s))
        \<Longrightarrow> nodes (queue s) ! ((unat c + i) mod 2 ^ k) = enqs s ! i"
    and cinv_pcs: "\<And>t. pc_ok k c (queue s) (enqs s) (pcs s t)"
  using assms unfolding cinv_def Let_def by blast+

lemma cinvI:
  assumes "k \<le> 13" "p_mask q = 2 ^ k - 1" "2 ^ k \<le> length (nodes q)"
    and "tk c (p_head q) = length es" "os = take (tk c (c_tail q)) es"
    and "tk c (c_tail q) \<le> tk c (c_head q)" "tk c (c_head q) \<le> tk c (p_tail q)"
    and "tk c (p_tail q) \<le> length es" "length es < tk c (c_tail q) + 2 ^ k"
    and "\<And>i. tk c (c_tail q) \<le> i \<Longrightarrow> i < tk c (p_tail q)
      \<Longrightarrow> nodes q ! ((unat c + i) mod 2 ^ k) = es ! i"
    and "\<And>t. pc_ok k c q es (ps t)"
  shows "cinv k c \<lparr>queue = q, pcs = ps, enqs = es, outs = os\<rparr>"
  using assms unfolding cinv_def Let_def by (simp only: cstate.simps simp_thms) blast

definition owned_once :: "(pc \<Rightarrow> 32 word option) \<Rightarrow> (nat \<Rightarrow> pc) \<Rightarrow> bool" where
  "owned_once ticket p \<longleftrightarrow> (\<forall>t u h. ticket (p t) = Some h \<and> ticket (p u) = Some h \<longrightarrow> t = u)"

definition all_owned ::
  "(pc \<Rightarrow> 32 word option) \<Rightarrow> 32 word \<Rightarrow> nat \<Rightarrow> nat \<Rightarrow> (nat \<Rightarrow> pc) \<Rightarrow> bool" where
  "all_owned ticket c lo hi p \<longleftrightarrow>
     (\<forall>h. lo \<le> tk c h \<and> tk c h < hi \<longrightarrow> (\<exists>t. ticket (p t) = Some h))"


definition full_inv :: "nat \<Rightarrow> 32 word \<Rightarrow> cstate \<Rightarrow> bool" where
  "full_inv k c s \<longleftrightarrow> cinv k c s \<and> owned_once pticket (pcs s) \<and> owned_once cticket (pcs s) \<and>
     all_owned pticket c (tk c (p_tail (queue s))) (length (enqs s)) (pcs s) \<and>
     all_owned cticket c (tk c (c_tail (queue s))) (tk c (c_head (queue s))) (pcs s)"

lemmas inv_defs = full_inv_def cinv_def Let_def

lemma full_init: "at_rest k c s \<Longrightarrow> full_inv k c s"
  by (auto simp: inv_defs at_rest_def owned_once_def all_owned_def)

lemma owned_once_keep:
  "owned_once ticket p \<Longrightarrow> ticket pc' = ticket (p t) \<or> ticket pc' = None
   \<Longrightarrow> owned_once ticket (p(t := pc'))"
  unfolding owned_once_def by (metis fun_upd_apply option.distinct(1))

lemma owned_once_new:
  "owned_once ticket p \<Longrightarrow> ticket pc' = Some h \<Longrightarrow> (\<And>u. ticket (p u) \<noteq> Some h)
   \<Longrightarrow> owned_once ticket (p(t := pc'))"
  unfolding owned_once_def by (metis fun_upd_apply option.inject)

lemma all_owned_keep:
  assumes "all_owned ticket c lo hi p" "ticket pc' = ticket (p t)"
  shows "all_owned ticket c lo hi (p(t := pc'))"
proof -
  have "ticket ((p(t := pc')) u) = ticket (p u)" for u using assms(2) by simp
  with assms(1) show ?thesis by (simp only: all_owned_def)
qed

lemma all_owned_new:
  assumes "all_owned ticket c lo hi p" "ticket (p t) = None" "ticket pc' = Some h" "tk c h = hi"
  shows "all_owned ticket c lo (hi + 1) (p(t := pc'))"
  unfolding all_owned_def
proof (intro allI impI)
  fix g assume g: "lo \<le> tk c g \<and> tk c g < hi + 1"
  show "\<exists>u. ticket ((p(t := pc')) u) = Some g"
  proof (cases "tk c g = hi")
    case True
    then have "g = h" unfolding assms(4) [symmetric] tk_eq_iff .
    then show ?thesis using assms(3) by (intro exI [of _ t]) simp
  next
    case False
    with g assms(1) obtain u where "ticket (p u) = Some g" by (auto simp: all_owned_def)
    then show ?thesis using assms(2) by (intro exI [of _ u]) auto
  qed
qed

lemma all_owned_release:
  assumes "all_owned ticket c lo hi p" "ticket (p t) = Some h" "tk c h = lo"
  shows "all_owned ticket c (lo + 1) hi (p(t := pc'))"
  unfolding all_owned_def
proof (intro allI impI)
  fix g assume g: "lo + 1 \<le> tk c g \<and> tk c g < hi"
  then have "lo \<le> tk c g \<and> tk c g < hi" by simp
  with assms(1) obtain u where u: "ticket (p u) = Some g" by (auto simp: all_owned_def)
  with g assms(2,3) have "u \<noteq> t" by auto
  with u show "\<exists>u. ticket ((p(t := pc')) u) = Some g" by (intro exI [of _ u]) simp
qed

text \<open>Steps that touch neither the queue nor the history.\<close>

lemma local_step:
  assumes "full_inv k c s" "pc_ok k c (queue s) (enqs s) pc'"
    and "pticket pc' = pticket (pcs s t)" "cticket pc' = cticket (pcs s t)"
  shows "full_inv k c (s\<lparr>pcs := (pcs s)(t := pc')\<rparr>)"
  using assms by (simp add: inv_defs owned_once_keep all_owned_keep)

lemma run_thread_local:
  "tstep (queue s) (pcs s t) = (queue s, pc', [], []) \<Longrightarrow> run_thread t s = s\<lparr>pcs := (pcs s)(t := pc')\<rparr>"
  by (simp add: run_thread_def)

text \<open>Different tickets of the window have different slots.\<close>

lemma slot_inj:
  assumes "(a + i) mod n = (a + j) mod (n :: nat)" "lo \<le> i" "i < lo + n" "lo \<le> j" "j < lo + n"
  shows "i = j"
proof -
  have "a + lo + (i - lo) = a + i" "a + lo + (j - lo) = a + j" using assms(2,4) by linarith+
  with assms(1) have "(a + lo + (i - lo)) mod n = (a + lo + (j - lo)) mod n" by (simp only:)
  moreover have "i - lo < n" "j - lo < n" using assms(2-5) by linarith+
  ultimately have "i - lo = j - lo" by (rule mod_add_inj)
  with assms(2,4) show ?thesis by linarith
qed

lemma pc_ok_pticket:
  "pc_ok k c q es p \<Longrightarrow> pticket p = Some h \<Longrightarrow> tk c (p_tail q) \<le> tk c h \<and> tk c h < length es"
  by (cases p) auto

lemma pc_ok_cticket:
  "pc_ok k c q es p \<Longrightarrow> cticket p = Some h \<Longrightarrow> tk c (c_tail q) \<le> tk c h \<and> tk c h < tk c (c_head q)"
  by (cases p) auto


section \<open>Steps that change the queue\<close>

text \<open>What the other threads know survives each change.\<close>

lemma pc_ok_enq:
  "pc_ok k c q es p \<Longrightarrow> pc_ok k c (q\<lparr>p_head := h\<rparr>) (es @ [x]) p" if "tk c (c_head q) \<le> length es"
  using that by (cases p) (auto simp: nth_append)

lemma pc_ok_write:
  assumes "pc_ok k c q es p" "pticket p \<noteq> Some h"
    and "tk c (c_tail q) \<le> tk c h" "tk c h < tk c (c_tail q) + 2 ^ k"
    and "tk c (c_tail q) \<le> tk c (p_tail q)" "length es \<le> tk c (c_tail q) + 2 ^ k"
  shows "pc_ok k c (q\<lparr>nodes := (nodes q)[(unat c + tk c h) mod 2 ^ k := x]\<rparr>) es p"
proof -
  have "(unat c + tk c h) mod 2 ^ k \<noteq> (unat c + tk c g) mod 2 ^ k" if "pticket p = Some g" for g
    using that slot_inj [of "unat c" "tk c h" "2 ^ k" "tk c g" "tk c (c_tail q)"]
      pc_ok_pticket [OF assms(1) that] assms by (auto simp: tk_eq_iff)
  with assms(1) show ?thesis by (cases p) auto
qed

lemma pc_ok_p_tail:
  assumes "pc_ok k c q es p" "pticket p \<noteq> Some (p_tail q)" "tk c (p_tail q) + 1 < 2 ^ 32"
  shows "pc_ok k c (q\<lparr>p_tail := p_tail q + 1\<rparr>) es p"
proof -
  have "tk c (p_tail q) \<noteq> tk c g" if "pticket p = Some g" for g
    using that assms(2) by (auto simp: tk_eq_iff)
  with assms show ?thesis by (cases p) (auto simp: tk_Suc)
qed

lemma pc_ok_c_head:
  "pc_ok k c q es p \<Longrightarrow> tk c (c_head q) + 1 < 2 ^ 32 \<Longrightarrow> pc_ok k c (q\<lparr>c_head := c_head q + 1\<rparr>) es p"
  by (cases p) (auto simp: tk_Suc)

lemma pc_ok_c_tail:
  assumes "pc_ok k c q es p" "cticket p \<noteq> Some (c_tail q)" "tk c (c_tail q) + 1 < 2 ^ 32"
  shows "pc_ok k c (q\<lparr>c_tail := c_tail q + 1\<rparr>) es p"
proof -
  have "tk c (c_tail q) \<noteq> tk c g" if "cticket p = Some g" for g
    using that assms(2) by (auto simp: tk_eq_iff)
  with assms show ?thesis by (cases p) (auto simp: tk_Suc)
qed

lemma owned_by_other:
  "owned_once ticket p \<Longrightarrow> ticket (p t) = Some h \<Longrightarrow> u \<noteq> t \<Longrightarrow> ticket (p u) \<noteq> Some h"
  unfolding owned_once_def by blast

text \<open>The compare-and-swap of a producer.\<close>

lemma step_P2:
  assumes inv: "full_inv k c s" and pc: "pcs s t = P2 node h ct"
    and room: "\<not> (p_mask (queue s) + ct) - h < 1" and cas: "p_head (queue s) = h"
    and small: "length (enqs s) + 1 < 2 ^ 32"
  shows "full_inv k c (run_thread t s)"
proof -
  let ?q = "queue s" and ?es = "enqs s"
  have I: "cinv k c s" using inv by (simp add: full_inv_def)
  note D = cinvD [OF I]
  have run: "run_thread t s = \<lparr>queue = ?q\<lparr>p_head := h + 1\<rparr>, pcs = (pcs s)(t := P3 node h),
      enqs = ?es @ [node], outs = outs s\<rparr>"
    using pc room cas by (simp add: run_thread_def)
  have p: "pc_ok k c ?q ?es (P2 node h ct)" using cinv_pcs [OF I, of t] pc by simp
  have h: "tk c h = length ?es" using cinv_head [OF I] cas by simp
  have "tk c h + 1 \<noteq> tk c ct + 2 ^ k" using tk_full [of c h ct k] room cinv_mask(2) [OF I] by auto
  then have win: "length ?es + 1 < tk c (c_tail ?q) + 2 ^ k" using p h by simp
  have hd: "tk c (h + 1) = length ?es + 1" using tk_Suc [of c h] small h by simp
  have noown: "pticket (pcs s u) \<noteq> Some h" for u
    using pc_ok_pticket [OF cinv_pcs [OF I], of u h] h by auto
  have ch: "tk c (c_head ?q) \<le> length ?es" using cinv_order(2,3) [OF I] by simp
  have pcs: "pc_ok k c (?q\<lparr>p_head := h + 1\<rparr>) (?es @ [node]) (((pcs s)(t := P3 node h)) u)" for u
    using pc_ok_enq [OF ch cinv_pcs [OF I]] h cinv_order(3) [OF I] by simp
  have "cinv k c (run_thread t s)"
    unfolding run by (rule cinvI) (use cinv_mask [OF I] cinv_outs [OF I] cinv_order [OF I]
      cinv_slots [OF I] win hd pcs in \<open>simp_all add: nth_append\<close>)
  moreover have "all_owned pticket c (tk c (p_tail ?q)) (length ?es + 1) ((pcs s)(t := P3 node h))"
    using inv pc h by (intro all_owned_new [where h = h]) (simp_all add: full_inv_def)
  ultimately show ?thesis
    using inv pc noown unfolding run
    by (simp add: full_inv_def owned_once_new owned_once_keep all_owned_keep)
qed

text \<open>The write of the slot.\<close>

lemma slot_in_range:
  assumes "cinv k c s"
  shows slot_index: "unat (h AND p_mask (queue s)) = (unat c + tk c h) mod 2 ^ k"
    and slot_bound: "(unat c + tk c h) mod 2 ^ k < length (nodes (queue s))"
proof -
  note m = cinv_mask [OF assms]
  show "unat (h AND p_mask (queue s)) = (unat c + tk c h) mod 2 ^ k"
    using tk_slot [of k h c] m(1) unfolding m(2) by simp
  have "(unat c + tk c h) mod 2 ^ k < 2 ^ k" by simp
  with m(3) show "(unat c + tk c h) mod 2 ^ k < length (nodes (queue s))" by (rule less_le_trans [rotated])
qed

lemma step_P3:
  assumes inv: "full_inv k c s" and pc: "pcs s t = P3 node h"
  shows "full_inv k c (run_thread t s)"
proof -
  let ?q = "queue s" and ?es = "enqs s"
  let ?i = "(unat c + tk c h) mod 2 ^ k"
  have I: "cinv k c s" using inv by (simp add: full_inv_def)
  note i = slot_index [OF I, of h] slot_bound [OF I, of h]
  let ?q' = "?q\<lparr>nodes := (nodes ?q)[?i := node]\<rparr>"
  have run: "run_thread t s = \<lparr>queue = ?q', pcs = (pcs s)(t := P4 h), enqs = ?es, outs = outs s\<rparr>"
    using pc i by (simp add: run_thread_def Let_def)
  have p: "pc_ok k c ?q ?es (P3 node h)" using cinv_pcs [OF I, of t] pc by simp
  have win: "tk c (c_tail ?q) \<le> tk c h" "tk c h < tk c (c_tail ?q) + 2 ^ k"
    "tk c (c_tail ?q) \<le> tk c (p_tail ?q)" "length ?es \<le> tk c (c_tail ?q) + 2 ^ k"
    using cinv_order [OF I] p by auto
  have other: "pc_ok k c ?q' ?es (pcs s u)" if "u \<noteq> t" for u
  proof (rule pc_ok_write [OF cinv_pcs [OF I] _ win])
    show "pticket (pcs s u) \<noteq> Some h"
      using owned_by_other [of pticket "pcs s" t h u] inv pc that by (simp add: full_inv_def)
  qed
  have kept: "nodes ?q' ! ((unat c + j) mod 2 ^ k) = ?es ! j"
    if j: "tk c (c_tail ?q) \<le> j" "j < tk c (p_tail ?q)" for j
  proof -
    have "j < tk c (c_tail ?q) + 2 ^ k" "tk c h \<noteq> j" using j p cinv_order [OF I] by auto
    with slot_inj [of "unat c" "tk c h" "2 ^ k" j "tk c (c_tail ?q)"] j win
    have "?i \<noteq> (unat c + j) mod 2 ^ k" by blast
    then show ?thesis using cinv_slots [OF I j] by simp
  qed
  have pcs: "pc_ok k c ?q' ?es (((pcs s)(t := P4 h)) u)" for u
    using other p i(2) by simp
  have "cinv k c (run_thread t s)"
    unfolding run by (rule cinvI) (use cinv_mask [OF I] cinv_head [OF I] cinv_outs [OF I]
      cinv_order [OF I] kept pcs in simp_all)
  then show ?thesis
    using inv pc unfolding run by (simp add: full_inv_def owned_once_keep all_owned_keep)
qed

text \<open>The producer releases its slot by moving the tail.\<close>

lemma step_P6:
  assumes inv: "full_inv k c s" and pc: "pcs s t = P6 h r" and small: "length (enqs s) < 2 ^ 32"
  shows "full_inv k c (run_thread t s)"
proof -
  let ?q = "queue s" and ?es = "enqs s"
  have I: "cinv k c s" using inv by (simp add: full_inv_def)
  have p: "p_tail ?q = h" "r = h" "tk c h < length ?es"
    "nodes ?q ! ((unat c + tk c h) mod 2 ^ k) = ?es ! tk c h"
    using cinv_pcs [OF I, of t] pc by auto
  let ?q' = "?q\<lparr>p_tail := p_tail ?q + 1\<rparr>"
  have run: "run_thread t s = \<lparr>queue = ?q', pcs = (pcs s)(t := Idle), enqs = ?es, outs = outs s\<rparr>"
    using pc p by (simp add: run_thread_def)
  have tail: "tk c (p_tail ?q + 1) = tk c (p_tail ?q) + 1"
    using tk_Suc [of c "p_tail ?q"] p small by simp
  have other: "pc_ok k c ?q' ?es (pcs s u)" if "u \<noteq> t" for u
  proof (rule pc_ok_p_tail [OF cinv_pcs [OF I]])
    show "pticket (pcs s u) \<noteq> Some (p_tail ?q)"
      using owned_by_other [of pticket "pcs s" t h u] inv pc p that by (simp add: full_inv_def)
    show "tk c (p_tail ?q) + 1 < 2 ^ 32" using p small by simp
  qed
  have kept: "nodes ?q' ! ((unat c + j) mod 2 ^ k) = ?es ! j"
    if "tk c (c_tail ?q) \<le> j" "j < tk c (p_tail ?q) + 1" for j
    using cinv_slots [OF I that(1)] that(2) p by (cases "j = tk c h") auto
  have "cinv k c (run_thread t s)"
    unfolding run by (rule cinvI) (use cinv_mask [OF I] cinv_head [OF I] cinv_outs [OF I]
      cinv_order [OF I] kept other tail p in simp_all)
  moreover have "all_owned pticket c (tk c (p_tail ?q) + 1) (length ?es) ((pcs s)(t := Idle))"
    using inv pc p by (intro all_owned_release [where h = h]) (simp_all add: full_inv_def)
  ultimately show ?thesis
    using inv pc tail unfolding run by (simp add: full_inv_def owned_once_keep all_owned_keep)
qed

text \<open>The compare-and-swap of a consumer.\<close>

lemma step_C2:
  assumes inv: "full_inv k c s" and pc: "pcs s t = C2 h pt"
    and some: "\<not> pt - h < 1" and cas: "c_head (queue s) = h" and small: "length (enqs s) < 2 ^ 32"
  shows "full_inv k c (run_thread t s)"
proof -
  let ?q = "queue s" and ?es = "enqs s"
  have I: "cinv k c s" using inv by (simp add: full_inv_def)
  have p: "tk c h \<le> tk c pt" "tk c pt \<le> tk c (p_tail ?q)" using cinv_pcs [OF I, of t] pc by auto
  let ?q' = "?q\<lparr>c_head := c_head ?q + 1\<rparr>"
  have run: "run_thread t s = \<lparr>queue = ?q', pcs = (pcs s)(t := C3 h), enqs = ?es, outs = outs s\<rparr>"
    using pc some cas by (simp add: run_thread_def)
  have "pt \<noteq> h" using some by auto
  then have lt: "tk c h < tk c (p_tail ?q)" using p tk_eq_iff [of c h pt] by simp
  then have bound: "tk c (c_head ?q) + 1 < 2 ^ 32" using cinv_order(3) [OF I] small cas by simp
  have hd: "tk c (c_head ?q + 1) = tk c h + 1" using tk_Suc [OF bound] cas by simp
  have noown: "cticket (pcs s u) \<noteq> Some h" for u
    using pc_ok_cticket [OF cinv_pcs [OF I], of u h] cas by auto
  have pcs: "pc_ok k c ?q' ?es (((pcs s)(t := C3 h)) u)" for u
    using pc_ok_c_head [OF cinv_pcs [OF I] bound] hd cinv_order(1) [OF I] cas by simp
  have "cinv k c (run_thread t s)"
    unfolding run by (rule cinvI) (use cinv_mask [OF I] cinv_head [OF I] cinv_outs [OF I]
      cinv_order [OF I] cinv_slots [OF I] pcs hd lt cas in simp_all)
  moreover have "all_owned cticket c (tk c (c_tail ?q)) (tk c (c_head ?q) + 1) ((pcs s)(t := C3 h))"
    using inv pc cas by (intro all_owned_new [where h = h]) (simp_all add: full_inv_def)
  ultimately show ?thesis
    using inv pc noown hd cas unfolding run
    by (simp add: full_inv_def owned_once_new owned_once_keep all_owned_keep)
qed

text \<open>The consumer hands out its node by moving the tail.\<close>

lemma step_C6:
  assumes inv: "full_inv k c s" and pc: "pcs s t = C6 h v r" and small: "length (enqs s) < 2 ^ 32"
  shows "full_inv k c (run_thread t s)"
proof -
  let ?q = "queue s" and ?es = "enqs s"
  have I: "cinv k c s" using inv by (simp add: full_inv_def)
  have p: "c_tail ?q = h" "r = h" "tk c h < tk c (c_head ?q)" "v = ?es ! tk c h"
    using cinv_pcs [OF I, of t] pc by auto
  let ?q' = "?q\<lparr>c_tail := c_tail ?q + 1\<rparr>"
  have run: "run_thread t s = \<lparr>queue = ?q', pcs = (pcs s)(t := Idle), enqs = ?es, outs = outs s @ [v]\<rparr>"
    using pc p by (simp add: run_thread_def)
  have lt: "tk c h < length ?es" using p(3) cinv_order [OF I] by simp
  have bound: "tk c (c_tail ?q) + 1 < 2 ^ 32" using lt p small by simp
  have tail: "tk c (c_tail ?q + 1) = tk c (c_tail ?q) + 1" by (rule tk_Suc [OF bound])
  have other: "pc_ok k c ?q' ?es (pcs s u)" if "u \<noteq> t" for u
  proof (rule pc_ok_c_tail [OF cinv_pcs [OF I] _ bound])
    show "cticket (pcs s u) \<noteq> Some (c_tail ?q)"
      using owned_by_other [of cticket "pcs s" t h u] inv pc p that by (simp add: full_inv_def)
  qed
  have outs: "outs s @ [v] = take (tk c (c_tail ?q) + 1) ?es"
    using cinv_outs [OF I] p lt by (simp add: take_Suc_conv_app_nth)
  have "cinv k c (run_thread t s)"
    unfolding run by (rule cinvI) (use cinv_mask [OF I] cinv_head [OF I] outs
      cinv_order [OF I] cinv_slots [OF I] other tail p in simp_all)
  moreover have "all_owned cticket c (tk c (c_tail ?q) + 1) (tk c (c_head ?q)) ((pcs s)(t := Idle))"
    using inv pc p by (intro all_owned_release [where h = h]) (simp_all add: full_inv_def)
  ultimately show ?thesis
    using inv pc tail unfolding run by (simp add: full_inv_def owned_once_keep all_owned_keep)
qed


section \<open>Reachable states\<close>

lemma enqs_grow: "cstep s s' \<Longrightarrow> length (enqs s) \<le> length (enqs s')"
  by (auto elim!: cstepE simp: run_thread_def split: prod.splits)

lemma run_thread_inv:
  assumes inv: "full_inv k c s" and small: "length (enqs (run_thread t s)) < 2 ^ 32"
  shows "full_inv k c (run_thread t s)"
proof -
  have I: "cinv k c s" using inv by (simp add: full_inv_def)
  note pc = cinv_pcs [OF I, of t] and order = cinv_order [OF I] and head = cinv_head [OF I]
  have le: "length (enqs s) < 2 ^ 32" using enqs_grow [OF cstep.run, of s t] small by simp
  note loc = local_step [OF inv] and rl = run_thread_local
  show ?thesis
  proof (cases "pcs s t")
    case Idle
    show ?thesis by (subst rl [of _ _ Idle]) (use Idle in \<open>auto intro!: loc\<close>)
  next
    case (P0 node)
    show ?thesis by (subst rl [of _ _ "P1 node (p_head (queue s))"]) (use P0 loc head in auto)
  next
    case (P1 node h)
    show ?thesis
      by (subst rl [of _ _ "P2 node h (c_tail (queue s))"]) (use P1 pc order in \<open>auto intro!: loc\<close>)
  next
    case (P2 node h ct)
    consider "(p_mask (queue s) + ct) - h < 1"
      | "\<not> (p_mask (queue s) + ct) - h < 1" "p_head (queue s) = h"
      | "\<not> (p_mask (queue s) + ct) - h < 1" "p_head (queue s) \<noteq> h" by blast
    then show ?thesis
    proof cases
      case 1
      then show ?thesis by (subst rl [of _ _ Idle]) (use P2 in \<open>auto intro!: loc\<close>)
    next
      case 2
      have "length (enqs s) + 1 < 2 ^ 32" using small 2 P2 by (simp add: run_thread_def)
      then show ?thesis by (rule step_P2 [OF inv P2 2])
    next
      case 3
      then show ?thesis by (subst rl [of _ _ "P0 node"]) (use P2 in \<open>auto intro!: loc\<close>)
    qed
  next
    case (P3 node h)
    then show ?thesis by (rule step_P3 [OF inv])
  next
    case (P4 h)
    show ?thesis
      by (subst rl [of _ _ "if p_tail (queue s) \<noteq> h then P4 h else P5 h"])
        (use P4 pc in \<open>auto intro!: loc\<close>)
  next
    case (P5 h)
    show ?thesis
      by (subst rl [of _ _ "P6 h (p_tail (queue s))"]) (use P5 pc in \<open>auto intro!: loc\<close>)
  next
    case (P6 h r)
    then show ?thesis using le by (rule step_P6 [OF inv])
  next
    case C0
    show ?thesis by (subst rl [of _ _ "C1 (c_head (queue s))"]) (use C0 in \<open>auto intro!: loc\<close>)
  next
    case (C1 h)
    show ?thesis
      by (subst rl [of _ _ "C2 h (p_tail (queue s))"]) (use C1 pc order in \<open>auto intro!: loc\<close>)
  next
    case (C2 h pt)
    consider "pt - h < 1" | "\<not> pt - h < 1" "c_head (queue s) = h"
      | "\<not> pt - h < 1" "c_head (queue s) \<noteq> h" by blast
    then show ?thesis
    proof cases
      case 1
      then show ?thesis by (subst rl [of _ _ Idle]) (use C2 in \<open>auto intro!: loc\<close>)
    next
      case 2
      then show ?thesis using le by (rule step_C2 [OF inv C2])
    next
      case 3
      then show ?thesis by (subst rl [of _ _ C0]) (use C2 in \<open>auto intro!: loc\<close>)
    qed
  next
    case (C3 h)
    have v: "nodes (queue s) ! ((unat c + tk c h) mod 2 ^ k) = enqs s ! tk c h"
      using cinv_slots [OF I, of "tk c h"] pc order C3 by simp
    show ?thesis
      by (subst rl [of _ _ "C4 h (enqs s ! tk c h)"])
        (use C3 pc v slot_index [OF I, of h] slot_bound [OF I, of h] in \<open>auto intro!: loc\<close>)
  next
    case (C4 h v)
    show ?thesis
      by (subst rl [of _ _ "if c_tail (queue s) \<noteq> h then C4 h v else C5 h v"])
        (use C4 pc in \<open>auto intro!: loc\<close>)
  next
    case (C5 h v)
    show ?thesis
      by (subst rl [of _ _ "C6 h v (c_tail (queue s))"]) (use C5 pc in \<open>auto intro!: loc\<close>)
  next
    case (C6 h v r)
    then show ?thesis using le by (rule step_C6 [OF inv])
  qed (use pc inv in \<open>simp_all add: run_thread_def\<close>)
qed

lemma cstep_inv:
  assumes "cstep s s'" "full_inv k c s" "length (enqs s') < 2 ^ 32"
  shows "full_inv k c s'"
  using assms(1)
proof cases
  case (QueueMultiProducerEnqueue t node)
  then show ?thesis using local_step [OF assms(2), of "P0 node" t] by simp
next
  case (QueueMultiConsumerDequeue t)
  then show ?thesis using local_step [OF assms(2), of C0 t] by simp
next
  case (run t)
  then show ?thesis using run_thread_inv [OF assms(2), of t] assms(3) by simp
qed

lemma reach_inv: "reach k c s \<Longrightarrow> length (enqs s) < 2 ^ 32 \<Longrightarrow> full_inv k c s"
proof (induction rule: reach.induct)
  case (init s)
  then show ?case by (simp add: full_init)
next
  case (step s s')
  then show ?case using cstep_inv enqs_grow [of s s'] by fastforce
qed

text \<open>A thread that waits for its turn waits for a thread that can move on by itself.\<close>

fun waits :: "LockFreeQueue \<Rightarrow> pc \<Rightarrow> bool" where
  "waits q (P4 h) \<longleftrightarrow> p_tail q \<noteq> h"
| "waits q (C4 h v) \<longleftrightarrow> c_tail q \<noteq> h"
| "waits q p \<longleftrightarrow> False"

lemma turn_holder_p:
  assumes "full_inv k c s" "waits (queue s) (P4 h)" "pcs s t = P4 h"
  shows "\<exists>u. pticket (pcs s u) = Some (p_tail (queue s)) \<and> \<not> waits (queue s) (pcs s u)"
proof -
  have I: "cinv k c s" using assms(1) by (simp add: full_inv_def)
  have "tk c (p_tail (queue s)) < length (enqs s)" using cinv_pcs [OF I, of t] assms(3) by simp
  with assms(1) obtain u where u: "pticket (pcs s u) = Some (p_tail (queue s))"
    unfolding full_inv_def all_owned_def by blast
  then have "\<not> waits (queue s) (pcs s u)" by (cases "pcs s u") auto
  with u show ?thesis by blast
qed

lemma turn_holder_c:
  assumes "full_inv k c s" "waits (queue s) (C4 h v)" "pcs s t = C4 h v"
  shows "\<exists>u. cticket (pcs s u) = Some (c_tail (queue s)) \<and> \<not> waits (queue s) (pcs s u)"
proof -
  have I: "cinv k c s" using assms(1) by (simp add: full_inv_def)
  have "tk c (c_tail (queue s)) < tk c (c_head (queue s))"
    using cinv_pcs [OF I, of t] assms(3) by simp
  with assms(1) obtain u where u: "cticket (pcs s u) = Some (c_tail (queue s))"
    unfolding full_inv_def all_owned_def by blast
  then have "\<not> waits (queue s) (pcs s u)" by (cases "pcs s u") auto
  with u show ?thesis by blast
qed

section \<open>Properties\<close>

text \<open>C8: In every interleaving of any number of producers and consumers that starts at rest at
  any counter value, and while fewer than \<open>2 ^ 32\<close> enqueues have succeeded: the nodes handed
  out are, in this order, a prefix of the nodes enqueued (none is lost, duplicated, reordered
  or read before it is written), at most \<open>unitNum - 1\<close> nodes are in the queue, and no thread
  leaves the slots.\<close>

theorem queue_concurrent_fifo:
  assumes "reach k c s" "length (enqs s) < 2 ^ 32"
  shows "outs s = take (length (outs s)) (enqs s) \<and> length (enqs s) < length (outs s) + 2 ^ k
    \<and> (\<forall>t. pcs s t \<noteq> Fault)"
proof -
  have I: "cinv k c s" using reach_inv [OF assms] by (simp add: full_inv_def)
  have "tk c (c_tail (queue s)) \<le> length (enqs s)" using cinv_order [OF I] by linarith
  then have "length (outs s) = tk c (c_tail (queue s))" using cinv_outs [OF I] by simp
  moreover have "pcs s t \<noteq> Fault" for t using cinv_pcs [OF I, of t] by auto
  ultimately show ?thesis using cinv_outs [OF I] cinv_order [OF I] by metis
qed

text \<open>A run of two threads on a queue of four units whose counters are about to wrap.\<close>

definition rest_state :: cstate where
  "rest_state = \<lparr>queue = \<lparr>magic = QUEUE_HEADER_MAGIC, unitNum = 4,
       p_size = 4, p_mask = 3, p_head = - 1, p_tail = - 1, c_size = 4, c_mask = 3,
       c_head = - 1, c_tail = - 1, nodes = [0, 0, 0, 0]\<rparr>,
     pcs = (\<lambda>_. Idle), enqs = [], outs = []\<rparr>"

definition busy_state :: cstate where
  "busy_state = fold run_thread [0, 1, 0, 1, 0, 1, 1, 0, 1, 1, 0, 1]
     (rest_state\<lparr>pcs := (\<lambda>_. Idle)(0 := P0 7, 1 := P0 8)\<rparr>)"

lemma rest_reach: "reach 2 (- 1) rest_state"
  by (rule reach.init) (simp add: at_rest_def rest_state_def)

lemma fold_reach: "reach k c s \<Longrightarrow> reach k c (fold run_thread ts s)"
  by (induction ts arbitrary: s) (auto intro: reach.step cstep.run)

lemma busy_enqs: "enqs busy_state = [7, 8]"
  by code_simp

lemma busy_reach: "reach 2 (- 1) busy_state"
proof -
  let ?s = "rest_state\<lparr>pcs := (\<lambda>_. Idle)(0 := P0 7)\<rparr>"
  have "cstep rest_state (rest_state\<lparr>pcs := (pcs rest_state)(0 := P0 7)\<rparr>)"
    by (rule cstep.QueueMultiProducerEnqueue) (simp_all add: rest_state_def)
  then have 1: "reach 2 (- 1) ?s"
    using reach.step [OF rest_reach] by (simp add: rest_state_def)
  have "cstep ?s (?s\<lparr>pcs := (pcs ?s)(1 := P0 8)\<rparr>)"
    by (rule cstep.QueueMultiProducerEnqueue) simp_all
  then have "reach 2 (- 1) (?s\<lparr>pcs := (pcs ?s)(1 := P0 8)\<rparr>)" by (rule reach.step [OF 1])
  then have "reach 2 (- 1) (rest_state\<lparr>pcs := (\<lambda>_. Idle)(0 := P0 7, 1 := P0 8)\<rparr>)" by simp
  then show ?thesis unfolding busy_state_def by (rule fold_reach)
qed

theorem queue_concurrent_fifo_witness:
  "enqs busy_state \<noteq> [] \<and> outs busy_state = take (length (outs busy_state)) (enqs busy_state)
    \<and> length (enqs busy_state) < length (outs busy_state) + 2 ^ 2
    \<and> (\<forall>t. pcs busy_state t \<noteq> Fault)"
  using queue_concurrent_fifo [OF busy_reach] by (simp add: busy_enqs)

text \<open>C26: No deadlock: whenever a thread spins for the tail to reach its ticket, the thread whose
  turn it is exists, is in the same operation and does not spin.\<close>

theorem queue_turn_holder:
  assumes "reach k c s" "length (enqs s) < 2 ^ 32" "waits (queue s) (pcs s t)"
  shows "\<exists>u. \<not> waits (queue s) (pcs s u) \<and>
    (pticket (pcs s u) = Some (p_tail (queue s)) \<or> cticket (pcs s u) = Some (c_tail (queue s)))"
  using turn_holder_p [OF reach_inv [OF assms(1,2)]] turn_holder_c [OF reach_inv [OF assms(1,2)]]
    assms(3) by (cases "pcs s t") force+

theorem queue_turn_holder_witness:
  "\<exists>u. \<not> waits (queue busy_state) (pcs busy_state u) \<and>
    (pticket (pcs busy_state u) = Some (p_tail (queue busy_state))
     \<or> cticket (pcs busy_state u) = Some (c_tail (queue busy_state)))"
proof (rule queue_turn_holder [OF busy_reach])
  show "length (enqs busy_state) < 2 ^ 32" by (subst busy_enqs) simp
  show "waits (queue busy_state) (pcs busy_state 1)" by code_simp
qed

end
