(* ===== verification/Softbus_Utils.thy ===== *)
theory Softbus_Utils
  imports Softbus_Prelude
begin

text \<open>
  \<^verbatim>\<open>core/common/utils/softbus_utils.c\<close>: the hexadecimal conversions, the random string that is
  built from them, the string check, and the table of periodic timer callbacks. Buffers are
  byte lists with their real capacity; reading past the end of the input or writing past the
  end of the output is the outcome \<^const>\<open>None\<close>. (\<^verbatim>\<open>CreateSoftBusList\<close> is in the prelude.)
\<close>

unbundle bit_operations_syntax

section \<open>Hexadecimal strings\<close>

type_synonym byte = "8 word"

abbreviation (input) HEXIFY_UNIT_LEN :: int where "HEXIFY_UNIT_LEN \<equiv> 2"
abbreviation (input) HEX_MAX_NUM :: byte where "HEX_MAX_NUM \<equiv> 16"
abbreviation (input) DEC_MAX_NUM :: byte where "DEC_MAX_NUM \<equiv> 10"
abbreviation (input) HEX_MAX_BIT_NUM :: nat where "HEX_MAX_BIT_NUM \<equiv> 4"

text \<open>The value of one digit, as both halves of the decoding loop compute it.\<close>

definition hex_digit :: "byte \<Rightarrow> byte option" where
  "hex_digit c =
     (if 0x30 \<le> c \<and> c \<le> 0x39 then Some (c - 0x30)
      else if 0x61 \<le> c \<and> c \<le> 0x66 then Some (c - (0x61 - DEC_MAX_NUM))
      else if 0x41 \<le> c \<and> c \<le> 0x46 then Some (c - (0x41 - DEC_MAX_NUM))
      else None)"

text \<open>
  The decoding loop, with the number of output bytes still to produce, the room left in the
  output buffer and the rest of the input. The result is the return code and the bytes
  written.
\<close>

fun unhex_loop :: "nat \<Rightarrow> nat \<Rightarrow> byte list \<Rightarrow> (int \<times> byte list) option" where
  "unhex_loop 0 room inp = Some (SOFTBUS_OK, [])"
| "unhex_loop (Suc n) room inp =
     (case inp of
        [] \<Rightarrow> None
      | c # inp1 \<Rightarrow>
          (case hex_digit c of
             None \<Rightarrow> Some (SOFTBUS_ERR, [])
           | Some h \<Rightarrow>
               (case inp1 of
                  [] \<Rightarrow> None
                | c2 # inp2 \<Rightarrow>
                    (case hex_digit c2 of
                       None \<Rightarrow> Some (SOFTBUS_ERR, [])
                     | Some l \<Rightarrow>
                         if room = 0 then None
                         else map_option (apsnd ((#) (push_bit HEX_MAX_BIT_NUM h OR l)))
                                (unhex_loop n (room - 1) inp2)))))"

text \<open>
  \<open>outBuf\<close> is the capacity of the output buffer, or \<^const>\<open>None\<close> for a null pointer. The
  parameter \<^verbatim>\<open>outBufLen\<close> is ignored by the code. The division of C rounds towards zero.
\<close>

definition ConvertHexStringToBytes ::
  "nat option \<Rightarrow> 32 word \<Rightarrow> byte list option \<Rightarrow> int \<Rightarrow> (int \<times> byte list) option" where
  "ConvertHexStringToBytes outBuf outBufLen inBuf inLen =
     (case (outBuf, inBuf) of
        (Some room, Some inp) \<Rightarrow>
          if inLen mod HEXIFY_UNIT_LEN \<noteq> 0 then Some (SOFTBUS_ERR, [])
          else
            let outLen = word_of_int (inLen div HEXIFY_UNIT_LEN) :: 32 word
            in unhex_loop (unat outLen) room inp
      | _ \<Rightarrow> Some (SOFTBUS_ERR, []))"

definition hex_char :: "byte \<Rightarrow> byte" where
  "hex_char d = (if d < DEC_MAX_NUM then 0x30 + d else 0x61 + d - DEC_MAX_NUM)"

fun hex_loop :: "nat \<Rightarrow> nat \<Rightarrow> byte list \<Rightarrow> byte list option" where
  "hex_loop 0 room inp = Some []"
| "hex_loop (Suc n) room inp =
     (case inp of
        [] \<Rightarrow> None
      | b # inp' \<Rightarrow>
          if room < 2 then None
          else map_option (\<lambda>out. hex_char (b div HEX_MAX_NUM) # hex_char (b mod HEX_MAX_NUM) # out)
                 (hex_loop n (room - 2) inp'))"

definition ConvertBytesToHexString ::
  "nat option \<Rightarrow> 32 word \<Rightarrow> byte list option \<Rightarrow> int \<Rightarrow> (int \<times> byte list) option" where
  "ConvertBytesToHexString outBuf outBufLen inBuf inLen =
     (case (outBuf, inBuf) of
        (Some room, Some inp) \<Rightarrow>
          if outBufLen < word_of_int (inLen * HEXIFY_UNIT_LEN + 1) then Some (SOFTBUS_ERR, [])
          else map_option (Pair SOFTBUS_OK) (hex_loop (nat inLen) room inp)
      | _ \<Rightarrow> Some (SOFTBUS_ERR, []))"

text \<open>
  \<open>alloc\<close> is the outcome of the allocation and \<open>rand\<close> that of
  \<^verbatim>\<open>SoftBusGenerateRandomArray\<close> for a given length.
\<close>

definition GenerateRandomStr ::
  "bool \<Rightarrow> (nat \<Rightarrow> byte list option) \<Rightarrow> nat option \<Rightarrow> 32 word \<Rightarrow> (int \<times> byte list) option" where
  "GenerateRandomStr alloc rand str len =
     (if str = None \<or> len < 2 then Some (SOFTBUS_INVALID_PARAM, [])
      else
        let hexLen = len div 2 in
        if \<not> alloc then Some (SOFTBUS_MEM_ERR, [])
        else
          case rand (unat hexLen) of
            None \<Rightarrow> Some (SOFTBUS_ERR, [])
          | Some hexAuthId \<Rightarrow>
              (case ConvertBytesToHexString str len (Some hexAuthId) (sint hexLen) of
                 None \<Rightarrow> None
               | Some (ret, out) \<Rightarrow>
                   if ret \<noteq> SOFTBUS_OK then Some (SOFTBUS_ERR, out) else Some (SOFTBUS_OK, out)))"

definition IsValidString :: "string option \<Rightarrow> 32 word \<Rightarrow> bool" where
  "IsValidString input maxLen =
     (case input of
        None \<Rightarrow> False
      | Some s \<Rightarrow>
          let len = of_nat (length s) :: 32 word
          in if len = 0 \<or> maxLen \<le> len then False else True)"

section \<open>Timers\<close>

abbreviation (input) SOFTBUS_CONN_TIMER_FUN :: int where "SOFTBUS_CONN_TIMER_FUN \<equiv> 0"
abbreviation (input) SOFTBUS_MAX_TIMER_FUN_NUM :: int where "SOFTBUS_MAX_TIMER_FUN_NUM \<equiv> 8"

text \<open>\<^verbatim>\<open>g_timerId\<close> and \<^verbatim>\<open>g_timerFunList\<close>; callbacks and timer handles are addresses.\<close>

record timers =
  g_timerId :: "nat option"
  g_timerFunList :: "nat option list"

definition timers_reset :: timers where
  "timers_reset = \<lparr>g_timerId = None, g_timerFunList = replicate 8 None\<rparr>"

definition RegisterTimeoutCallback :: "int \<Rightarrow> nat option \<Rightarrow> timers \<Rightarrow> int \<times> timers" where
  "RegisterTimeoutCallback timerFunId callback g =
     (if callback = None \<or> timerFunId \<ge> SOFTBUS_MAX_TIMER_FUN_NUM
         \<or> timerFunId < SOFTBUS_CONN_TIMER_FUN then (SOFTBUS_ERR, g)
      else if g_timerFunList g ! nat timerFunId \<noteq> None then (SOFTBUS_OK, g)
      else (SOFTBUS_OK, g\<lparr>g_timerFunList := (g_timerFunList g)[nat timerFunId := callback]\<rparr>))"

text \<open>The callbacks that one tick of the timer runs, in their order.\<close>

definition HandleTimeoutFun :: "timers \<Rightarrow> nat list" where
  "HandleTimeoutFun g = concat (map (\<lambda>f. case f of None \<Rightarrow> [] | Some cb \<Rightarrow> [cb]) (g_timerFunList g))"

text \<open>\<open>create\<close> is the result of \<^verbatim>\<open>SoftBusCreateTimer\<close>, \<open>start\<close> that of \<^verbatim>\<open>SoftBusStartTimer\<close>.\<close>

definition SoftBusTimerInit :: "nat option \<Rightarrow> (nat option \<Rightarrow> int) \<Rightarrow> timers \<Rightarrow> int \<times> timers" where
  "SoftBusTimerInit create start g =
     (if g_timerId g \<noteq> None then (SOFTBUS_OK, g)
      else
        let g1 = g\<lparr>g_timerId := create\<rparr>
        in if start (g_timerId g1) \<noteq> SOFTBUS_OK then (SOFTBUS_ERR, g1\<lparr>g_timerId := None\<rparr>)
           else (SOFTBUS_OK, g1))"

definition SoftBusTimerDeInit :: "timers \<Rightarrow> timers" where
  "SoftBusTimerDeInit g = (if g_timerId g \<noteq> None then g\<lparr>g_timerId := None\<rparr> else g)"

section \<open>Facts on the conversions\<close>

lemma hex_digit_char: "d < 16 \<Longrightarrow> hex_digit (hex_char d) = Some d"
proof -
  assume d: "d < 16"
  have "list_all (\<lambda>d. hex_digit (hex_char d) = Some d) (map of_nat [0..<16])" by code_simp
  moreover have "d \<in> set (map of_nat [0..<16])"
    using d by (intro image_eqI [of _ _ "unat d", folded set_map] | simp add: word_less_nat_alt)+
  ultimately show ?thesis unfolding list_all_iff by blast
qed


lemma nibbles: "push_bit 4 (b div 16) OR b mod 16 = (b :: byte)"
proof -
  have "b div 16 = drop_bit 4 b" "b mod 16 = take_bit 4 b"
    by (simp_all add: drop_bit_eq_div take_bit_eq_mod)
  moreover have "push_bit 4 (drop_bit 4 b) OR take_bit 4 b = b"
    by (rule bit_eqI) (auto simp: bit_simps)
  ultimately show ?thesis by simp
qed

lemma nibble_bounds: "b div 16 < (16 :: byte)" "b mod 16 < (16 :: byte)"
proof -
  have "unat b < 2 ^ 8" using unsigned_less [where ?'a = nat, of b] by simp
  then show "b div 16 < 16" by (simp add: word_less_nat_alt unat_div less_mult_imp_div_less)
  show "b mod 16 < 16" by (simp add: word_less_nat_alt unat_mod)
qed

definition hex_encode :: "byte list \<Rightarrow> byte list" where
  "hex_encode bs = concat (map (\<lambda>b. [hex_char (b div 16), hex_char (b mod 16)]) bs)"

lemma hex_encode_simps [simp]:
  "hex_encode [] = []"
  "hex_encode (b # bs) = hex_char (b div 16) # hex_char (b mod 16) # hex_encode bs"
  by (simp_all add: hex_encode_def)

lemma length_hex_encode [simp]: "length (hex_encode bs) = 2 * length bs"
  by (induction bs) auto

lemma hex_loop_encode:
  "2 * length bs \<le> room \<Longrightarrow> hex_loop (length bs) room bs = Some (hex_encode bs)"
  by (induction bs arbitrary: room) auto

lemma unhex_loop_encode:
  "length bs \<le> room \<Longrightarrow> unhex_loop (length bs) room (hex_encode bs) = Some (SOFTBUS_OK, bs)"
  by (induction bs arbitrary: room)
    (auto simp: hex_digit_char nibble_bounds nibbles)

lemma word_of_small_int: "n < 2 ^ 32 \<Longrightarrow> unat (word_of_int (int n) :: 32 word) = n"
  by (simp add: unat_of_nat)

lemma ConvertBytesToHexString_ok:
  assumes "2 * length bs < 2 ^ 31" "2 * length bs < unat outLen" "2 * length bs \<le> room"
  shows "ConvertBytesToHexString (Some room) outLen (Some bs) (int (length bs))
    = Some (SOFTBUS_OK, hex_encode bs)"
proof -
  have "int (length bs) * 2 + 1 = int (2 * length bs + 1)" by simp
  moreover have "2 * length bs + 1 < 2 ^ 32" using assms(1) by simp
  ultimately have "unat (word_of_int (int (length bs) * 2 + 1) :: 32 word) = 2 * length bs + 1"
    by (metis word_of_small_int)
  then have "\<not> outLen < word_of_int (int (length bs) * 2 + 1)"
    using assms(2) by (simp add: word_less_nat_alt)
  then show ?thesis
    using hex_loop_encode [OF assms(3)] by (simp add: ConvertBytesToHexString_def)
qed

lemma ConvertHexStringToBytes_ok:
  assumes "2 * length bs < 2 ^ 31" "length bs \<le> room"
  shows "ConvertHexStringToBytes (Some room) outLen (Some (hex_encode bs)) (int (2 * length bs))
    = Some (SOFTBUS_OK, bs)"
proof -
  have "unat (word_of_int (int (2 * length bs) div 2) :: 32 word) = length bs"
    using assms(1) word_of_small_int [of "length bs"] by simp
  then show ?thesis
    using unhex_loop_encode [OF assms(2)] by (simp add: ConvertHexStringToBytes_def)
qed

section \<open>Properties\<close>

text \<open>C27: Encoding bytes as a hexadecimal string and decoding the string gives the bytes back,
  for every byte list and every pair of buffers that are large enough; the string has two
  characters for each byte.\<close>

theorem hex_roundtrip:
  assumes "2 * length bs < 2 ^ 31" "2 * length bs < unat outLen" "2 * length bs \<le> room"
    and "length bs \<le> room'"
  shows "\<exists>str. ConvertBytesToHexString (Some room) outLen (Some bs) (int (length bs))
        = Some (SOFTBUS_OK, str) \<and> length str = 2 * length bs
    \<and> ConvertHexStringToBytes (Some room') outLen' (Some str) (int (length str))
        = Some (SOFTBUS_OK, bs)"
  using ConvertBytesToHexString_ok [OF assms(1-3)] ConvertHexStringToBytes_ok [OF assms(1,4)]
  by (intro exI [of _ "hex_encode bs"]) simp

theorem hex_roundtrip_witness:
  "\<exists>str. ConvertBytesToHexString (Some 5) 5 (Some [0xAB, 0x05]) (int (length [0xAB, 0x05 :: byte]))
        = Some (SOFTBUS_OK, str) \<and> length str = 2 * length [0xAB, 0x05 :: byte]
    \<and> ConvertHexStringToBytes (Some 2) 0 (Some str) (int (length str))
        = Some (SOFTBUS_OK, [0xAB, 0x05])"
  by (rule hex_roundtrip) simp_all

text \<open>\<open>GenerateRandomStr\<close> with an odd length fills the buffer but its last character with
  hexadecimal digits of the random bytes, and leaves that one for the terminator; with an
  even length it always fails, because the conversion needs one more character than the
  buffer has.\<close>

theorem GenerateRandomStr_parity:
  assumes "unat len \<le> room" "3 \<le> unat len" "rand (unat len div 2) = Some bs"
    and "length bs = unat len div 2"
  shows "GenerateRandomStr True rand (Some room) len
    = (if odd (unat len) then Some (SOFTBUS_OK, hex_encode bs) else Some (SOFTBUS_ERR, []))"
proof -
  have lt: "unat len < 2 ^ 32" using unsigned_less [where ?'a = nat, of len] by simp
  have half: "unat (len div 2) = length bs" by (simp add: unat_div assms(4))
  have small: "2 * length bs < 2 ^ 32" "length bs < 2 ^ 31" using lt assms(4) by auto
  have s: "sint (len div 2) = int (length bs)"
  proof -
    have "uint (len div 2) = int (length bs)" using half by (metis uint_nat)
    then show ?thesis using small(2) by (simp add: sint_uint signed_take_bit_int_eq_self)
  qed
  have "\<not> len < 2" using assms(2) by (simp add: word_less_nat_alt)
  moreover have "ConvertBytesToHexString (Some room) len (Some bs) (int (length bs))
    = (if odd (unat len) then Some (SOFTBUS_OK, hex_encode bs) else Some (SOFTBUS_ERR, []))"
  proof -
    have "int (length bs) * 2 + 1 = int (2 * length bs + 1)" by simp
    moreover have "2 * length bs + 1 < 2 ^ 32"
      using lt assms(4) by (cases "even (unat len)") (auto elim!: evenE oddE)
    ultimately have "unat (word_of_int (int (length bs) * 2 + 1) :: 32 word) = 2 * length bs + 1"
      by (metis word_of_small_int)
    then have "len < word_of_int (int (length bs) * 2 + 1) \<longleftrightarrow> even (unat len)"
      unfolding word_less_nat_alt using assms(4) by (simp add: parity_cases) presburger
    moreover have "2 * length bs \<le> room" using assms(1,4) by linarith
    ultimately show ?thesis by (simp add: ConvertBytesToHexString_def hex_loop_encode)
  qed
  ultimately show ?thesis
    using assms(3) half s by (simp add: GenerateRandomStr_def Let_def assms(4))
qed

lemma replicate_2_3: "replicate 2 x = [x, x]" "replicate 3 x = [x, x, x]"
  by (simp_all add: numeral_2_eq_2 numeral_3_eq_3)

theorem GenerateRandomStr_parity_witness:
  "GenerateRandomStr True (\<lambda>n. Some (replicate n 0x1F)) (Some 5) 5
     = Some (SOFTBUS_OK, [0x31, 0x66, 0x31, 0x66]) \<and>
   GenerateRandomStr True (\<lambda>n. Some (replicate n 0x1F)) (Some 6) 6 = Some (SOFTBUS_ERR, [])"
  using GenerateRandomStr_parity [of 5 5 "\<lambda>n. Some (replicate n 0x1F)" "[0x1F, 0x1F]"]
    GenerateRandomStr_parity [of 6 6 "\<lambda>n. Some (replicate n 0x1F)" "[0x1F, 0x1F, 0x1F]"]
  by (simp add: hex_char_def replicate_2_3)

text \<open>The first callback registered for a timer identifier stays: later registrations are
  acknowledged and ignored, other identifiers are not affected, and identifiers outside the
  table or a null callback are refused without a change.\<close>

lemma RegisterTimeoutCallback_first:
  "RegisterTimeoutCallback i cb g =
    (if cb \<noteq> None \<and> 0 \<le> i \<and> i < 8
     then (SOFTBUS_OK, g\<lparr>g_timerFunList := (g_timerFunList g)
             [nat i := case g_timerFunList g ! nat i of None \<Rightarrow> cb | Some f \<Rightarrow> Some f]\<rparr>)
     else (SOFTBUS_ERR, g))"
proof (cases "g_timerFunList g ! nat i")
  case None
  then show ?thesis by (auto simp: RegisterTimeoutCallback_def)
next
  case (Some f)
  then have "(g_timerFunList g)[nat i := Some f] = g_timerFunList g" by (metis list_update_id)
  with Some show ?thesis by (auto simp: RegisterTimeoutCallback_def)
qed

end
