(* ===== verification/Message_Handler.thy ===== *)
theory Message_Handler
  imports Softbus_Prelude "HOL-Library.Multiset"
begin

text \<open>
  The message loop of \<^verbatim>\<open>core/common/message_handler/message_handler.c\<close>. A looper context keeps
  the pending messages sorted by their time; one thread runs \<^verbatim>\<open>LoopTask\<close> and any thread may
  post or remove messages and ask for the destruction of the looper. Every region the code
  runs under the lock of the context is one definition; the step relation \<open>lstep\<close>
  interleaves them. The context also records, for the theorems, which messages were freed
  and which were given to their handler.

  The contract of posting (locale \<open>message_looper\<close>) is what the state machines of the network
  builder rely on.
\<close>

section \<open>Messages and looper context\<close>

text \<open>
  \<^verbatim>\<open>time\<close> is an \<^verbatim>\<open>int64_t\<close> that the insertion compares as signed and the loop, through a
  \<^verbatim>\<open>uint64_t\<close>, as unsigned. Handlers are addresses; the payload \<^verbatim>\<open>obj\<close> is left polymorphic.
\<close>

record 'o SoftBusMessage =
  what :: int
  arg1 :: "64 word"
  arg2 :: "64 word"
  time :: "64 word"
  obj :: 'o
  handler :: "nat option"

record 'o SoftBusLooperContext =
  msgHead :: "'o SoftBusMessage list"
  name :: string
  stop :: bool
  running :: bool
  currentMsg :: "'o SoftBusMessage option"
  msgSize :: "32 word"
  freed :: "'o SoftBusMessage list"
  handled :: "'o SoftBusMessage list"

abbreviation (input) LOOP_NAME_LEN :: nat where "LOOP_NAME_LEN \<equiv> 16"
abbreviation (input) TIME_THOUSANDS_MULTIPLIER :: "64 word" where
  "TIME_THOUSANDS_MULTIPLIER \<equiv> 1000"

text \<open>The clock reading of \<^verbatim>\<open>gettimeofday\<close> in microseconds.\<close>

definition UptimeMicros :: "64 word \<Rightarrow> 64 word \<Rightarrow> 64 word" where
  "UptimeMicros tv_sec tv_usec =
     tv_sec * TIME_THOUSANDS_MULTIPLIER * TIME_THOUSANDS_MULTIPLIER + tv_usec"

definition FreeSoftBusMsg ::
  "'o SoftBusMessage \<Rightarrow> 'o SoftBusLooperContext \<Rightarrow> 'o SoftBusLooperContext" where
  "FreeSoftBusMsg msg ctx = ctx\<lparr>freed := freed ctx @ [msg]\<rparr>"

section \<open>Posting\<close>

text \<open>The loop that looks for the first later message and inserts before it, else at the end.\<close>

fun insert_loop ::
  "'o SoftBusMessage \<Rightarrow> 'o SoftBusMessage list \<Rightarrow> 'o SoftBusMessage list" where
  "insert_loop msgPost [] = [msgPost]"
| "insert_loop msgPost (msg # rest) =
     (if sint (time msg) > sint (time msgPost) then msgPost # msg # rest
      else msg # insert_loop msgPost rest)"

text \<open>\<open>alloc\<close> and \<open>lock\<close> are the outcomes of the allocation of the node and of locking.\<close>

definition PostMessageAtTime ::
  "bool \<times> bool \<Rightarrow> 'o SoftBusLooperContext \<Rightarrow> 'o SoftBusMessage \<Rightarrow> 'o SoftBusLooperContext" where
  "PostMessageAtTime env ctx msgPost =
     (case env of (alloc, lock) \<Rightarrow>
        if handler msgPost = None then FreeSoftBusMsg msgPost ctx
        else if \<not> alloc then FreeSoftBusMsg msgPost ctx
        else if \<not> lock then FreeSoftBusMsg msgPost ctx
        else if stop ctx then FreeSoftBusMsg msgPost ctx
        else ctx\<lparr>msgHead := insert_loop msgPost (msgHead ctx), msgSize := msgSize ctx + 1\<rparr>)"

definition LooperPostMessage ::
  "64 word \<Rightarrow> bool \<times> bool \<Rightarrow> 'o SoftBusLooperContext \<Rightarrow> 'o SoftBusMessage
   \<Rightarrow> 'o SoftBusLooperContext" where
  "LooperPostMessage now env ctx msg = PostMessageAtTime env ctx (msg\<lparr>time := now\<rparr>)"

definition LooperPostMessageDelay ::
  "64 word \<Rightarrow> bool \<times> bool \<Rightarrow> 'o SoftBusLooperContext \<Rightarrow> 'o SoftBusMessage \<Rightarrow> 64 word
   \<Rightarrow> 'o SoftBusLooperContext" where
  "LooperPostMessageDelay now env ctx msg delayMillis =
     PostMessageAtTime env ctx (msg\<lparr>time := now + delayMillis * TIME_THOUSANDS_MULTIPLIER\<rparr>)"

section \<open>Removal\<close>

text \<open>
  A custom function answers 0 for a message to remove; it may change the payload of the
  message it is given. The loop returns the messages kept and those removed.
\<close>

fun remove_loop ::
  "nat \<Rightarrow> ('o SoftBusMessage \<Rightarrow> int \<times> 'o) \<Rightarrow> 'o SoftBusMessage list
   \<Rightarrow> 'o SoftBusMessage list \<times> 'o SoftBusMessage list" where
  "remove_loop h customFunc [] = ([], [])"
| "remove_loop h customFunc (msg # rest) =
     (case remove_loop h customFunc rest of
        (kept, gone) \<Rightarrow>
          if handler msg = Some h then
            (case customFunc msg of
               (ret, o') \<Rightarrow>
                 if ret = 0 then (kept, msg\<lparr>obj := o'\<rparr> # gone)
                 else (msg\<lparr>obj := o'\<rparr> # kept, gone))
          else (msg # kept, gone))"

definition LoopRemoveMessageCustom ::
  "bool \<Rightarrow> nat \<Rightarrow> ('o SoftBusMessage \<Rightarrow> int \<times> 'o) \<Rightarrow> 'o SoftBusLooperContext
   \<Rightarrow> 'o SoftBusLooperContext" where
  "LoopRemoveMessageCustom lock h customFunc ctx =
     (if \<not> lock then ctx
      else if \<not> running ctx \<or> stop ctx then ctx
      else
        case remove_loop h customFunc (msgHead ctx) of
          (kept, gone) \<Rightarrow>
            ctx\<lparr>msgHead := kept, msgSize := msgSize ctx - of_nat (length gone),
                freed := freed ctx @ gone\<rparr>)"

definition WhatRemoveFunc :: "int \<Rightarrow> 'o SoftBusMessage \<Rightarrow> int \<times> 'o" where
  "WhatRemoveFunc args msg = (if what msg = args then (0, obj msg) else (1, obj msg))"

definition LooperRemoveMessage ::
  "bool \<Rightarrow> nat \<Rightarrow> int \<Rightarrow> 'o SoftBusLooperContext \<Rightarrow> 'o SoftBusLooperContext" where
  "LooperRemoveMessage lock h w ctx = LoopRemoveMessageCustom lock h (WhatRemoveFunc w) ctx"

section \<open>The loop thread\<close>

text \<open>
  Where the thread is: before its first lock, at the top of the loop, about to call
  \<^verbatim>\<open>HandleMessage\<close>, after the call, behind the loop, returned.
\<close>

datatype 'o loop_pc =
    LStart | LLoop | LHandle "'o SoftBusMessage" | LFree "'o SoftBusMessage" | LEnd | LDone

text \<open>
  One iteration up to the unlock: a failed lock ends the thread, \<^verbatim>\<open>stop\<close> or a pending
  destruction leaves the loop, an empty list or an early message waits, and a due message is
  taken. \<open>now\<close> is the clock.
\<close>

definition LoopTask_iteration ::
  "bool \<Rightarrow> bool \<Rightarrow> 64 word \<Rightarrow> 'o SoftBusLooperContext \<Rightarrow> 'o loop_pc \<times> 'o SoftBusLooperContext" where
  "LoopTask_iteration lock isNeedDestroy now ctx =
     (if \<not> lock then (LDone, ctx)
      else if stop ctx then (LEnd, ctx)
      else if isNeedDestroy then (LEnd, ctx)
      else
        case msgHead ctx of
          [] \<Rightarrow> (LLoop, ctx)
        | msg # rest \<Rightarrow>
            if now \<ge> time msg then
              (LHandle msg, ctx\<lparr>msgHead := rest, msgSize := msgSize ctx - 1, currentMsg := Some msg\<rparr>)
            else (LLoop, ctx))"

text \<open>The system: context, thread, and the two flags of the file.\<close>

record 'o looper_sys =
  lctx :: "'o SoftBusLooperContext"
  pc :: "'o loop_pc"
  isNeedDestroy :: bool
  isThreadStarted :: bool
  destroyed :: bool
  posted :: "'o SoftBusMessage list"

text \<open>
  The whole \<^verbatim>\<open>LoopTask\<close>, region by region. \<open>hasHandle\<close> tells which handlers have a
  \<^verbatim>\<open>HandleMessage\<close> function; the function itself runs without the lock, and what it does to the
  looper are further steps.
\<close>

definition LoopTask ::
  "(nat \<Rightarrow> bool) \<Rightarrow> bool \<Rightarrow> 64 word \<Rightarrow> 'o looper_sys \<Rightarrow> 'o looper_sys" where
  "LoopTask hasHandle lock now s =
     (let ctx = lctx s in
      case pc s of
        LStart \<Rightarrow>
          if \<not> lock then s\<lparr>pc := LDone\<rparr>
          else s\<lparr>pc := LLoop, lctx := ctx\<lparr>running := True\<rparr>, isThreadStarted := True\<rparr>
      | LLoop \<Rightarrow>
          (case LoopTask_iteration lock (isNeedDestroy s) now ctx of
             (p, ctx') \<Rightarrow> s\<lparr>pc := p, lctx := ctx'\<rparr>)
      | LHandle msg \<Rightarrow>
          s\<lparr>pc := LFree msg,
            lctx := (if handler msg \<noteq> None \<and> hasHandle (the (handler msg))
                        then ctx\<lparr>handled := handled ctx @ [msg]\<rparr> else ctx)\<rparr>
      | LFree msg \<Rightarrow>
          s\<lparr>pc := LLoop, lctx := (FreeSoftBusMsg msg ctx)\<lparr>currentMsg := None\<rparr>\<rparr>
      | LEnd \<Rightarrow> s\<lparr>pc := LDone, lctx := ctx\<lparr>running := False\<rparr>\<rparr>
      | LDone \<Rightarrow> s)"

section \<open>Creation and destruction\<close>

text \<open>
  \<open>alloc1\<close>, \<open>alloc2\<close> and \<open>thread\<close> are the outcomes of the two allocations and of
  \<^verbatim>\<open>pthread_create\<close> in \<^verbatim>\<open>StartNewLooperThread\<close>.
\<close>

definition CreateNewLooper :: "bool \<Rightarrow> bool \<Rightarrow> bool \<Rightarrow> string \<Rightarrow> 'o looper_sys option" where
  "CreateNewLooper alloc1 alloc2 thread nm =
     (if \<not> alloc1 then None
      else if \<not> alloc2 then None
      else
        case memcpy_s LOOP_NAME_LEN nm of
          None \<Rightarrow> None
        | Some n \<Rightarrow>
            if \<not> thread then None
            else Some \<lparr>lctx = \<lparr>msgHead = [], name = n, stop = False, running = False,
                        currentMsg = None, msgSize = 0, freed = [], handled = []\<rparr>,
                       pc = LStart, isNeedDestroy = False, isThreadStarted = False,
                       destroyed = False, posted = []\<rparr>)"

text \<open>
  \<^verbatim>\<open>DestroyLooper\<close> sets \<^verbatim>\<open>stop\<close>, waits until \<^verbatim>\<open>running\<close> is 0, and then frees what is pending.
\<close>

definition DestroyLooper_stop :: "'o looper_sys \<Rightarrow> 'o looper_sys" where
  "DestroyLooper_stop s = s\<lparr>lctx := (lctx s)\<lparr>stop := True\<rparr>\<rparr>"

definition DestroyLooper_release :: "'o looper_sys \<Rightarrow> 'o looper_sys option" where
  "DestroyLooper_release s =
     (if running (lctx s) then None
      else Some (s\<lparr>lctx := (lctx s)\<lparr>msgHead := [],
                       freed := freed (lctx s) @ msgHead (lctx s)\<rparr>,
                   destroyed := True\<rparr>))"

text \<open>The table of loopers; a looper is an address.\<close>

type_synonym loop_config = "(int \<times> nat option) list"

abbreviation (input) LOOP_TYPE_DEFAULT :: int where "LOOP_TYPE_DEFAULT \<equiv> 1"

definition g_loopConfig_init :: loop_config where
  "g_loopConfig_init = [(LOOP_TYPE_DEFAULT, None), (2, None), (3, None), (4, None)]"

definition GetLooper :: "int \<Rightarrow> loop_config \<Rightarrow> nat option" where
  "GetLooper type g = (case find (\<lambda>c. fst c = type) g of None \<Rightarrow> None | Some c \<Rightarrow> snd c)"

definition SetLooper :: "int \<Rightarrow> nat option \<Rightarrow> loop_config \<Rightarrow> loop_config" where
  "SetLooper type looper g = map (\<lambda>c. if fst c = type then (fst c, looper) else c) g"

definition ReleaseLooper :: "nat \<Rightarrow> loop_config \<Rightarrow> loop_config" where
  "ReleaseLooper looper g = upd_first (\<lambda>c. snd c = Some looper) (\<lambda>c. (fst c, None)) g"

definition LooperInit :: "nat option \<Rightarrow> loop_config \<Rightarrow> int \<times> loop_config" where
  "LooperInit looper g =
     (case looper of None \<Rightarrow> (- 1, g) | Some l \<Rightarrow> (0, SetLooper LOOP_TYPE_DEFAULT (Some l) g))"

text \<open>
  \<^verbatim>\<open>LooperDeinit\<close>: while no loop thread has started it only requests the destruction, which
  the thread then performs; otherwise it destroys the loopers in the order of the table. The
  result names the loopers destroyed.
\<close>

fun LooperDeinit_loop ::
  "bool \<Rightarrow> nat \<Rightarrow> nat \<Rightarrow> loop_config \<Rightarrow> bool \<times> nat list \<times> loop_config" where
  "LooperDeinit_loop started 0 i g = (False, [], g)"
| "LooperDeinit_loop started (Suc n) i g =
     (case snd (g ! i) of
        None \<Rightarrow> LooperDeinit_loop started n (i + 1) g
      | Some l \<Rightarrow>
          if \<not> started then (True, [], g)
          else
            case LooperDeinit_loop started n (i + 1) (ReleaseLooper l g) of
              (nd, ls, g') \<Rightarrow> (nd, l # ls, g'))"

definition LooperDeinit :: "bool \<Rightarrow> bool \<Rightarrow> loop_config \<Rightarrow> bool \<times> nat list \<times> loop_config" where
  "LooperDeinit needDestroy started g =
     (case LooperDeinit_loop started (length g) 0 g of (nd, r) \<Rightarrow> (needDestroy \<or> nd, r))"

section \<open>Interleavings\<close>

inductive lstep :: "(nat \<Rightarrow> bool) \<Rightarrow> 'o looper_sys \<Rightarrow> 'o looper_sys \<Rightarrow> bool" for hasHandle where
  post: "\<not> destroyed s \<Longrightarrow>
    lstep hasHandle s (s\<lparr>lctx := PostMessageAtTime env (lctx s) m, posted := posted s @ [m]\<rparr>)"
| remove: "\<not> destroyed s \<Longrightarrow>
    lstep hasHandle s (s\<lparr>lctx := LoopRemoveMessageCustom lock h f (lctx s)\<rparr>)"
| loop: "\<not> destroyed s \<Longrightarrow> lstep hasHandle s (LoopTask hasHandle lock now s)"
| request: "\<not> destroyed s \<Longrightarrow> lstep hasHandle s (s\<lparr>isNeedDestroy := True\<rparr>)"
| stop: "\<not> destroyed s \<Longrightarrow> lstep hasHandle s (DestroyLooper_stop s)"
| release: "\<not> destroyed s \<Longrightarrow> stop (lctx s) \<Longrightarrow> DestroyLooper_release s = Some s' \<Longrightarrow>
    lstep hasHandle s s'"

inductive lreach :: "(nat \<Rightarrow> bool) \<Rightarrow> 'o looper_sys \<Rightarrow> bool" for hasHandle where
  created: "CreateNewLooper True True True nm = Some s \<Longrightarrow> lreach hasHandle s"
| step: "lreach hasHandle s \<Longrightarrow> lstep hasHandle s s' \<Longrightarrow> lreach hasHandle s'"

section \<open>The order of the pending messages\<close>

abbreviation tm :: "'o SoftBusMessage \<Rightarrow> int" where
  "tm m \<equiv> sint (time m)"

lemma insert_loop_eq:
  "insert_loop m ms = takeWhile (\<lambda>x. tm x \<le> tm m) ms @ m # dropWhile (\<lambda>x. tm x \<le> tm m) ms"
  by (induction ms) auto

lemma set_insert_loop [simp]: "set (insert_loop m ms) = insert m (set ms)"
  by (induction ms) auto

lemma length_insert_loop [simp]: "length (insert_loop m ms) = Suc (length ms)"
  by (induction ms) auto

lemma mset_insert_loop [simp]: "mset (insert_loop m ms) = add_mset m (mset ms)"
  by (induction ms) auto

lemma sorted_insert_loop:
  "sorted (map tm ms) \<Longrightarrow> sorted (map tm (insert_loop m ms))"
  by (induction ms) auto

lemma filter_insert_loop:
  "sorted (map tm ms) \<Longrightarrow>
   filter (\<lambda>x. tm x = t) (insert_loop m ms)
   = filter (\<lambda>x. tm x = t) ms @ (if tm m = t then [m] else [])"
proof (induction ms)
  case (Cons x ms)
  then show ?case
  proof (cases "tm x > tm m")
    case True
    with Cons.prems have "\<forall>y \<in> set (x # ms). tm m < tm y" by auto
    then have "t = tm m \<Longrightarrow> filter (\<lambda>x. tm x = t) (x # ms) = []" by (auto simp: filter_empty_conv)
    with True show ?thesis by auto
  qed auto
qed simp

section \<open>The contract of posting\<close>

locale message_looper =
  fixes pending :: "'l \<Rightarrow> 'm list"
    and due :: "'m \<Rightarrow> int"
    and accepts :: "'e \<Rightarrow> 'l \<Rightarrow> 'm \<Rightarrow> bool"
    and post :: "'e \<Rightarrow> 'l \<Rightarrow> 'm \<Rightarrow> 'l"
  assumes post_accepted: "accepts e l m \<Longrightarrow> pending (post e l m) =
      takeWhile (\<lambda>x. due x \<le> due m) (pending l) @ m # dropWhile (\<lambda>x. due x \<le> due m) (pending l)"
    and post_refused: "\<not> accepts e l m \<Longrightarrow> pending (post e l m) = pending l"
    and accepts_stable: "accepts e l m' \<Longrightarrow> accepts e l m \<Longrightarrow> accepts e (post e l m') m"
begin

text \<open>A message that is not earlier than any pending one goes to the end.\<close>

lemma post_last:
  assumes "accepts e l m" "\<forall>x \<in> set (pending l). due x \<le> due m"
  shows "pending (post e l m) = pending l @ [m]"
  using assms takeWhile_eq_all_conv [of _ "pending l"] dropWhile_eq_Nil_conv [of _ "pending l"]
  by (simp add: post_accepted)

text \<open>Messages posted at times that do not decrease are pending in the order of posting.\<close>

lemma posts_in_order:
  "\<forall>m \<in> set ms. accepts e l m \<Longrightarrow> sorted (map due (pending l @ ms))
   \<Longrightarrow> pending (foldl (post e) l ms) = pending l @ ms"
proof (induction ms arbitrary: l)
  case (Cons m ms)
  have last: "pending (post e l m) = pending l @ [m]"
    using Cons.prems by (intro post_last) (auto simp: sorted_append)
  have "\<forall>m' \<in> set ms. accepts e (post e l m) m'" using Cons.prems(1) accepts_stable by simp
  from Cons.IH [OF this] Cons.prems(2) last show ?case by simp
qed simp

end

definition accepts_msg ::
  "bool \<times> bool \<Rightarrow> 'o SoftBusLooperContext \<Rightarrow> 'o SoftBusMessage \<Rightarrow> bool" where
  "accepts_msg env ctx m \<longleftrightarrow> handler m \<noteq> None \<and> fst env \<and> snd env \<and> \<not> stop ctx"

interpretation looper: message_looper msgHead tm accepts_msg PostMessageAtTime
  by unfold_locales
    (auto simp: accepts_msg_def PostMessageAtTime_def FreeSoftBusMsg_def insert_loop_eq
      split: prod.splits)


section \<open>Invariants of the message loop\<close>

text \<open>A message without its payload, which a custom removal function may change.\<close>

definition ident :: "'o SoftBusMessage \<Rightarrow> int \<times> 64 word \<times> 64 word \<times> 64 word \<times> nat option" where
  "ident m = (what m, arg1 m, arg2 m, time m, handler m)"

fun in_hand :: "'o loop_pc \<Rightarrow> 'o SoftBusMessage list" where
  "in_hand (LHandle m) = [m]"
| "in_hand (LFree m) = [m]"
| "in_hand _ = []"

definition linv :: "'o looper_sys \<Rightarrow> bool" where
  "linv s \<longleftrightarrow> sorted (map tm (msgHead (lctx s))) \<and>
     (\<not> destroyed s \<longrightarrow> msgSize (lctx s) = of_nat (length (msgHead (lctx s)))) \<and>
     mset (map ident (posted s)) =
       mset (map ident (msgHead (lctx s) @ in_hand (pc s) @ freed (lctx s))) \<and>
     (pc s \<noteq> LStart \<and> pc s \<noteq> LDone \<longrightarrow> running (lctx s)) \<and>
     (pc s = LStart \<longrightarrow> \<not> running (lctx s)) \<and>
     currentMsg (lctx s) = (case in_hand (pc s) of [] \<Rightarrow> None | m # _ \<Rightarrow> Some m)"

lemma ident_obj [simp]: "ident (m\<lparr>obj := x\<rparr>) = ident m"
  by (simp add: ident_def)

lemma remove_loop_facts:
  assumes "remove_loop h f ms = (kept, gone)"
  shows remove_loop_mset: "mset (map ident ms) = mset (map ident kept) + mset (map ident gone)"
    and remove_loop_length: "length ms = length kept + length gone"
    and remove_loop_times: "\<forall>y \<in> set kept. tm y \<in> tm ` set ms"
  using assms by (induction ms arbitrary: kept gone) (auto split: prod.splits if_splits)

lemma remove_loop_sorted:
  "remove_loop h f ms = (kept, gone) \<Longrightarrow> sorted (map tm ms) \<Longrightarrow> sorted (map tm kept)"
proof (induction ms arbitrary: kept gone)
  case (Cons m ms)
  obtain k g where rec: "remove_loop h f ms = (k, g)" by fastforce
  with Cons have k: "sorted (map tm k)" by simp
  have "\<forall>y \<in> set k. tm m \<le> tm y" using remove_loop_times [OF rec] Cons.prems(2) by fastforce
  with k Cons.prems(1) rec show ?case by (auto split: prod.splits if_splits)
qed simp

lemma linv_created: "CreateNewLooper a b c nm = Some s \<Longrightarrow> linv s \<and> posted s = [] \<and> pc s = LStart"
  by (auto simp: CreateNewLooper_def linv_def split: if_splits option.splits)

lemma linv_post:
  "linv s \<Longrightarrow> linv (s\<lparr>lctx := PostMessageAtTime env (lctx s) m, posted := posted s @ [m]\<rparr>)"
  by (auto simp: linv_def PostMessageAtTime_def FreeSoftBusMsg_def sorted_insert_loop
      image_mset_add_mset split: prod.splits)

lemma linv_remove: "linv s \<Longrightarrow> linv (s\<lparr>lctx := LoopRemoveMessageCustom lock h f (lctx s)\<rparr>)"
proof -
  assume inv: "linv s"
  obtain kept gone where r: "remove_loop h f (msgHead (lctx s)) = (kept, gone)" by fastforce
  show ?thesis
    using inv remove_loop_mset [OF r] remove_loop_sorted [OF r] remove_loop_length [OF r]
    by (auto simp: linv_def LoopRemoveMessageCustom_def r)
qed

lemma linv_loop: "linv s \<Longrightarrow> linv (LoopTask hasHandle lock now s)"
proof (cases "pc s")
  case LLoop
  assume "linv s"
  with LLoop show ?thesis
    by (cases "msgHead (lctx s)")
      (auto simp: linv_def LoopTask_def LoopTask_iteration_def Let_def)
qed (auto simp: linv_def LoopTask_def Let_def FreeSoftBusMsg_def)

lemma linv_step: "lstep hasHandle s s' \<Longrightarrow> linv s \<Longrightarrow> linv s'"
proof (induction rule: lstep.induct)
  case (release s s')
  then show ?case by (auto simp: linv_def DestroyLooper_release_def split: if_splits)
qed (simp_all add: linv_post linv_remove linv_loop, auto simp: linv_def DestroyLooper_stop_def)

lemma lreach_linv: "lreach hasHandle s \<Longrightarrow> linv s"
  by (induction rule: lreach.induct) (auto dest: linv_created linv_step)

text \<open>After the release the thread is not inside the loop.\<close>

lemma lreach_destroyed: "lreach hasHandle s \<Longrightarrow> destroyed s \<Longrightarrow>
  (pc s = LStart \<or> pc s = LDone) \<and> msgHead (lctx s) = [] \<and> stop (lctx s)"
proof (induction rule: lreach.induct)
  case (created nm s)
  then show ?case by (auto simp: CreateNewLooper_def split: option.splits)
next
  case (step s s')
  have inv: "linv s" by (rule lreach_linv [OF step.hyps(1)])
  from step.hyps(2) step.prems inv show ?case
  proof (induction rule: lstep.induct)
    case (loop s lock now)
    then show ?case
      by (auto simp: LoopTask_def Let_def split: loop_pc.splits prod.splits if_splits)
  qed (auto simp: DestroyLooper_release_def DestroyLooper_stop_def linv_def split: if_splits)
qed

section \<open>Properties\<close>

text \<open>C11: In every interleaving of posts, removals, the loop thread and the destruction: no
  message is lost and none is freed twice (the messages posted are exactly those pending, the
  one being handled and those freed), the pending list is sorted by time, and its counter is
  its length. Once the looper is released nothing is pending.\<close>

theorem looper_conserves_messages:
  assumes "lreach hasHandle s"
  shows "mset (map ident (posted s)) =
      mset (map ident (msgHead (lctx s))) + mset (map ident (in_hand (pc s)))
      + mset (map ident (freed (lctx s)))
    \<and> sorted (map tm (msgHead (lctx s)))
    \<and> (if destroyed s then msgHead (lctx s) = []
       else msgSize (lctx s) = of_nat (length (msgHead (lctx s))))"
  using lreach_linv [OF assms] lreach_destroyed [OF assms] by (auto simp: linv_def)

definition demo_msg :: "64 word \<Rightarrow> unit SoftBusMessage" where
  "demo_msg t = \<lparr>what = 1, arg1 = 0, arg2 = 0, time = t, obj = (), handler = Some 7\<rparr>"

definition demo_sys :: "unit looper_sys" where
  "demo_sys = the (CreateNewLooper True True True ''Loop-default'')"

lemma demo_reach: "lreach hasHandle demo_sys"
  by (rule lreach.created [of "''Loop-default''"]) (simp add: demo_sys_def CreateNewLooper_def memcpy_s_def)

definition demo_posted :: "unit looper_sys" where
  "demo_posted = demo_sys\<lparr>lctx := PostMessageAtTime (True, True) (lctx demo_sys) (demo_msg 5),
     posted := posted demo_sys @ [demo_msg 5]\<rparr>"

lemma demo_posted_reach: "lreach hasHandle demo_posted" "\<not> destroyed demo_posted"
  "posted demo_posted = [demo_msg 5]"
proof -
  have "\<not> destroyed demo_sys" by (simp add: demo_sys_def CreateNewLooper_def memcpy_s_def)
  then show "lreach hasHandle demo_posted"
    unfolding demo_posted_def by (rule lreach.step [OF demo_reach lstep.post])
qed (simp_all add: demo_posted_def demo_sys_def CreateNewLooper_def memcpy_s_def)

theorem looper_conserves_messages_witness:
  "posted demo_posted = [demo_msg 5] \<and> mset (map ident (posted demo_posted)) =
      mset (map ident (msgHead (lctx demo_posted))) + mset (map ident (in_hand (pc demo_posted)))
      + mset (map ident (freed (lctx demo_posted)))"
  using looper_conserves_messages [OF demo_posted_reach(1)] by (simp add: demo_posted_reach(3))

text \<open>\<open>PostMessageAtTime\<close> puts an accepted message behind every pending message of the same or
  an earlier time and before the later ones, so that messages of one time leave in the order
  in which they were posted; a refused message is freed and the list does not change.\<close>

theorem PostMessageAtTime_stable:
  assumes "sorted (map tm (msgHead ctx))"
  shows "if accepts_msg env ctx m
    then sorted (map tm (msgHead (PostMessageAtTime env ctx m)))
      \<and> mset (msgHead (PostMessageAtTime env ctx m)) = add_mset m (mset (msgHead ctx))
      \<and> filter (\<lambda>x. tm x = tm m) (msgHead (PostMessageAtTime env ctx m))
          = filter (\<lambda>x. tm x = tm m) (msgHead ctx) @ [m]
      \<and> freed (PostMessageAtTime env ctx m) = freed ctx
    else msgHead (PostMessageAtTime env ctx m) = msgHead ctx
      \<and> freed (PostMessageAtTime env ctx m) = freed ctx @ [m]"
  using assms by (auto simp: accepts_msg_def PostMessageAtTime_def FreeSoftBusMsg_def
      sorted_insert_loop filter_insert_loop split: prod.splits)

theorem PostMessageAtTime_stable_witness:
  "let ctx = lctx demo_posted in
   filter (\<lambda>x. tm x = tm (demo_msg 5)) (msgHead (PostMessageAtTime (True, True) ctx (demo_msg 5)))
     = filter (\<lambda>x. tm x = tm (demo_msg 5)) (msgHead ctx) @ [demo_msg 5]"
  using PostMessageAtTime_stable [of "lctx demo_posted" "(True, True)" "demo_msg 5"]
  by (simp add: demo_posted_def demo_sys_def CreateNewLooper_def memcpy_s_def demo_msg_def
      accepts_msg_def PostMessageAtTime_def Let_def)

text \<open>C28: The loop takes a message only when its time has come, and the message it takes has the
  least time of all pending messages; it takes none once the looper is stopped.\<close>

theorem LoopTask_takes_due_minimum:
  assumes "lreach hasHandle s" "pc s = LLoop" "pc (LoopTask hasHandle lock now s) = LHandle m"
  shows "time m \<le> now \<and> (\<forall>x \<in> set (msgHead (lctx s)). tm m \<le> tm x)
    \<and> msgHead (lctx s) = m # msgHead (lctx (LoopTask hasHandle lock now s))
    \<and> \<not> stop (lctx s) \<and> \<not> isNeedDestroy s"
proof -
  have "sorted (map tm (msgHead (lctx s)))" using lreach_linv [OF assms(1)] by (simp add: linv_def)
  with assms(2,3) show ?thesis
    by (cases "msgHead (lctx s)")
      (auto simp: LoopTask_def LoopTask_iteration_def Let_def split: if_splits)
qed

theorem LoopTask_takes_due_minimum_witness:
  "let s = LoopTask (\<lambda>_. True) True 0 demo_posted in
   pc (LoopTask (\<lambda>_. True) True 9 s) = LHandle (demo_msg 5) \<and> time (demo_msg 5) \<le> 9"
proof -
  let ?s = "LoopTask (\<lambda>_. True) True 0 demo_posted"
  have r: "lreach (\<lambda>_. True) ?s"
    by (rule lreach.step [OF demo_posted_reach(1) lstep.loop [OF demo_posted_reach(2)]])
  have "pc ?s = LLoop" "pc (LoopTask (\<lambda>_. True) True 9 ?s) = LHandle (demo_msg 5)"
    by (simp_all add: LoopTask_def LoopTask_iteration_def demo_posted_def demo_sys_def
        CreateNewLooper_def memcpy_s_def demo_msg_def PostMessageAtTime_def Let_def)
  with LoopTask_takes_due_minimum [OF r] show ?thesis by (simp add: Let_def)
qed

text \<open>\<open>LoopRemoveMessageCustom\<close> on a running looper removes and frees exactly the messages of
  the given handler that the custom function answers 0 for, and keeps the order of the
  others.\<close>

theorem LoopRemoveMessageCustom_exact:
  assumes "running ctx" "\<not> stop ctx" "\<And>m. snd (f m) = obj m"
  shows "msgHead (LoopRemoveMessageCustom True h f ctx)
      = filter (\<lambda>m. \<not> (handler m = Some h \<and> fst (f m) = 0)) (msgHead ctx)
    \<and> freed (LoopRemoveMessageCustom True h f ctx)
      = freed ctx @ filter (\<lambda>m. handler m = Some h \<and> fst (f m) = 0) (msgHead ctx)"
proof -
  define g where "g m = fst (f m)" for m
  have f: "f = (\<lambda>m. (g m, obj m))" using assms(3) by (intro ext prod_eqI) (simp_all add: g_def)
  have "remove_loop h f ms = (filter (\<lambda>m. \<not> (handler m = Some h \<and> fst (f m) = 0)) ms,
      filter (\<lambda>m. handler m = Some h \<and> fst (f m) = 0) ms)" for ms
    unfolding f by (induction ms) auto
  with assms(1,2) show ?thesis by (simp add: LoopRemoveMessageCustom_def)
qed

theorem LoopRemoveMessageCustom_exact_witness:
  "let ctx = (lctx demo_posted)\<lparr>running := True\<rparr> in
   freed (LoopRemoveMessageCustom True 7 (WhatRemoveFunc 1) ctx) = [demo_msg 5]"
  using LoopRemoveMessageCustom_exact [of "(lctx demo_posted)\<lparr>running := True\<rparr>" "WhatRemoveFunc 1" 7]
  by (simp add: demo_posted_def demo_sys_def CreateNewLooper_def memcpy_s_def demo_msg_def
      PostMessageAtTime_def WhatRemoveFunc_def Let_def)

text \<open>\<open>DestroyLooper\<close> waits for \<^verbatim>\<open>running\<close> to be 0, which it also is before the new thread has
  taken the lock for the first time: a looper destroyed at once after its creation is
  released while its thread is still about to lock the released context.\<close>

theorem DestroyLooper_before_start:
  "\<exists>s. lreach hasHandle s \<and> destroyed s \<and> pc (s :: unit looper_sys) = LStart"
proof -
  let ?s = "DestroyLooper_stop demo_sys"
  have d: "\<not> destroyed demo_sys" "\<not> running (lctx demo_sys)" "pc demo_sys = LStart"
    by (simp_all add: demo_sys_def CreateNewLooper_def memcpy_s_def)
  have 1: "lreach hasHandle ?s" by (rule lreach.step [OF demo_reach lstep.stop [OF d(1)]])
  obtain s' where s': "DestroyLooper_release ?s = Some s'" "destroyed s'" "pc s' = LStart"
    using d by (simp add: DestroyLooper_release_def DestroyLooper_stop_def)
  have "lreach hasHandle s'"
    by (rule lreach.step [OF 1 lstep.release [OF _ _ s'(1)]])
      (use d in \<open>simp_all add: DestroyLooper_stop_def\<close>)
  with s' show ?thesis by blast
qed

end
