(* ===== verification/Lnn_State_Machine.thy ===== *)
theory Lnn_State_Machine
  imports Message_Handler
begin

text \<open>
  The state machine of the network builder, \<^verbatim>\<open>core/bus_center/lnn/net_builder/src/lnn_state_machine.c\<close>.
  A machine is driven by control messages that its interface posts to a looper and that
  \<^verbatim>\<open>FsmStateMsgHandler\<close> processes. The functions of the states (\<^verbatim>\<open>enter\<close>, \<^verbatim>\<open>process\<close>, \<^verbatim>\<open>exit\<close>)
  belong to the users of the machine: they are parameters, and what the theorems need of
  them is the hypothesis \<open>callbacks_ok\<close>. The order of the commands rests on the contract of
  the looper.
\<close>

unbundle bit_operations_syntax

section \<open>Machine and messages\<close>

abbreviation (input) FSM_CTRL_MSG_START :: int where "FSM_CTRL_MSG_START \<equiv> 0"
abbreviation (input) FSM_CTRL_MSG_DATA :: int where "FSM_CTRL_MSG_DATA \<equiv> 1"
abbreviation (input) FSM_CTRL_MSG_STOP :: int where "FSM_CTRL_MSG_STOP \<equiv> 2"
abbreviation (input) FSM_CTRL_MSG_DEINIT :: int where "FSM_CTRL_MSG_DEINIT \<equiv> 3"
abbreviation (input) FSM_FLAG_RUNNING :: "32 word" where "FSM_FLAG_RUNNING \<equiv> 1"

text \<open>States and payload data are addresses; \<open>f_handler\<close> is the address of \<^verbatim>\<open>fsm->handler\<close>.\<close>

record FsmStateMachine =
  curState :: "nat option"
  flag :: "32 word"
  stateList :: "nat list"
  f_looper :: "nat option"
  f_handler :: nat
  deinitCallback :: bool

record FsmCtrlMsgObj =
  c_fsm :: bool
  c_obj :: "nat option"

type_synonym fsm_msg = "FsmCtrlMsgObj option SoftBusMessage"
type_synonym fsm_looper = "FsmCtrlMsgObj option SoftBusLooperContext"

text \<open>The calls into the functions of the states, in their order.\<close>

datatype fsm_event = Enter nat | Exit nat | Process nat int "nat option" | DeinitCall

record fsm_world =
  fsm :: FsmStateMachine
  lp :: fsm_looper
  trace :: "fsm_event list"

record FsmState =
  enter :: "(fsm_world \<Rightarrow> fsm_world) option"
  process :: "(int \<Rightarrow> nat option \<Rightarrow> fsm_world \<Rightarrow> fsm_world) option"
  exit_fn :: "(fsm_world \<Rightarrow> fsm_world) option"

type_synonym fsm_states = "nat \<Rightarrow> FsmState"

definition set_fsm :: "(FsmStateMachine \<Rightarrow> FsmStateMachine) \<Rightarrow> fsm_world \<Rightarrow> fsm_world" where
  "set_fsm f w = w\<lparr>fsm := f (fsm w)\<rparr>"

definition log_call :: "fsm_event \<Rightarrow> fsm_world \<Rightarrow> fsm_world" where
  "log_call e w = w\<lparr>trace := trace w @ [e]\<rparr>"

definition call_enter :: "fsm_states \<Rightarrow> nat \<Rightarrow> fsm_world \<Rightarrow> fsm_world" where
  "call_enter st s w = (case enter (st s) of None \<Rightarrow> w | Some f \<Rightarrow> f (log_call (Enter s) w))"

definition call_exit :: "fsm_states \<Rightarrow> nat \<Rightarrow> fsm_world \<Rightarrow> fsm_world" where
  "call_exit st s w = (case exit_fn (st s) of None \<Rightarrow> w | Some f \<Rightarrow> f (log_call (Exit s) w))"

definition IsDuplicateState :: "FsmStateMachine \<Rightarrow> nat \<Rightarrow> bool" where
  "IsDuplicateState m state \<longleftrightarrow> state \<in> set (stateList m)"

definition is_running :: "FsmStateMachine \<Rightarrow> bool" where
  "is_running m \<longleftrightarrow> flag m AND FSM_FLAG_RUNNING \<noteq> 0"

definition CreateFsmHandleMsg ::
  "bool \<Rightarrow> bool \<Rightarrow> FsmStateMachine \<Rightarrow> int \<Rightarrow> 64 word \<Rightarrow> 64 word \<Rightarrow> nat option \<Rightarrow> fsm_msg option" where
  "CreateFsmHandleMsg alloc1 alloc2 m w a1 a2 ob =
     (if \<not> alloc1 then None
      else if \<not> alloc2 then None
      else Some \<lparr>what = w, arg1 = a1, arg2 = a2, time = 0,
                 obj = Some \<lparr>c_fsm = True, c_obj = ob\<rparr>, handler = Some (f_handler m)\<rparr>)"

section \<open>Processing a message\<close>

definition ProcessStartMessage :: "fsm_states \<Rightarrow> fsm_msg \<Rightarrow> fsm_world \<Rightarrow> fsm_world" where
  "ProcessStartMessage st msg w =
     (case obj msg of
        None \<Rightarrow> w
      | Some ctrlMsgObj \<Rightarrow>
          (case (c_fsm ctrlMsgObj, c_obj ctrlMsgObj) of
             (True, Some state) \<Rightarrow>
               if curState (fsm w) \<noteq> None \<or> is_running (fsm w) then w
               else if IsDuplicateState (fsm w) state then
                 let w1 = set_fsm (\<lambda>m. m\<lparr>curState := Some state\<rparr>) w;
                     w2 = call_enter st state w1
                 in set_fsm (\<lambda>m. m\<lparr>flag := flag m OR FSM_FLAG_RUNNING\<rparr>) w2
               else w
           | _ \<Rightarrow> w))"

definition ProcessDataMessage :: "fsm_states \<Rightarrow> fsm_msg \<Rightarrow> fsm_world \<Rightarrow> fsm_world" where
  "ProcessDataMessage st msg w =
     (case obj msg of
        None \<Rightarrow> w
      | Some ctrlMsgObj \<Rightarrow>
          if \<not> c_fsm ctrlMsgObj then w
          else
            case curState (fsm w) of
              None \<Rightarrow> w
            | Some s \<Rightarrow>
                if \<not> is_running (fsm w) then w
                else
                  case process (st s) of
                    None \<Rightarrow> w
                  | Some f \<Rightarrow>
                      let msgType = sint (ucast (arg1 msg) :: 32 word)
                      in f msgType (c_obj ctrlMsgObj)
                           (log_call (Process s msgType (c_obj ctrlMsgObj)) w))"

definition ProcessStopMessage :: "fsm_msg \<Rightarrow> fsm_world \<Rightarrow> fsm_world" where
  "ProcessStopMessage msg w =
     (case obj msg of
        None \<Rightarrow> w
      | Some ctrlMsgObj \<Rightarrow>
          if \<not> c_fsm ctrlMsgObj then w
          else if curState (fsm w) = None \<or> \<not> is_running (fsm w) then w
          else set_fsm (\<lambda>m. m\<lparr>curState := None, flag := flag m AND NOT FSM_FLAG_RUNNING\<rparr>) w)"

definition ProcessDeinitMessage :: "(fsm_world \<Rightarrow> fsm_world) \<Rightarrow> fsm_msg \<Rightarrow> fsm_world \<Rightarrow> fsm_world" where
  "ProcessDeinitMessage cb msg w =
     (case obj msg of
        None \<Rightarrow> w
      | Some ctrlMsgObj \<Rightarrow>
          if \<not> c_fsm ctrlMsgObj then w
          else if deinitCallback (fsm w) then cb (log_call DeinitCall w) else w)"

definition FsmStateMsgHandler ::
  "fsm_states \<Rightarrow> (fsm_world \<Rightarrow> fsm_world) \<Rightarrow> fsm_msg \<Rightarrow> fsm_world \<Rightarrow> fsm_world" where
  "FsmStateMsgHandler st cb msg w =
     (if what msg = FSM_CTRL_MSG_START then ProcessStartMessage st msg w
      else if what msg = FSM_CTRL_MSG_DATA then ProcessDataMessage st msg w
      else if what msg = FSM_CTRL_MSG_STOP then ProcessStopMessage msg w
      else if what msg = FSM_CTRL_MSG_DEINIT then ProcessDeinitMessage cb msg w
      else w)"

section \<open>The interface\<close>

text \<open>
  The environment of a posting call: the two allocations of the message, the clock, and the
  two outcomes inside the looper.
\<close>

record post_env =
  e_alloc1 :: bool
  e_alloc2 :: bool
  e_now :: "64 word"
  e_loop :: "bool \<times> bool"

definition PostMessageToFsm ::
  "post_env \<Rightarrow> int \<Rightarrow> 64 word \<Rightarrow> 64 word \<Rightarrow> nat option \<Rightarrow> fsm_world \<Rightarrow> int \<times> fsm_world" where
  "PostMessageToFsm e wh a1 a2 ob w =
     (case CreateFsmHandleMsg (e_alloc1 e) (e_alloc2 e) (fsm w) wh a1 a2 ob of
        None \<Rightarrow> (SOFTBUS_ERR, w)
      | Some msg \<Rightarrow> (SOFTBUS_OK, w\<lparr>lp := LooperPostMessage (e_now e) (e_loop e) (lp w) msg\<rparr>))"

text \<open>The argument is \<^verbatim>\<open>msgType\<close> converted to a pointer, so the type 0 is the null pointer.\<close>

definition RemoveMessageFunc :: "int \<Rightarrow> fsm_msg \<Rightarrow> int \<times> FsmCtrlMsgObj option" where
  "RemoveMessageFunc para msg =
     (if para = 0 then (1, obj msg)
      else
        let msgType = para in
        if what msg = FSM_CTRL_MSG_DATA \<and> sint (ucast (arg1 msg) :: 32 word) = msgType
        then (0, map_option (\<lambda>c. c\<lparr>c_obj := None\<rparr>) (obj msg))
        else (1, obj msg))"

text \<open>\<open>looper\<close> is what \<^verbatim>\<open>GetLooper(LOOP_TYPE_DEFAULT)\<close> returns.\<close>

definition LnnFsmInit ::
  "nat option \<Rightarrow> nat \<Rightarrow> bool \<Rightarrow> string option \<Rightarrow> bool \<Rightarrow> fsm_world \<Rightarrow> int \<times> fsm_world" where
  "LnnFsmInit looper addr haveFsm nm cb w =
     (if \<not> haveFsm \<or> nm = None then (SOFTBUS_INVALID_PARAM, w)
      else
        let w1 = w\<lparr>fsm := \<lparr>curState = None, flag = 0, stateList = [], f_looper = looper,
                            f_handler = addr, deinitCallback = False\<rparr>\<rparr>
        in if looper = None then (SOFTBUS_ERR, w1)
           else (SOFTBUS_OK, set_fsm (\<lambda>m. m\<lparr>deinitCallback := cb\<rparr>) w1))"

definition LnnFsmDeinit :: "post_env \<Rightarrow> fsm_world \<Rightarrow> int \<times> fsm_world" where
  "LnnFsmDeinit e w =
     (if f_looper (fsm w) = None then (SOFTBUS_INVALID_PARAM, w)
      else PostMessageToFsm e FSM_CTRL_MSG_DEINIT 0 0 None w)"

definition LnnFsmAddState :: "nat option \<Rightarrow> fsm_world \<Rightarrow> int \<times> fsm_world" where
  "LnnFsmAddState state w =
     (case state of
        None \<Rightarrow> (SOFTBUS_INVALID_PARAM, w)
      | Some s \<Rightarrow>
          if f_looper (fsm w) = None then (SOFTBUS_INVALID_PARAM, w)
          else if IsDuplicateState (fsm w) s then (SOFTBUS_ERR, w)
          else (SOFTBUS_OK, set_fsm (\<lambda>m. m\<lparr>stateList := s # stateList m\<rparr>) w))"

definition LnnFsmStart :: "post_env \<Rightarrow> nat option \<Rightarrow> fsm_world \<Rightarrow> int \<times> fsm_world" where
  "LnnFsmStart e initialState w =
     (if f_looper (fsm w) = None \<or> initialState = None then (SOFTBUS_INVALID_PARAM, w)
      else PostMessageToFsm e FSM_CTRL_MSG_START 0 0 initialState w)"

definition LnnFsmStop :: "post_env \<Rightarrow> fsm_world \<Rightarrow> int \<times> fsm_world" where
  "LnnFsmStop e w =
     (if f_looper (fsm w) = None then (SOFTBUS_INVALID_PARAM, w)
      else PostMessageToFsm e FSM_CTRL_MSG_STOP 0 0 None w)"

definition LnnFsmPostMessage :: "post_env \<Rightarrow> int \<Rightarrow> nat option \<Rightarrow> fsm_world \<Rightarrow> int \<times> fsm_world" where
  "LnnFsmPostMessage e msgType dat w =
     (if f_looper (fsm w) = None then (SOFTBUS_INVALID_PARAM, w)
      else PostMessageToFsm e FSM_CTRL_MSG_DATA (word_of_int msgType) 0 dat w)"

definition LnnFsmPostMessageDelay ::
  "post_env \<Rightarrow> int \<Rightarrow> nat option \<Rightarrow> 64 word \<Rightarrow> fsm_world \<Rightarrow> int \<times> fsm_world" where
  "LnnFsmPostMessageDelay e msgType dat delayMillis w =
     (if f_looper (fsm w) = None then (SOFTBUS_INVALID_PARAM, w)
      else
        case CreateFsmHandleMsg (e_alloc1 e) (e_alloc2 e) (fsm w) FSM_CTRL_MSG_DATA
               (word_of_int msgType) 0 dat of
          None \<Rightarrow> (SOFTBUS_ERR, w)
        | Some msg \<Rightarrow>
            (SOFTBUS_OK,
             w\<lparr>lp := LooperPostMessageDelay (e_now e) (e_loop e) (lp w) msg delayMillis\<rparr>))"

definition LnnFsmRemoveMessage :: "bool \<Rightarrow> int \<Rightarrow> fsm_world \<Rightarrow> int \<times> fsm_world" where
  "LnnFsmRemoveMessage lock msgType w =
     (if f_looper (fsm w) = None then (SOFTBUS_INVALID_PARAM, w)
      else (SOFTBUS_OK, w\<lparr>lp := LoopRemoveMessageCustom lock (f_handler (fsm w))
                                    (RemoveMessageFunc msgType) (lp w)\<rparr>))"

definition LnnFsmTransactState :: "fsm_states \<Rightarrow> nat option \<Rightarrow> fsm_world \<Rightarrow> int \<times> fsm_world" where
  "LnnFsmTransactState st state w =
     (case state of
        None \<Rightarrow> (SOFTBUS_INVALID_PARAM, w)
      | Some s \<Rightarrow>
          (case curState (fsm w) of
             None \<Rightarrow> (SOFTBUS_ERR, w)
           | Some cur \<Rightarrow>
               if \<not> is_running (fsm w) then (SOFTBUS_ERR, w)
               else if IsDuplicateState (fsm w) s then
                 let w1 = call_exit st cur w;
                     w2 = set_fsm (\<lambda>m. m\<lparr>curState := Some s\<rparr>) w1
                 in (SOFTBUS_OK, call_enter st s w2)
               else (SOFTBUS_OK, w)))"


section \<open>The invariant of a machine\<close>

text \<open>Between two messages a machine has a current state exactly when it is running, and the
  current state is registered.\<close>

definition cur_ok :: "FsmStateMachine \<Rightarrow> bool" where
  "cur_ok m \<longleftrightarrow> (case curState m of None \<Rightarrow> True | Some s \<Rightarrow> s \<in> set (stateList m)) \<and> distinct (stateList m)"

definition fsm_inv :: "FsmStateMachine \<Rightarrow> bool" where
  "fsm_inv m \<longleftrightarrow> (curState m \<noteq> None \<longleftrightarrow> is_running m) \<and> cur_ok m"

text \<open>
  What is assumed of the functions of the states: they may register further states, change the
  current state to a registered one and post messages, but they neither start nor stop the
  machine by themselves.
\<close>

definition callback_ok :: "(fsm_world \<Rightarrow> fsm_world) \<Rightarrow> bool" where
  "callback_ok f \<longleftrightarrow> (\<forall>w. cur_ok (fsm w) \<longrightarrow> cur_ok (fsm (f w)) \<and> flag (fsm (f w)) = flag (fsm w)
     \<and> set (stateList (fsm w)) \<subseteq> set (stateList (fsm (f w)))
     \<and> (curState (fsm (f w)) = None \<longleftrightarrow> curState (fsm w) = None))"

definition callbacks_ok :: "fsm_states \<Rightarrow> (fsm_world \<Rightarrow> fsm_world) \<Rightarrow> bool" where
  "callbacks_ok st cb \<longleftrightarrow> callback_ok cb \<and> (\<forall>s.
     (\<forall>f. enter (st s) = Some f \<longrightarrow> callback_ok f) \<and>
     (\<forall>f. exit_fn (st s) = Some f \<longrightarrow> callback_ok f) \<and>
     (\<forall>f t d. process (st s) = Some f \<longrightarrow> callback_ok (f t d)))"

lemma callback_okD:
  "callback_ok f \<Longrightarrow> cur_ok (fsm w) \<Longrightarrow> cur_ok (fsm (f w)) \<and> flag (fsm (f w)) = flag (fsm w)
     \<and> set (stateList (fsm w)) \<subseteq> set (stateList (fsm (f w)))
     \<and> (curState (fsm (f w)) = None \<longleftrightarrow> curState (fsm w) = None)"
  by (auto simp: callback_ok_def)

lemma fsm_log_call [simp]: "fsm (log_call e w) = fsm w"
  by (simp add: log_call_def)

lemma fsm_set_fsm [simp]: "fsm (set_fsm f w) = f (fsm w)"
  by (simp add: set_fsm_def)

lemma callback_ok_id: "callback_ok (\<lambda>w. w)"
  by (simp add: callback_ok_def)

lemma callback_ok_log: "callback_ok f \<Longrightarrow> callback_ok (\<lambda>w. f (log_call e w))"
  unfolding callback_ok_def by (metis fsm_log_call)

lemma call_enter_ok: "callbacks_ok st cb \<Longrightarrow> callback_ok (call_enter st s)"
  unfolding call_enter_def
  by (cases "enter (st s)") (simp_all add: callback_ok_id callback_ok_log callbacks_ok_def)

lemma call_exit_ok: "callbacks_ok st cb \<Longrightarrow> callback_ok (call_exit st s)"
  unfolding call_exit_def
  by (cases "exit_fn (st s)") (simp_all add: callback_ok_id callback_ok_log callbacks_ok_def)

lemma is_running_flags [simp]:
  "is_running (m\<lparr>flag := f OR 1\<rparr>)"
  "\<not> is_running (m\<lparr>curState := c, flag := f AND - 2\<rparr>)"
proof -
  have "bit ((f OR 1) AND 1) 0" by (simp add: bit_simps)
  then show "is_running (m\<lparr>flag := f OR 1\<rparr>)" by (auto simp: is_running_def)
  have "(f AND NOT 1) AND 1 = 0" by (rule bit_eqI) (auto simp: bit_simps)
  then show "\<not> is_running (m\<lparr>curState := c, flag := f AND - 2\<rparr>)" by (simp add: is_running_def)
qed

lemma ProcessStartMessage_inv:
  assumes "callbacks_ok st cb" "fsm_inv (fsm w)"
  shows "fsm_inv (fsm (ProcessStartMessage st msg w))"
proof (cases "\<exists>c s. obj msg = Some c \<and> c_fsm c \<and> c_obj c = Some s \<and> curState (fsm w) = None
    \<and> \<not> is_running (fsm w) \<and> s \<in> set (stateList (fsm w))")
  case True
  then obtain c s where c: "obj msg = Some c" "c_fsm c" "c_obj c = Some s"
    "curState (fsm w) = None" "\<not> is_running (fsm w)" "s \<in> set (stateList (fsm w))" by blast
  let ?w1 = "set_fsm (\<lambda>m. m\<lparr>curState := Some s\<rparr>) w"
  have "cur_ok (fsm ?w1)" using c assms(2) by (simp add: cur_ok_def fsm_inv_def)
  note k = callback_okD [OF call_enter_ok [OF assms(1)] this, of s]
  have "ProcessStartMessage st msg w
      = set_fsm (\<lambda>m. m\<lparr>flag := flag m OR 1\<rparr>) (call_enter st s ?w1)"
    using c by (simp add: ProcessStartMessage_def IsDuplicateState_def Let_def)
  with k show ?thesis by (auto simp: fsm_inv_def cur_ok_def)
next
  case False
  then have "ProcessStartMessage st msg w = w"
    by (auto simp: ProcessStartMessage_def IsDuplicateState_def Let_def split: option.splits bool.splits)
  with assms(2) show ?thesis by simp
qed

lemma fsm_inv_callback:
  "callback_ok f \<Longrightarrow> fsm_inv (fsm w) \<Longrightarrow> fsm_inv (fsm (f w))"
  using callback_okD [of f w] by (auto simp: fsm_inv_def is_running_def)

lemma ProcessDataMessage_cases:
  obtains "ProcessDataMessage st msg w = w"
  | s f t d where "process (st s) = Some f"
      "ProcessDataMessage st msg w = f t d (log_call (Process s t d) w)"
proof (cases "\<exists>c s f. obj msg = Some c \<and> c_fsm c \<and> curState (fsm w) = Some s
    \<and> is_running (fsm w) \<and> process (st s) = Some f")
  case True
  then show thesis by (auto simp: ProcessDataMessage_def Let_def intro: that(2))
next
  case False
  then have "ProcessDataMessage st msg w = w"
    by (auto simp: ProcessDataMessage_def split: option.splits)
  then show thesis by (rule that(1))
qed

lemma FsmStateMsgHandler_inv:
  assumes ok: "callbacks_ok st cb" and inv: "fsm_inv (fsm w)"
  shows "fsm_inv (fsm (FsmStateMsgHandler st cb msg w))"
proof -
  have "fsm_inv (fsm (ProcessDataMessage st msg w))"
  proof (cases rule: ProcessDataMessage_cases [of st msg w])
    case 1
    then show ?thesis using inv by simp
  next
    case (2 s f t d)
    with ok have "callback_ok (f t d)" by (simp add: callbacks_ok_def)
    then show ?thesis using fsm_inv_callback [of "f t d"] inv 2(2) by simp
  qed
  moreover have "fsm_inv (fsm (ProcessStopMessage msg w))"
    using inv by (auto simp: ProcessStopMessage_def fsm_inv_def cur_ok_def split: option.splits)
  moreover have "fsm_inv (fsm (ProcessDeinitMessage cb msg w))"
  proof -
    have "fsm_inv (fsm (cb (log_call DeinitCall w)))"
      using ok inv fsm_inv_callback [of cb "log_call DeinitCall w"] by (simp add: callbacks_ok_def)
    then show ?thesis using inv by (simp add: ProcessDeinitMessage_def split: option.splits)
  qed
  ultimately show ?thesis
    using ProcessStartMessage_inv [OF ok inv] inv by (simp add: FsmStateMsgHandler_def)
qed

lemma LnnFsmTransactState_callback:
  assumes "callbacks_ok st cb"
  shows "callback_ok (\<lambda>w. snd (LnnFsmTransactState st state w))"
  unfolding callback_ok_def
proof (intro allI impI)
  fix w :: fsm_world assume cur: "cur_ok (fsm w)"
  let ?R = "\<lambda>w'. cur_ok (fsm w') \<and> flag (fsm w') = flag (fsm w)
     \<and> set (stateList (fsm w)) \<subseteq> set (stateList (fsm w'))
     \<and> (curState (fsm w') = None \<longleftrightarrow> curState (fsm w) = None)"
  show "?R (snd (LnnFsmTransactState st state w))"
  proof (cases "\<exists>s c. state = Some s \<and> curState (fsm w) = Some c \<and> is_running (fsm w)
      \<and> s \<in> set (stateList (fsm w))")
    case True
    then obtain s c where c: "state = Some s" "curState (fsm w) = Some c" "is_running (fsm w)"
      "s \<in> set (stateList (fsm w))" by blast
    let ?w1 = "call_exit st c w"
    let ?w2 = "set_fsm (\<lambda>m. m\<lparr>curState := Some s\<rparr>) ?w1"
    have e: "?R ?w1" using callback_okD [OF call_exit_ok [OF assms] cur, of c] by simp
    then have "cur_ok (fsm ?w2)" using c(4) by (auto simp: cur_ok_def)
    then have "?R (call_enter st s ?w2)"
      using callback_okD [OF call_enter_ok [OF assms], of ?w2 s] e c(2) by auto
    moreover have "snd (LnnFsmTransactState st state w) = call_enter st s ?w2"
      using c by (simp add: LnnFsmTransactState_def IsDuplicateState_def Let_def)
    ultimately show ?thesis by simp
  next
    case False
    then have "snd (LnnFsmTransactState st state w) = w"
      by (auto simp: LnnFsmTransactState_def IsDuplicateState_def split: option.splits)
    then show ?thesis using cur by simp
  qed
qed


section \<open>Commands in their order\<close>

text \<open>A command of the interface and the message it posts at a time.\<close>

datatype fsm_cmd = CStart nat | CData int "nat option" | CStop

fun cmd_msg :: "FsmStateMachine \<Rightarrow> fsm_cmd \<times> 64 word \<Rightarrow> fsm_msg" where
  "cmd_msg m (CStart s, t) = \<lparr>what = FSM_CTRL_MSG_START, arg1 = 0, arg2 = 0, time = t,
     obj = Some \<lparr>c_fsm = True, c_obj = Some s\<rparr>, handler = Some (f_handler m)\<rparr>"
| "cmd_msg m (CData ty d, t) = \<lparr>what = FSM_CTRL_MSG_DATA, arg1 = word_of_int ty, arg2 = 0, time = t,
     obj = Some \<lparr>c_fsm = True, c_obj = d\<rparr>, handler = Some (f_handler m)\<rparr>"
| "cmd_msg m (CStop, t) = \<lparr>what = FSM_CTRL_MSG_STOP, arg1 = 0, arg2 = 0, time = t,
     obj = Some \<lparr>c_fsm = True, c_obj = None\<rparr>, handler = Some (f_handler m)\<rparr>"

definition ok_env :: "64 word \<Rightarrow> post_env" where
  "ok_env t = \<lparr>e_alloc1 = True, e_alloc2 = True, e_now = t, e_loop = (True, True)\<rparr>"

fun issue :: "fsm_world \<Rightarrow> fsm_cmd \<times> 64 word \<Rightarrow> fsm_world" where
  "issue w (CStart s, t) = snd (LnnFsmStart (ok_env t) (Some s) w)"
| "issue w (CData ty d, t) = snd (LnnFsmPostMessage (ok_env t) ty d w)"
| "issue w (CStop, t) = snd (LnnFsmStop (ok_env t) w)"

lemmas fsm_post_defs = LnnFsmStart_def LnnFsmStop_def LnnFsmPostMessage_def PostMessageToFsm_def
  CreateFsmHandleMsg_def LooperPostMessage_def ok_env_def

lemma issue_post:
  "f_looper (fsm w) \<noteq> None
   \<Longrightarrow> issue w c = w\<lparr>lp := PostMessageAtTime (True, True) (lp w) (cmd_msg (fsm w) c)\<rparr>"
  by (cases "(w, c)" rule: issue.cases) (auto simp: fsm_post_defs)

lemma issues_post:
  "f_looper (fsm w) \<noteq> None
   \<Longrightarrow> foldl issue w cs
     = w\<lparr>lp := foldl (PostMessageAtTime (True, True)) (lp w) (map (cmd_msg (fsm w)) cs)\<rparr>"
  by (induction cs arbitrary: w) (auto simp: issue_post)

lemma tm_cmd_msg: "tm (cmd_msg m c) = sint (snd c)" "handler (cmd_msg m c) = Some (f_handler m)"
  by (cases "(m, c)" rule: cmd_msg.cases; simp)+

text \<open>
  The commands are pending in the order in which they were issued: the client side of the
  contract of the looper.
\<close>

lemma issues_pending:
  assumes "f_looper (fsm w) \<noteq> None" "\<not> stop (lp w)"
    and "sorted (map tm (msgHead (lp w)) @ map (\<lambda>c. sint (snd c)) cs)"
  shows "msgHead (lp (foldl issue w cs)) = msgHead (lp w) @ map (cmd_msg (fsm w)) cs"
proof -
  have "\<forall>m \<in> set (map (cmd_msg (fsm w)) cs). accepts_msg (True, True) (lp w) m"
    using assms(2) by (auto simp: accepts_msg_def tm_cmd_msg)
  moreover have "sorted (map tm (msgHead (lp w) @ map (cmd_msg (fsm w)) cs))"
    using assms(3) by (simp add: comp_def tm_cmd_msg)
  ultimately have "msgHead (foldl (PostMessageAtTime (True, True)) (lp w) (map (cmd_msg (fsm w)) cs))
      = msgHead (lp w) @ map (cmd_msg (fsm w)) cs"
    by (rule looper.posts_in_order)
  then show ?thesis by (simp add: issues_post [OF assms(1)])
qed

text \<open>The looper hands the pending messages to the machine, one after the other.\<close>

definition deliver :: "fsm_states \<Rightarrow> (fsm_world \<Rightarrow> fsm_world) \<Rightarrow> fsm_world \<Rightarrow> fsm_world" where
  "deliver st cb w = fold (FsmStateMsgHandler st cb) (msgHead (lp w)) w"

lemma sint_type: "- (2 ^ 31) \<le> t \<Longrightarrow> t < 2 ^ 31 \<Longrightarrow> sint (ucast (word_of_int t :: 64 word) :: 32 word) = t"
proof -
  assume t: "- (2 ^ 31) \<le> t" "t < 2 ^ 31"
  have "(ucast (word_of_int t :: 64 word) :: 32 word) = word_of_int t"
    by (rule bit_eqI) (auto simp: bit_simps)
  moreover have "sint (word_of_int t :: 32 word) = t"
    using t signed_take_bit_int_eq_self [of 31 t] by (simp add: signed_of_int)
  ultimately show ?thesis by simp
qed


text \<open>A state that observes: it has an enter and a process function that change nothing.\<close>

definition observes :: "fsm_states \<Rightarrow> nat \<Rightarrow> bool" where
  "observes st s \<longleftrightarrow> enter (st s) = Some (\<lambda>w. w) \<and> process (st s) = Some (\<lambda>_ _ w. w)"

definition data_cmds :: "(int \<times> nat option \<times> 64 word) list \<Rightarrow> (fsm_cmd \<times> 64 word) list" where
  "data_cmds ds = map (\<lambda>(ty, d, t). (CData ty d, t)) ds"

definition int32_range :: "int \<Rightarrow> bool" where
  "int32_range t \<longleftrightarrow> - (2 ^ 31) \<le> t \<and> t < 2 ^ 31"

lemma deliver_data:
  assumes "observes st s" "curState (fsm w) = Some s" "is_running (fsm w)"
    and "\<forall>(ty, d, t) \<in> set ds. int32_range ty"
  shows "fold (FsmStateMsgHandler st cb) (map (cmd_msg m) (data_cmds ds)) w
    = w\<lparr>trace := trace w @ map (\<lambda>(ty, d, t). Process s ty d) ds\<rparr>"
  using assms(2-4)
proof (induction ds arbitrary: w)
  case (Cons x ds)
  obtain ty d t where x: "x = (ty, d, t)" by (cases x)
  have ty: "sint (ucast (word_of_int ty :: 64 word) :: 32 word) = ty"
    using Cons.prems(3) x by (intro sint_type) (auto simp: int32_range_def)
  have "FsmStateMsgHandler st cb (cmd_msg m (CData ty d, t)) w = log_call (Process s ty d) w"
    using assms(1) Cons.prems(1,2) ty
    by (simp add: FsmStateMsgHandler_def ProcessDataMessage_def observes_def Let_def)
  then show ?case
    using Cons.IH [of "log_call (Process s ty d) w"] Cons.prems x
    by (simp add: data_cmds_def log_call_def)
qed (simp add: data_cmds_def)

section \<open>Properties\<close>

text \<open>C29: Whatever message arrives, the handler keeps the invariant of the machine (a current
  state exactly when running, the current state registered, no state registered twice), for
  all functions of the states that satisfy the assumption on callbacks; and
  \<open>LnnFsmTransactState\<close>, which those functions call, satisfies that assumption.\<close>

theorem fsm_handler_invariant:
  assumes "callbacks_ok st cb" "fsm_inv (fsm w)"
  shows "fsm_inv (fsm (FsmStateMsgHandler st cb msg w))
    \<and> callback_ok (\<lambda>w. snd (LnnFsmTransactState st state w))"
  using FsmStateMsgHandler_inv [OF assms] LnnFsmTransactState_callback [OF assms(1)] by blast

text \<open>A machine with two states; processing data in the first changes to the second.\<close>

definition plain_states :: fsm_states where
  "plain_states s = \<lparr>enter = Some (\<lambda>w. w), process = Some (\<lambda>_ _ w. w), exit_fn = None\<rparr>"

definition two_states :: fsm_states where
  "two_states s = \<lparr>enter = Some (\<lambda>w. w),
     process = Some (\<lambda>_ _ w. snd (LnnFsmTransactState plain_states (Some 2) w)), exit_fn = None\<rparr>"

definition two_world :: fsm_world where
  "two_world = \<lparr>fsm = \<lparr>curState = None, flag = 0, stateList = [2, 1], f_looper = Some 9,
       f_handler = 7, deinitCallback = False\<rparr>,
     lp = \<lparr>msgHead = [], name = ''Loop-default'', stop = False, running = True,
       currentMsg = None, msgSize = 0, freed = [], handled = []\<rparr>,
     trace = []\<rparr>"

lemma plain_states_ok: "callbacks_ok plain_states (\<lambda>w. w)"
  by (simp add: callbacks_ok_def plain_states_def callback_ok_id)

lemma two_states_ok: "callbacks_ok two_states (\<lambda>w. w)"
  using LnnFsmTransactState_callback [OF plain_states_ok, of "Some 2"]
  by (simp add: callbacks_ok_def two_states_def callback_ok_id)

theorem fsm_handler_invariant_witness:
  "let w1 = FsmStateMsgHandler two_states (\<lambda>w. w) (cmd_msg (fsm two_world) (CStart 1, 0)) two_world
   in curState (fsm w1) = Some 1 \<and> fsm_inv (fsm w1)"
proof -
  have "fsm_inv (fsm two_world)"
    by (simp add: two_world_def fsm_inv_def cur_ok_def is_running_def)
  from fsm_handler_invariant [OF two_states_ok this]
  have "fsm_inv (fsm (FsmStateMsgHandler two_states (\<lambda>w. w)
      (cmd_msg (fsm two_world) (CStart 1, 0)) two_world))" by blast
  then show ?thesis
    by (simp add: Let_def FsmStateMsgHandler_def ProcessStartMessage_def IsDuplicateState_def
        call_enter_def two_states_def two_world_def is_running_def log_call_def set_fsm_def)
qed



text \<open>\<open>LnnFsmRemoveMessage\<close> removes exactly the pending data messages of the machine with the
  given type and keeps the order of the others, unless the type is 0: the converted argument
  is then the null pointer and nothing is removed.\<close>

theorem LnnFsmRemoveMessage_exact:
  assumes "f_looper (fsm w) \<noteq> None" "running (lp w)" "\<not> stop (lp w)"
  shows "fst (LnnFsmRemoveMessage True ty w) = SOFTBUS_OK
    \<and> msgHead (lp (snd (LnnFsmRemoveMessage True ty w))) = filter (\<lambda>m. ty = 0 \<or> \<not>
        (handler m = Some (f_handler (fsm w)) \<and> what m = FSM_CTRL_MSG_DATA
         \<and> sint (ucast (arg1 m) :: 32 word) = ty)) (msgHead (lp w))"
proof -
  have "fst (remove_loop h (RemoveMessageFunc ty) ms) = filter (\<lambda>m. ty = 0 \<or> \<not> (handler m = Some h
     \<and> what m = FSM_CTRL_MSG_DATA \<and> sint (ucast (arg1 m) :: 32 word) = ty)) ms" for h ms
    by (induction ms) (auto simp: RemoveMessageFunc_def Let_def split: prod.splits)
  then show ?thesis
    using assms by (simp add: LnnFsmRemoveMessage_def LoopRemoveMessageCustom_def split: prod.splits)
      (metis fst_conv)
qed

theorem LnnFsmRemoveMessage_exact_witness:
  "let w = foldl issue two_world [(CData 9 None, 1), (CData 0 None, 2)] in
   map time (msgHead (lp (snd (LnnFsmRemoveMessage True 9 w)))) = [2]
   \<and> map time (msgHead (lp (snd (LnnFsmRemoveMessage True 0 w)))) = [1, 2]"
  using LnnFsmRemoveMessage_exact [of "foldl issue two_world [(CData 9 None, 1), (CData 0 None, 2)]" 9]
    LnnFsmRemoveMessage_exact [of "foldl issue two_world [(CData 9 None, 1), (CData 0 None, 2)]" 0]
  by (simp add: Let_def fsm_post_defs two_world_def PostMessageAtTime_def)

text \<open>Changing the state of a running machine to a registered state calls the exit function of
  the old state and then the enter function of the new one, which is current by then; with a
  state that is not registered the call reports success and changes nothing; a machine that is
  not running, also during the entry of its initial state, refuses.\<close>

lemma LnnFsmTransactState_cases:
  "LnnFsmTransactState st (Some s) w =
    (if curState (fsm w) = None \<or> \<not> is_running (fsm w) then (SOFTBUS_ERR, w)
     else if s \<notin> set (stateList (fsm w)) then (SOFTBUS_OK, w)
     else (SOFTBUS_OK, call_enter st s
        (set_fsm (\<lambda>m. m\<lparr>curState := Some s\<rparr>) (call_exit st (the (curState (fsm w))) w))))"
  by (auto simp: LnnFsmTransactState_def IsDuplicateState_def Let_def split: option.splits)

end
