(* ===== verification/Lnn_Map.thy ===== *)
theory Lnn_Map
  imports Softbus_Prelude
begin

text \<open>
  The hash map of the network ledger, \<^verbatim>\<open>core/bus_center/lnn/net_ledger/common/src/lnn_map.c\<close>:
  chained buckets whose number is a power of two and grows with the number of nodes. The
  operations implement a finite map from strings to values; the contract is the locale
  \<open>kv_map\<close>, and the refinement of whole sequences of operations is proved once inside it. The
  iterator visits every node once. Dereferencing a null bucket array is the outcome
  \<^const>\<open>None\<close>.
\<close>

unbundle bit_operations_syntax

section \<open>Nodes and map\<close>

abbreviation (input) HDF_MIN_MAP_SIZE :: "32 word" where "HDF_MIN_MAP_SIZE \<equiv> 8"
abbreviation (input) HDF_ENLARGE_FACTOR :: nat where "HDF_ENLARGE_FACTOR \<equiv> 2"
abbreviation (input) HDF_MAP_KEY_MAX_SIZE :: nat where "HDF_MAP_KEY_MAX_SIZE \<equiv> 1000"
abbreviation (input) HDF_MAP_VALUE_MAX_SIZE :: nat where "HDF_MAP_VALUE_MAX_SIZE \<equiv> 1000"

text \<open>
  A node carries its hash, key and value; \<^verbatim>\<open>valueSize\<close> is the length of the value. A chain
  of nodes is a list, the array of chains a list of lists with \<^verbatim>\<open>bucketSize\<close> entries, so
  that an index reduced by \<^verbatim>\<open>MapHashIdx\<close> is inside it.
\<close>

type_synonym val = "8 word list"

record MapNode =
  n_hash :: "32 word"
  n_key :: string
  n_value :: val

record Map =
  nodes :: "MapNode list list option"
  nodeSize :: "32 word"
  bucketSize :: "32 word"

text \<open>The hash of a key; \<^verbatim>\<open>char\<close> is unsigned, as on the ARM targets.\<close>

definition MapHash :: "string \<Rightarrow> 32 word" where
  "MapHash key = fold (\<lambda>c hash. hash * 131 + of_char c) key 0 AND 0x7FFFFFFF"

definition MapHashIdx :: "Map \<Rightarrow> 32 word \<Rightarrow> 32 word" where
  "MapHashIdx m hash = hash AND (bucketSize m - 1)"

definition MapAddNode :: "Map \<Rightarrow> MapNode \<Rightarrow> Map option" where
  "MapAddNode m node =
     (case nodes m of
        None \<Rightarrow> None
      | Some bs \<Rightarrow>
          let idx = unat (MapHashIdx m (n_hash node)) in
          if idx < length bs then Some (m\<lparr>nodes := Some (bs[idx := node # bs ! idx])\<rparr>) else None)"

text \<open>The two nested loops that move the nodes of the old buckets.\<close>

fun remap_chain :: "MapNode list \<Rightarrow> Map \<Rightarrow> Map option" where
  "remap_chain [] m = Some m"
| "remap_chain (node # next) m = Option.bind (MapAddNode m node) (remap_chain next)"

fun remap :: "MapNode list list \<Rightarrow> Map \<Rightarrow> Map option" where
  "remap [] m = Some m"
| "remap (chain # rest) m = Option.bind (remap_chain chain m) (remap rest)"

definition MapResize :: "bool \<Rightarrow> Map \<Rightarrow> 32 word \<Rightarrow> (int \<times> Map) option" where
  "MapResize alloc m sz =
     (if \<not> alloc then Some (SOFTBUS_MEM_ERR, m)
      else
        let m1 = m\<lparr>nodes := Some (replicate (unat sz) []), bucketSize := sz\<rparr>
        in case nodes m of
             None \<Rightarrow> Some (SOFTBUS_OK, m1)
           | Some tmp \<Rightarrow> map_option (Pair SOFTBUS_OK) (remap tmp m1))"

definition MapCreateNode :: "bool \<Rightarrow> string \<Rightarrow> 32 word \<Rightarrow> val \<Rightarrow> MapNode option" where
  "MapCreateNode alloc key hash v =
     (if \<not> alloc then None else Some \<lparr>n_hash = hash, n_key = key, n_value = v\<rparr>)"

section \<open>Operations\<close>

definition is_node :: "32 word \<Rightarrow> string \<Rightarrow> MapNode \<Rightarrow> bool" where
  "is_node hash key node \<longleftrightarrow> n_hash node = hash \<and> n_key node = key"

text \<open>
  The environment of an insertion: the outcomes of the allocation of the bucket array and of
  the node. A missing key or value is \<^const>\<open>None\<close>. The result of the resize is ignored.
\<close>

definition LnnMapSet ::
  "bool \<times> bool \<Rightarrow> string option \<Rightarrow> val option \<Rightarrow> Map \<Rightarrow> (int \<times> Map) option" where
  "LnnMapSet env keyp valp m =
     (case (keyp, valp) of
        (Some key, Some v) \<Rightarrow>
          if v = [] then Some (SOFTBUS_INVALID_PARAM, m)
          else if length v > HDF_MAP_KEY_MAX_SIZE \<or> length key > HDF_MAP_VALUE_MAX_SIZE
          then Some (SOFTBUS_INVALID_PARAM, m)
          else
            let hash = MapHash key;
                found = (case nodes m of
                           None \<Rightarrow> None
                         | Some bs \<Rightarrow>
                             if nodeSize m > 0
                             then find (is_node hash key) (bs ! unat (MapHashIdx m hash))
                             else None)
            in case found of
                 Some node \<Rightarrow>
                   if length (n_value node) \<noteq> length v then Some (SOFTBUS_INVALID_PARAM, m)
                   else
                     let bs = the (nodes m); idx = unat (MapHashIdx m hash)
                     in Some (SOFTBUS_OK, m\<lparr>nodes := Some (bs[idx :=
                          upd_first (is_node hash key) (\<lambda>n. n\<lparr>n_value := v\<rparr>) (bs ! idx)])\<rparr>)
               | None \<Rightarrow>
                   Option.bind
                     (if nodeSize m \<ge> bucketSize m
                      then MapResize (fst env) m
                             (if bucketSize m < HDF_MIN_MAP_SIZE then HDF_MIN_MAP_SIZE
                              else push_bit HDF_ENLARGE_FACTOR (bucketSize m))
                      else Some (SOFTBUS_OK, m))
                     (\<lambda>(_, m1).
                        case MapCreateNode (snd env) key hash v of
                          None \<Rightarrow> Some (SOFTBUS_INVALID_PARAM, m1)
                        | Some node \<Rightarrow>
                            map_option (\<lambda>m2. (SOFTBUS_OK, m2\<lparr>nodeSize := nodeSize m2 + 1\<rparr>))
                              (MapAddNode m1 node))
      | _ \<Rightarrow> Some (SOFTBUS_INVALID_PARAM, m))"

definition LnnMapGet :: "Map \<Rightarrow> string option \<Rightarrow> val option" where
  "LnnMapGet m keyp =
     (case (keyp, nodes m) of
        (Some key, Some bs) \<Rightarrow>
          if nodeSize m = 0 then None
          else
            let hash = MapHash key
            in map_option n_value (find (is_node hash key) (bs ! unat (MapHashIdx m hash)))
      | _ \<Rightarrow> None)"

definition LnnMapErase :: "string option \<Rightarrow> Map \<Rightarrow> int \<times> Map" where
  "LnnMapErase keyp m =
     (case (keyp, nodes m) of
        (Some key, Some bs) \<Rightarrow>
          if nodeSize m = 0 then (SOFTBUS_INVALID_PARAM, m)
          else
            let hash = MapHash key; idx = unat (MapHashIdx m hash)
            in if find (is_node hash key) (bs ! idx) \<noteq> None
               then (SOFTBUS_OK, m\<lparr>nodes := Some (bs[idx := del_first (is_node hash key) (bs ! idx)]),
                                   nodeSize := nodeSize m - 1\<rparr>)
               else (SOFTBUS_ERR, m)
      | _ \<Rightarrow> (SOFTBUS_INVALID_PARAM, m))"

definition MapGetSize :: "Map option \<Rightarrow> 32 word" where
  "MapGetSize m = (case m of None \<Rightarrow> 0 | Some m \<Rightarrow> nodeSize m)"

definition LnnMapInit :: "Map \<Rightarrow> Map" where
  "LnnMapInit m = m\<lparr>nodes := None, nodeSize := 0, bucketSize := 0\<rparr>"

definition LnnMapDelete :: "Map \<Rightarrow> Map" where
  "LnnMapDelete m =
     (if nodes m = None then m else m\<lparr>nodes := None, nodeSize := 0, bucketSize := 0\<rparr>)"

section \<open>Iterator\<close>

text \<open>The position is the rest of a chain from the current node on; the empty list is null.\<close>

record MapIterator =
  it_node :: "MapNode list"
  nodeNum :: "32 word"
  bucketNum :: "32 word"
  it_map :: Map

definition LnnMapInitIterator :: "bool \<Rightarrow> Map option \<Rightarrow> MapIterator option" where
  "LnnMapInitIterator alloc m =
     (case m of
        None \<Rightarrow> None
      | Some m \<Rightarrow>
          if \<not> alloc then None
          else Some \<lparr>it_node = [], nodeNum = 0, bucketNum = 0, it_map = m\<rparr>)"

definition LnnMapHasNext :: "MapIterator \<Rightarrow> bool" where
  "LnnMapHasNext it \<longleftrightarrow> nodeNum it < nodeSize (it_map it)"

text \<open>The search for the next non-empty bucket, over the buckets not yet visited.\<close>

fun next_bucket :: "MapNode list list \<Rightarrow> MapIterator \<Rightarrow> MapIterator" where
  "next_bucket [] it = it"
| "next_bucket (chain # rest) it =
     (let it1 = it\<lparr>bucketNum := bucketNum it + 1\<rparr>
      in if chain \<noteq> [] then it1\<lparr>nodeNum := nodeNum it + 1, it_node := chain\<rparr>
         else next_bucket rest it1)"

definition LnnMapNext :: "MapIterator \<Rightarrow> MapIterator" where
  "LnnMapNext it =
     (if LnnMapHasNext it then
        (case it_node it of
           _ # n # rest \<Rightarrow> it\<lparr>nodeNum := nodeNum it + 1, it_node := n # rest\<rparr>
         | _ \<Rightarrow>
             (case nodes (it_map it) of
                None \<Rightarrow> it
              | Some bs \<Rightarrow> next_bucket (drop (unat (bucketNum it)) bs) it))
      else it)"


section \<open>Well-formed maps\<close>

definition idx_of :: "nat \<Rightarrow> string \<Rightarrow> nat" where
  "idx_of k key = unat (MapHash key) mod 2 ^ k"

definition buckets_ok :: "nat \<Rightarrow> MapNode list list \<Rightarrow> bool" where
  "buckets_ok k bs \<longleftrightarrow> length bs = 2 ^ k \<and>
     (\<forall>i < 2 ^ k. \<forall>n \<in> set (bs ! i). n_hash n = MapHash (n_key n) \<and> idx_of k (n_key n) = i)"

definition map_ok :: "Map \<Rightarrow> bool" where
  "map_ok m \<longleftrightarrow> (case nodes m of
      None \<Rightarrow> nodeSize m = 0 \<and> bucketSize m = 0
    | Some bs \<Rightarrow> (\<exists>k \<in> {3..31}. odd k \<and> bucketSize m = 2 ^ k \<and> buckets_ok k bs) \<and>
        distinct (map n_key (concat bs)) \<and> nodeSize m = of_nat (length (concat bs)) \<and>
        length (concat bs) < 2 ^ 31)"

definition map_nodes :: "Map \<Rightarrow> MapNode list" where
  "map_nodes m = (case nodes m of None \<Rightarrow> [] | Some bs \<Rightarrow> concat bs)"

definition contents :: "Map \<Rightarrow> string \<Rightarrow> val option" where
  "contents m key = map_option n_value (find (\<lambda>n. n_key n = key) (map_nodes m))"

lemma MapHashIdx_idx_of:
  "bucketSize m = 2 ^ k \<Longrightarrow> unat (MapHashIdx m (MapHash key)) = idx_of k key"
proof -
  assume "bucketSize m = 2 ^ k"
  then have "MapHashIdx m (MapHash key) = take_bit k (MapHash key)"
    by (simp only: MapHashIdx_def take_bit_eq_mask mask_eq_exp_minus_1)
  then have "unat (MapHashIdx m (MapHash key)) = take_bit k (unat (MapHash key))"
    by (simp only: unsigned_take_bit_eq)
  then show ?thesis by (simp only: idx_of_def take_bit_nat_def)
qed

lemma idx_of_less [simp]: "idx_of k key < 2 ^ k"
  by (simp add: idx_of_def)

lemma buckets_okD:
  "buckets_ok k bs \<Longrightarrow> i < 2 ^ k \<Longrightarrow> n \<in> set (bs ! i)
   \<Longrightarrow> n_hash n = MapHash (n_key n) \<and> idx_of k (n_key n) = i"
  by (simp add: buckets_ok_def)

text \<open>A key can only be in its own bucket, so searching there is searching everywhere.\<close>

lemma find_none_other:
  "(\<And>n. n \<in> set xs \<Longrightarrow> n_key n \<noteq> key) \<Longrightarrow> find (\<lambda>n. n_key n = key) xs = None"
  by (auto simp: find_None_iff)

lemma find_append_none:
  "find P xs = None \<Longrightarrow> find P (xs @ ys) = find P ys"
  by (induction xs) (auto split: if_splits)

lemma find_append_right:
  "find P ys = None \<Longrightarrow> find P (xs @ ys) = find P xs"
  by (induction xs) (auto split: if_splits)

lemma concat_split:
  "i < length bs \<Longrightarrow> concat bs = concat (take i bs) @ bs ! i @ concat (drop (Suc i) bs)"
  by (metis append_take_drop_id concat.simps(2) concat_append Cons_nth_drop_Suc)

lemma find_bucket:
  assumes ok: "buckets_ok k bs"
  shows "find (is_node (MapHash key) key) (bs ! idx_of k key) = find (\<lambda>n. n_key n = key) (concat bs)"
proof -
  let ?i = "idx_of k key"
  let ?P = "\<lambda>n. n_key n = key"
  have i: "?i < length bs" using ok by (simp add: buckets_ok_def)
  have other: "find ?P (concat cs) = None" if "\<forall>c \<in> set cs. \<exists>j < length bs. j \<noteq> ?i \<and> c = bs ! j" for cs
    using that ok by (intro find_none_other) (auto simp: buckets_ok_def)
  have "find ?P (concat (take ?i bs)) = None"
  proof (intro other ballI)
    fix c assume "c \<in> set (take ?i bs)"
    then obtain j where "j < ?i" "c = bs ! j" by (auto simp: in_set_conv_nth)
    then show "\<exists>j < length bs. j \<noteq> ?i \<and> c = bs ! j" using i by (intro exI [of _ j]) auto
  qed
  moreover have "find ?P (concat (drop (Suc ?i) bs)) = None"
  proof (intro other ballI)
    fix c assume "c \<in> set (drop (Suc ?i) bs)"
    then obtain j where "j < length bs - Suc ?i" "c = bs ! (Suc ?i + j)"
      by (auto simp: in_set_conv_nth)
    then show "\<exists>j < length bs. j \<noteq> ?i \<and> c = bs ! j" by (intro exI [of _ "Suc ?i + j"]) auto
  qed
  ultimately have "find ?P (concat bs) = find ?P (bs ! ?i)"
    by (simp add: concat_split [OF i] find_append_none find_append_right)
  moreover have "find (is_node (MapHash key) key) (bs ! ?i) = find ?P (bs ! ?i)"
    using buckets_okD [OF ok, of ?i] by (intro find_cong) (auto simp: is_node_def)
  ultimately show ?thesis by simp
qed

lemma map_ok_empty_iff:
  "map_ok m \<Longrightarrow> nodes m = Some bs \<Longrightarrow> nodeSize m = 0 \<longleftrightarrow> concat bs = []"
proof -
  assume "map_ok m" "nodes m = Some bs"
  then have "nodeSize m = of_nat (length (concat bs))" "length (concat bs) < 2 ^ 31"
    by (auto simp: map_ok_def simp del: length_concat concat_eq_Nil_conv)
  then have "unat (nodeSize m) = length (concat bs)" unfolding unat_of_nat
    by (simp add: unat_of_nat del: length_concat)
  then show ?thesis by (metis length_0_conv unat_0 unat_eq_0)
qed

lemma LnnMapGet_contents: "map_ok m \<Longrightarrow> LnnMapGet m (Some key) = contents m key"
proof (cases "nodes m")
  case None
  then show ?thesis by (simp add: LnnMapGet_def contents_def map_nodes_def)
next
  case (Some bs)
  assume ok: "map_ok m"
  then obtain k where k: "bucketSize m = 2 ^ k" "buckets_ok k bs"
    using Some by (auto simp: map_ok_def)
  show ?thesis
  proof (cases "nodeSize m = 0")
    case True
    with map_ok_empty_iff [OF ok Some] Some show ?thesis
      by (simp add: LnnMapGet_def contents_def map_nodes_def del: concat_eq_Nil_conv)
  next
    case False
    with Some show ?thesis
      by (simp add: LnnMapGet_def Let_def contents_def map_nodes_def MapHashIdx_idx_of [OF k(1)]
          find_bucket [OF k(2)])
  qed
qed


section \<open>Changing one bucket\<close>

definition lookup :: "MapNode list \<Rightarrow> string \<Rightarrow> val option" where
  "lookup ns key = map_option n_value (find (\<lambda>n. n_key n = key) ns)"

lemma contents_lookup: "contents m = lookup (map_nodes m)"
  by (simp add: contents_def lookup_def fun_eq_iff)

lemma lookup_Cons: "lookup (n # ns) = (lookup ns)(n_key n \<mapsto> n_value n)"
  by (auto simp: lookup_def fun_eq_iff)

lemma lookup_None: "key \<notin> n_key ` set ns \<Longrightarrow> lookup ns key = None"
  by (auto simp: lookup_def find_None_iff)

lemma find_key:
  "distinct (map n_key ns) \<Longrightarrow> n \<in> set ns \<Longrightarrow> find (\<lambda>x. n_key x = n_key n) ns = Some n"
  by (induction ns) (auto simp: image_iff)

text \<open>With distinct keys the order of the nodes does not matter.\<close>

lemma lookup_mset:
  assumes "mset ns = mset ns'" "distinct (map n_key ns)"
  shows "lookup ns = lookup ns'"
proof
  fix key
  have set: "set ns = set ns'" using assms(1) by (metis set_mset_mset)
  have "distinct (map n_key ns')" using assms by (metis mset_eq_imp_distinct_iff mset_map)
  then show "lookup ns key = lookup ns' key"
    using find_key [OF assms(2)] find_key [of ns'] set lookup_None
    by (cases "key \<in> n_key ` set ns") (auto simp: lookup_def)
qed

lemma mset_concat_update:
  assumes "i < length bs"
  shows "mset (concat (bs[i := xs])) + mset (bs ! i) = mset (concat bs) + mset xs"
  using assms by (simp add: concat_split [of i bs] concat_split [of i "bs[i := xs]"])

lemma mset_upd_first:
  "find P xs = Some n \<Longrightarrow> add_mset n (mset (upd_first P f xs)) = add_mset (f n) (mset xs)"
  by (induction xs) (auto split: if_splits simp: add_mset_commute)

lemma buckets_ok_update:
  assumes "buckets_ok k bs" "i < 2 ^ k"
    and "\<And>n. n \<in> set xs \<Longrightarrow> n_hash n = MapHash (n_key n) \<and> idx_of k (n_key n) = i"
  shows "buckets_ok k (bs[i := xs])"
  unfolding buckets_ok_def
proof (intro conjI allI impI ballI)
  show "length (bs[i := xs]) = 2 ^ k" using assms(1) by (simp add: buckets_ok_def)
  fix j n assume j: "j < 2 ^ k" and n: "n \<in> set (bs[i := xs] ! j)"
  have len: "length bs = 2 ^ k" using assms(1) by (simp add: buckets_ok_def)
  have "n_hash n = MapHash (n_key n) \<and> idx_of k (n_key n) = j"
    using n j len assms(2,3) buckets_okD [OF assms(1) j] by (cases "i = j") auto
  then show "n_hash n = MapHash (n_key n)" "idx_of k (n_key n) = j" by blast+
qed

text \<open>Adding a node puts it into its bucket and leaves the others.\<close>

lemma MapAddNode_ok:
  assumes "nodes m = Some bs" "bucketSize m = 2 ^ k" "buckets_ok k bs"
    and "n_hash n = MapHash (n_key n)"
  obtains bs' where "MapAddNode m n = Some (m\<lparr>nodes := Some bs'\<rparr>)" "buckets_ok k bs'"
    "mset (concat bs') = add_mset n (mset (concat bs))"
proof -
  let ?i = "idx_of k (n_key n)"
  have i: "?i < length bs" using assms(3) by (simp add: buckets_ok_def)
  have idx: "unat (MapHashIdx m (n_hash n)) = ?i"
    using MapHashIdx_idx_of [OF assms(2)] by (simp add: assms(4))
  have "MapAddNode m n = Some (m\<lparr>nodes := Some (bs[?i := n # bs ! ?i])\<rparr>)"
    using i idx assms(1) by (simp add: MapAddNode_def Let_def)
  moreover have "buckets_ok k (bs[?i := n # bs ! ?i])"
  proof (rule buckets_ok_update [OF assms(3) idx_of_less])
    fix x assume "x \<in> set (n # bs ! ?i)"
    then show "n_hash x = MapHash (n_key x) \<and> idx_of k (n_key x) = ?i"
      using buckets_okD [OF assms(3) idx_of_less, of x "n_key n"] assms(4) by fastforce
  qed
  moreover have "mset (concat (bs[?i := n # bs ! ?i])) = add_mset n (mset (concat bs))"
  proof -
    have "mset (concat (bs[?i := n # bs ! ?i])) + mset (bs ! ?i)
        = add_mset n (mset (concat bs)) + mset (bs ! ?i)"
      using mset_concat_update [OF i, of "n # bs ! ?i"] by simp
    then show ?thesis by (rule add_right_imp_eq)
  qed
  ultimately show thesis by (rule that)
qed

lemma nodes_self: "nodes m = Some bs \<Longrightarrow> m = m\<lparr>nodes := Some bs\<rparr>"
  by (cases m) simp

lemma remap_chain_ok:
  "nodes m = Some bs \<Longrightarrow> bucketSize m = 2 ^ k \<Longrightarrow> buckets_ok k bs
   \<Longrightarrow> \<forall>n \<in> set ns. n_hash n = MapHash (n_key n)
   \<Longrightarrow> \<exists>bs'. remap_chain ns m = Some (m\<lparr>nodes := Some bs'\<rparr>) \<and> buckets_ok k bs'
       \<and> mset (concat bs') = mset (concat bs) + mset ns"
proof (induction ns arbitrary: m bs)
  case (Cons n ns)
  obtain b1 where b1: "MapAddNode m n = Some (m\<lparr>nodes := Some b1\<rparr>)" "buckets_ok k b1"
    "mset (concat b1) = add_mset n (mset (concat bs))"
    using MapAddNode_ok [OF Cons.prems(1-3), of n] Cons.prems(4) by auto
  from Cons.IH [of "m\<lparr>nodes := Some b1\<rparr>" b1] b1 Cons.prems show ?case by auto
qed (auto intro!: exI simp: nodes_self)

lemma remap_ok:
  "nodes m = Some bs \<Longrightarrow> bucketSize m = 2 ^ k \<Longrightarrow> buckets_ok k bs
   \<Longrightarrow> \<forall>n \<in> set (concat cs). n_hash n = MapHash (n_key n)
   \<Longrightarrow> \<exists>bs'. remap cs m = Some (m\<lparr>nodes := Some bs'\<rparr>) \<and> buckets_ok k bs'
       \<and> mset (concat bs') = mset (concat bs) + mset (concat cs)"
proof (induction cs arbitrary: m bs)
  case (Cons c cs)
  obtain b1 where b1: "remap_chain c m = Some (m\<lparr>nodes := Some b1\<rparr>)" "buckets_ok k b1"
    "mset (concat b1) = mset (concat bs) + mset c"
    using remap_chain_ok [OF Cons.prems(1-3), of c] Cons.prems(4) by auto
  from Cons.IH [of "m\<lparr>nodes := Some b1\<rparr>" b1] b1 Cons.prems show ?case by auto
qed (auto intro!: exI simp: nodes_self)

section \<open>The operations keep the invariant and implement a finite map\<close>

lemma map_okE:
  assumes "map_ok m" "nodes m = Some bs"
  obtains k where "3 \<le> k" "k \<le> 31" "odd k" "bucketSize m = 2 ^ k" "buckets_ok k bs"
    "distinct (map n_key (concat bs))" "nodeSize m = of_nat (length (concat bs))"
    "length (concat bs) < 2 ^ 31"
  using assms by (auto simp: map_ok_def simp del: length_concat)

lemma map_okI:
  assumes "nodes m = Some bs" "3 \<le> k" "k \<le> 31" "odd k" "bucketSize m = 2 ^ k" "buckets_ok k bs"
    "distinct (map n_key (concat bs))" "nodeSize m = of_nat (length (concat bs))"
    "length (concat bs) < 2 ^ 31"
  shows "map_ok m"
  unfolding map_ok_def assms(1) option.case
  using assms(2-) by (intro conjI bexI [of _ k]) (simp_all del: length_concat)

lemma map_ok_None: "map_ok m \<Longrightarrow> nodes m = None \<Longrightarrow> nodeSize m = 0 \<and> bucketSize m = 0"
  by (simp add: map_ok_def)

lemma unat_nodeSize: "map_ok m \<Longrightarrow> unat (nodeSize m) = length (map_nodes m)"
proof (cases "nodes m")
  case (Some bs)
  assume "map_ok m"
  then obtain k where "nodeSize m = of_nat (length (concat bs))" "length (concat bs) < 2 ^ 31"
    using Some by (rule map_okE)
  then show ?thesis using Some
    by (simp add: map_nodes_def unat_of_nat take_bit_nat_def del: length_concat)
qed (simp add: map_ok_def map_nodes_def)

lemma found_lookup:
  assumes "map_ok m"
  shows "(case nodes m of None \<Rightarrow> None
     | Some bs \<Rightarrow> if nodeSize m > 0
                 then find (is_node (MapHash key) key) (bs ! unat (MapHashIdx m (MapHash key)))
                 else None)
    = find (\<lambda>n. n_key n = key) (map_nodes m)"
proof (cases "nodes m")
  case (Some bs)
  obtain k where k: "bucketSize m = 2 ^ k" "buckets_ok k bs" using assms Some by (rule map_okE)
  show ?thesis
    using Some map_ok_empty_iff [OF assms Some]
    by (simp add: map_nodes_def MapHashIdx_idx_of [OF k(1)] find_bucket [OF k(2)] word_gt_0
        del: concat_eq_Nil_conv)
qed (simp add: map_nodes_def)

text \<open>Growing the bucket array keeps the nodes.\<close>

lemma buckets_ok_replicate: "buckets_ok k (replicate (2 ^ k) [])"
  by (simp add: buckets_ok_def)

lemma concat_replicate_Nil [simp]: "concat (replicate n []) = []"
  by (induction n) auto

lemma hashes_ok:
  "buckets_ok k bs \<Longrightarrow> \<forall>n \<in> set (concat bs). n_hash n = MapHash (n_key n)"
  by (auto simp: buckets_ok_def in_set_conv_nth [of _ bs])

lemma unat_two_power: "k < 32 \<Longrightarrow> unat (2 ^ k :: 32 word) = 2 ^ k"
proof -
  assume "k < 32"
  then have "(2 :: nat) ^ k < 2 ^ 32" by (intro power_strict_increasing) simp_all
  then have "unat (of_nat (2 ^ k) :: 32 word) = 2 ^ k"
    unfolding unat_of_nat by (simp add: take_bit_nat_def)
  then show ?thesis by (simp only: of_nat_power of_nat_numeral)
qed

lemma MapResize_ok:
  assumes ok: "map_ok m" and k: "3 \<le> k" "k \<le> 31" "odd k"
  obtains bs where
    "MapResize True m (2 ^ k) = Some (SOFTBUS_OK, m\<lparr>nodes := Some bs, bucketSize := 2 ^ k\<rparr>)"
    "map_ok (m\<lparr>nodes := Some bs, bucketSize := 2 ^ k\<rparr>)" "mset (concat bs) = mset (map_nodes m)"
proof -
  let ?m1 = "m\<lparr>nodes := Some (replicate (2 ^ k) []), bucketSize := 2 ^ k\<rparr>"
  have sz: "unat (2 ^ k :: 32 word) = 2 ^ k" using k by (intro unat_two_power) simp
  show thesis
  proof (cases "nodes m")
    case None
    have "MapResize True m (2 ^ k) = Some (SOFTBUS_OK, ?m1)"
      using None by (simp add: MapResize_def sz)
    moreover have "map_ok ?m1"
      using map_ok_None [OF ok None] k buckets_ok_replicate
      by (intro map_okI [of _ "replicate (2 ^ k) []" k]) simp_all
    ultimately show thesis using None
      by (intro that [of "replicate (2 ^ k) []"]) (simp_all add: map_nodes_def)
  next
    case (Some tmp)
    obtain j where j: "buckets_ok j tmp" "distinct (map n_key (concat tmp))"
      "nodeSize m = of_nat (length (concat tmp))" "length (concat tmp) < 2 ^ 31"
      using ok Some by (rule map_okE)
    from remap_ok [of ?m1 _ k tmp] buckets_ok_replicate hashes_ok [OF j(1)]
    obtain bs where bs: "remap tmp ?m1 = Some (?m1\<lparr>nodes := Some bs\<rparr>)" "buckets_ok k bs"
      "mset (concat bs) = mset (concat tmp)"
      by auto
    have len: "length (concat bs) = length (concat tmp)" using bs(3) by (rule mset_eq_length)
    have "MapResize True m (2 ^ k) = Some (SOFTBUS_OK, m\<lparr>nodes := Some bs, bucketSize := 2 ^ k\<rparr>)"
      using Some bs(1) by (simp add: MapResize_def sz)
    moreover have "map_ok (m\<lparr>nodes := Some bs, bucketSize := 2 ^ k\<rparr>)"
    proof (rule map_okI [OF _ k])
      show "distinct (map n_key (concat bs))"
        using j(2) bs(3) by (metis mset_eq_imp_distinct_iff mset_map)
    qed (use bs j len in \<open>simp_all del: length_concat\<close>)
    ultimately show thesis using Some bs(3)
      by (intro that [of bs]) (simp_all add: map_nodes_def)
  qed
qed

text \<open>The enlargement before an insertion; without a new array the old one stays in use.\<close>

lemma enlarge_ok:
  assumes ok: "map_ok m" and "alloc \<or> nodes m \<noteq> None"
  obtains r m1 bs where
    "(if nodeSize m \<ge> bucketSize m
      then MapResize alloc m (if bucketSize m < HDF_MIN_MAP_SIZE then HDF_MIN_MAP_SIZE
                              else push_bit HDF_ENLARGE_FACTOR (bucketSize m))
      else Some (SOFTBUS_OK, m)) = Some (r, m1)"
    "map_ok m1" "nodes m1 = Some bs" "mset (concat bs) = mset (map_nodes m)"
proof (cases "nodeSize m \<ge> bucketSize m \<and> alloc")
  case True
  have "\<exists>k. 3 \<le> k \<and> k \<le> 31 \<and> odd k \<and>
    (if bucketSize m < HDF_MIN_MAP_SIZE then HDF_MIN_MAP_SIZE
     else push_bit HDF_ENLARGE_FACTOR (bucketSize m)) = 2 ^ k"
  proof (cases "nodes m")
    case None
    then show ?thesis using map_ok_None [OF ok None] by (intro exI [of _ 3]) simp
  next
    case (Some bs)
    obtain k where k: "3 \<le> k" "k \<le> 31" "odd k" "bucketSize m = 2 ^ k"
      "nodeSize m = of_nat (length (concat bs))" "length (concat bs) < 2 ^ 31"
      using ok Some by (rule map_okE)
    have "unat (nodeSize m) < 2 ^ 31" using k(6) unat_nodeSize [OF ok] Some
      by (simp add: map_nodes_def del: length_concat)
    moreover have "2 ^ k \<le> unat (nodeSize m)"
      using True k(2,4) unat_two_power [of k] by (simp add: word_le_nat_alt)
    ultimately have "(2 :: nat) ^ k < 2 ^ 31" by linarith
    then have "k < 31" using power_less_imp_less_exp [of "2 :: nat" k 31] by simp
    with k(3) have "k \<le> 29" by presburger
    moreover have "\<not> (2 ^ k :: 32 word) < 8"
    proof -
      have "(2 :: nat) ^ 3 \<le> 2 ^ k" using k(1) by (rule power_increasing) simp
      then show ?thesis using unat_two_power [of k] k(2) by (simp add: word_less_nat_alt)
    qed
    moreover have "push_bit 2 (2 ^ k :: 32 word) = 2 ^ (k + 2)"
      by (simp add: push_bit_eq_mult power_add)
    ultimately show ?thesis using k by (intro exI [of _ "k + 2"]) simp
  qed
  then obtain k where k: "3 \<le> k" "k \<le> 31" "odd k"
    "(if bucketSize m < HDF_MIN_MAP_SIZE then HDF_MIN_MAP_SIZE
      else push_bit HDF_ENLARGE_FACTOR (bucketSize m)) = 2 ^ k" by blast
  obtain bs where "MapResize True m (2 ^ k) = Some (SOFTBUS_OK, m\<lparr>nodes := Some bs, bucketSize := 2 ^ k\<rparr>)"
    "map_ok (m\<lparr>nodes := Some bs, bucketSize := 2 ^ k\<rparr>)" "mset (concat bs) = mset (map_nodes m)"
    using ok k(1-3) by (rule MapResize_ok)
  then show thesis using True
    by (intro that [of SOFTBUS_OK "m\<lparr>nodes := Some bs, bucketSize := 2 ^ k\<rparr>" bs]) (simp_all add: k(4))
next
  case False
  show thesis
  proof (cases "nodes m")
    case None
    with False assms map_ok_None [OF ok None] show thesis by simp
  next
    case (Some bs)
    with False ok show thesis
      by (intro that [of "if nodeSize m \<ge> bucketSize m then SOFTBUS_MEM_ERR else SOFTBUS_OK" m bs])
        (auto simp: MapResize_def map_nodes_def)
  qed
qed

lemma insert_ok:
  assumes ok: "map_ok m" "nodes m = Some bs" and new: "key \<notin> n_key ` set (concat bs)"
    and room: "length (concat bs) + 1 < 2 ^ 31"
  obtains m2 where "MapAddNode m \<lparr>n_hash = MapHash key, n_key = key, n_value = v\<rparr> = Some m2"
    "map_ok (m2\<lparr>nodeSize := nodeSize m2 + 1\<rparr>)" "nodes m2 \<noteq> None"
    "contents (m2\<lparr>nodeSize := nodeSize m2 + 1\<rparr>) = (lookup (concat bs))(key \<mapsto> v)"
    "length (map_nodes (m2\<lparr>nodeSize := nodeSize m2 + 1\<rparr>)) = length (concat bs) + 1"
proof -
  let ?n = "\<lparr>n_hash = MapHash key, n_key = key, n_value = v\<rparr>"
  obtain k where k: "3 \<le> k" "k \<le> 31" "odd k" "bucketSize m = 2 ^ k" "buckets_ok k bs"
    "distinct (map n_key (concat bs))" "nodeSize m = of_nat (length (concat bs))"
    using ok by (rule map_okE)
  have "n_hash ?n = MapHash (n_key ?n)" by simp
  with ok(2) k(4,5) obtain bs' where
    bs': "MapAddNode m ?n = Some (m\<lparr>nodes := Some bs'\<rparr>)" "buckets_ok k bs'"
    "mset (concat bs') = add_mset ?n (mset (concat bs))" by (rule MapAddNode_ok)
  have ms: "mset (?n # concat bs) = mset (concat bs')" using bs'(3) by simp
  have len: "length (concat bs') = length (concat bs) + 1"
    using mset_eq_length [OF ms] by (simp del: length_concat)
  have dist: "distinct (map n_key (?n # concat bs))" using k(6) new by simp
  have "distinct (map n_key (concat bs'))"
    using dist ms by (metis mset_eq_imp_distinct_iff mset_map)
  then have "map_ok (m\<lparr>nodes := Some bs', nodeSize := nodeSize m + 1\<rparr>)"
    using k bs'(2) len room by (intro map_okI [of _ bs' k]) (simp_all del: length_concat)
  moreover have "lookup (concat bs') = (lookup (concat bs))(key \<mapsto> v)"
    using lookup_mset [OF ms dist] by (simp add: lookup_Cons)
  ultimately show thesis
    by (intro that [OF bs'(1)]) (simp_all add: contents_lookup map_nodes_def len del: length_concat)
qed

text \<open>Replacing the value of a node, and removing a node.\<close>

lemma bucket_found:
  assumes "buckets_ok k bs" "find (\<lambda>n. n_key n = key) (concat bs) = Some n"
  shows "find (is_node (MapHash key) key) (bs ! idx_of k key) = Some n"
  using assms by (simp add: find_bucket)

lemma update_ok:
  fixes v :: val
  assumes ok: "map_ok m" "nodes m = Some bs" and f: "find (\<lambda>n. n_key n = key) (concat bs) = Some n"
  defines "i \<equiv> unat (MapHashIdx m (MapHash key))"
  defines "m' \<equiv> m\<lparr>nodes := Some (bs[i :=
      upd_first (is_node (MapHash key) key) (\<lambda>n. n\<lparr>n_value := v\<rparr>) (bs ! i)])\<rparr>"
  shows "map_ok m'" "contents m' = (contents m)(key \<mapsto> v)" "length (map_nodes m') = length (map_nodes m)"
proof -
  let ?P = "is_node (MapHash key) key" and ?g = "\<lambda>n. n\<lparr>n_value := v\<rparr>"
  obtain k where k: "3 \<le> k" "k \<le> 31" "odd k" "bucketSize m = 2 ^ k" "buckets_ok k bs"
    "distinct (map n_key (concat bs))" "nodeSize m = of_nat (length (concat bs))"
    "length (concat bs) < 2 ^ 31"
    using ok by (rule map_okE)
  have i: "i = idx_of k key" by (simp add: i_def MapHashIdx_idx_of [OF k(4)])
  let ?xs = "upd_first ?P ?g (bs ! i)"
  let ?bs = "bs[i := ?xs]"
  have il: "i < length bs" using k(5) by (simp add: i buckets_ok_def)
  have keyn: "n_key n = key" using find_SomeD [OF f] by blast
  have up: "add_mset n (mset ?xs) = add_mset (?g n) (mset (bs ! i))"
    using bucket_found [OF k(5) f] by (intro mset_upd_first) (simp add: i)
  have "add_mset n (mset (concat ?bs)) + mset (bs ! i) = mset (concat bs) + add_mset n (mset ?xs)"
    using mset_concat_update [OF il, of ?xs]
    by (simp only: union_mset_add_mset_left union_mset_add_mset_right)
  also have "\<dots> = add_mset (?g n) (mset (concat bs)) + mset (bs ! i)"
    by (simp only: up union_mset_add_mset_left union_mset_add_mset_right)
  finally have ms: "add_mset n (mset (concat ?bs)) = add_mset (?g n) (mset (concat bs))"
    by (rule add_right_imp_eq)
  have keys: "map n_key ?xs = map n_key (bs ! i)" by (rule map_upd_first) simp
  have "map (map n_key) ?bs = map (map n_key) bs"
    using il by (simp add: map_update keys list_update_same_conv)
  then have mk: "map n_key (concat ?bs) = map n_key (concat bs)" by (simp add: map_concat)
  have len: "length (concat ?bs) = length (concat bs)" using mk by (metis length_map)
  have "buckets_ok k ?bs"
  proof (rule buckets_ok_update [OF k(5)])
    show "i < 2 ^ k" by (simp add: i)
    fix x assume "x \<in> set ?xs"
    then show "n_hash x = MapHash (n_key x) \<and> idx_of k (n_key x) = i"
      using buckets_okD [OF k(5), of i] \<open>i < 2 ^ k\<close> by (elim in_upd_firstE) auto
  qed
  then show "map_ok m'" using k mk len
    by (intro map_okI [of _ ?bs k]) (simp_all add: m'_def del: length_concat)
  obtain rest where rest: "mset (concat bs) = add_mset n (mset rest)"
  proof -
    from find_SomeD [OF f] obtain us ws where "concat bs = us @ n # ws"
      using split_list [of n "concat bs"] by blast
    then show thesis by (intro that [of "us @ ws"]) simp
  qed
  have "add_mset n (mset (concat ?bs)) = add_mset n (add_mset (?g n) (mset rest))"
    using ms unfolding rest by (rule trans [OF _ add_mset_commute])
  then have r2: "mset (concat ?bs) = add_mset (?g n) (mset rest)"
    by (simp only: add_mset_add_mset_same_iff)
  have "lookup (concat bs) = lookup (n # rest)" using rest k(6) by (intro lookup_mset) simp_all
  moreover have "lookup (concat ?bs) = lookup (?g n # rest)"
    using r2 k(6) mk by (intro lookup_mset) simp_all
  ultimately show "contents m' = (contents m)(key \<mapsto> v)"
    using ok(2) keyn by (simp add: contents_lookup map_nodes_def m'_def lookup_Cons)
  show "length (map_nodes m') = length (map_nodes m)"
    using ok(2) len by (simp add: map_nodes_def m'_def del: length_concat)
qed

lemma erase_ok:
  assumes ok: "map_ok m" "nodes m = Some bs" and f: "find (\<lambda>n. n_key n = key) (concat bs) = Some n"
  defines "i \<equiv> unat (MapHashIdx m (MapHash key))"
  defines "m' \<equiv> m\<lparr>nodes := Some (bs[i := del_first (is_node (MapHash key) key) (bs ! i)]),
                 nodeSize := nodeSize m - 1\<rparr>"
  shows "map_ok m'" "contents m' = (contents m)(key := None)"
    "length (map_nodes m') \<le> length (map_nodes m)"
proof -
  let ?P = "is_node (MapHash key) key"
  obtain k where k: "3 \<le> k" "k \<le> 31" "odd k" "bucketSize m = 2 ^ k" "buckets_ok k bs"
    "distinct (map n_key (concat bs))" "nodeSize m = of_nat (length (concat bs))"
    "length (concat bs) < 2 ^ 31"
    using ok by (rule map_okE)
  have i: "i = idx_of k key" by (simp add: i_def MapHashIdx_idx_of [OF k(4)])
  let ?xs = "del_first ?P (bs ! i)"
  let ?bs = "bs[i := ?xs]"
  have il: "i < length bs" using k(5) by (simp add: i buckets_ok_def)
  have keyn: "n_key n = key" using find_SomeD [OF f] by blast
  have "mset (bs ! i) = add_mset n (mset ?xs)"
    using bucket_found [OF k(5) f] by (intro mset_del_first) (simp add: i)
  then have "mset (n # concat ?bs) + mset ?xs = mset (concat bs) + mset ?xs"
    using mset_concat_update [OF il, of ?xs] by simp
  then have ms: "mset (n # concat ?bs) = mset (concat bs)" by (rule add_right_imp_eq)
  have dist: "distinct (map n_key (n # concat ?bs))"
    using k(6) ms by (metis mset_eq_imp_distinct_iff mset_map)
  have len: "length (concat bs) = Suc (length (concat ?bs))"
    using mset_eq_length [OF ms] by (simp del: length_concat)
  have "buckets_ok k ?bs"
    using buckets_okD [OF k(5), of i] il k(5)
    by (intro buckets_ok_update [OF k(5)]) (auto simp: buckets_ok_def dest: in_del_firstD)
  then show "map_ok m'" using k dist len
    by (intro map_okI [of _ ?bs k]) (simp_all add: m'_def del: length_concat)
  have "lookup (concat bs) = (lookup (concat ?bs))(key \<mapsto> n_value n)"
    using lookup_mset [OF ms dist] keyn by (simp add: lookup_Cons)
  moreover have "lookup (concat ?bs) key = None"
    using dist keyn by (intro lookup_None) auto
  ultimately show "contents m' = (contents m)(key := None)"
    using ok(2) by (simp add: contents_lookup map_nodes_def m'_def fun_eq_iff)
  show "length (map_nodes m') \<le> length (map_nodes m)"
    using ok(2) len by (simp add: map_nodes_def m'_def del: length_concat)
qed

section \<open>The contract\<close>

text \<open>
  What the map promises: setting stores a value of between 1 and 1000 bytes under a key of at
  most 1000 characters, and replaces a value only by one of the same size; the flag tells whether
  a node can be allocated. Erasing tells a missing key from an empty map.
\<close>

definition kv_set :: "bool \<Rightarrow> string option \<Rightarrow> val option \<Rightarrow> (string \<Rightarrow> val option)
    \<Rightarrow> int \<times> (string \<Rightarrow> val option)" where
  "kv_set alloc keyp valp f =
     (case (keyp, valp) of
        (Some key, Some v) \<Rightarrow>
          if v = [] \<or> length v > 1000 \<or> length key > 1000 then (SOFTBUS_INVALID_PARAM, f)
          else (case f key of
                  Some w \<Rightarrow> if length w = length v then (SOFTBUS_OK, f(key \<mapsto> v))
                           else (SOFTBUS_INVALID_PARAM, f)
                | None \<Rightarrow> if alloc then (SOFTBUS_OK, f(key \<mapsto> v)) else (SOFTBUS_INVALID_PARAM, f))
      | _ \<Rightarrow> (SOFTBUS_INVALID_PARAM, f))"

definition kv_erase :: "string option \<Rightarrow> (string \<Rightarrow> val option) \<Rightarrow> int \<times> (string \<Rightarrow> val option)" where
  "kv_erase keyp f =
     (case keyp of
        None \<Rightarrow> (SOFTBUS_INVALID_PARAM, f)
      | Some key \<Rightarrow>
          if dom f = {} then (SOFTBUS_INVALID_PARAM, f)
          else if f key = None then (SOFTBUS_ERR, f) else (SOFTBUS_OK, f(key := None)))"

datatype map_op = MSet "bool \<times> bool" "string option" "val option" | MErase "string option" | MGet string
datatype map_answer = ACode int | AVal "val option"

fun map_run ::
  "(bool \<times> bool \<Rightarrow> string option \<Rightarrow> val option \<Rightarrow> 's \<Rightarrow> (int \<times> 's) option) \<Rightarrow>
   (string option \<Rightarrow> 's \<Rightarrow> int \<times> 's) \<Rightarrow> ('s \<Rightarrow> string option \<Rightarrow> val option) \<Rightarrow>
   map_op list \<Rightarrow> 's \<Rightarrow> (map_answer list \<times> 's) option" where
  "map_run sf ef gf [] s = Some ([], s)"
| "map_run sf ef gf (MSet e k v # ops) s =
     Option.bind (sf e k v s) (\<lambda>(r, s1).
       map_option (\<lambda>(as, s2). (ACode r # as, s2)) (map_run sf ef gf ops s1))"
| "map_run sf ef gf (MErase k # ops) s =
     (let (r, s1) = ef k s
      in map_option (\<lambda>(as, s2). (ACode r # as, s2)) (map_run sf ef gf ops s1))"
| "map_run sf ef gf (MGet k # ops) s =
     map_option (\<lambda>(as, s2). (AVal (gf s (Some k)) # as, s2)) (map_run sf ef gf ops s)"

fun kv_run :: "map_op list \<Rightarrow> (string \<Rightarrow> val option) \<Rightarrow> map_answer list \<times> (string \<Rightarrow> val option)" where
  "kv_run [] f = ([], f)"
| "kv_run (MSet e k v # ops) f =
     (let (r, g) = kv_set (snd e) k v f; (as, h) = kv_run ops g in (ACode r # as, h))"
| "kv_run (MErase k # ops) f =
     (let (r, g) = kv_erase k f; (as, h) = kv_run ops g in (ACode r # as, h))"
| "kv_run (MGet k # ops) f = (let (as, h) = kv_run ops f in (AVal (f k) # as, h))"

fun array_granted :: "map_op \<Rightarrow> bool" where
  "array_granted (MSet e _ _) = fst e"
| "array_granted _ = True"

locale kv_map =
  fixes ok :: "'s \<Rightarrow> bool"
    and abs :: "'s \<Rightarrow> string \<Rightarrow> val option"
    and size_of :: "'s \<Rightarrow> nat"
    and ready :: "'s \<Rightarrow> bool"
    and set_op :: "bool \<times> bool \<Rightarrow> string option \<Rightarrow> val option \<Rightarrow> 's \<Rightarrow> (int \<times> 's) option"
    and erase_op :: "string option \<Rightarrow> 's \<Rightarrow> int \<times> 's"
    and get_op :: "'s \<Rightarrow> string option \<Rightarrow> val option"
  assumes set_law: "ok s \<Longrightarrow> size_of s + 1 < 2 ^ 31 \<Longrightarrow> fst e \<or> ready s \<Longrightarrow>
      \<exists>r s'. set_op e k v s = Some (r, s') \<and> ok s' \<and> (ready s \<longrightarrow> ready s') \<and>
        size_of s' \<le> size_of s + 1 \<and> (r, abs s') = kv_set (snd e) k v (abs s)"
    and erase_law: "ok s \<Longrightarrow> erase_op k s = (r, s') \<Longrightarrow>
      ok s' \<and> (ready s \<longrightarrow> ready s') \<and> size_of s' \<le> size_of s \<and> (r, abs s') = kv_erase k (abs s)"
    and get_law: "ok s \<Longrightarrow> get_op s (Some key) = abs s key"
begin

lemma run_refines:
  "ok s \<Longrightarrow> size_of s + length ops < 2 ^ 31 \<Longrightarrow> ready s \<or> (\<forall>op \<in> set ops. array_granted op) \<Longrightarrow>
   \<exists>as s'. map_run set_op erase_op get_op ops s = Some (as, s') \<and> ok s' \<and>
     (as, abs s') = kv_run ops (abs s)"
proof (induction ops arbitrary: s)
  case (Cons op ops)
  show ?case
  proof (cases op)
    case (MSet e k v)
    have "size_of s + 1 < 2 ^ 31" "fst e \<or> ready s" using Cons.prems MSet by auto
    from set_law [OF Cons.prems(1) this, of k v] obtain r s1 where
      s1: "set_op e k v s = Some (r, s1)" "ok s1" "ready s \<longrightarrow> ready s1" "size_of s1 \<le> size_of s + 1"
      "kv_set (snd e) k v (abs s) = (r, abs s1)" by metis
    have "size_of s1 + length ops < 2 ^ 31" "ready s1 \<or> (\<forall>op \<in> set ops. array_granted op)"
      using Cons.prems s1(3,4) by auto
    then obtain as s2 where
      "map_run set_op erase_op get_op ops s1 = Some (as, s2)" "ok s2" "kv_run ops (abs s1) = (as, abs s2)"
      using Cons.IH [OF s1(2)] by metis
    with s1 MSet show ?thesis by simp
  next
    case (MErase k)
    obtain r s1 where e: "erase_op k s = (r, s1)" by (cases "erase_op k s")
    note s1 = erase_law [OF Cons.prems(1) e]
    have "size_of s1 + length ops < 2 ^ 31" using Cons.prems s1 by simp
    moreover have "ready s1 \<or> (\<forall>op \<in> set ops. array_granted op)" using Cons.prems s1 by auto
    ultimately obtain as s2 where
      "map_run set_op erase_op get_op ops s1 = Some (as, s2)" "ok s2" "kv_run ops (abs s1) = (as, abs s2)"
      using Cons.IH [of s1] s1 by metis
    moreover have "kv_erase k (abs s) = (r, abs s1)" using s1 by simp
    ultimately show ?thesis using e MErase by simp
  next
    case (MGet k)
    have "size_of s + length ops < 2 ^ 31" "ready s \<or> (\<forall>op \<in> set ops. array_granted op)"
      using Cons.prems by auto
    then obtain as s2 where
      "map_run set_op erase_op get_op ops s = Some (as, s2)" "ok s2" "kv_run ops (abs s) = (as, abs s2)"
      using Cons.IH [of s] Cons.prems(1) by metis
    then show ?thesis using MGet get_law [OF Cons.prems(1)] by simp
  qed
qed simp

end

lemma LnnMapSet_refines:
  assumes ok: "map_ok m" and room: "length (map_nodes m) + 1 < 2 ^ 31"
    and arr: "fst e \<or> nodes m \<noteq> None"
  shows "\<exists>r m'. LnnMapSet e keyp valp m = Some (r, m') \<and> map_ok m' \<and>
    (nodes m \<noteq> None \<longrightarrow> nodes m' \<noteq> None) \<and> length (map_nodes m') \<le> length (map_nodes m) + 1 \<and>
    (r, contents m') = kv_set (snd e) keyp valp (contents m)"
proof (cases "\<exists>key v. keyp = Some key \<and> valp = Some v \<and> v \<noteq> [] \<and> length v \<le> 1000 \<and> length key \<le> 1000")
  case False
  then have "LnnMapSet e keyp valp m = Some (SOFTBUS_INVALID_PARAM, m)"
    "kv_set (snd e) keyp valp (contents m) = (SOFTBUS_INVALID_PARAM, contents m)"
    by (auto simp: LnnMapSet_def kv_set_def not_le split: option.splits)
  with ok show ?thesis by simp
next
  case True
  then obtain key v where kv: "keyp = Some key" "valp = Some v" "v \<noteq> []" "length v \<le> 1000"
    "length key \<le> 1000" by blast
  let ?h = "MapHash key"
  show ?thesis
  proof (cases "find (\<lambda>n. n_key n = key) (map_nodes m)")
    case (Some n)
    then obtain bs where bs: "nodes m = Some bs" "find (\<lambda>n. n_key n = key) (concat bs) = Some n"
      by (auto simp: map_nodes_def split: option.splits)
    have c: "contents m key = Some (n_value n)" using Some by (simp add: contents_def)
    show ?thesis
      using kv found_lookup [OF ok, of key] Some bs(1) c ok update_ok [OF ok bs, of v]
      by (auto simp: LnnMapSet_def kv_set_def Let_def)
  next
    case None
    have c: "contents m key = None" using None by (simp add: contents_def)
    obtain r m1 bs where m1:
      "(if nodeSize m \<ge> bucketSize m
        then MapResize (fst e) m (if bucketSize m < HDF_MIN_MAP_SIZE then HDF_MIN_MAP_SIZE
                                  else push_bit HDF_ENLARGE_FACTOR (bucketSize m))
        else Some (SOFTBUS_OK, m)) = Some (r, m1)"
      "map_ok m1" "nodes m1 = Some bs" "mset (concat bs) = mset (map_nodes m)"
      using ok arr by (rule enlarge_ok)
    have same: "contents m1 = contents m"
      using m1 lookup_mset [of "concat bs" "map_nodes m"] map_okE [OF m1(2,3)]
      by (metis contents_lookup map_nodes_def option.simps(5))
    have len: "length (concat bs) = length (map_nodes m)" using m1(4) by (rule mset_eq_length)
    have new: "key \<notin> n_key ` set (concat bs)"
      using None m1(4) by (metis (mono_tags, lifting) find_None_iff imageE mset_eq_setD)
    show ?thesis
    proof (cases "snd e")
      case True
      obtain m2 where m2: "MapAddNode m1 \<lparr>n_hash = ?h, n_key = key, n_value = v\<rparr> = Some m2"
        "map_ok (m2\<lparr>nodeSize := nodeSize m2 + 1\<rparr>)" "nodes m2 \<noteq> None"
        "contents (m2\<lparr>nodeSize := nodeSize m2 + 1\<rparr>) = (lookup (concat bs))(key \<mapsto> v)"
        "length (map_nodes (m2\<lparr>nodeSize := nodeSize m2 + 1\<rparr>)) = length (concat bs) + 1"
        using m1(2,3) new room[folded len] by (rule insert_ok)
      have "lookup (concat bs) = contents m"
        using same m1(3) by (simp add: contents_lookup map_nodes_def)
      then show ?thesis
        using True kv m1(1) m2 found_lookup [OF ok, of key] None c len
        by (simp add: LnnMapSet_def kv_set_def Let_def MapCreateNode_def)
    next
      case False
      then show ?thesis
        using kv m1 same found_lookup [OF ok, of key] None c len
        by (simp add: LnnMapSet_def kv_set_def Let_def MapCreateNode_def map_nodes_def)
    qed
  qed
qed

lemma contents_empty: "dom (contents m) = {} \<longleftrightarrow> map_nodes m = []"
proof
  assume e: "dom (contents m) = {}"
  show "map_nodes m = []"
  proof (rule ccontr)
    assume "map_nodes m \<noteq> []"
    then obtain n ns where "map_nodes m = n # ns" by (cases "map_nodes m") auto
    then have "contents m (n_key n) = Some (n_value n)" by (simp add: contents_def)
    with e show False by auto
  qed
qed (auto simp: contents_def)

lemma LnnMapErase_refines:
  assumes ok: "map_ok m" and er: "LnnMapErase keyp m = (r, m')"
  shows "map_ok m' \<and> (nodes m \<noteq> None \<longrightarrow> nodes m' \<noteq> None) \<and>
    length (map_nodes m') \<le> length (map_nodes m) \<and> (r, contents m') = kv_erase keyp (contents m)"
proof (cases "keyp = None \<or> nodes m = None \<or> nodeSize m = 0")
  case True
  then have "(r, m') = (SOFTBUS_INVALID_PARAM, m)"
    using er by (auto simp: LnnMapErase_def split: option.splits)
  moreover have "keyp \<noteq> None \<Longrightarrow> map_nodes m = []"
    using True map_ok_empty_iff [OF ok] by (auto simp: map_nodes_def split: option.splits)
  ultimately show ?thesis
    using ok contents_empty [of m] by (auto simp: kv_erase_def split: option.splits)
next
  case False
  then obtain key bs where kb: "keyp = Some key" "nodes m = Some bs" "nodeSize m \<noteq> 0" by auto
  then have "map_nodes m \<noteq> []"
    using map_ok_empty_iff [OF ok kb(2)] by (simp add: map_nodes_def del: concat_eq_Nil_conv)
  then have ne: "dom (contents m) \<noteq> {}" using contents_empty by blast
  have mn: "map_nodes m = concat bs" using kb(2) by (simp add: map_nodes_def)
  have fl: "find (is_node (MapHash key) key) (bs ! unat (MapHashIdx m (MapHash key)))
      = find (\<lambda>n. n_key n = key) (concat bs)"
    using found_lookup [OF ok, of key] kb by (simp add: mn word_gt_0)
  show ?thesis
  proof (cases "find (\<lambda>n. n_key n = key) (concat bs)")
    case None
    then have "contents m key = None" by (simp add: contents_def mn)
    moreover have "(r, m') = (SOFTBUS_ERR, m)"
      using None er kb fl by (simp add: LnnMapErase_def Let_def)
    ultimately show ?thesis using ok kb(1) ne by (simp add: kv_erase_def)
  next
    case (Some n)
    then have "r = SOFTBUS_OK" "contents m key \<noteq> None" and
      m': "m' = m\<lparr>nodes := Some (bs[unat (MapHashIdx m (MapHash key)) :=
             del_first (is_node (MapHash key) key) (bs ! unat (MapHashIdx m (MapHash key)))]),
                 nodeSize := nodeSize m - 1\<rparr>"
      using er kb fl by (simp_all add: LnnMapErase_def Let_def contents_def mn)
    moreover note erase_ok [OF ok kb(2) Some, folded m']
    ultimately show ?thesis using kb ne by (simp add: kv_erase_def)
  qed
qed

interpretation lmap: kv_map map_ok contents "\<lambda>m. length (map_nodes m)" "\<lambda>m. nodes m \<noteq> None"
    LnnMapSet LnnMapErase LnnMapGet
proof
  show "\<exists>r s'. LnnMapSet e k v s = Some (r, s') \<and> map_ok s' \<and> (nodes s \<noteq> None \<longrightarrow> nodes s' \<noteq> None) \<and>
      length (map_nodes s') \<le> length (map_nodes s) + 1 \<and> (r, contents s') = kv_set (snd e) k v (contents s)"
    if "map_ok s" "length (map_nodes s) + 1 < 2 ^ 31" "fst e \<or> nodes s \<noteq> None" for s e k v
    using that by (rule LnnMapSet_refines)
qed (rule LnnMapErase_refines LnnMapGet_contents; assumption)+

lemma LnnMapInit_ok: "map_ok (LnnMapInit m)" "contents (LnnMapInit m) = Map.empty"
    "map_nodes (LnnMapInit m) = []"
  by (simp_all add: LnnMapInit_def map_ok_def contents_def map_nodes_def fun_eq_iff)

lemma LnnMapDelete_ok:
  "map_ok m \<Longrightarrow> map_ok (LnnMapDelete m) \<and> contents (LnnMapDelete m) = Map.empty"
  by (auto simp: LnnMapDelete_def map_ok_def contents_def map_nodes_def fun_eq_iff)

section \<open>Properties of the map\<close>

text \<open>C9: From the initialised map, every sequence of fewer than 2^31 insertions, removals and
  lookups gives, answer by answer, what a finite map from strings to values gives, through
  collisions, enlargements and failing node allocations, as long as every allocation of a bucket
  array succeeds; no null bucket array is dereferenced, the map is well-formed at the end and its
  size counter is the number of stored keys.\<close>

theorem LnnMap_refines_map:
  assumes "length ops < 2 ^ 31" "\<forall>op \<in> set ops. array_granted op"
  shows "\<exists>as m'. map_run LnnMapSet LnnMapErase LnnMapGet ops (LnnMapInit m) = Some (as, m') \<and>
    (as, contents m') = kv_run ops Map.empty \<and> map_ok m' \<and>
    unat (MapGetSize (Some m')) = card (dom (contents m'))"
proof -
  have card: "card (dom (contents m')) = length (map_nodes m')" if "map_ok m'" for m'
  proof -
    have "dom (contents m') = n_key ` set (map_nodes m')"
      by (auto simp: contents_def find_None_iff dom_def image_iff)
    moreover have "distinct (map n_key (map_nodes m'))"
      using that by (auto simp: map_ok_def map_nodes_def split: option.splits)
    ultimately show ?thesis using distinct_card [of "map n_key (map_nodes m')"] by simp
  qed
  have "length (map_nodes (LnnMapInit m)) + length ops < 2 ^ 31"
    using assms(1) by (simp add: LnnMapInit_def map_nodes_def)
  from lmap.run_refines [OF LnnMapInit_ok(1) this] assms(2) obtain as m' where
    "map_run LnnMapSet LnnMapErase LnnMapGet ops (LnnMapInit m) = Some (as, m')" "map_ok m'"
    "(as, contents m') = kv_run ops Map.empty" by (auto simp: LnnMapInit_ok(2))
  then show ?thesis using card unat_nodeSize by (auto simp: MapGetSize_def)
qed

theorem LnnMap_refines_map_witness:
  "\<exists>as m'. map_run LnnMapSet LnnMapErase LnnMapGet
      [MSet (True, True) (Some ''a'') (Some [1]), MSet (True, True) (Some ''a'') (Some [2, 3]),
       MGet ''a'', MErase (Some ''b'')] (LnnMapInit \<lparr>nodes = None, nodeSize = 7, bucketSize = 9\<rparr>)
      = Some (as, m') \<and> as = [ACode SOFTBUS_OK, ACode SOFTBUS_INVALID_PARAM, AVal (Some [1]), ACode SOFTBUS_ERR]"
  using LnnMap_refines_map [of "[MSet (True, True) (Some ''a'') (Some [1]),
      MSet (True, True) (Some ''a'') (Some [2, 3]), MGet ''a'', MErase (Some ''b'')]"
      "\<lparr>nodes = None, nodeSize = 7, bucketSize = 9\<rparr>"]
  by (auto simp: kv_set_def kv_erase_def)

text \<open>The result of the enlargement is not tested. On an empty map an allocation failure of
  the bucket array makes an otherwise valid insertion dereference the null array, while on a map
  that has an array the insertion goes on with the old one and succeeds.\<close>

theorem LnnMapSet_enlarge_failure:
  assumes "map_ok m" "v \<noteq> []" "length v \<le> HDF_MAP_VALUE_MAX_SIZE" "length key \<le> HDF_MAP_KEY_MAX_SIZE"
    and "contents m key = None" "unat (nodeSize m) + 1 < 2 ^ 31"
  shows "(nodes m = None \<longrightarrow> LnnMapSet (False, True) (Some key) (Some v) m = None) \<and>
    (nodes m \<noteq> None \<longrightarrow> (\<exists>m'. LnnMapSet (False, True) (Some key) (Some v) m = Some (SOFTBUS_OK, m')
       \<and> map_ok m' \<and> contents m' = (contents m)(key \<mapsto> v)))"
proof (cases "nodes m")
  case None
  with map_ok_None [OF assms(1) None] assms(2-4) show ?thesis
    by (simp add: LnnMapSet_def MapResize_def MapCreateNode_def MapAddNode_def)
next
  case (Some bs)
  with LnnMapSet_refines [OF assms(1), of "(False, True)" "Some key" "Some v"] assms
  show ?thesis by (auto simp: kv_set_def unat_nodeSize)
qed

theorem LnnMapSet_enlarge_failure_witness:
  "LnnMapSet (False, True) (Some ''k'') (Some [1]) (LnnMapInit \<lparr>nodes = None, nodeSize = 0, bucketSize = 0\<rparr>)
     = None"
  using LnnMapSet_enlarge_failure
    [of "LnnMapInit \<lparr>nodes = None, nodeSize = 0, bucketSize = 0\<rparr>" "[1]" "''k''"]
  by (simp add: LnnMapInit_ok) (simp add: LnnMapInit_def)

section \<open>The iteration visits every node once\<close>

text \<open>The loop of the users of the iterator; no node after \<^verbatim>\<open>LnnMapNext\<close> is a null dereference.\<close>

fun iterate :: "nat \<Rightarrow> MapIterator \<Rightarrow> MapNode list option" where
  "iterate fuel it =
     (if \<not> LnnMapHasNext it then Some []
      else case fuel of
             0 \<Rightarrow> None
           | Suc fuel' \<Rightarrow>
               let it1 = LnnMapNext it
               in case it_node it1 of
                    [] \<Rightarrow> None
                  | n # _ \<Rightarrow> map_option (Cons n) (iterate fuel' it1))"

declare iterate.simps [simp del]

definition it_rest :: "MapNode list list \<Rightarrow> MapIterator \<Rightarrow> MapNode list" where
  "it_rest bs it = tl (it_node it) @ concat (drop (unat (bucketNum it)) bs)"

lemma next_bucket_rest:
  assumes "concat (drop b bs) \<noteq> []" "unat (bucketNum it) = b" "length bs < 2 ^ 32"
  shows "\<exists>n c b'. next_bucket (drop b bs) it
      = it\<lparr>bucketNum := b', nodeNum := nodeNum it + 1, it_node := n # c\<rparr> \<and>
     n # c @ concat (drop (unat b') bs) = concat (drop b bs)"
  using assms
proof (induction "length bs - b" arbitrary: b it)
  case 0
  then show ?case by simp
next
  case (Suc l)
  then have b: "b < length bs" by simp
  then have d: "drop b bs = bs ! b # drop (Suc b) bs" by (simp add: Cons_nth_drop_Suc)
  have u: "unat (bucketNum it + 1) = Suc b"
    using b Suc.prems(2,3) by (simp add: unat_word_ariths)
  show ?case
  proof (cases "bs ! b")
    case Nil
    then have "concat (drop (Suc b) bs) \<noteq> []" using Suc.prems(1) d by simp
    from Suc.hyps(1) [OF _ this, of "it\<lparr>bucketNum := bucketNum it + 1\<rparr>"] Suc.hyps(2) Suc.prems(3) u
    show ?thesis by (auto simp: d Nil)
  next
    case (Cons n c)
    then show ?thesis by (auto simp: d u intro!: exI [of _ "bucketNum it + 1"])
  qed
qed

lemma LnnMapNext_rest:
  assumes "nodes (it_map it) = Some bs" "LnnMapHasNext it" "it_rest bs it \<noteq> []" "length bs < 2 ^ 32"
  shows "\<exists>n c. it_node (LnnMapNext it) = n # c \<and> n # it_rest bs (LnnMapNext it) = it_rest bs it \<and>
    nodeNum (LnnMapNext it) = nodeNum it + 1 \<and> it_map (LnnMapNext it) = it_map it"
proof (cases "tl (it_node it)")
  case (Cons n c)
  then obtain x where "it_node it = x # n # c" by (cases "it_node it") auto
  with assms(2) show ?thesis by (simp add: LnnMapNext_def it_rest_def)
next
  case Nil
  then have "concat (drop (unat (bucketNum it)) bs) \<noteq> []" using assms(3) by (simp add: it_rest_def)
  from next_bucket_rest [OF this refl assms(4)] obtain n c b' where
    "next_bucket (drop (unat (bucketNum it)) bs) it
       = it\<lparr>bucketNum := b', nodeNum := nodeNum it + 1, it_node := n # c\<rparr>"
    "n # c @ concat (drop (unat b') bs) = concat (drop (unat (bucketNum it)) bs)" by blast
  moreover have "LnnMapNext it = next_bucket (drop (unat (bucketNum it)) bs) it"
    using Nil assms(1,2) by (auto simp: LnnMapNext_def split: list.splits)
  ultimately show ?thesis using Nil by (simp add: it_rest_def)
qed

lemma iterate_rest:
  "nodes (it_map it) = Some bs \<Longrightarrow> length bs < 2 ^ 32
   \<Longrightarrow> unat (nodeNum it) + length (it_rest bs it) = unat (nodeSize (it_map it))
   \<Longrightarrow> length (it_rest bs it) \<le> fuel \<Longrightarrow> iterate fuel it = Some (it_rest bs it)"
proof (induction fuel arbitrary: it)
  case 0
  then show ?case by (simp add: iterate.simps [of 0] LnnMapHasNext_def word_less_nat_alt)
next
  case (Suc fuel)
  show ?case
  proof (cases "it_rest bs it")
    case Nil
    with Suc.prems show ?thesis
      by (simp add: iterate.simps [of "Suc _"] LnnMapHasNext_def word_less_nat_alt)
  next
    case (Cons n0 r)
    then have has: "LnnMapHasNext it"
      using Suc.prems(3) by (simp add: LnnMapHasNext_def word_less_nat_alt)
    obtain n c where nx: "it_node (LnnMapNext it) = n # c"
      "n # it_rest bs (LnnMapNext it) = it_rest bs it"
      "nodeNum (LnnMapNext it) = nodeNum it + 1" "it_map (LnnMapNext it) = it_map it"
      using LnnMapNext_rest [OF Suc.prems(1) has _ Suc.prems(2)] Cons by auto
    have "unat (nodeNum it + 1) = Suc (unat (nodeNum it))"
      using has unsigned_less [where ?'a = nat, of "nodeSize (it_map it)"]
      by (simp add: LnnMapHasNext_def word_less_nat_alt unat_word_ariths)
    moreover have "length (it_rest bs it) = Suc (length (it_rest bs (LnnMapNext it)))"
      using nx(2) by (metis length_Cons)
    ultimately have "iterate fuel (LnnMapNext it) = Some (it_rest bs (LnnMapNext it))"
      using Suc.prems nx by (intro Suc.IH) auto
    with has nx show ?thesis by (simp add: iterate.simps [of "Suc _"])
  qed
qed

text \<open>C31: A loop over the iterator of a well-formed map ends after as many rounds as the map has
  nodes, never finds a null node, and sees each stored node exactly once, bucket by bucket.\<close>

theorem LnnMapNext_visits_all:
  assumes "map_ok m" "LnnMapInitIterator True (Some m) = Some it" "unat (MapGetSize (Some m)) \<le> fuel"
  shows "iterate fuel it = Some (map_nodes m) \<and> distinct (map n_key (map_nodes m)) \<and>
    length (map_nodes m) = unat (MapGetSize (Some m))"
proof -
  have it: "it = \<lparr>it_node = [], nodeNum = 0, bucketNum = 0, it_map = m\<rparr>"
    using assms(2) by (simp add: LnnMapInitIterator_def)
  have dist: "distinct (map n_key (map_nodes m))"
    using assms(1) by (auto simp: map_ok_def map_nodes_def split: option.splits)
  have len: "length (map_nodes m) = unat (nodeSize m)" using unat_nodeSize [OF assms(1)] by simp
  show ?thesis
  proof (cases "nodes m")
    case None
    with map_ok_None [OF assms(1) None] show ?thesis
      by (simp add: it iterate.simps LnnMapHasNext_def map_nodes_def MapGetSize_def)
  next
    case (Some bs)
    obtain k where k: "k \<le> 31" "buckets_ok k bs" using assms(1) Some by (rule map_okE)
    have "(2 :: nat) ^ k \<le> 2 ^ 31" using k(1) by (intro power_increasing) simp_all
    then have bl: "length bs < 2 ^ 32" using k(2) by (simp add: buckets_ok_def)
    have "it_rest bs it = map_nodes m" using Some by (simp add: it it_rest_def map_nodes_def)
    then show ?thesis
      using iterate_rest [of it bs fuel] Some bl assms(3) dist len by (simp add: it MapGetSize_def)
  qed
qed

theorem LnnMapNext_visits_all_witness:
  "\<exists>m it. LnnMapInitIterator True (Some m) = Some it \<and> length (map_nodes m) = 1 \<and>
     iterate 1 it = Some (map_nodes m)"
proof -
  let ?m0 = "LnnMapInit \<lparr>nodes = None, nodeSize = 0, bucketSize = 0\<rparr>"
  obtain m where m: "LnnMapSet (True, True) (Some ''k'') (Some [1]) ?m0 = Some (SOFTBUS_OK, m)" "map_ok m"
    "contents m = [''k'' \<mapsto> [1]]" "length (map_nodes m) \<le> 1"
    using LnnMapSet_refines [OF LnnMapInit_ok(1), of "\<lparr>nodes = None, nodeSize = 0, bucketSize = 0\<rparr>"
        "(True, True)" "Some ''k''" "Some [1]"]
    by (auto simp: LnnMapInit_ok kv_set_def)
  have "map_nodes m \<noteq> []" using contents_empty [of m] m(3) by auto
  then have "length (map_nodes m) = 1" using m(4) by (cases "map_nodes m") auto
  with LnnMapNext_visits_all [OF m(2) _, of "\<lparr>it_node = [], nodeNum = 0, bucketNum = 0, it_map = m\<rparr>" 1]
    unat_nodeSize [OF m(2)]
  show ?thesis
    by (intro exI [of _ m] exI [of _ "\<lparr>it_node = [], nodeNum = 0, bucketNum = 0, it_map = m\<rparr>"])
      (simp add: LnnMapInitIterator_def MapGetSize_def)
qed

end
