(* ===== verification/Conn_Manager.thy ===== *)
theory Conn_Manager
  imports Softbus_Prelude
begin

text \<open>
  The connection manager, \<^verbatim>\<open>core/connection/manager/softbus_conn_manager.c\<close>: the registry of the
  modules that listen to connections, the dispatch of the events of the transports to them, and
  the dispatch of the requests to the transport a connection id or a type names. A transport is a
  table of functions over its own state; theory \<open>Tcp_Connect\<close> gives the one of TCP. A listener's
  functions are identified by their addresses, and calling them is recorded. Calling a null
  pointer or leaving a buffer is the outcome \<^const>\<open>None\<close>.
\<close>

section \<open>Types\<close>

type_synonym byte = "8 word"
type_synonym ConnModule = "32 word"
type_synonym ConnectType = "32 word"

abbreviation (input) CONNECT_TCP :: ConnectType where "CONNECT_TCP \<equiv> 1"
abbreviation (input) CONNECT_BR :: ConnectType where "CONNECT_BR \<equiv> 2"
abbreviation (input) CONNECT_BLE :: ConnectType where "CONNECT_BLE \<equiv> 3"
abbreviation (input) CONNECT_TYPE_MAX :: ConnectType where "CONNECT_TYPE_MAX \<equiv> 4"
abbreviation (input) CONNECT_TYPE_SHIFT :: nat where "CONNECT_TYPE_SHIFT \<equiv> 16"
abbreviation (input) MAGIC_NUMBER :: "32 word" where "MAGIC_NUMBER \<equiv> 0xBABEFACE"

datatype conn_addr = BrInfo string | BleInfo string string | IpInfo string int int

record ConnectionInfo =
  isAvailable :: bool
  isServer :: bool
  ci_type :: ConnectType
  ci_info :: conn_addr

record ConnectCallback =
  OnConnected :: "nat option"
  OnDisconnected :: "nat option"
  OnDataReceived :: "nat option"

record ConnPostData =
  d_module :: "32 word"
  d_seq :: "64 word"
  d_flag :: "32 word"
  d_pid :: int
  d_len :: int
  d_buf :: "byte list option"

record ConnectResult =
  OnConnectSuccessed :: "nat option"
  OnConnectFailed :: "nat option"

datatype conn_target = BrOption string | BleOption string string | IpOption string int

record ConnectOption =
  co_type :: ConnectType
  co_info :: conn_target

record LocalListenerInfo =
  li_type :: ConnectType
  li_ip :: string
  li_port :: int

record ConnPktHead =
  magic :: "32 word"
  h_module :: "32 word"
  h_seq :: "64 word"
  h_flag :: "32 word"
  h_len :: "32 word"

text \<open>The memory of a header: five little-endian fields without padding.\<close>

definition head_bytes :: "ConnPktHead \<Rightarrow> byte list" where
  "head_bytes h = le_bytes 4 (magic h) @ le_bytes 4 (h_module h) @ le_bytes 8 (h_seq h) @
     le_bytes 4 (h_flag h) @ le_bytes 4 (h_len h)"

definition bytes_head :: "byte list \<Rightarrow> ConnPktHead" where
  "bytes_head bs = \<lparr>magic = le_word (take 4 bs), h_module = le_word (take 4 (drop 4 bs)),
     h_seq = le_word (take 8 (drop 8 bs)), h_flag = le_word (take 4 (drop 16 bs)),
     h_len = le_word (take 4 (drop 20 bs))\<rparr>"

lemma length_head_bytes [simp]: "length (head_bytes h) = 24"
  by (simp add: head_bytes_def)

lemma bytes_head_bytes [simp]: "bytes_head (head_bytes h) = h"
  by (simp add: bytes_head_def head_bytes_def)

definition ConnGetHeadSize :: int where
  "ConnGetHeadSize = 24"

text \<open>
  The functions of a transport. Each takes an outcome of the environment (\<open>'e\<close>: locks,
  allocations, sockets) and the state of the transport; \<^const>\<open>None\<close> is a null pointer. Posting
  and disconnecting may also not return, which is the inner \<^const>\<open>None\<close>.
\<close>

record ('e, 'w) ConnectFuncInterface =
  ConnectDevice :: "('e \<Rightarrow> ConnectOption \<Rightarrow> 32 word \<Rightarrow> ConnectResult option \<Rightarrow> 'w \<Rightarrow> int \<times> 'w) option"
  PostBytes :: "('e \<Rightarrow> 32 word \<Rightarrow> byte list \<Rightarrow> int \<Rightarrow> int \<Rightarrow> 32 word \<Rightarrow> 'w \<Rightarrow> (int \<times> 'w) option) option"
  DisconnectDevice :: "('e \<Rightarrow> 32 word \<Rightarrow> 'w \<Rightarrow> (int \<times> 'w) option) option"
  DisconnectDeviceNow :: "('e \<Rightarrow> ConnectOption \<Rightarrow> 'w \<Rightarrow> int \<times> 'w) option"
  GetConnectionInfo :: "('e \<Rightarrow> 32 word \<Rightarrow> ConnectionInfo option \<Rightarrow> 'w \<Rightarrow> int \<times> ConnectionInfo option) option"
  StartLocalListening :: "('e \<Rightarrow> LocalListenerInfo \<Rightarrow> 'w \<Rightarrow> int \<times> 'w) option"
  StopLocalListening :: "('e \<Rightarrow> LocalListenerInfo \<Rightarrow> 'w \<Rightarrow> int \<times> 'w) option"

record ConnListenerNode =
  moduleId :: ConnModule
  callback :: ConnectCallback

text \<open>The static variables of the file; \<^verbatim>\<open>g_connManager\<close> has \<^verbatim>\<open>CONNECT_TYPE_MAX\<close> entries.\<close>

record ('e, 'w) ConnManager =
  g_connManager :: "('e, 'w) ConnectFuncInterface option list"
  g_listenerList :: "ConnListenerNode SoftBusList option"
  g_isInited :: bool
  reqId :: "32 word"

definition conn_manager_start :: "('e, 'w) ConnManager" where
  "conn_manager_start =
     \<lparr>g_connManager = replicate 4 None, g_listenerList = None, g_isInited = False, reqId = 1\<rparr>"

text \<open>A call of a listener's function: its address and the arguments.\<close>

datatype conn_call =
    CallConnected nat "32 word" "ConnectionInfo option"
  | CallDisconnected nat "32 word" "ConnectionInfo option"
  | CallData nat "32 word" ConnModule "64 word" "byte list" int

section \<open>Checks\<close>

definition ModuleCheck :: "ConnModule \<Rightarrow> int" where
  "ModuleCheck m =
     (if m \<in> set [1, 2, 3, 5, 8, 8, 9, 9, 11, 12, 13, 14, 15, 17, 20, 100, 101] then SOFTBUS_OK
      else SOFTBUS_ERR)"

definition ConnTypeCheck :: "('e, 'w) ConnManager \<Rightarrow> ConnectType \<Rightarrow> int" where
  "ConnTypeCheck cm type =
     (if type \<ge> CONNECT_TYPE_MAX then SOFTBUS_ERR
      else if g_connManager cm ! unat type = None then SOFTBUS_ERR
      else SOFTBUS_OK)"

section \<open>The listeners\<close>

text \<open>
  \<^verbatim>\<open>GetAllListener\<close> copies the list into an array of \<^verbatim>\<open>cnt\<close> entries; the environment is the
  outcome of locking and of the allocation.
\<close>

definition GetAllListener :: "bool \<times> bool \<Rightarrow> ('e, 'w) ConnManager \<Rightarrow> ConnListenerNode list option" where
  "GetAllListener env cm =
     (case g_listenerList cm of
        None \<Rightarrow> Some []
      | Some l \<Rightarrow>
          if cnt l = 0 then Some []
          else if \<not> fst env then Some []
          else if \<not> snd env then Some []
          else if length (lst l) \<le> unat (cnt l) then Some (lst l) else None)"

definition GetListenerByModuleId ::
  "bool \<Rightarrow> ConnModule \<Rightarrow> ('e, 'w) ConnManager \<Rightarrow> int \<times> ConnListenerNode option" where
  "GetListenerByModuleId lock m cm =
     (case g_listenerList cm of
        None \<Rightarrow> (SOFTBUS_ERR, None)
      | Some l \<Rightarrow>
          if \<not> lock then (SOFTBUS_ERR, None)
          else (case find (\<lambda>n. moduleId n = m) (lst l) of
                  Some n \<Rightarrow> (SOFTBUS_OK, Some n)
                | None \<Rightarrow> (SOFTBUS_ERR, None)))"

definition AddListener ::
  "bool \<times> bool \<Rightarrow> ConnModule \<Rightarrow> ConnectCallback \<Rightarrow> ('e, 'w) ConnManager \<Rightarrow> int \<times> ('e, 'w) ConnManager" where
  "AddListener env m cb cm =
     (case g_listenerList cm of
        None \<Rightarrow> (SOFTBUS_ERR, cm)
      | Some l \<Rightarrow>
          if \<not> fst env then (SOFTBUS_ERR, cm)
          else if find (\<lambda>n. moduleId n = m) (lst l) \<noteq> None then (SOFTBUS_ERR, cm)
          else if \<not> snd env then (SOFTBUS_ERR, cm)
          else (SOFTBUS_OK,
                cm\<lparr>g_listenerList := Some (sl_add \<lparr>moduleId = m, callback = cb\<rparr> l)\<rparr>))"

definition DelListener :: "bool \<Rightarrow> ConnModule \<Rightarrow> ('e, 'w) ConnManager \<Rightarrow> ('e, 'w) ConnManager" where
  "DelListener lock m cm =
     (case g_listenerList cm of
        None \<Rightarrow> cm
      | Some l \<Rightarrow>
          if \<not> lock then cm
          else cm\<lparr>g_listenerList := Some (sl_del_first (\<lambda>n. moduleId n = m) l)\<rparr>)"

definition ConnGetNewRequestId :: "('e, 'w) ConnManager \<Rightarrow> 32 word \<times> ('e, 'w) ConnManager" where
  "ConnGetNewRequestId cm =
     (let r = (reqId cm + 1) mod 1000000 + 1 in (r, cm\<lparr>reqId := r\<rparr>))"

section \<open>Events of the transports\<close>

definition ConnManagerRecvData ::
  "bool \<Rightarrow> 32 word \<Rightarrow> ConnModule \<Rightarrow> 64 word \<Rightarrow> byte list option \<Rightarrow> int \<Rightarrow> ('e, 'w) ConnManager
    \<Rightarrow> conn_call list option" where
  "ConnManagerRecvData lock cid m seq data len cm =
     (case data of
        None \<Rightarrow> Some []
      | Some d \<Rightarrow>
          if len \<le> ConnGetHeadSize then Some []
          else (case GetListenerByModuleId lock m cm of
                  (ret, listener) \<Rightarrow>
                    if ret = SOFTBUS_ERR then Some []
                    else map_option
                      (\<lambda>f. [CallData f cid m seq (drop (nat ConnGetHeadSize) d) (len - ConnGetHeadSize)])
                      (OnDataReceived (callback (the listener)))))"

definition ConnManagerConnected ::
  "bool \<times> bool \<Rightarrow> 32 word \<Rightarrow> ConnectionInfo option \<Rightarrow> ('e, 'w) ConnManager \<Rightarrow> conn_call list option" where
  "ConnManagerConnected env cid info cm =
     Option.bind (GetAllListener env cm) (\<lambda>ns.
       those (map (\<lambda>n. map_option (\<lambda>f. CallConnected f cid info) (OnConnected (callback n))) ns))"

definition ConnManagerDisconnected ::
  "bool \<times> bool \<Rightarrow> 32 word \<Rightarrow> ConnectionInfo option \<Rightarrow> ('e, 'w) ConnManager \<Rightarrow> conn_call list option" where
  "ConnManagerDisconnected env cid info cm =
     Option.bind (GetAllListener env cm) (\<lambda>ns.
       those (map (\<lambda>n. map_option (\<lambda>f. CallDisconnected f cid info) (OnDisconnected (callback n))) ns))"

definition ConnSetConnectCallback ::
  "bool \<times> bool \<Rightarrow> ConnModule \<Rightarrow> ConnectCallback option \<Rightarrow> ('e, 'w) ConnManager
    \<Rightarrow> int \<times> ('e, 'w) ConnManager" where
  "ConnSetConnectCallback env m cbp cm =
     (if ModuleCheck m \<noteq> SOFTBUS_OK then (SOFTBUS_INVALID_PARAM, cm)
      else case cbp of
             None \<Rightarrow> (SOFTBUS_INVALID_PARAM, cm)
           | Some cb \<Rightarrow>
               if OnConnected cb = None \<or> OnDisconnected cb = None \<or> OnDataReceived cb = None
               then (SOFTBUS_INVALID_PARAM, cm)
               else AddListener env m cb cm)"

definition ConnUnSetConnectCallback ::
  "bool \<Rightarrow> ConnModule \<Rightarrow> ('e, 'w) ConnManager \<Rightarrow> ('e, 'w) ConnManager" where
  "ConnUnSetConnectCallback lock m cm = DelListener lock m cm"

definition ConnTypeIsSupport :: "('e, 'w) ConnManager \<Rightarrow> ConnectType \<Rightarrow> int" where
  "ConnTypeIsSupport cm type = ConnTypeCheck cm type"

section \<open>Requests to the transports\<close>

definition transport :: "('e, 'w) ConnManager \<Rightarrow> ConnectType \<Rightarrow> ('e, 'w) ConnectFuncInterface" where
  "transport cm type = the (g_connManager cm ! unat type)"

definition conn_type :: "32 word \<Rightarrow> ConnectType" where
  "conn_type connectionId = drop_bit CONNECT_TYPE_SHIFT connectionId"

definition ConnConnectDevice ::
  "'e \<Rightarrow> ConnectOption option \<Rightarrow> 32 word \<Rightarrow> ConnectResult option \<Rightarrow> ('e, 'w) ConnManager \<Rightarrow> 'w \<Rightarrow> int \<times> 'w" where
  "ConnConnectDevice env info rid result cm w =
     (case info of
        None \<Rightarrow> (SOFTBUS_INVALID_PARAM, w)
      | Some i \<Rightarrow>
          if ConnTypeCheck cm (co_type i) \<noteq> SOFTBUS_OK then (SOFTBUS_CONN_MANAGER_TYPE_NOT_SUPPORT, w)
          else case ConnectDevice (transport cm (co_type i)) of
                 None \<Rightarrow> (SOFTBUS_ERR, w)
               | Some f \<Rightarrow> f env i rid result w)"

text \<open>
  \<^verbatim>\<open>ConnPostBytes\<close> also tells whether it freed the buffer itself; a buffer passed to the transport
  is freed there.
\<close>

definition ConnPostBytes ::
  "'e \<Rightarrow> 32 word \<Rightarrow> ConnPostData option \<Rightarrow> ('e, 'w) ConnManager \<Rightarrow> 'w \<Rightarrow> ((int \<times> bool) \<times> 'w) option" where
  "ConnPostBytes env connectionId dp cm w =
     (case dp of
        None \<Rightarrow> Some ((SOFTBUS_INVALID_PARAM, False), w)
      | Some data \<Rightarrow>
          (case d_buf data of
             None \<Rightarrow> Some ((SOFTBUS_INVALID_PARAM, False), w)
           | Some buf \<Rightarrow>
               if d_len data \<le> ConnGetHeadSize
               then Some ((SOFTBUS_CONN_MANAGER_PKT_LEN_INVALID, True), w)
               else
                 let type = conn_type connectionId in
                 if ConnTypeCheck cm type \<noteq> SOFTBUS_OK
                 then Some ((SOFTBUS_CONN_MANAGER_TYPE_NOT_SUPPORT, True), w)
                 else case PostBytes (transport cm type) of
                        None \<Rightarrow> Some ((SOFTBUS_CONN_MANAGER_OP_NOT_SUPPORT, True), w)
                      | Some f \<Rightarrow>
                          if length buf < nat ConnGetHeadSize then None
                          else
                            let head = \<lparr>magic = MAGIC_NUMBER, h_module = d_module data,
                                        h_seq = d_seq data, h_flag = d_flag data,
                                        h_len = of_int (d_len data - ConnGetHeadSize)\<rparr>;
                                buf' = head_bytes head @ drop (nat ConnGetHeadSize) buf
                            in map_option (\<lambda>(ret, w'). ((ret, False), w'))
                                 (f env connectionId buf' (d_len data) (d_pid data) (d_flag data) w)))"

definition ConnDisconnectDevice :: "'e \<Rightarrow> 32 word \<Rightarrow> ('e, 'w) ConnManager \<Rightarrow> 'w \<Rightarrow> (int \<times> 'w) option" where
  "ConnDisconnectDevice env connectionId cm w =
     (let type = conn_type connectionId in
      if ConnTypeCheck cm type \<noteq> SOFTBUS_OK then Some (SOFTBUS_CONN_MANAGER_TYPE_NOT_SUPPORT, w)
      else case DisconnectDevice (transport cm type) of
             None \<Rightarrow> Some (SOFTBUS_CONN_MANAGER_OP_NOT_SUPPORT, w)
           | Some f \<Rightarrow> f env connectionId w)"

definition ConnDisconnectDeviceAllConn ::
  "'e \<Rightarrow> ConnectOption option \<Rightarrow> ('e, 'w) ConnManager \<Rightarrow> 'w \<Rightarrow> int \<times> 'w" where
  "ConnDisconnectDeviceAllConn env option cm w =
     (case option of
        None \<Rightarrow> (SOFTBUS_INVALID_PARAM, w)
      | Some opt \<Rightarrow>
          if ConnTypeCheck cm (co_type opt) \<noteq> SOFTBUS_OK then (SOFTBUS_CONN_MANAGER_TYPE_NOT_SUPPORT, w)
          else case DisconnectDeviceNow (transport cm (co_type opt)) of
                 None \<Rightarrow> (SOFTBUS_CONN_MANAGER_OP_NOT_SUPPORT, w)
               | Some f \<Rightarrow> f env opt w)"

definition ConnGetConnectionInfo ::
  "'e \<Rightarrow> 32 word \<Rightarrow> ConnectionInfo option \<Rightarrow> ('e, 'w) ConnManager \<Rightarrow> 'w \<Rightarrow> int \<times> ConnectionInfo option" where
  "ConnGetConnectionInfo env connectionId info cm w =
     (let type = conn_type connectionId in
      if ConnTypeCheck cm type \<noteq> SOFTBUS_OK then (SOFTBUS_CONN_MANAGER_TYPE_NOT_SUPPORT, info)
      else case GetConnectionInfo (transport cm type) of
             None \<Rightarrow> (SOFTBUS_CONN_MANAGER_OP_NOT_SUPPORT, info)
           | Some f \<Rightarrow> f env connectionId info w)"

definition ConnStartLocalListening ::
  "'e \<Rightarrow> LocalListenerInfo option \<Rightarrow> ('e, 'w) ConnManager \<Rightarrow> 'w \<Rightarrow> int \<times> 'w" where
  "ConnStartLocalListening env info cm w =
     (case info of
        None \<Rightarrow> (SOFTBUS_INVALID_PARAM, w)
      | Some i \<Rightarrow>
          if ConnTypeCheck cm (li_type i) \<noteq> SOFTBUS_OK then (SOFTBUS_CONN_MANAGER_TYPE_NOT_SUPPORT, w)
          else case StartLocalListening (transport cm (li_type i)) of
                 None \<Rightarrow> (SOFTBUS_CONN_MANAGER_OP_NOT_SUPPORT, w)
               | Some f \<Rightarrow> f env i w)"

definition ConnStopLocalListening ::
  "'e \<Rightarrow> LocalListenerInfo option \<Rightarrow> ('e, 'w) ConnManager \<Rightarrow> 'w \<Rightarrow> int \<times> 'w" where
  "ConnStopLocalListening env info cm w =
     (case info of
        None \<Rightarrow> (SOFTBUS_INVALID_PARAM, w)
      | Some i \<Rightarrow>
          if ConnTypeCheck cm (li_type i) \<noteq> SOFTBUS_OK then (SOFTBUS_CONN_MANAGER_TYPE_NOT_SUPPORT, w)
          else case StopLocalListening (transport cm (li_type i)) of
                 None \<Rightarrow> (SOFTBUS_CONN_MANAGER_OP_NOT_SUPPORT, w)
               | Some f \<Rightarrow> f env i w)"

section \<open>Start and end\<close>

text \<open>
  The results of the three transport initialisations are arguments, \<^const>\<open>None\<close> a null pointer;
  the last two are the outcomes of \<^verbatim>\<open>CreateSoftBusList\<close>.
\<close>

definition set_transport ::
  "ConnectType \<Rightarrow> ('e, 'w) ConnectFuncInterface option \<Rightarrow> ('e, 'w) ConnManager \<Rightarrow> ('e, 'w) ConnManager" where
  "set_transport type connectObj cm =
     (if connectObj \<noteq> None then cm\<lparr>g_connManager := (g_connManager cm)[unat type := connectObj]\<rparr> else cm)"

definition ConnServerInit ::
  "bool \<Rightarrow> ('e, 'w) ConnectFuncInterface option \<Rightarrow> ('e, 'w) ConnectFuncInterface option
    \<Rightarrow> ('e, 'w) ConnectFuncInterface option \<Rightarrow> bool \<Rightarrow> bool \<Rightarrow> ('e, 'w) ConnManager
    \<Rightarrow> int \<times> ('e, 'w) ConnManager" where
  "ConnServerInit isSupportTcp tcp br ble alloc mutexInit cm =
     (if g_isInited cm then (SOFTBUS_ERR, cm)
      else
        let cm1 = (if isSupportTcp then set_transport CONNECT_TCP tcp cm else cm);
            cm2 = set_transport CONNECT_BR br cm1;
            cm3 = set_transport CONNECT_BLE ble cm2
        in case g_listenerList cm3 of
             Some _ \<Rightarrow> (SOFTBUS_OK, cm3\<lparr>g_isInited := True\<rparr>)
           | None \<Rightarrow>
               (case CreateSoftBusList alloc mutexInit of
                  None \<Rightarrow> (SOFTBUS_ERR, cm3)
                | Some l \<Rightarrow> (SOFTBUS_OK, cm3\<lparr>g_listenerList := Some l, g_isInited := True\<rparr>)))"

definition ConnServerDeinit :: "('e, 'w) ConnManager \<Rightarrow> ('e, 'w) ConnManager" where
  "ConnServerDeinit cm =
     (if \<not> g_isInited cm then cm else cm\<lparr>g_listenerList := None, g_isInited := False\<rparr>)"

section \<open>The registry of listeners\<close>

definition listeners :: "('e, 'w) ConnManager \<Rightarrow> ConnListenerNode list" where
  "listeners cm = (case g_listenerList cm of None \<Rightarrow> [] | Some l \<Rightarrow> lst l)"

interpretation conn_reg: keyed_registry listeners moduleId "\<lambda>e cm. fst e"
    "\<lambda>e n cm. AddListener e (moduleId n) (callback n) cm" "\<lambda>e m cm. DelListener (fst e) m cm"
  by unfold_locales
    (auto simp: AddListener_def DelListener_def listeners_def find_None_iff
      split: option.splits if_splits)

text \<open>
  The invariant: the array of transports has its length, the counter of the list is its length,
  every module is valid, registered once, and none of its functions is null.
\<close>

definition node_ok :: "ConnListenerNode \<Rightarrow> bool" where
  "node_ok n \<longleftrightarrow> ModuleCheck (moduleId n) = SOFTBUS_OK \<and> OnConnected (callback n) \<noteq> None \<and>
     OnDisconnected (callback n) \<noteq> None \<and> OnDataReceived (callback n) \<noteq> None"

definition conn_inv :: "('e, 'w) ConnManager \<Rightarrow> bool" where
  "conn_inv cm \<longleftrightarrow> length (g_connManager cm) = 4 \<and>
     (case g_listenerList cm of None \<Rightarrow> True | Some l \<Rightarrow> wf_sl l) \<and>
     distinct (map moduleId (listeners cm)) \<and> (\<forall>n \<in> set (listeners cm). node_ok n) \<and>
     (g_isInited cm \<longrightarrow> g_listenerList cm \<noteq> None)"

text \<open>The operations that change the manager.\<close>

datatype ('e, 'w) conn_op =
    OInit bool "('e, 'w) ConnectFuncInterface option" "('e, 'w) ConnectFuncInterface option"
      "('e, 'w) ConnectFuncInterface option" bool bool
  | ODeinit
  | OSet "bool \<times> bool" ConnModule "ConnectCallback option"
  | OUnset bool ConnModule
  | ORequestId

fun conn_step :: "('e, 'w) conn_op \<Rightarrow> ('e, 'w) ConnManager \<Rightarrow> ('e, 'w) ConnManager" where
  "conn_step (OInit s t b bl a m) cm = snd (ConnServerInit s t b bl a m cm)"
| "conn_step ODeinit cm = ConnServerDeinit cm"
| "conn_step (OSet env m cb) cm = snd (ConnSetConnectCallback env m cb cm)"
| "conn_step (OUnset lock m) cm = ConnUnSetConnectCallback lock m cm"
| "conn_step ORequestId cm = snd (ConnGetNewRequestId cm)"

lemma set_transport_simps [simp]:
  "g_listenerList (set_transport t c cm) = g_listenerList cm"
  "g_isInited (set_transport t c cm) = g_isInited cm"
  "length (g_connManager (set_transport t c cm)) = length (g_connManager cm)"
  by (simp_all add: set_transport_def)

lemma conn_inv_listeners:
  assumes "conn_inv cm" "length (g_connManager cm') = 4" "g_listenerList cm' = g_listenerList cm"
    and "g_isInited cm' \<longrightarrow> g_listenerList cm \<noteq> None"
  shows "conn_inv cm'"
  using assms by (simp add: conn_inv_def listeners_def)

lemma conn_inv_init: "conn_inv cm \<Longrightarrow> conn_inv (snd (ConnServerInit s t b bl a m cm))"
proof (cases "g_isInited cm")
  case False
  assume inv: "conn_inv cm"
  let ?cm = "set_transport CONNECT_BLE bl (set_transport CONNECT_BR b
    (if s then set_transport CONNECT_TCP t cm else cm))"
  have cm: "g_listenerList ?cm = g_listenerList cm" "g_isInited ?cm = g_isInited cm"
    "length (g_connManager ?cm) = 4" using inv by (simp_all add: conn_inv_def)
  show ?thesis
  proof (cases "g_listenerList cm")
    case (Some l)
    have "conn_inv (?cm\<lparr>g_isInited := True\<rparr>)"
      using cm Some by (intro conn_inv_listeners [OF inv]) simp_all
    then show ?thesis using False Some by (cases s) (simp_all add: ConnServerInit_def Let_def)
  next
    case None
    show ?thesis
    proof (cases "CreateSoftBusList a m :: ConnListenerNode SoftBusList option")
      case (Some l)
      then have "conn_inv (?cm\<lparr>g_listenerList := Some l, g_isInited := True\<rparr>)"
        using wf_sl_create [OF Some] cm by (simp add: conn_inv_def listeners_def)
      then show ?thesis using False None Some by (cases s) (simp_all add: ConnServerInit_def Let_def)
    next
      case Create: None
      have "conn_inv ?cm" using cm False by (intro conn_inv_listeners [OF inv]) simp_all
      then show ?thesis using False None Create by (cases s) (simp_all add: ConnServerInit_def Let_def)
    qed
  qed
qed (simp add: ConnServerInit_def)

lemma conn_inv_set: "conn_inv cm \<Longrightarrow> conn_inv (snd (ConnSetConnectCallback env m cbp cm))"
proof -
  assume inv: "conn_inv cm"
  show ?thesis
  proof (cases "\<exists>cb l. cbp = Some cb \<and> g_listenerList cm = Some l \<and>
      fst (ConnSetConnectCallback env m cbp cm) = SOFTBUS_OK")
    case False
    then have "snd (ConnSetConnectCallback env m cbp cm) = cm"
      by (auto simp: ConnSetConnectCallback_def AddListener_def split: option.splits if_splits)
    with inv show ?thesis by simp
  next
    case True
    then obtain cb l where cb: "cbp = Some cb" "g_listenerList cm = Some l"
      and ok: "fst (ConnSetConnectCallback env m cbp cm) = SOFTBUS_OK" by blast
    let ?n = "\<lparr>moduleId = m, callback = cb\<rparr>"
    have "snd (ConnSetConnectCallback env m cbp cm) = snd (AddListener env m cb cm)"
      and "node_ok ?n" and new: "fst (AddListener env m cb cm) = SOFTBUS_OK"
      using ok cb by (auto simp: ConnSetConnectCallback_def node_ok_def split: if_splits)
    moreover have "snd (AddListener env m cb cm) = cm\<lparr>g_listenerList := Some (sl_add ?n l)\<rparr>"
      using new cb by (auto simp: AddListener_def split: if_splits)
    moreover have "distinct (map moduleId (listeners (snd (AddListener env m cb cm))))"
      using conn_reg.unique_add [of cm env ?n] inv by (simp add: conn_inv_def)
    ultimately show ?thesis using inv cb(2) by (simp add: conn_inv_def listeners_def)
  qed
qed

lemma conn_inv_unset: "conn_inv cm \<Longrightarrow> conn_inv (DelListener lock m cm)"
  using conn_reg.unique_del [of cm "(lock, True)" m]
  by (auto simp: conn_inv_def DelListener_def listeners_def dest: in_del_firstD split: option.splits)

lemma conn_inv_step: "conn_inv cm \<Longrightarrow> conn_inv (conn_step op cm)"
  by (cases op)
    (simp_all add: conn_inv_init conn_inv_set conn_inv_unset ConnUnSetConnectCallback_def,
     simp_all add: conn_inv_def listeners_def ConnServerDeinit_def ConnGetNewRequestId_def Let_def)

lemma conn_inv_run: "conn_inv cm \<Longrightarrow> conn_inv (fold conn_step ops cm)"
  by (induction ops arbitrary: cm) (simp_all add: conn_inv_step)

lemma conn_inv_start: "conn_inv conn_manager_start"
  by (simp add: conn_inv_def conn_manager_start_def listeners_def)

lemma few_listeners:
  assumes "conn_inv cm" "g_listenerList cm = Some l"
  shows "unat (cnt l) = length (lst l)"
proof -
  let ?ids = "[1, 2, 3, 5, 8, 8, 9, 9, 11, 12, 13, 14, 15, 17, 20, 100, 101] :: ConnModule list"
  have "moduleId ` set (lst l) \<subseteq> set ?ids"
    using assms by (auto simp: conn_inv_def listeners_def node_ok_def ModuleCheck_def split: if_splits)
  then have "card (moduleId ` set (lst l)) \<le> card (set ?ids)" by (intro card_mono) simp_all
  also have "\<dots> \<le> length ?ids" by (rule card_length)
  finally have "length (lst l) \<le> 17"
    using assms distinct_card [of "map moduleId (lst l)"] by (simp add: conn_inv_def listeners_def)
  moreover have "cnt l = of_nat (length (lst l))"
    using assms by (simp add: conn_inv_def wf_sl_def)
  ultimately show ?thesis unfolding unat_of_nat by (simp add: unat_of_nat take_bit_nat_def)
qed

lemma GetAllListener_inv:
  "conn_inv cm \<Longrightarrow> GetAllListener env cm = Some (if fst env \<and> snd env then listeners cm else [])"
  using few_listeners [of cm]
  by (auto simp: GetAllListener_def listeners_def unat_eq_0 split: option.splits)

lemma those_map_Some: "(\<And>x. x \<in> set xs \<Longrightarrow> f x = Some (g x)) \<Longrightarrow> those (map f xs) = Some (map g xs)"
  by (induction xs) auto

lemma ConnManagerRecvData_inv:
  assumes inv: "conn_inv cm"
  shows "ConnManagerRecvData True cid m seq (Some d) len cm =
     Some (if len \<le> ConnGetHeadSize then []
           else map (\<lambda>n. CallData (the (OnDataReceived (callback n))) cid m seq (drop 24 d) (len - 24))
                  (filter (\<lambda>n. moduleId n = m) (listeners cm)))"
proof -
  have ok: "node_ok n" if "n \<in> set (listeners cm)" for n using inv that by (simp add: conn_inv_def)
  have dist: "distinct (map moduleId (listeners cm))" using inv by (simp add: conn_inv_def)
  have one: "filter (\<lambda>n. moduleId n = m) (listeners cm)
      = (case find (\<lambda>n. moduleId n = m) (listeners cm) of None \<Rightarrow> [] | Some n \<Rightarrow> [n])"
    using dist by (rule filter_key_find)
  have "GetListenerByModuleId True m cm =
      (case find (\<lambda>n. moduleId n = m) (listeners cm) of
         None \<Rightarrow> (SOFTBUS_ERR, None) | Some n \<Rightarrow> (SOFTBUS_OK, Some n))"
    by (auto simp: GetListenerByModuleId_def listeners_def split: option.splits)
  moreover have "node_ok n" if "find (\<lambda>n. moduleId n = m) (listeners cm) = Some n" for n
    using ok find_SomeD [OF that] by blast
  ultimately show "ConnManagerRecvData True cid m seq (Some d) len cm =
     Some (if len \<le> ConnGetHeadSize then []
           else map (\<lambda>n. CallData (the (OnDataReceived (callback n))) cid m seq (drop 24 d) (len - 24))
                  (filter (\<lambda>n. moduleId n = m) (listeners cm)))"
    by (auto simp: ConnManagerRecvData_def one node_ok_def ConnGetHeadSize_def split: option.splits)
qed

section \<open>Properties of the manager\<close>

text \<open>C32: After any sequence of initialisations, deinitialisations, registrations, removals and
  request ids, with any outcomes of locks and allocations, the manager is consistent, and the
  events of a transport reach the listeners without a null call or an overrun of the copied
  array: a connection or disconnection calls every registered module exactly once, and data
  longer than a header calls the listener of its module, and no other, with the bytes behind the
  header.\<close>

theorem conn_manager_dispatch:
  "let cm = fold conn_step ops conn_manager_start in
   conn_inv cm \<and>
   ConnManagerConnected env cid info cm = Some (if fst env \<and> snd env
     then map (\<lambda>n. CallConnected (the (OnConnected (callback n))) cid info) (listeners cm) else []) \<and>
   ConnManagerDisconnected env cid info cm = Some (if fst env \<and> snd env
     then map (\<lambda>n. CallDisconnected (the (OnDisconnected (callback n))) cid info) (listeners cm) else []) \<and>
   ConnManagerRecvData True cid m seq (Some d) len cm =
     Some (if len \<le> ConnGetHeadSize then []
           else map (\<lambda>n. CallData (the (OnDataReceived (callback n))) cid m seq (drop 24 d) (len - 24))
                  (filter (\<lambda>n. moduleId n = m) (listeners cm)))"
proof -
  define cm where "cm = fold conn_step ops conn_manager_start"
  have inv: "conn_inv cm" unfolding cm_def by (rule conn_inv_run [OF conn_inv_start])
  have ok: "node_ok n" if "n \<in> set (listeners cm)" for n using inv that by (simp add: conn_inv_def)
  have "ConnManagerRecvData True cid m seq (Some d) len cm =
     Some (if len \<le> ConnGetHeadSize then []
           else map (\<lambda>n. CallData (the (OnDataReceived (callback n))) cid m seq (drop 24 d) (len - 24))
                  (filter (\<lambda>n. moduleId n = m) (listeners cm)))"
    by (rule ConnManagerRecvData_inv [OF inv])
  moreover have "ConnManagerConnected env cid info cm = Some (if fst env \<and> snd env
     then map (\<lambda>n. CallConnected (the (OnConnected (callback n))) cid info) (listeners cm) else [])"
    "ConnManagerDisconnected env cid info cm = Some (if fst env \<and> snd env
     then map (\<lambda>n. CallDisconnected (the (OnDisconnected (callback n))) cid info) (listeners cm) else [])"
    using ok
    by (auto simp: ConnManagerConnected_def ConnManagerDisconnected_def GetAllListener_inv [OF inv]
        node_ok_def intro!: those_map_Some)
  ultimately show ?thesis using inv by (simp add: cm_def Let_def)
qed

text \<open>The request ids are the odd numbers 3, 5, 7 and so on up to 999999, then 1 and again 3:
  the n-th id is 2n + 1 modulo the wrap, so that two ids are equal only if they are a multiple of
  500000 requests apart.\<close>

theorem ConnGetNewRequestId_period:
  "let ids = (\<lambda>n. reqId (((\<lambda>cm. snd (ConnGetNewRequestId cm)) ^^ n) conn_manager_start)) in
   unat (ids i) = 2 * i mod 1000000 + 1 \<and> (ids i = ids j \<longleftrightarrow> i mod 500000 = j mod 500000)"
proof -
  define ids where "ids n = reqId (((\<lambda>cm. snd (ConnGetNewRequestId cm)) ^^ n)
    (conn_manager_start :: ('a, 'b) ConnManager))" for n
  have step: "ids (Suc n) = (ids n + 1) mod 1000000 + 1" for n
    by (simp add: ids_def ConnGetNewRequestId_def Let_def)
  have val: "unat (ids n) = 2 * n mod 1000000 + 1" for n
  proof (induction n)
    case 0
    show ?case by (simp add: ids_def conn_manager_start_def)
  next
    case (Suc n)
    have small: "2 * n mod 1000000 < 1000000" by simp
    have "unat (ids n + 1) = 2 * n mod 1000000 + 2"
      using Suc.IH small by (simp add: unat_word_ariths)
    then have "unat ((ids n + 1) mod 1000000) = (2 * n mod 1000000 + 2) mod 1000000"
      by (simp add: unat_mod_distrib)
    also have "\<dots> = (2 * n + 2) mod 1000000" by (rule mod_add_left_eq)
    finally have r: "unat ((ids n + 1) mod 1000000) = 2 * Suc n mod 1000000" by simp
    have suc: "unat (w + 1) = Suc (unat w)" if "unat w < 1000000" for w :: "32 word"
      using that by (simp add: unat_word_ariths)
    have "unat ((ids n + 1) mod 1000000) < 1000000" unfolding r by simp
    then show ?case unfolding step using suc r by simp
  qed
  have "2 * i mod 1000000 = 2 * (i mod 500000)" "2 * j mod 1000000 = 2 * (j mod 500000)"
    using mod_mult_mult1 [of 2 _ 500000] by simp_all
  then have "ids i = ids j \<longleftrightarrow> i mod 500000 = j mod 500000"
    using val [of i] val [of j] by (auto simp: word_unat_eq_iff)
  with val [of i] show ?thesis by (simp add: Let_def ids_def)
qed

end
