(* ===== verification/Tcp_Connect.thy ===== *)
theory Tcp_Connect
  imports Conn_Manager
begin

text \<open>
  The TCP transport, \<^verbatim>\<open>core/connection/tcp/src/softbus_tcp_connect_manager.c\<close>, over the sending and
  receiving of \<^verbatim>\<open>core/connection/common/src/softbus_tcp_socket.c\<close>: the list of the TCP
  connections, the reception of a packet from the stream of a socket, and the functions of the
  transport table. The sockets, the trigger sets of the base listener, locks and allocations are
  outcomes of the environment; what is done to them is recorded.
\<close>

unbundle bit_operations_syntax

section \<open>Sending and receiving on a socket\<close>

text \<open>
  A run of the system calls: \<^verbatim>\<open>send\<close> transfers a number of bytes, or has to be tried again, and is
  followed by the result of the wait for the next round.
\<close>

datatype send_rc = SendAgain | SendRc int

text \<open>The loop of \<^verbatim>\<open>SendTcpData\<close>; \<^const>\<open>None\<close> when it is still running after the given rounds.\<close>

fun send_loop :: "(send_rc \<times> int) list \<Rightarrow> nat \<Rightarrow> nat \<Rightarrow> int option" where
  "send_loop [] len bytes = None"
| "send_loop ((SendAgain, err) # rounds) len bytes = send_loop rounds len bytes"
| "send_loop ((SendRc rc, err) # rounds) len bytes =
     (if rc \<le> 0 then Some (if bytes = 0 then - 1 else int bytes)
      else
        let bytes' = bytes + min (nat rc) (len - bytes)
        in if bytes' = len then Some (int bytes')
           else if err < 0 then Some (int bytes')
           else send_loop rounds len bytes')"

definition SendTcpData :: "int \<times> (send_rc \<times> int) list \<Rightarrow> int \<Rightarrow> nat \<Rightarrow> int option" where
  "SendTcpData env fd len =
     (if fd < 0 \<or> len = 0 then Some (- 1)
      else if fst env \<le> 0 then Some (fst env)
      else send_loop (snd env) len 0)"

datatype recv_rc = RecvAgain | RecvClosed | RecvAvail nat

text \<open>
  \<^verbatim>\<open>OnRecvData\<close> takes from the incoming stream: the result, the bytes stored and the rest. A round
  is the result of the wait and the state of the socket.
\<close>

definition OnRecvData ::
  "int \<times> recv_rc \<Rightarrow> int \<Rightarrow> nat \<Rightarrow> int \<Rightarrow> byte list \<Rightarrow> int \<times> byte list \<times> byte list" where
  "OnRecvData round fd len timeout rx =
     (if fd < 0 \<or> len = 0 then (- 1, [], rx)
      else if timeout \<noteq> 0 \<and> fst round < 0 then (fst round, [], rx)
      else case snd round of
             RecvAgain \<Rightarrow> (0, [], rx)
           | RecvClosed \<Rightarrow> (- 1, [], rx)
           | RecvAvail n \<Rightarrow>
               let d = take (min n len) rx
               in if d = [] then (- 1, [], rx) else (int (length d), d, drop (length d) rx))"

section \<open>State\<close>

record TcpConnInfoNode =
  connectionId :: "32 word"
  t_info :: ConnectionInfo

text \<open>What is done to the outside, and what is reported to the connection manager.\<close>

datatype tcp_act =
    AddTrigger int | DelTrigger int | TcpShutDown int | SendTcp int "byte list" | FreeData
  | StopListener | DestroyListener | StartListener string int

datatype tcp_up =
    UpConnected "32 word" ConnectionInfo
  | UpDisconnected "32 word" "ConnectionInfo option"
  | UpData "32 word" ConnModule "64 word" "byte list" int
  | UpConnectSuccessed nat "32 word" "32 word" ConnectionInfo
  | UpConnectFailed nat "32 word" int

record tcp_world =
  g_tcpMaxConnNum :: int
  g_tcpTimeOut :: int
  g_tcpMaxLen :: int
  g_localIp :: string
  g_tcpConnInfoList :: "TcpConnInfoNode SoftBusList option"
  g_tcpListener :: bool
  acts :: "tcp_act list"
  ups :: "tcp_up list"

text \<open>
  The outcomes of the environment of one call: the lock, the allocation of a structure and
  of a block of a given size, the results of the calls of the base listener, the port and the descriptor of a socket,
  the rounds of sending and of receiving, and the incoming stream.
\<close>

record tcp_env =
  e_lock :: bool
  e_node :: bool
  e_alloc :: "32 word \<Rightarrow> bool"
  e_addTrigger :: int
  e_setListener :: int
  e_startListener :: int
  e_stopListener :: int
  e_port :: int
  e_open :: int
  e_send :: "int \<times> (send_rc \<times> int) list"
  e_recv :: "(int \<times> recv_rc) list"
  e_rx :: "byte list"

abbreviation (input) IP_LEN :: nat where "IP_LEN \<equiv> 46"
abbreviation (input) SOFTBUS_SOCKET_IN :: int where "SOFTBUS_SOCKET_IN \<equiv> 1"
abbreviation (input) SOFTBUS_SOCKET_EXCEPTION :: int where "SOFTBUS_SOCKET_EXCEPTION \<equiv> 2"

definition act :: "tcp_act \<Rightarrow> tcp_world \<Rightarrow> tcp_world" where
  "act a w = w\<lparr>acts := acts w @ [a]\<rparr>"

definition report :: "tcp_up \<Rightarrow> tcp_world \<Rightarrow> tcp_world" where
  "report u w = w\<lparr>ups := ups w @ [u]\<rparr>"

text \<open>A descriptor below zero is not shut down.\<close>

definition shut_down :: "int \<Rightarrow> tcp_world \<Rightarrow> tcp_world" where
  "shut_down fd w = (if fd \<ge> 0 then act (TcpShutDown fd) w else w)"

fun addr_fd :: "conn_addr \<Rightarrow> int" where
  "addr_fd (IpInfo _ _ fd) = fd" | "addr_fd _ = 0"

fun addr_ip :: "conn_addr \<Rightarrow> string" where
  "addr_ip (IpInfo ip _ _) = ip" | "addr_ip _ = []"

abbreviation node_fd :: "TcpConnInfoNode \<Rightarrow> int" where
  "node_fd n \<equiv> addr_fd (ci_info (t_info n))"

section \<open>The list of connections\<close>

definition TcpGetConnNum :: "tcp_world \<Rightarrow> int" where
  "TcpGetConnNum w = (case g_tcpConnInfoList w of None \<Rightarrow> 0 | Some l \<Rightarrow> sint (cnt l))"

definition AddTcpConnInfo :: "bool \<Rightarrow> TcpConnInfoNode \<Rightarrow> tcp_world \<Rightarrow> int \<times> tcp_world" where
  "AddTcpConnInfo lock item w =
     (case g_tcpConnInfoList w of
        None \<Rightarrow> (SOFTBUS_INVALID_PARAM, w)
      | Some l \<Rightarrow>
          if \<not> lock then (SOFTBUS_LOCK_ERR, w)
          else if sint (cnt l) \<ge> g_tcpMaxConnNum w then (SOFTBUS_ERR, w)
          else if find (\<lambda>n. connectionId n = connectionId item) (lst l) \<noteq> None then (SOFTBUS_ERR, w)
          else (SOFTBUS_OK, w\<lparr>g_tcpConnInfoList := Some (sl_add item l)\<rparr>))"

text \<open>
  \<^verbatim>\<open>DelTcpConnInfo\<close> copies the information of the removed connection when the caller gives a
  place for it; a connection that is not there is reported as success.
\<close>

definition DelTcpConnInfo ::
  "bool \<Rightarrow> 32 word \<Rightarrow> ConnectionInfo option \<Rightarrow> tcp_world \<Rightarrow> (int \<times> ConnectionInfo option) \<times> tcp_world" where
  "DelTcpConnInfo lock cid info w =
     (case g_tcpConnInfoList w of
        None \<Rightarrow> ((SOFTBUS_ERR, info), w)
      | Some l \<Rightarrow>
          if \<not> lock then ((SOFTBUS_LOCK_ERR, info), w)
          else (case find (\<lambda>n. connectionId n = cid) (lst l) of
                  None \<Rightarrow> ((SOFTBUS_OK, info), w)
                | Some item \<Rightarrow>
                    ((SOFTBUS_OK, map_option (\<lambda>_. t_info item) info),
                     (shut_down (node_fd item) w)
                       \<lparr>g_tcpConnInfoList := Some (sl_del_first (\<lambda>n. connectionId n = cid) l)\<rparr>)))"

definition CalTcpConnectionId :: "int \<Rightarrow> 32 word" where
  "CalTcpConnectionId fd = (of_int fd AND 0xffff) OR push_bit CONNECT_TYPE_SHIFT CONNECT_TCP"

section \<open>Events of the sockets\<close>

definition accept_fail :: "int \<Rightarrow> tcp_world \<Rightarrow> int \<times> tcp_world" where
  "accept_fail cfd w = (SOFTBUS_ERR, shut_down cfd (act (DelTrigger cfd) w))"

definition TcpOnConnectEvent :: "tcp_env \<Rightarrow> int \<Rightarrow> int \<Rightarrow> string option \<Rightarrow> tcp_world \<Rightarrow> int \<times> tcp_world" where
  "TcpOnConnectEvent env events cfd ipp w =
     (if events = SOFTBUS_SOCKET_EXCEPTION then (SOFTBUS_ERR, w)
      else if cfd < 0 \<or> ipp = None \<or> \<not> g_tcpListener w then (SOFTBUS_INVALID_PARAM, w)
      else if \<not> e_node env then (SOFTBUS_MALLOC_ERR, w)
      else
        case strcpy_s IP_LEN (the ipp) of
          None \<Rightarrow> accept_fail cfd w
        | Some ip \<Rightarrow>
            let node = \<lparr>connectionId = CalTcpConnectionId cfd,
                        t_info = \<lparr>isAvailable = True, isServer = True, ci_type = CONNECT_TCP,
                                  ci_info = IpInfo ip (e_port env) cfd\<rparr>\<rparr>;
                w1 = act (AddTrigger cfd) w
            in if e_addTrigger env \<noteq> SOFTBUS_OK then accept_fail cfd w1
               else case AddTcpConnInfo (e_lock env) node w1 of
                      (ret, w2) \<Rightarrow>
                        if ret \<noteq> SOFTBUS_OK then accept_fail cfd w2
                        else (SOFTBUS_OK, report (UpConnected (connectionId node) (t_info node)) w2))"

text \<open>
  Reading may block for ever and may leave the buffer: the outcomes of a call that reads.
\<close>

datatype 'a io = Ret 'a | Blocked | MemFault

fun recv_loop ::
  "(int \<times> recv_rc) list \<Rightarrow> int \<Rightarrow> int \<Rightarrow> byte list \<Rightarrow> nat \<Rightarrow> byte list \<Rightarrow> byte list option io" where
  "recv_loop rounds fd timeout rx 0 acc = Ret (Some acc)"
| "recv_loop [] fd timeout rx (Suc need) acc = Blocked"
| "recv_loop (r # rounds) fd timeout rx (Suc need) acc =
     (case OnRecvData r fd (Suc need) timeout rx of
        (n, d, rx') \<Rightarrow>
          if n < 0 then Ret None
          else recv_loop rounds fd timeout rx' (Suc need - length d) (acc @ d))"

text \<open>
  \<^verbatim>\<open>RecvData\<close>: the size of the block is computed in 32 bits, and the header is copied with the
  size of the header as the bound of the destination.
\<close>

definition RecvData ::
  "tcp_env \<Rightarrow> (int \<times> recv_rc) list \<Rightarrow> byte list \<Rightarrow> byte list \<Rightarrow> int \<Rightarrow> int \<Rightarrow> tcp_world \<Rightarrow> byte list option io" where
  "RecvData env rounds rx head fd len w =
     (if len > g_tcpMaxLen w then Ret None
      else
        let size = 24 + of_int len :: 32 word
        in if \<not> e_alloc env size then Ret None
           else if unat size < length head then MemFault
           else recv_loop rounds fd (g_tcpTimeOut w) rx (nat len) head)"

definition TcpOnDataEvent :: "tcp_env \<Rightarrow> int \<Rightarrow> int \<Rightarrow> tcp_world \<Rightarrow> (int \<times> tcp_world) io" where
  "TcpOnDataEvent env events fd w =
     (if \<not> g_tcpListener w \<or> events \<noteq> SOFTBUS_SOCKET_IN then Ret (SOFTBUS_ERR, w)
      else
        let cid = CalTcpConnectionId fd
        in case e_recv env of
             [] \<Rightarrow> Blocked
           | r # rounds \<Rightarrow>
               (case OnRecvData r fd 24 (g_tcpTimeOut w) (e_rx env) of
                  (bytes, hd_bytes, rx) \<Rightarrow>
                    if bytes \<le> 0 then
                      (let info = (if e_node env
                                   then Some \<lparr>isAvailable = False, isServer = False, ci_type = 0,
                                              ci_info = IpInfo [] 0 0\<rparr> else None)
                       in case DelTcpConnInfo (e_lock env) cid info (act (DelTrigger fd) w) of
                            ((ret, info'), w1) \<Rightarrow>
                              Ret (SOFTBUS_OK,
                                   if ret = SOFTBUS_OK then report (UpDisconnected cid info') w1 else w1))
                    else if bytes \<noteq> 24 then Ret (SOFTBUS_ERR, w)
                    else
                      let head = bytes_head hd_bytes; len = sint (h_len head)
                      in case RecvData env rounds rx hd_bytes fd len w of
                           MemFault \<Rightarrow> MemFault
                         | Blocked \<Rightarrow> Blocked
                         | Ret None \<Rightarrow>
                             Ret (SOFTBUS_ERR,
                                  snd (DelTcpConnInfo (e_lock env) cid None (act (DelTrigger fd) w)))
                         | Ret (Some data) \<Rightarrow>
                             Ret (SOFTBUS_OK,
                                  report (UpData cid (h_module head) (h_seq head) data (sint (24 + h_len head))) w)))"

text \<open>The loops of \<^verbatim>\<open>DelAllConnInfo\<close>: first the triggers, then the sockets and entries.\<close>

definition DelAllConnInfo :: "bool \<Rightarrow> tcp_world \<Rightarrow> tcp_world" where
  "DelAllConnInfo lock w =
     (case g_tcpConnInfoList w of
        None \<Rightarrow> w
      | Some l \<Rightarrow>
          if \<not> lock then w
          else
            let w1 = fold (\<lambda>n. act (DelTrigger (node_fd n))) (lst l) w;
                w2 = fold (\<lambda>n. shut_down (node_fd n)) (lst l) w1
            in w2\<lparr>g_tcpConnInfoList := Some (l\<lparr>cnt := cnt l - of_nat (length (lst l)), lst := []\<rparr>)\<rparr>)"

section \<open>The functions of the transport table\<close>

fun opt_ip :: "conn_target \<Rightarrow> string" where
  "opt_ip (IpOption ip _) = ip" | "opt_ip _ = []"

fun opt_port :: "conn_target \<Rightarrow> int" where
  "opt_port (IpOption _ port) = port" | "opt_port _ = 0"

definition TcpConnectDevice ::
  "tcp_env \<Rightarrow> ConnectOption option \<Rightarrow> 32 word \<Rightarrow> ConnectResult option \<Rightarrow> tcp_world \<Rightarrow> int \<times> tcp_world" where
  "TcpConnectDevice env option rid resultp w =
     (case resultp of
        None \<Rightarrow> (SOFTBUS_INVALID_PARAM, w)
      | Some result \<Rightarrow>
          (case (OnConnectFailed result, OnConnectSuccessed result) of
             (Some failed, Some successed) \<Rightarrow>
               (case option of
                  None \<Rightarrow> (SOFTBUS_INVALID_PARAM, report (UpConnectFailed failed rid SOFTBUS_INVALID_PARAM) w)
                | Some opt \<Rightarrow>
                    if co_type opt \<noteq> CONNECT_TCP then
                      (SOFTBUS_INVALID_PARAM, report (UpConnectFailed failed rid SOFTBUS_INVALID_PARAM) w)
                    else if \<not> e_node env then
                      (SOFTBUS_MALLOC_ERR, report (UpConnectFailed failed rid SOFTBUS_MALLOC_ERR) w)
                    else
                      let fd = e_open env in
                      if fd < 0 then
                        (SOFTBUS_TCPCONNECTION_SOCKET_ERR, report (UpConnectFailed failed rid SOFTBUS_ERR) w)
                      else
                        let w1 = act (AddTrigger fd) w in
                        if e_addTrigger env \<noteq> SOFTBUS_OK then
                          (SOFTBUS_ERR, report (UpConnectFailed failed rid SOFTBUS_ERR) (shut_down fd w1))
                        else
                          let ip = opt_ip (co_info opt);
                              node = \<lparr>connectionId = CalTcpConnectionId fd,
                                      t_info = \<lparr>isAvailable = True, isServer = False, ci_type = CONNECT_TCP,
                                                ci_info = IpInfo ip (opt_port (co_info opt)) fd\<rparr>\<rparr>;
                              (ret, w2) = (if strcpy_s IP_LEN ip = None then (SOFTBUS_ERR, w1)
                                           else AddTcpConnInfo (e_lock env) node w1)
                          in if ret \<noteq> SOFTBUS_OK then
                               (SOFTBUS_ERR, report (UpConnectFailed failed rid SOFTBUS_ERR)
                                  (shut_down fd (act (DelTrigger fd) w2)))
                             else (SOFTBUS_OK, report
                                (UpConnectSuccessed successed rid (connectionId node) (t_info node)) w2))
           | _ \<Rightarrow> (SOFTBUS_INVALID_PARAM, w)))"

definition TcpGetConnectionInfo ::
  "tcp_env \<Rightarrow> 32 word \<Rightarrow> ConnectionInfo option \<Rightarrow> tcp_world \<Rightarrow> int \<times> ConnectionInfo option" where
  "TcpGetConnectionInfo env cid info w =
     (case g_tcpConnInfoList w of
        None \<Rightarrow> (SOFTBUS_ERR, info)
      | Some l \<Rightarrow>
          (case info of
             None \<Rightarrow> (SOFTBUS_INVALID_PARAM, None)
           | Some i \<Rightarrow>
               if \<not> e_lock env then (SOFTBUS_LOCK_ERR, info)
               else (case find (\<lambda>n. connectionId n = cid) (lst l) of
                       Some item \<Rightarrow> (SOFTBUS_OK, Some (t_info item))
                     | None \<Rightarrow> (SOFTBUS_ERR, Some (i\<lparr>isAvailable := False\<rparr>)))))"

text \<open>The local variable \<^verbatim>\<open>info\<close> of the caller is not initialised; any value stands for it.\<close>

definition TcpDisconnectDevice ::
  "ConnectionInfo \<Rightarrow> tcp_env \<Rightarrow> 32 word \<Rightarrow> tcp_world \<Rightarrow> int \<times> tcp_world" where
  "TcpDisconnectDevice uninit env cid w =
     (case TcpGetConnectionInfo env cid (Some uninit) w of
        (ret, info) \<Rightarrow>
          if ret \<noteq> SOFTBUS_OK \<or> \<not> isAvailable (the info) then (SOFTBUS_ERR, w)
          else (case DelTcpConnInfo (e_lock env) cid None
                       (act (DelTrigger (addr_fd (ci_info (the info)))) w) of
                  ((ret', _), w') \<Rightarrow> (ret', w')))"

definition TcpDisconnectDeviceNow :: "tcp_env \<Rightarrow> ConnectOption \<Rightarrow> tcp_world \<Rightarrow> int \<times> tcp_world" where
  "TcpDisconnectDeviceNow env option w =
     (case g_tcpConnInfoList w of
        None \<Rightarrow> (SOFTBUS_ERR, w)
      | Some l \<Rightarrow>
          if \<not> e_lock env then (SOFTBUS_LOCK_ERR, w)
          else
            let P = (\<lambda>n. opt_ip (co_info option) = addr_ip (ci_info (t_info n)));
                gone = filter P (lst l);
                w1 = fold (\<lambda>n. act (DelTrigger (node_fd n))) gone w;
                w2 = fold (\<lambda>n. shut_down (node_fd n)) gone w1
            in (SOFTBUS_OK, w2\<lparr>g_tcpConnInfoList :=
                  Some (l\<lparr>cnt := cnt l - of_nat (length gone), lst := filter (\<lambda>n. \<not> P n) (lst l)\<rparr>)\<rparr>))"

definition TcpPostBytes ::
  "tcp_env \<Rightarrow> 32 word \<Rightarrow> byte list \<Rightarrow> int \<Rightarrow> int \<Rightarrow> 32 word \<Rightarrow> tcp_world \<Rightarrow> (int \<times> tcp_world) option" where
  "TcpPostBytes env cid data len pid flag w =
     (if len \<le> 0 then Some (SOFTBUS_INVALID_PARAM, w)
      else
        case g_tcpConnInfoList w of
          None \<Rightarrow> Some (SOFTBUS_ERR, act FreeData w)
        | Some l \<Rightarrow>
            if \<not> e_lock env then Some (SOFTBUS_LOCK_ERR, act FreeData w)
            else
              let fd = (case find (\<lambda>n. connectionId n = cid) (lst l) of
                          Some item \<Rightarrow> node_fd item | None \<Rightarrow> - 1)
              in if fd = - 1 then Some (SOFTBUS_ERR, act FreeData w)
                 else map_option
                   (\<lambda>bytes.
                      (if bytes \<noteq> len then SOFTBUS_TCPCONNECTION_SOCKET_ERR else SOFTBUS_OK,
                       act FreeData (act (SendTcp fd (take (nat bytes) data)) w)))
                   (SendTcpData (e_send env) fd (nat len)))"

definition TcpStartListening :: "tcp_env \<Rightarrow> LocalListenerInfo \<Rightarrow> tcp_world \<Rightarrow> int \<times> tcp_world" where
  "TcpStartListening env info w =
     (if li_type info \<noteq> CONNECT_TCP then (SOFTBUS_INVALID_PARAM, w)
      else if \<not> g_tcpListener w \<and> \<not> e_node env then (SOFTBUS_MALLOC_ERR, w)
      else
        let w1 = w\<lparr>g_tcpListener := True\<rparr> in
        if e_setListener env \<noteq> SOFTBUS_OK then (e_setListener env, w1)
        else case strcpy_s IP_LEN (li_ip info) of
               None \<Rightarrow> (SOFTBUS_MEM_ERR, w1)
             | Some ip \<Rightarrow>
                 (e_startListener env, act (StartListener ip (li_port info)) (w1\<lparr>g_localIp := ip\<rparr>)))"

definition TcpStopListening :: "tcp_env \<Rightarrow> LocalListenerInfo \<Rightarrow> tcp_world \<Rightarrow> int \<times> tcp_world" where
  "TcpStopListening env info w =
     (if \<not> g_tcpListener w then (SOFTBUS_INVALID_PARAM, w)
      else
        let w1 = act StopListener w in
        if e_stopListener env \<noteq> SOFTBUS_OK then (e_stopListener env, w1)
        else (SOFTBUS_OK, (act DestroyListener (DelAllConnInfo (e_lock env) w1))\<lparr>g_tcpListener := False\<rparr>))"

text \<open>The configuration: each value is \<^const>\<open>None\<close> when it cannot be read.\<close>

abbreviation (input) INVALID_DATA :: int where "INVALID_DATA \<equiv> - 1"

definition InitProperty :: "int option \<times> int option \<times> int option \<Rightarrow> tcp_world \<Rightarrow> int \<times> tcp_world" where
  "InitProperty conf w =
     (case conf of (maxNum, maxLen, timeOut) \<Rightarrow>
        let get = (\<lambda>v. case v of None \<Rightarrow> INVALID_DATA | Some x \<Rightarrow> x);
            w1 = w\<lparr>g_tcpMaxConnNum := get maxNum, g_tcpMaxLen := get maxLen, g_tcpTimeOut := get timeOut\<rparr>
        in if g_tcpMaxConnNum w1 = INVALID_DATA \<or> g_tcpTimeOut w1 = INVALID_DATA \<or>
              g_tcpMaxLen w1 = INVALID_DATA
           then (SOFTBUS_ERR, w1) else (SOFTBUS_OK, w1))"

definition tcp_interface :: "ConnectionInfo \<Rightarrow> (tcp_env, tcp_world) ConnectFuncInterface" where
  "tcp_interface uninit =
     \<lparr>ConnectDevice = Some (\<lambda>env opt rid res. TcpConnectDevice env (Some opt) rid res),
      PostBytes = Some TcpPostBytes,
      DisconnectDevice = Some (\<lambda>env cid w. Some (TcpDisconnectDevice uninit env cid w)),
      DisconnectDeviceNow = Some TcpDisconnectDeviceNow,
      GetConnectionInfo = Some TcpGetConnectionInfo,
      StartLocalListening = Some TcpStartListening,
      StopLocalListening = Some TcpStopListening\<rparr>"

text \<open>
  The initialisation: the allocations of the table, of the list (with its mutex) and of the
  listener, and whether a callback is given.
\<close>

definition ConnInitTcp ::
  "ConnectionInfo \<Rightarrow> bool \<times> bool \<times> bool \<times> bool \<Rightarrow> int option \<times> int option \<times> int option \<Rightarrow> bool
    \<Rightarrow> tcp_world \<Rightarrow> (tcp_env, tcp_world) ConnectFuncInterface option \<times> tcp_world" where
  "ConnInitTcp uninit allocs conf cb w =
     (case allocs of (table, list, mutex, listener) \<Rightarrow>
        if \<not> cb then (None, w)
        else case InitProperty conf w of
               (ret, w1) \<Rightarrow>
                 if ret \<noteq> SOFTBUS_OK then (None, w1)
                 else if \<not> table then (None, w1)
                 else
                   let newList = (case g_tcpConnInfoList w1 of
                                    Some l \<Rightarrow> Some l
                                  | None \<Rightarrow> CreateSoftBusList list mutex)
                   in case newList of
                        None \<Rightarrow> (None, w1)
                      | Some l \<Rightarrow>
                          if \<not> g_tcpListener w1 \<and> \<not> listener
                          then (None, w1\<lparr>g_tcpConnInfoList := None\<rparr>)
                          else (Some (tcp_interface uninit),
                                w1\<lparr>g_tcpConnInfoList := Some l, g_tcpListener := True\<rparr>))"

section \<open>The list is a registry\<close>

definition conns :: "tcp_world \<Rightarrow> TcpConnInfoNode list" where
  "conns w = (case g_tcpConnInfoList w of None \<Rightarrow> [] | Some l \<Rightarrow> lst l)"

definition closed :: "tcp_world \<Rightarrow> int list" where
  "closed w = concat (map (\<lambda>a. case a of TcpShutDown fd \<Rightarrow> [fd] | _ \<Rightarrow> []) (acts w))"

lemma act_simps [simp]:
  "g_tcpConnInfoList (act a w) = g_tcpConnInfoList w" "g_tcpMaxConnNum (act a w) = g_tcpMaxConnNum w"
  "g_tcpListener (act a w) = g_tcpListener w" "conns (act a w) = conns w" "ups (act a w) = ups w"
  "acts (act a w) = acts w @ [a]"
  "closed (act a w) = closed w @ (case a of TcpShutDown fd \<Rightarrow> [fd] | _ \<Rightarrow> [])"
  by (simp_all add: act_def conns_def closed_def)

lemma report_simps [simp]:
  "g_tcpConnInfoList (report u w) = g_tcpConnInfoList w" "g_tcpMaxConnNum (report u w) = g_tcpMaxConnNum w"
  "g_tcpListener (report u w) = g_tcpListener w" "conns (report u w) = conns w"
  "closed (report u w) = closed w" "acts (report u w) = acts w" "ups (report u w) = ups w @ [u]"
  by (simp_all add: report_def conns_def closed_def)

lemma shut_down_simps [simp]:
  "g_tcpConnInfoList (shut_down fd w) = g_tcpConnInfoList w"
  "g_tcpMaxConnNum (shut_down fd w) = g_tcpMaxConnNum w"
  "g_tcpListener (shut_down fd w) = g_tcpListener w" "conns (shut_down fd w) = conns w"
  "ups (shut_down fd w) = ups w"
  "closed (shut_down fd w) = closed w @ (if fd \<ge> 0 then [fd] else [])"
  by (simp_all add: shut_down_def)

lemma fold_act_simps:
  "g_tcpMaxConnNum (fold (\<lambda>n. act (DelTrigger (f n))) ns w) = g_tcpMaxConnNum w"
  "g_tcpListener (fold (\<lambda>n. act (DelTrigger (f n))) ns w) = g_tcpListener w"
  "closed (fold (\<lambda>n. act (DelTrigger (f n))) ns w) = closed w"
  by (induction ns arbitrary: w) simp_all

lemma fold_shut_simps:
  "g_tcpMaxConnNum (fold (\<lambda>n. shut_down (f n)) ns w) = g_tcpMaxConnNum w"
  "g_tcpListener (fold (\<lambda>n. shut_down (f n)) ns w) = g_tcpListener w"
  "\<forall>n \<in> set ns. f n \<ge> 0 \<Longrightarrow> closed (fold (\<lambda>n. shut_down (f n)) ns w) = closed w @ map f ns"
  by (induction ns arbitrary: w) simp_all

interpretation tcp_reg: keyed_registry conns connectionId "\<lambda>e w. e"
    AddTcpConnInfo "\<lambda>e cid w. snd (DelTcpConnInfo e cid None w)"
proof
  fix e cid w
  show "e \<Longrightarrow> conns (snd (DelTcpConnInfo e cid None w)) = del_first (\<lambda>y. connectionId y = cid) (conns w)"
    by (auto simp: DelTcpConnInfo_def conns_def find_None_iff del_first_none split: option.splits)
qed (auto simp: AddTcpConnInfo_def DelTcpConnInfo_def conns_def find_None_iff split: option.splits if_splits)

section \<open>Invariant\<close>

text \<open>
  Every listed connection carries an open descriptor, the identifier computed from it and its
  address; identifiers are unique, and there are at most as many as configured.
\<close>

definition node_good :: "TcpConnInfoNode \<Rightarrow> bool" where
  "node_good n \<longleftrightarrow> node_fd n \<ge> 0 \<and> connectionId n = CalTcpConnectionId (node_fd n) \<and>
     length (addr_ip (ci_info (t_info n))) < IP_LEN \<and> isAvailable (t_info n) \<and> ci_type (t_info n) = CONNECT_TCP"

definition tcp_inv :: "tcp_world \<Rightarrow> bool" where
  "tcp_inv w \<longleftrightarrow> (case g_tcpConnInfoList w of None \<Rightarrow> True | Some l \<Rightarrow> wf_sl l) \<and>
     distinct (map connectionId (conns w)) \<and> (\<forall>n \<in> set (conns w). node_good n) \<and>
     int (length (conns w)) \<le> max 0 (g_tcpMaxConnNum w) \<and> g_tcpMaxConnNum w < 2 ^ 31"

lemma tcp_invI:
  assumes "\<And>l. g_tcpConnInfoList w = Some l \<Longrightarrow> wf_sl l" "distinct (map connectionId (conns w))"
    "\<And>n. n \<in> set (conns w) \<Longrightarrow> node_good n" "int (length (conns w)) \<le> max 0 (g_tcpMaxConnNum w)"
    "g_tcpMaxConnNum w < 2 ^ 31"
  shows "tcp_inv w"
  using assms by (simp add: tcp_inv_def split: option.splits)

lemma tcp_inv_same:
  "tcp_inv w \<Longrightarrow> g_tcpConnInfoList w' = g_tcpConnInfoList w \<Longrightarrow> g_tcpMaxConnNum w' = g_tcpMaxConnNum w
   \<Longrightarrow> tcp_inv w'"
  by (simp add: tcp_inv_def conns_def)

lemma tcp_inv_simps [simp]:
  "tcp_inv (act a w) = tcp_inv w" "tcp_inv (report u w) = tcp_inv w" "tcp_inv (shut_down fd w) = tcp_inv w"
  by (simp_all add: tcp_inv_def)

text \<open>The descriptors that left the list are the closed ones.\<close>

abbreviation fds :: "TcpConnInfoNode list \<Rightarrow> int multiset" where
  "fds ns \<equiv> image_mset node_fd (mset ns)"

definition balance :: "tcp_world \<Rightarrow> int multiset" where
  "balance w = mset (closed w) + fds (conns w)"

lemma balance_simps [simp]:
  "balance (report u w) = balance w" "balance (act (AddTrigger fd) w) = balance w"
  "balance (act (DelTrigger fd) w) = balance w" "balance (act FreeData w) = balance w"
  "balance (act (SendTcp fd d) w) = balance w" "balance (act StopListener w) = balance w"
  "balance (act DestroyListener w) = balance w" "balance (act (StartListener ip p) w) = balance w"
  "fd \<ge> 0 \<Longrightarrow> balance (shut_down fd w) = add_mset fd (balance w)"
  by (simp_all add: balance_def)

lemma AddTcpConnInfo_inv:
  assumes "tcp_inv w" "node_good n" "AddTcpConnInfo e n w = (ret, w')"
  shows "tcp_inv w' \<and> g_tcpMaxConnNum w' = g_tcpMaxConnNum w \<and> g_tcpListener w' = g_tcpListener w \<and> ups w' = ups w \<and>
    balance w' = (if ret = SOFTBUS_OK then add_mset (node_fd n) (balance w) else balance w) \<and>
    (ret = SOFTBUS_OK \<longrightarrow> conns w' = n # conns w) \<and> (ret \<noteq> SOFTBUS_OK \<longrightarrow> w' = w)"
proof (cases "ret = SOFTBUS_OK")
  case False
  with assms(3) have "w' = w" by (auto simp: AddTcpConnInfo_def split: option.splits if_splits)
  with False assms(1) show ?thesis by simp
next
  case True
  then obtain l where l: "g_tcpConnInfoList w = Some l" "sint (cnt l) < g_tcpMaxConnNum w"
    "w' = w\<lparr>g_tcpConnInfoList := Some (sl_add n l)\<rparr>"
    using assms(3) by (auto simp: AddTcpConnInfo_def not_le split: option.splits if_splits)
  have c: "conns w' = n # conns w" using l by (simp add: conns_def)
  have wf: "wf_sl l" and max: "g_tcpMaxConnNum w < 2 ^ 31"
    "int (length (conns w)) \<le> max 0 (g_tcpMaxConnNum w)"
    using assms(1) l(1) by (simp_all add: tcp_inv_def)
  have "length (conns w) < 2 ^ 31" using max by (simp add: max_def split: if_splits)
  then have "sint (cnt l) = int (length (conns w))"
    using wf l(1) sint_of_small_nat [of "length (conns w)"] by (simp add: wf_sl_def conns_def)
  then have room: "int (length (conns w')) \<le> max 0 (g_tcpMaxConnNum w')" using l(2,3) c by simp
  have "distinct (map connectionId (conns w'))"
    using tcp_reg.unique_add [of w e n] assms by (simp add: tcp_inv_def)
  moreover have "\<forall>n \<in> set (conns w'). node_good n" using assms(1,2) c by (simp add: tcp_inv_def)
  ultimately have "tcp_inv w'" using wf max(1) room l(3) by (simp add: tcp_inv_def)
  with True c l(3) show ?thesis by (simp add: balance_def closed_def)
qed

lemma DelTcpConnInfo_inv:
  assumes "tcp_inv w" "DelTcpConnInfo e cid info w = (r, w')"
  shows "tcp_inv w' \<and> balance w' = balance w \<and> g_tcpListener w' = g_tcpListener w \<and> ups w' = ups w"
proof (cases "\<exists>l n. g_tcpConnInfoList w = Some l \<and> e \<and> find (\<lambda>n. connectionId n = cid) (lst l) = Some n")
  case False
  then have "w' = w" using assms(2) by (auto simp: DelTcpConnInfo_def split: option.splits if_splits)
  with assms(1) show ?thesis by simp
next
  case True
  then obtain l n where l: "g_tcpConnInfoList w = Some l" "e"
    "find (\<lambda>n. connectionId n = cid) (lst l) = Some n" by blast
  then have w': "w' = (shut_down (node_fd n) w)
      \<lparr>g_tcpConnInfoList := Some (sl_del_first (\<lambda>n. connectionId n = cid) l)\<rparr>"
    using assms(2) by (simp add: DelTcpConnInfo_def)
  have c: "conns w' = del_first (\<lambda>n. connectionId n = cid) (conns w)" "conns w = lst l"
    using l(1) by (simp_all add: conns_def w')
  have good: "node_good n" using find_SomeD [OF l(3)] assms(1) c(2) by (simp add: tcp_inv_def)
  have ms: "mset (conns w) = add_mset n (mset (conns w'))"
    using mset_del_first [OF l(3)] c by simp
  have "tcp_inv w'"
  proof (rule tcp_invI)
    show "wf_sl l'" if "g_tcpConnInfoList w' = Some l'" for l'
      using that assms(1) l(1) by (auto simp: w' tcp_inv_def)
    show "distinct (map connectionId (conns w'))"
      using assms(1) c(1) by (simp add: tcp_inv_def distinct_map_del_first)
    show "node_good x" if "x \<in> set (conns w')" for x
      using that assms(1) c(1) by (auto simp: tcp_inv_def dest: in_del_firstD)
    show "int (length (conns w')) \<le> max 0 (g_tcpMaxConnNum w')"
      using assms(1) mset_eq_length [OF ms [folded mset.simps(2)]] by (simp add: tcp_inv_def w' conns_def)
    show "g_tcpMaxConnNum w' < 2 ^ 31" using assms(1) by (simp add: tcp_inv_def w')
  qed
  moreover have "closed w' = closed w @ [node_fd n]"
    using good by (simp add: w' closed_def shut_down_def act_def node_good_def)
  ultimately show ?thesis using ms by (simp add: balance_def w')
qed

section \<open>Every operation keeps the balance of descriptors\<close>

text \<open>The operations, and the descriptor an operation takes over from the system.\<close>

datatype tcp_op =
    TAccept int int "string option"
  | TData int int
  | TConnect "ConnectOption option" "32 word" "ConnectResult option"
  | TDisconnect "32 word"
  | TDisconnectNow ConnectOption
  | TPost "32 word" "byte list" int int "32 word"
  | TStart LocalListenerInfo
  | TStop LocalListenerInfo

definition result_ok :: "ConnectResult option \<Rightarrow> bool" where
  "result_ok r \<longleftrightarrow> (case r of None \<Rightarrow> False
     | Some r \<Rightarrow> OnConnectFailed r \<noteq> None \<and> OnConnectSuccessed r \<noteq> None)"

fun taken :: "tcp_env \<Rightarrow> tcp_op \<Rightarrow> tcp_world \<Rightarrow> int list" where
  "taken env (TAccept events cfd ip) w =
     (if events \<noteq> SOFTBUS_SOCKET_EXCEPTION \<and> cfd \<ge> 0 \<and> ip \<noteq> None \<and> g_tcpListener w \<and> e_node env
      then [cfd] else [])"
| "taken env (TConnect opt rid res) w =
     (if result_ok res \<and> opt \<noteq> None \<and> co_type (the opt) = CONNECT_TCP \<and> e_node env \<and> e_open env \<ge> 0
      then [e_open env] else [])"
| "taken env _ w = []"

fun tcp_step :: "ConnectionInfo \<Rightarrow> tcp_env \<Rightarrow> tcp_op \<Rightarrow> tcp_world \<Rightarrow> (int \<times> tcp_world) io" where
  "tcp_step u env (TAccept events cfd ip) w = Ret (TcpOnConnectEvent env events cfd ip w)"
| "tcp_step u env (TData events fd) w = TcpOnDataEvent env events fd w"
| "tcp_step u env (TConnect opt rid res) w = Ret (TcpConnectDevice env opt rid res w)"
| "tcp_step u env (TDisconnect cid) w = Ret (TcpDisconnectDevice u env cid w)"
| "tcp_step u env (TDisconnectNow opt) w = Ret (TcpDisconnectDeviceNow env opt w)"
| "tcp_step u env (TPost cid d len pid flag) w =
     (case TcpPostBytes env cid d len pid flag w of None \<Rightarrow> Blocked | Some r \<Rightarrow> Ret r)"
| "tcp_step u env (TStart info) w = Ret (TcpStartListening env info w)"
| "tcp_step u env (TStop info) w = Ret (TcpStopListening env info w)"

fun tcp_run ::
  "ConnectionInfo \<Rightarrow> (tcp_env \<times> tcp_op) list \<Rightarrow> tcp_world \<times> int list \<Rightarrow> (tcp_world \<times> int list) io" where
  "tcp_run u [] s = Ret s"
| "tcp_run u ((env, op) # ops) (w, ts) =
     (case tcp_step u env op w of
        Ret (_, w') \<Rightarrow> tcp_run u ops (w', taken env op w @ ts)
      | Blocked \<Rightarrow> Blocked
      | MemFault \<Rightarrow> MemFault)"

lemma accept_fail_inv:
  assumes "tcp_inv w" "0 \<le> cfd"
  shows "tcp_inv (snd (accept_fail cfd w)) \<and> balance (snd (accept_fail cfd w)) = add_mset cfd (balance w)"
  using assms by (simp add: accept_fail_def)

lemma TcpOnConnectEvent_inv:
  assumes "tcp_inv w"
  shows "tcp_inv (snd (TcpOnConnectEvent env events cfd ip w)) \<and>
    balance (snd (TcpOnConnectEvent env events cfd ip w)) = mset (taken env (TAccept events cfd ip) w) + balance w"
proof (cases "taken env (TAccept events cfd ip) w = []")
  case True
  then have "snd (TcpOnConnectEvent env events cfd ip w) = w"
    by (auto simp: TcpOnConnectEvent_def split: if_splits)
  with True assms show ?thesis by simp
next
  case False
  then have t: "taken env (TAccept events cfd ip) w = [cfd]" "events \<noteq> SOFTBUS_SOCKET_EXCEPTION" "0 \<le> cfd"
    "g_tcpListener w" "e_node env" and "ip \<noteq> None" by (auto split: if_splits)
  then obtain i where i: "ip = Some i" by blast
  let ?n = "\<lparr>connectionId = CalTcpConnectionId cfd,
      t_info = \<lparr>isAvailable = True, isServer = True, ci_type = CONNECT_TCP, ci_info = IpInfo i (e_port env) cfd\<rparr>\<rparr>"
  let ?w1 = "act (AddTrigger cfd) w"
  have inv1: "tcp_inv ?w1" using assms by simp
  obtain ret w2 where add: "AddTcpConnInfo (e_lock env) ?n ?w1 = (ret, w2)" by (cases "AddTcpConnInfo (e_lock env) ?n ?w1")
  show ?thesis
  proof (cases "length i < IP_LEN \<and> e_addTrigger env = SOFTBUS_OK")
    case True
    then have "node_good ?n" using t(3) by (simp add: node_good_def)
    from AddTcpConnInfo_inv [OF inv1 this add] accept_fail_inv [of w2 cfd] t(3)
    show ?thesis using True t i add
      by (auto simp: TcpOnConnectEvent_def strcpy_s_def Let_def)
  next
    case False
    then show ?thesis using t i assms accept_fail_inv [of w cfd] accept_fail_inv [OF inv1 t(3)]
      by (auto simp: TcpOnConnectEvent_def strcpy_s_def Let_def)
  qed
qed

lemma TcpConnectDevice_cases:
  assumes "tcp_inv w" "TcpConnectDevice env opt rid res w = (ret, w')"
  shows "tcp_inv w' \<and> balance w' = mset (taken env (TConnect opt rid res) w) + balance w \<and>
    (if result_ok res then
       (if ret = SOFTBUS_OK
        then \<exists>n. conns w' = n # conns w \<and> node_fd n = e_open env \<and> isServer (t_info n) = False \<and>
          ups w' = ups w @ [UpConnectSuccessed (the (OnConnectSuccessed (the res))) rid (connectionId n) (t_info n)]
        else conns w' = conns w \<and>
          (\<exists>reason. ups w' = ups w @ [UpConnectFailed (the (OnConnectFailed (the res))) rid reason]))
     else ret \<noteq> SOFTBUS_OK \<and> w' = w)"
proof (cases "result_ok res")
  case False
  then show ?thesis using assms by (auto simp: result_ok_def TcpConnectDevice_def split: option.splits)
next
  case res: True
  then obtain r fa su where r: "res = Some r" "OnConnectFailed r = Some fa" "OnConnectSuccessed r = Some su"
    by (auto simp: result_ok_def split: option.splits)
  show ?thesis
  proof (cases "taken env (TConnect opt rid res) w = []")
    case True
    then show ?thesis using assms r
      by (auto simp: TcpConnectDevice_def result_ok_def Let_def split: option.splits if_splits)
  next
    case False
    then obtain o' where t: "taken env (TConnect opt rid res) w = [e_open env]" "opt = Some o'"
      "co_type o' = CONNECT_TCP" "e_node env" "0 \<le> e_open env" by (auto split: if_splits)
    let ?fd = "e_open env" and ?ip = "opt_ip (co_info o')"
    let ?n = "\<lparr>connectionId = CalTcpConnectionId ?fd,
      t_info = \<lparr>isAvailable = True, isServer = False, ci_type = CONNECT_TCP,
                ci_info = IpInfo ?ip (opt_port (co_info o')) ?fd\<rparr>\<rparr>"
    let ?w1 = "act (AddTrigger ?fd) w"
    have inv1: "tcp_inv ?w1" using assms by simp
    obtain c w2 where add: "AddTcpConnInfo (e_lock env) ?n ?w1 = (c, w2)"
      by (cases "AddTcpConnInfo (e_lock env) ?n ?w1")
    show ?thesis
    proof (cases "length ?ip < IP_LEN \<and> e_addTrigger env = SOFTBUS_OK")
      case True
      then have "node_good ?n" using t(5) by (simp add: node_good_def)
      note a = AddTcpConnInfo_inv [OF inv1 this add]
      show ?thesis
        using True t r res assms(2) add a
        by (cases "c = SOFTBUS_OK") (auto simp: TcpConnectDevice_def strcpy_s_def Let_def)
    next
      case False
      then show ?thesis using t r res assms
        by (cases "e_addTrigger env = SOFTBUS_OK")
          (auto simp: TcpConnectDevice_def strcpy_s_def Let_def)
    qed
  qed
qed

lemma TcpOnDataEvent_inv:
  assumes inv: "tcp_inv w" and ev: "TcpOnDataEvent env events fd w = Ret (ret, w')"
  shows "tcp_inv w' \<and> balance w' = balance w"
proof -
  have inv1: "tcp_inv (act (DelTrigger fd) w)" using inv by simp
  have del: "tcp_inv w2 \<and> balance w2 = balance w"
    if "DelTcpConnInfo (e_lock env) (CalTcpConnectionId fd) i (act (DelTrigger fd) w) = (r, w2)" for i r w2
    using DelTcpConnInfo_inv [OF inv1 that] by simp
  have dels: "tcp_inv (snd (DelTcpConnInfo (e_lock env) (CalTcpConnectionId fd) i (act (DelTrigger fd) w)))"
    "balance (snd (DelTcpConnInfo (e_lock env) (CalTcpConnectionId fd) i (act (DelTrigger fd) w))) = balance w"
    for i using del [of i "fst (DelTcpConnInfo (e_lock env) (CalTcpConnectionId fd) i (act (DelTrigger fd) w))"] by simp_all
  show ?thesis
    using ev inv dels del
    by (auto simp: TcpOnDataEvent_def Let_def split: if_splits list.splits prod.splits io.splits option.splits)
qed

lemma TcpDisconnectDevice_inv:
  assumes "tcp_inv w" "TcpDisconnectDevice u env cid w = (ret, w')"
  shows "tcp_inv w' \<and> balance w' = balance w"
proof (cases "w' = w")
  case False
  then obtain r fd where "DelTcpConnInfo (e_lock env) cid None (act (DelTrigger fd) w) = (r, w')"
    using assms(2) by (auto simp: TcpDisconnectDevice_def split: prod.splits if_splits)
  with DelTcpConnInfo_inv [of "act (DelTrigger fd) w"] assms(1) show ?thesis by simp
qed (use assms(1) in simp)

lemma mset_filter_split: "mset (filter P xs) + mset (filter (\<lambda>x. \<not> P x) xs) = mset xs"
  by (induction xs) auto

lemma distinct_map_filter: "distinct (map f xs) \<Longrightarrow> distinct (map f (filter P xs))"
  by (induction xs) auto

lemma remove_conns_inv:
  fixes P :: "TcpConnInfoNode \<Rightarrow> bool"
  assumes inv: "tcp_inv w" and l: "g_tcpConnInfoList w = Some l"
  defines "gone \<equiv> filter P (lst l)"
  defines "w2 \<equiv> fold (\<lambda>n. shut_down (node_fd n)) gone (fold (\<lambda>n. act (DelTrigger (node_fd n))) gone w)"
  defines "w' \<equiv> w2\<lparr>g_tcpConnInfoList :=
      Some (l\<lparr>cnt := cnt l - of_nat (length gone), lst := filter (\<lambda>n. \<not> P n) (lst l)\<rparr>)\<rparr>"
  shows "tcp_inv w' \<and> balance w' = balance w \<and> g_tcpListener w' = g_tcpListener w"
proof -
  have c: "conns w = lst l" "conns w' = filter (\<lambda>n. \<not> P n) (lst l)"
    using l by (simp_all add: conns_def w'_def)
  have good: "\<forall>n \<in> set gone. node_fd n \<ge> 0"
    using inv by (auto simp: gone_def tcp_inv_def c node_good_def)
  have len: "length (lst l) = length gone + length (conns w')"
    using sum_length_filter_compl [of P "lst l"] by (simp add: gone_def c)
  have wf: "wf_sl (l\<lparr>cnt := cnt l - of_nat (length gone), lst := filter (\<lambda>n. \<not> P n) (lst l)\<rparr>)"
    using inv l len by (simp add: tcp_inv_def wf_sl_def c(2))
  have "tcp_inv w'"
  proof (rule tcp_invI)
    show "wf_sl l'" if "g_tcpConnInfoList w' = Some l'" for l'
      using that wf by (auto simp: w'_def)
    show "distinct (map connectionId (conns w'))"
      using inv by (simp add: tcp_inv_def c distinct_map_filter)
    show "node_good x" if "x \<in> set (conns w')" for x using that inv by (simp add: tcp_inv_def c)
    show "int (length (conns w')) \<le> max 0 (g_tcpMaxConnNum w')" "g_tcpMaxConnNum w' < 2 ^ 31"
      using inv len by (simp_all add: tcp_inv_def c w'_def w2_def fold_act_simps fold_shut_simps)
  qed
  moreover have "closed w' = closed w @ map node_fd gone"
    using good fold_shut_simps(3) [of gone node_fd "fold (\<lambda>n. act (DelTrigger (node_fd n))) gone w"]
    by (simp add: w'_def w2_def closed_def fold_act_simps [unfolded closed_def])
  moreover have "mset (lst l) = mset gone + mset (conns w')"
    using mset_filter_split [of P "lst l"] by (simp add: gone_def c)
  ultimately show ?thesis
    by (simp add: balance_def c(1)) (simp add: w'_def w2_def fold_act_simps fold_shut_simps)
qed

lemma TcpDisconnectDeviceNow_inv:
  assumes "tcp_inv w" "TcpDisconnectDeviceNow env opt w = (ret, w')"
  shows "tcp_inv w' \<and> balance w' = balance w"
  using assms remove_conns_inv [OF assms(1), of _ "\<lambda>n. opt_ip (co_info opt) = addr_ip (ci_info (t_info n))"]
  by (auto simp: TcpDisconnectDeviceNow_def Let_def split: option.splits if_splits)

lemma DelAllConnInfo_inv:
  assumes "tcp_inv w"
  shows "tcp_inv (DelAllConnInfo lock w) \<and> balance (DelAllConnInfo lock w) = balance w"
  using assms remove_conns_inv [OF assms, of _ "\<lambda>_. True"]
  by (auto simp: DelAllConnInfo_def Let_def split: option.splits if_splits)

lemma TcpPostBytes_inv:
  assumes "tcp_inv w" "TcpPostBytes env cid d len pid flag w = Some (ret, w')"
  shows "tcp_inv w' \<and> balance w' = balance w"
  using assms by (auto simp: TcpPostBytes_def Let_def split: option.splits if_splits)

lemma tcp_inv_fields [simp]:
  "tcp_inv (w\<lparr>g_tcpListener := b\<rparr>) = tcp_inv w" "tcp_inv (w\<lparr>g_localIp := ip\<rparr>) = tcp_inv w"
  "balance (w\<lparr>g_tcpListener := b\<rparr>) = balance w" "balance (w\<lparr>g_localIp := ip\<rparr>) = balance w"
  by (simp_all add: tcp_inv_def conns_def balance_def closed_def)

lemma tcp_step_inv:
  assumes "tcp_inv w" "tcp_step u env op w = Ret (ret, w')"
  shows "tcp_inv w' \<and> balance w' = mset (taken env op w) + balance w"
proof (cases op)
  case (TAccept events cfd ip)
  then show ?thesis using TcpOnConnectEvent_inv [OF assms(1), of env events cfd ip] assms(2) by simp
next
  case (TData events fd)
  then show ?thesis using TcpOnDataEvent_inv [OF assms(1)] assms(2) by simp
next
  case (TConnect opt rid res)
  then show ?thesis using TcpConnectDevice_cases [OF assms(1)] assms(2) by simp
next
  case (TDisconnect cid)
  then show ?thesis using TcpDisconnectDevice_inv [OF assms(1)] assms(2) by simp
next
  case (TDisconnectNow opt)
  then show ?thesis using TcpDisconnectDeviceNow_inv [OF assms(1)] assms(2) by simp
next
  case (TPost cid d len pid flag)
  then show ?thesis using TcpPostBytes_inv [OF assms(1)] assms(2) by (simp split: option.splits)
next
  case (TStart info)
  then show ?thesis using assms by (auto simp: TcpStartListening_def Let_def split: if_splits option.splits)
next
  case (TStop info)
  have "tcp_inv (act StopListener w)" using assms(1) by simp
  from DelAllConnInfo_inv [OF this, of "e_lock env"] TStop show ?thesis
    using assms by (auto simp: TcpStopListening_def Let_def split: if_splits)
qed

lemma tcp_run_inv:
  "tcp_inv w \<Longrightarrow> balance w = mset ts \<Longrightarrow> tcp_run u ops (w, ts) = Ret (w', ts')
   \<Longrightarrow> tcp_inv w' \<and> balance w' = mset ts'"
proof (induction ops arbitrary: w ts)
  case (Cons eo ops)
  obtain env op where eo: "eo = (env, op)" by (cases eo)
  from Cons.prems(3) obtain ret w1 where st: "tcp_step u env op w = Ret (ret, w1)"
    and rest: "tcp_run u ops (w1, taken env op w @ ts) = Ret (w', ts')"
    by (auto simp: eo split: io.splits)
  from tcp_step_inv [OF Cons.prems(1) st] Cons.prems(2) Cons.IH [OF _ _ rest] show ?case by simp
qed simp

lemma ConnInitTcp_inv:
  assumes "ConnInitTcp u allocs conf True w0 = (Some ifc, w)" "g_tcpConnInfoList w0 = None" "acts w0 = []"
    and "\<forall>n. fst conf = Some n \<longrightarrow> n < 2 ^ 31"
  shows "tcp_inv w \<and> balance w = {#} \<and> g_tcpListener w"
proof -
  obtain maxNum maxLen timeOut where conf: "conf = (maxNum, maxLen, timeOut)" by (cases conf)
  obtain l where "CreateSoftBusList (fst (snd allocs)) (fst (snd (snd allocs))) = Some l"
    and w: "w = (snd (InitProperty conf w0))\<lparr>g_tcpConnInfoList := Some l, g_tcpListener := True\<rparr>"
    using assms(1,2)
    by (auto simp: ConnInitTcp_def InitProperty_def conf Let_def split: prod.splits if_splits option.splits)
  moreover have "acts w = []" "g_tcpMaxConnNum w < 2 ^ 31"
    using assms(3,4) by (auto simp: w InitProperty_def conf Let_def split: option.splits)
  ultimately show ?thesis
    using wf_sl_create [of "fst (snd allocs)" "fst (snd (snd allocs))" l]
    by (auto simp: tcp_inv_def conns_def balance_def closed_def)
qed

section \<open>Properties of the transport\<close>


text \<open>A run: a connection is accepted, a second one with the same identifier is refused, the first ends.\<close>

definition demo_info :: ConnectionInfo where
  "demo_info = \<lparr>isAvailable = False, isServer = False, ci_type = 0, ci_info = IpInfo [] 0 0\<rparr>"

definition demo_world :: tcp_world where
  "demo_world = \<lparr>g_tcpMaxConnNum = 0, g_tcpTimeOut = 0, g_tcpMaxLen = 0, g_localIp = [],
     g_tcpConnInfoList = None, g_tcpListener = False, acts = [], ups = []\<rparr>"

definition demo_env :: "(int \<times> recv_rc) list \<Rightarrow> byte list \<Rightarrow> tcp_env" where
  "demo_env rounds rx = \<lparr>e_lock = True, e_node = True, e_alloc = (\<lambda>_. True), e_addTrigger = 0,
     e_setListener = 0, e_startListener = 0, e_stopListener = 0, e_port = 0, e_open = 5,
     e_send = (1, []), e_recv = rounds, e_rx = rx\<rparr>"

definition demo_ops :: "(tcp_env \<times> tcp_op) list" where
  "demo_ops = [(demo_env [] [], TAccept 0 7 (Some ''10.0.0.1'')),
     (demo_env [] [], TAccept 0 65543 (Some ''10.0.0.2'')),
     (demo_env [] [], TAccept 0 8 (Some ''10.0.0.3'')),
     (demo_env [(1, RecvClosed)] [], TData 1 7)]"

lemma demo_run:
  "\<exists>w w'. ConnInitTcp demo_info (True, True, True, True) (Some 30, Some 3072, Some 100) True demo_world
      = (Some (tcp_interface demo_info), w) \<and>
    tcp_run demo_info demo_ops (w, []) = Ret (w', [8, 65543, 7]) \<and> closed w' = [65543, 7]"
  by (simp add: ConnInitTcp_def InitProperty_def Let_def demo_world_def CreateSoftBusList_def demo_ops_def
      demo_env_def TcpOnConnectEvent_def strcpy_s_def AddTcpConnInfo_def act_def report_def sl_add_def
      CalTcpConnectionId_def accept_fail_def shut_down_def TcpOnDataEvent_def OnRecvData_def
      DelTcpConnInfo_def sl_del_first_def closed_def)


text \<open>C33: A connection request with two result functions calls exactly one of them, once, and
  returns success exactly when it called the one for success: then the new connection is listed
  first with its descriptor, and otherwise the list is unchanged and a descriptor that was opened
  has been shut down.\<close>

theorem TcpConnectDevice_reports_once:
  assumes "tcp_inv w" "result_ok res"
  shows "case TcpConnectDevice env opt rid res w of (ret, w') \<Rightarrow>
    (if ret = SOFTBUS_OK
     then \<exists>n. conns w' = n # conns w \<and> node_fd n = e_open env \<and> closed w' = closed w \<and>
       ups w' = ups w @ [UpConnectSuccessed (the (OnConnectSuccessed (the res))) rid (connectionId n) (t_info n)]
     else conns w' = conns w \<and> mset (closed w') = mset (closed w) + mset (taken env (TConnect opt rid res) w) \<and>
       (\<exists>reason. ups w' = ups w @ [UpConnectFailed (the (OnConnectFailed (the res))) rid reason]))"
proof -
  obtain ret w' where c: "TcpConnectDevice env opt rid res w = (ret, w')"
    by (cases "TcpConnectDevice env opt rid res w")
  note k = TcpConnectDevice_cases [OF assms(1) c]
  show ?thesis
  proof (cases "ret = SOFTBUS_OK")
    case True
    then have "taken env (TConnect opt rid res) w = [e_open env] \<and> closed w' = closed w"
      using c assms(2)
      by (auto simp: TcpConnectDevice_def result_ok_def AddTcpConnInfo_def Let_def closed_def act_def report_def
          split: option.splits if_splits)
    with k c True assms(2) show ?thesis by auto
  next
    case False
    with k c assms(2) show ?thesis by (auto simp: balance_def)
  qed
qed

theorem TcpConnectDevice_reports_once_witness:
  "ups (snd (TcpConnectDevice (demo_env [] []) (Some \<lparr>co_type = 1, co_info = IpOption ''10.0.0.9'' 80\<rparr>) 3
      (Some \<lparr>OnConnectSuccessed = Some 1, OnConnectFailed = Some 2\<rparr>) demo_world))
    = [UpConnectFailed 2 3 SOFTBUS_ERR]"
  using TcpConnectDevice_reports_once [of demo_world "Some \<lparr>OnConnectSuccessed = Some 1, OnConnectFailed = Some 2\<rparr>"
      "demo_env [] []" 3 "Some \<lparr>co_type = 1, co_info = IpOption ''10.0.0.9'' 80\<rparr>"]
  by (simp add: tcp_inv_def conns_def demo_world_def demo_env_def result_ok_def TcpConnectDevice_def
      AddTcpConnInfo_def strcpy_s_def Let_def act_def report_def shut_down_def)

lemma head_bytes_nonempty [simp]: "head_bytes h \<noteq> []"
  using length_head_bytes [of h] by (metis list.size(3) zero_neq_numeral)

lemma OnRecvData_header:
  "0 \<le> fd \<Longrightarrow> 24 \<le> n \<Longrightarrow> 0 \<le> wt \<Longrightarrow>
   OnRecvData (wt, RecvAvail n) fd 24 timeout (head_bytes h @ rest) = (24, head_bytes h, rest)"
  by (simp add: OnRecvData_def Let_def min_def)

text \<open>C34: The length in a received header is not checked against zero. A header whose length is
  between -23 and -1 makes the transport allocate less than a header and copy the 24 bytes of the
  header, which the peer chose, over the end of the block.\<close>

theorem RecvData_negative_length_overflow:
  assumes "g_tcpListener w" "0 \<le> fd" "e_recv env = (wt, RecvAvail n) # rounds" "24 \<le> n" "0 \<le> wt"
    and "e_rx env = head_bytes h @ rest" "- 23 \<le> sint (h_len h)" "sint (h_len h) < 0"
    and "sint (h_len h) \<le> g_tcpMaxLen w" "e_alloc env (24 + h_len h)"
  shows "TcpOnDataEvent env SOFTBUS_SOCKET_IN fd w = MemFault"
proof -
  have "OnRecvData (wt, RecvAvail n) fd 24 (g_tcpTimeOut w) (e_rx env) = (24, head_bytes h, rest)"
    using assms by (simp add: OnRecvData_header)
  moreover have "unat (24 + of_int (sint (h_len h)) :: 32 word) < 24"
  proof -
    define k where "k = nat (- sint (h_len h))"
    have k: "sint (h_len h) = - int k" "k \<noteq> 0" "k \<le> 23"
      using assms(7,8) by (simp_all add: k_def)
    have "(24 + of_int (sint (h_len h)) :: 32 word) = of_nat (24 - k)"
      using k by (simp add: of_nat_diff)
    moreover have "unat (of_nat (24 - k) :: 32 word) = 24 - k"
      unfolding unat_of_nat by (simp add: take_bit_nat_def)
    ultimately show ?thesis using k by simp
  qed
  ultimately show ?thesis
    using assms by (simp add: TcpOnDataEvent_def RecvData_def Let_def)
qed

theorem RecvData_negative_length_overflow_witness:
  "TcpOnDataEvent (demo_env [(1, RecvAvail 24)]
      (head_bytes \<lparr>magic = MAGIC_NUMBER, h_module = 13, h_seq = 1, h_flag = 0, h_len = - 20\<rparr> @ []))
     SOFTBUS_SOCKET_IN 7 (demo_world\<lparr>g_tcpListener := True, g_tcpMaxLen := 3072\<rparr>) = MemFault"
  by (rule RecvData_negative_length_overflow [where wt = 1 and n = 24 and rounds = "[]" and rest = "[]"
      and h = "\<lparr>magic = MAGIC_NUMBER, h_module = 13, h_seq = 1, h_flag = 0, h_len = - 20\<rparr>"])
    (simp_all add: demo_env_def demo_world_def)

section \<open>Reception of a whole packet\<close>

text \<open>The rounds of receiving bring at least the given number of bytes before any failure.\<close>

fun enough :: "(int \<times> recv_rc) list \<Rightarrow> nat \<Rightarrow> bool" where
  "enough rounds 0 = True"
| "enough [] (Suc need) = False"
| "enough ((wt, rc) # rounds) (Suc need) =
     (0 \<le> wt \<and>
      (case rc of RecvAgain \<Rightarrow> enough rounds (Suc need)
       | RecvClosed \<Rightarrow> False
       | RecvAvail n \<Rightarrow> n \<noteq> 0 \<and> enough rounds (Suc need - n)))"

lemma recv_loop_enough:
  "0 \<le> fd \<Longrightarrow> enough rounds need \<Longrightarrow> need \<le> length rx \<Longrightarrow>
   recv_loop rounds fd timeout rx need acc = Ret (Some (acc @ take need rx))"
proof (induction rounds need arbitrary: rx acc rule: enough.induct)
  case (3 wt rc rounds need)
  show ?case
  proof (cases rc)
    case RecvAgain
    then show ?thesis using 3 by (simp add: OnRecvData_def)
  next
    case RecvClosed
    then show ?thesis using 3 by simp
  next
    case (RecvAvail n)
    let ?d = "take (min n (Suc need)) rx"
    have d: "?d \<noteq> []" "length ?d = min n (Suc need)" using 3 RecvAvail by auto
    then have "OnRecvData (wt, rc) fd (Suc need) timeout rx = (int (length ?d), ?d, drop (length ?d) rx)"
      using 3 RecvAvail by (simp add: OnRecvData_def Let_def)
    then have "recv_loop ((wt, rc) # rounds) fd timeout rx (Suc need) acc =
        recv_loop rounds fd timeout (drop (length ?d) rx) (Suc need - length ?d) (acc @ ?d)" by simp
    also have "Suc need - length ?d = Suc need - n" using d(2) by simp
    also have "recv_loop rounds fd timeout (drop (length ?d) rx) (Suc need - n) (acc @ ?d)
        = Ret (Some ((acc @ ?d) @ take (Suc need - n) (drop (length ?d) rx)))"
      using 3 RecvAvail d(2) by (intro 3(2)) auto
    finally have "recv_loop ((wt, rc) # rounds) fd timeout rx (Suc need) acc
        = Ret (Some (acc @ (?d @ take (Suc need - n) (drop (length ?d) rx))))" by simp
    moreover have "?d @ take (Suc need - n) (drop (length ?d) rx) = take (min n (Suc need) + (Suc need - n)) rx"
      by (simp only: take_add d(2))
    moreover have "min n (Suc need) + (Suc need - n) = Suc need" by simp
    ultimately show ?thesis by simp
  qed
qed simp_all

text \<open>A packet on the wire: the header of its data and the payload.\<close>

definition packet :: "ConnPostData \<Rightarrow> byte list" where
  "packet data = head_bytes \<lparr>magic = MAGIC_NUMBER, h_module = d_module data, h_seq = d_seq data,
       h_flag = d_flag data, h_len = of_int (d_len data - 24)\<rparr> @ drop 24 (the (d_buf data))"

lemma TcpOnDataEvent_packet:
  assumes l: "g_tcpListener w" "0 \<le> fd" and d: "d_buf data = Some buf" "int (length buf) = d_len data"
    "24 \<le> d_len data" "d_len data < 2 ^ 31" "d_len data - 24 \<le> g_tcpMaxLen w"
    and r: "e_rx env = packet data @ rest" "e_recv env = (wt, RecvAvail n) # rounds" "0 \<le> wt" "24 \<le> n"
    "enough rounds (nat (d_len data - 24))" "e_alloc env (of_int (d_len data))"
  shows "TcpOnDataEvent env SOFTBUS_SOCKET_IN fd w =
    Ret (SOFTBUS_OK, report (UpData (CalTcpConnectionId fd) (d_module data) (d_seq data) (packet data) (d_len data)) w)"
proof -
  let ?len = "d_len data - 24"
  define h where "h = \<lparr>magic = MAGIC_NUMBER, h_module = d_module data, h_seq = d_seq data,
    h_flag = d_flag data, h_len = of_int ?len\<rparr>"
  have pk: "packet data = head_bytes h @ drop 24 buf" using d(1) by (simp add: packet_def h_def)
  have rx: "OnRecvData (wt, RecvAvail n) fd 24 (g_tcpTimeOut w) (e_rx env)
      = (24, head_bytes h, drop 24 buf @ rest)"
    using OnRecvData_header [of fd n wt] l r by (simp add: pk)
  have small: "sint (of_int z :: 32 word) = z" if "0 \<le> z" "z < 2 ^ 31" for z
    using sint_of_small_nat [of "nat z"] that by simp
  have len: "sint (h_len h) = ?len" using d small [of ?len] by (simp add: h_def del: of_int_diff)
  have size: "24 + of_int ?len = (of_int (d_len data) :: 32 word)" by simp
  have us: "unat (of_int (d_len data) :: 32 word) = nat (d_len data)"
    using d(3,4) by (simp add: unsigned_of_int take_bit_int_eq_self)
  have "recv_loop rounds fd (g_tcpTimeOut w) (drop 24 buf @ rest) (nat ?len) (head_bytes h)
      = Ret (Some (head_bytes h @ take (nat ?len) (drop 24 buf @ rest)))"
    using l(2) r(5) d(2) by (intro recv_loop_enough) simp_all
  moreover have "take (nat ?len) (drop 24 buf @ rest) = drop 24 buf" using d(2) by simp
  ultimately have "RecvData env rounds (drop 24 buf @ rest) (head_bytes h) fd ?len w = Ret (Some (packet data))"
    using d r(6) us by (simp add: RecvData_def Let_def pk size)
  moreover have "sint (24 + h_len h) = d_len data"
    using small [of "d_len data"] d(3,4) by (simp add: h_def)
  moreover have "h_module h = d_module data" "h_seq h = d_seq data" by (simp_all add: h_def)
  ultimately show ?thesis using l(1) r(2) rx len by (simp add: TcpOnDataEvent_def Let_def)
qed

lemma ConnPostBytes_tcp:
  assumes cm: "ConnTypeCheck cm CONNECT_TCP = SOFTBUS_OK" "transport cm CONNECT_TCP = tcp_interface u"
    and id: "conn_type cid = CONNECT_TCP" and d: "d_buf data = Some buf" "int (length buf) = d_len data" "24 < d_len data"
    and w: "e_lock env" "g_tcpConnInfoList w \<noteq> None" "find (\<lambda>n. connectionId n = cid) (conns w) = Some item"
    "0 \<le> node_fd item" "SendTcpData (e_send env) (node_fd item) (length buf) = Some (d_len data)"
  shows "\<exists>w'. ConnPostBytes env cid (Some data) cm w = Some ((SOFTBUS_OK, False), w') \<and>
    acts w' = acts w @ [SendTcp (node_fd item) (packet data), FreeData] \<and> conns w' = conns w"
proof -
  obtain l where l: "g_tcpConnInfoList w = Some l" using w(2) by blast
  have "nat (d_len data) = length buf" using d(2) by simp
  moreover have "length (packet data) = length buf" using d by (simp add: packet_def)
  ultimately show ?thesis
    using assms l
    by (simp add: ConnPostBytes_def TcpPostBytes_def tcp_interface_def ConnGetHeadSize_def Let_def conns_def
        packet_def)
qed

end
