(* ===== verification/Trans_Session_Manager.thy ===== *)
theory Trans_Session_Manager
  imports Softbus_Prelude
begin

text \<open>
  The registry of session servers, \<^verbatim>\<open>core/transmission/session/src/trans_session_manager.c\<close>: a
  bounded list of servers under their session names. It is an instance of the contract
  \<open>keyed_registry\<close>, from which its behaviour as a finite map of at most 32 names follows.
\<close>

section \<open>State and operations\<close>

abbreviation (input) MAX_SESSION_SERVER_NUM :: "32 word" where "MAX_SESSION_SERVER_NUM \<equiv> 32"

record SessionServer =
  sec_type :: int
  pkgName :: string
  sessionName :: string
  uid :: int
  pid :: int

text \<open>The static variable of the file; \<^const>\<open>None\<close> before the initialisation.\<close>

type_synonym session_mgr = "SessionServer SoftBusList option"

definition TransSessionMgrInit :: "bool \<Rightarrow> bool \<Rightarrow> session_mgr \<Rightarrow> int \<times> session_mgr" where
  "TransSessionMgrInit alloc mutexInit m =
     (if m \<noteq> None then (SOFTBUS_OK, m)
      else case CreateSoftBusList alloc mutexInit of
             None \<Rightarrow> (SOFTBUS_ERR, None)
           | Some l \<Rightarrow> (SOFTBUS_OK, Some l))"

definition TransSessionMgrDeinit :: "session_mgr \<Rightarrow> session_mgr" where
  "TransSessionMgrDeinit m = None"

definition TransSessionServerIsExist :: "bool \<Rightarrow> string option \<Rightarrow> session_mgr \<Rightarrow> bool" where
  "TransSessionServerIsExist lock np m =
     (case (np, m) of
        (Some name, Some l) \<Rightarrow> lock \<and> find (\<lambda>pos. sessionName pos = name) (lst l) \<noteq> None
      | _ \<Rightarrow> False)"

definition TransSessionServerAddItem ::
  "bool \<Rightarrow> SessionServer option \<Rightarrow> session_mgr \<Rightarrow> int \<times> session_mgr" where
  "TransSessionServerAddItem lock newp m =
     (case newp of
        None \<Rightarrow> (SOFTBUS_INVALID_PARAM, m)
      | Some newNode \<Rightarrow>
          (case m of
             None \<Rightarrow> (SOFTBUS_NO_INIT, m)
           | Some l \<Rightarrow>
               if \<not> lock then (SOFTBUS_ERR, m)
               else if cnt l \<ge> MAX_SESSION_SERVER_NUM then (SOFTBUS_INVALID_NUM, m)
               else if find (\<lambda>pos. sessionName pos = sessionName newNode) (lst l) \<noteq> None
               then (SOFTBUS_SERVER_NAME_REPEATED, m)
               else (SOFTBUS_OK, Some (sl_add newNode l))))"

definition TransSessionServerDelItem :: "bool \<Rightarrow> string option \<Rightarrow> session_mgr \<Rightarrow> int \<times> session_mgr" where
  "TransSessionServerDelItem lock np m =
     (case np of
        None \<Rightarrow> (SOFTBUS_INVALID_PARAM, m)
      | Some name \<Rightarrow>
          (case m of
             None \<Rightarrow> (SOFTBUS_ERR, m)
           | Some l \<Rightarrow>
               if \<not> lock then (SOFTBUS_ERR, m)
               else (SOFTBUS_OK, Some (sl_del_first (\<lambda>pos. sessionName pos = name) l))))"

definition TransDelItemByPackageName :: "bool \<Rightarrow> string option \<Rightarrow> session_mgr \<Rightarrow> session_mgr" where
  "TransDelItemByPackageName lock pp m =
     (case (pp, m) of
        (Some pkg, Some l) \<Rightarrow> if \<not> lock then m else Some (sl_del_first (\<lambda>pos. pkgName pos = pkg) l)
      | _ \<Rightarrow> m)"

text \<open>The buffer of the caller has \<open>len\<close> bytes; the copied name is the second component.\<close>

definition TransGetPkgNameBySessionName ::
  "bool \<Rightarrow> string option \<Rightarrow> bool \<Rightarrow> 16 word \<Rightarrow> session_mgr \<Rightarrow> int \<times> string option" where
  "TransGetPkgNameBySessionName lock np buf len m =
     (case np of
        None \<Rightarrow> (SOFTBUS_ERR, None)
      | Some name \<Rightarrow>
          if \<not> buf \<or> len = 0 then (SOFTBUS_ERR, None)
          else (case m of
                  None \<Rightarrow> (SOFTBUS_ERR, None)
                | Some l \<Rightarrow>
                    if \<not> lock then (SOFTBUS_ERR, None)
                    else (case find (\<lambda>pos. sessionName pos = name) (lst l) of
                            None \<Rightarrow> (SOFTBUS_ERR, None)
                          | Some pos \<Rightarrow>
                              (case strcpy_s (unat len) (pkgName pos) of
                                 None \<Rightarrow> (SOFTBUS_ERR, None)
                               | Some p \<Rightarrow> (SOFTBUS_OK, Some p)))))"

definition TransGetUidAndPid :: "bool \<Rightarrow> string option \<Rightarrow> session_mgr \<Rightarrow> int \<times> (int \<times> int) option" where
  "TransGetUidAndPid lock np m =
     (case np of
        None \<Rightarrow> (SOFTBUS_INVALID_PARAM, None)
      | Some name \<Rightarrow>
          (case m of
             None \<Rightarrow> (SOFTBUS_ERR, None)
           | Some l \<Rightarrow>
               if \<not> lock then (SOFTBUS_LOCK_ERR, None)
               else (case find (\<lambda>pos. sessionName pos = name) (lst l) of
                       None \<Rightarrow> (SOFTBUS_ERR, None)
                     | Some pos \<Rightarrow> (SOFTBUS_OK, Some (uid pos, pid pos)))))"

section \<open>The registry\<close>

definition servers :: "session_mgr \<Rightarrow> SessionServer list" where
  "servers m = (case m of None \<Rightarrow> [] | Some l \<Rightarrow> lst l)"

interpretation session_reg: keyed_registry servers sessionName "\<lambda>lock m. lock"
    "\<lambda>lock x m. TransSessionServerAddItem lock (Some x) m"
    "\<lambda>lock k m. snd (TransSessionServerDelItem lock (Some k) m)"
  by unfold_locales
    (auto simp: TransSessionServerAddItem_def TransSessionServerDelItem_def servers_def find_None_iff
      split: option.splits if_splits)

definition session_inv :: "session_mgr \<Rightarrow> bool" where
  "session_inv m \<longleftrightarrow> (case m of None \<Rightarrow> True | Some l \<Rightarrow> wf_sl l) \<and>
     distinct (map sessionName (servers m)) \<and> length (servers m) \<le> 32"

lemma session_cnt: "session_inv (Some l) \<Longrightarrow> unat (cnt l) = length (lst l)"
  unfolding session_inv_def wf_sl_def servers_def
  by (clarsimp simp: unat_of_nat take_bit_nat_def)

lemma session_full: "session_inv (Some l) \<Longrightarrow> cnt l \<ge> MAX_SESSION_SERVER_NUM \<longleftrightarrow> 32 \<le> length (lst l)"
  by (simp add: word_le_nat_alt session_cnt)

lemma session_inv_add: "session_inv m \<Longrightarrow> session_inv (snd (TransSessionServerAddItem lock (Some x) m))"
proof (cases "fst (TransSessionServerAddItem lock (Some x) m) = SOFTBUS_OK")
  case True
  assume inv: "session_inv m"
  from True obtain l where l: "m = Some l" "\<not> cnt l \<ge> MAX_SESSION_SERVER_NUM"
    "snd (TransSessionServerAddItem lock (Some x) m) = Some (sl_add x l)"
    by (auto simp: TransSessionServerAddItem_def split: option.splits if_splits)
  then show ?thesis
    using inv session_full [of l] session_reg.unique_add [of m lock x]
    by (simp add: session_inv_def servers_def)
next
  case False
  assume "session_inv m"
  moreover have "snd (TransSessionServerAddItem lock (Some x) m) = m"
    using False by (auto simp: TransSessionServerAddItem_def split: option.splits if_splits)
  ultimately show ?thesis by simp
qed

lemma session_inv_del_first:
  "session_inv (Some l) \<Longrightarrow> session_inv (Some (sl_del_first P l))"
  by (auto simp: session_inv_def servers_def distinct_map_del_first length_del_first)

lemma session_inv_del: "session_inv m \<Longrightarrow> session_inv (snd (TransSessionServerDelItem lock np m))"
  by (auto simp: TransSessionServerDelItem_def session_inv_del_first split: option.splits)

lemma session_inv_pkg: "session_inv m \<Longrightarrow> session_inv (TransDelItemByPackageName lock pp m)"
  by (auto simp: TransDelItemByPackageName_def session_inv_del_first split: option.splits)

section \<open>Properties\<close>

text \<open>
  The contract: a finite map from session names to servers. Sequences of operations and their
  answers, on the registry and on the map.
\<close>

datatype sess_op = SAdd bool SessionServer | SDel bool string | SExist bool string | SUid bool string
  | SPkgOf bool string "16 word"
datatype sess_answer = SCode int | SBool bool | SIds "int \<times> (int \<times> int) option" | SName "int \<times> string option"

fun sess_run :: "sess_op list \<Rightarrow> session_mgr \<Rightarrow> sess_answer list" where
  "sess_run [] m = []"
| "sess_run (SAdd lock x # ops) m =
     (case TransSessionServerAddItem lock (Some x) m of (r, m') \<Rightarrow> SCode r # sess_run ops m')"
| "sess_run (SDel lock n # ops) m =
     (case TransSessionServerDelItem lock (Some n) m of (r, m') \<Rightarrow> SCode r # sess_run ops m')"
| "sess_run (SExist lock n # ops) m = SBool (TransSessionServerIsExist lock (Some n) m) # sess_run ops m"
| "sess_run (SUid lock n # ops) m = SIds (TransGetUidAndPid lock (Some n) m) # sess_run ops m"
| "sess_run (SPkgOf lock n len # ops) m =
     SName (TransGetPkgNameBySessionName lock (Some n) True len m) # sess_run ops m"

fun sess_spec :: "sess_op list \<Rightarrow> (string \<rightharpoonup> SessionServer) \<Rightarrow> sess_answer list" where
  "sess_spec [] f = []"
| "sess_spec (SAdd lock x # ops) f =
     (if \<not> lock then SCode SOFTBUS_ERR # sess_spec ops f
      else if 32 \<le> card (dom f) then SCode SOFTBUS_INVALID_NUM # sess_spec ops f
      else if f (sessionName x) \<noteq> None then SCode SOFTBUS_SERVER_NAME_REPEATED # sess_spec ops f
      else SCode SOFTBUS_OK # sess_spec ops (f(sessionName x \<mapsto> x)))"
| "sess_spec (SDel lock n # ops) f =
     (if \<not> lock then SCode SOFTBUS_ERR # sess_spec ops f else SCode SOFTBUS_OK # sess_spec ops (f(n := None)))"
| "sess_spec (SExist lock n # ops) f = SBool (lock \<and> f n \<noteq> None) # sess_spec ops f"
| "sess_spec (SUid lock n # ops) f =
     SIds (if \<not> lock then (SOFTBUS_LOCK_ERR, None)
           else case f n of None \<Rightarrow> (SOFTBUS_ERR, None) | Some x \<Rightarrow> (SOFTBUS_OK, Some (uid x, pid x)))
     # sess_spec ops f"
| "sess_spec (SPkgOf lock n len # ops) f =
     SName (case f n of
              Some x \<Rightarrow> if lock \<and> length (pkgName x) < unat len then (SOFTBUS_OK, Some (pkgName x)) else (SOFTBUS_ERR, None)
            | None \<Rightarrow> (SOFTBUS_ERR, None))
     # sess_spec ops f"

definition names :: "session_mgr \<Rightarrow> string \<rightharpoonup> SessionServer" where
  "names m = (\<lambda>n. find (\<lambda>y. sessionName y = n) (servers m))"

lemma sess_add_cases:
  assumes inv: "session_inv (Some l)"
  shows "fst (TransSessionServerAddItem lock (Some x) (Some l)) =
    (if \<not> lock then SOFTBUS_ERR else if 32 \<le> card (dom (names (Some l))) then SOFTBUS_INVALID_NUM
     else if names (Some l) (sessionName x) \<noteq> None then SOFTBUS_SERVER_NAME_REPEATED else SOFTBUS_OK)"
  using session_full [OF inv] session_reg.card_keys [of "Some l"] inv
  by (simp add: TransSessionServerAddItem_def names_def servers_def session_inv_def)

lemma sess_run_refines:
  "session_inv m \<Longrightarrow> m \<noteq> None \<Longrightarrow> sess_run ops m = sess_spec ops (names m)"
proof (induction ops arbitrary: m)
  case (Cons op ops)
  from Cons.prems obtain l where l: "m = Some l" by blast
  show ?case
  proof (cases op)
    case (SAdd lock x)
    obtain r m' where a: "TransSessionServerAddItem lock (Some x) m = (r, m')"
      by (cases "TransSessionServerAddItem lock (Some x) m")
    have inv': "session_inv m'" using session_inv_add [OF Cons.prems(1), of lock x] a by simp
    have "m' \<noteq> None" using a l by (auto simp: TransSessionServerAddItem_def split: if_splits)
    note ih = Cons.IH [OF inv' this]
    have r: "r = (if \<not> lock then SOFTBUS_ERR else if 32 \<le> card (dom (names m)) then SOFTBUS_INVALID_NUM
        else if names m (sessionName x) \<noteq> None then SOFTBUS_SERVER_NAME_REPEATED else SOFTBUS_OK)"
      using sess_add_cases [of l lock x] a l Cons.prems(1) by simp
    show ?thesis
    proof (cases "r = SOFTBUS_OK")
      case True
      then have c: "lock" "\<not> 32 \<le> card (dom (names m))" "names m (sessionName x) = None"
        using r by (auto split: if_splits)
      from True have "names m' = (names m)(sessionName x \<mapsto> x)"
        using session_reg.lookup_map_add [of lock x m] a by (simp add: names_def)
      then have "sess_run ops m' = sess_spec ops ((names m)(sessionName x \<mapsto> x))" using ih by (simp only:)
      then show ?thesis using True c a SAdd by simp
    next
      case False
      then have "m' = m" using a l by (auto simp: TransSessionServerAddItem_def split: if_splits)
      then show ?thesis using False r a SAdd ih by (auto split: if_splits)
    qed
  next
    case (SDel lock n)
    obtain r m' where a: "TransSessionServerDelItem lock (Some n) m = (r, m')"
      by (cases "TransSessionServerDelItem lock (Some n) m")
    have inv': "session_inv m'" using session_inv_del [OF Cons.prems(1), of lock "Some n"] a by simp
    have ne: "m' \<noteq> None" and r: "r = (if lock then SOFTBUS_OK else SOFTBUS_ERR)" "\<not> lock \<Longrightarrow> m' = m"
      using a l by (auto simp: TransSessionServerDelItem_def split: if_splits)
    have del: "names m' = (names m)(n := None)" if lock
      using that session_reg.lookup_map_del [of lock m n] a Cons.prems(1) by (simp add: names_def session_inv_def)
    have "sess_run ops m' = sess_spec ops (if lock then (names m)(n := None) else names m)"
      using Cons.IH [OF inv' ne] del r(2) by (cases lock) (simp_all only: if_True if_False simp_thms)
    then show ?thesis using SDel a r(1) by (cases lock) simp_all
  qed (use Cons l in \<open>auto simp: TransSessionServerIsExist_def TransGetUidAndPid_def
      TransGetPkgNameBySessionName_def names_def servers_def strcpy_s_def split: option.splits\<close>)
qed simp

text \<open>C15: After the initialisation, every sequence of additions, removals and queries, with any
  outcomes of the lock, is answered as by a map from session names to servers that refuses a 33rd
  name and a name that is present, including the error codes and the copied package names.\<close>

theorem session_manager_refines_map:
  "sess_run ops (snd (TransSessionMgrInit True True None)) = sess_spec ops Map.empty"
proof -
  have m: "snd (TransSessionMgrInit True True None) = Some \<lparr>cnt = 0, lst = []\<rparr>"
    by (simp add: TransSessionMgrInit_def CreateSoftBusList_def)
  have "session_inv (Some \<lparr>cnt = 0, lst = []\<rparr>)" by (simp add: session_inv_def wf_sl_def servers_def)
  moreover have "names (Some \<lparr>cnt = 0, lst = []\<rparr>) = Map.empty" by (simp add: names_def servers_def)
  ultimately show ?thesis using sess_run_refines [of "Some \<lparr>cnt = 0, lst = []\<rparr>" ops] m by simp
qed

text \<open>Removing by package name removes one server only. When the package of a client that died
  has registered several session servers, all but the one registered last stay in the list; the
  servers of other packages are untouched.\<close>

theorem TransDelItemByPackageName_removes_one:
  "let m' = TransDelItemByPackageName True (Some p) m in
   filter (\<lambda>s. pkgName s = p) (servers m') = tl (filter (\<lambda>s. pkgName s = p) (servers m)) \<and>
   filter (\<lambda>s. pkgName s \<noteq> p) (servers m') = filter (\<lambda>s. pkgName s \<noteq> p) (servers m)"
proof -
  have "filter (\<lambda>s. pkgName s = p) (del_first (\<lambda>s. pkgName s = p) xs) = tl (filter (\<lambda>s. pkgName s = p) xs)"
    "filter (\<lambda>s. pkgName s \<noteq> p) (del_first (\<lambda>s. pkgName s = p) xs) = filter (\<lambda>s. pkgName s \<noteq> p) xs" for xs
    by (induction xs) auto
  then show ?thesis by (auto simp: TransDelItemByPackageName_def servers_def Let_def split: option.splits)
qed

end
