(* ===== verification/Proxy_Message.thy ===== *)
theory Proxy_Message
  imports Conn_Manager
begin

text \<open>
  The messages of proxy channels: the JSON accessors of
  \<^verbatim>\<open>core/common/json_utils/softbus_json_utils.c\<close>, the packing and parsing of messages of
  \<^verbatim>\<open>proxy/src/softbus_proxychannel_message.c\<close> and the sending of the control messages of
  \<^verbatim>\<open>proxy/src/softbus_proxychannel_control.c\<close> (both under \<^verbatim>\<open>core/transmission/trans_channel\<close>). The JSON
  library, the base64 coder and the encryption of the authentication module are arguments.
\<close>

unbundle bit_operations_syntax

section \<open>JSON objects\<close>

text \<open>
  A JSON object is the list of its items in order; looking up a key finds the first. The
  library: whether an object and an item for a key can be allocated, and printing and parsing.
\<close>

datatype jval = JStr string | JNum int | JTrue

type_synonym json = "(string \<times> jval) list"

record json_lib =
  cJSON_CreateObject :: bool
  cJSON_CreateItem :: "string \<Rightarrow> bool"
  cJSON_PrintUnformatted :: "json \<Rightarrow> string option"
  cJSON_Parse :: "string \<Rightarrow> json option"
  SoftBusBase64Encode :: "string \<Rightarrow> string option"
  SoftBusBase64Decode :: "string \<Rightarrow> string option"

definition AddStringToJsonObject :: "json_lib \<Rightarrow> string \<Rightarrow> string \<Rightarrow> json \<Rightarrow> json option" where
  "AddStringToJsonObject lib key v root =
     (if \<not> cJSON_CreateItem lib key then None else Some (root @ [(key, JStr v)]))"

definition AddNumberToJsonObject :: "json_lib \<Rightarrow> string \<Rightarrow> int \<Rightarrow> json \<Rightarrow> json option" where
  "AddNumberToJsonObject lib key num root =
     (if \<not> cJSON_CreateItem lib key then None else Some (root @ [(key, JNum num)]))"

definition cJSON_AddTrueToObject :: "json_lib \<Rightarrow> string \<Rightarrow> json \<Rightarrow> json" where
  "cJSON_AddTrueToObject lib key root =
     (if \<not> cJSON_CreateItem lib key then root else root @ [(key, JTrue)])"

definition GetJsonObjectStringItem :: "json \<Rightarrow> string \<Rightarrow> nat \<Rightarrow> string option" where
  "GetJsonObjectStringItem root key targetLen =
     (case map_of root key of
        Some (JStr v) \<Rightarrow> if length v \<ge> targetLen then None else strcpy_s targetLen v
      | _ \<Rightarrow> None)"

definition GetJsonObjectNumberItem :: "json \<Rightarrow> string \<Rightarrow> int option" where
  "GetJsonObjectNumberItem root key =
     (case map_of root key of
        Some (JNum n) \<Rightarrow> if n < 0 then None else Some n
      | _ \<Rightarrow> None)"

text \<open>
  One operand of a chain of reads joined by \<^verbatim>\<open>||\<close>: it is evaluated while all before it
  succeeded, and what they stored stays stored.
\<close>

definition try_get :: "'v option \<Rightarrow> ('v \<Rightarrow> 's \<Rightarrow> 's) \<Rightarrow> bool \<times> 's \<Rightarrow> bool \<times> 's" where
  "try_get v upd st =
     (case (st, v) of
        ((True, s), Some x) \<Rightarrow> (True, upd x s)
      | ((_, s), _) \<Rightarrow> (False, s))"

section \<open>Messages and channels\<close>

abbreviation (input) PROXYCHANNEL_MSG_TYPE_NORMAL :: "8 word" where "PROXYCHANNEL_MSG_TYPE_NORMAL \<equiv> 0"
abbreviation (input) PROXYCHANNEL_MSG_TYPE_HANDSHAKE :: "8 word" where "PROXYCHANNEL_MSG_TYPE_HANDSHAKE \<equiv> 1"
abbreviation (input) PROXYCHANNEL_MSG_TYPE_HANDSHAKE_ACK :: "8 word" where
  "PROXYCHANNEL_MSG_TYPE_HANDSHAKE_ACK \<equiv> 2"
abbreviation (input) PROXYCHANNEL_MSG_TYPE_RESET :: "8 word" where "PROXYCHANNEL_MSG_TYPE_RESET \<equiv> 3"
abbreviation (input) PROXYCHANNEL_MSG_TYPE_KEEPALIVE :: "8 word" where "PROXYCHANNEL_MSG_TYPE_KEEPALIVE \<equiv> 4"
abbreviation (input) PROXYCHANNEL_MSG_TYPE_KEEPALIVE_ACK :: "8 word" where
  "PROXYCHANNEL_MSG_TYPE_KEEPALIVE_ACK \<equiv> 5"
abbreviation (input) PROXYCHANNEL_MSG_TYPE_MAX :: "8 word" where "PROXYCHANNEL_MSG_TYPE_MAX \<equiv> 6"
abbreviation (input) PROXY_VERSION :: "8 word" where "PROXY_VERSION \<equiv> 1"
abbreviation (input) VERSION_SHIFT :: nat where "VERSION_SHIFT \<equiv> 4"
abbreviation (input) FOUR_BIT_MASK :: "8 word" where "FOUR_BIT_MASK \<equiv> 0xF"
abbreviation (input) ENCRYPTED :: "8 word" where "ENCRYPTED \<equiv> 1"
abbreviation (input) AUTH_SERVER_SIDE :: "8 word" where "AUTH_SERVER_SIDE \<equiv> 2"
abbreviation (input) PROXY_CHANNEL_HEAD_LEN :: nat where "PROXY_CHANNEL_HEAD_LEN \<equiv> 8"
abbreviation (input) CLIENT_SIDE_FLAG :: int where "CLIENT_SIDE_FLAG \<equiv> 0"
abbreviation (input) SERVER_SIDE_FLAG :: int where "SERVER_SIDE_FLAG \<equiv> 1"
abbreviation (input) IDENTITY_LEN :: nat where "IDENTITY_LEN \<equiv> 32"
abbreviation (input) BASE64KEY :: nat where "BASE64KEY \<equiv> 45"
abbreviation (input) DEVICE_ID_SIZE_MAX :: nat where "DEVICE_ID_SIZE_MAX \<equiv> 65"
abbreviation (input) PKG_NAME_SIZE_MAX :: nat where "PKG_NAME_SIZE_MAX \<equiv> 65"
abbreviation (input) SESSION_NAME_SIZE_MAX :: nat where "SESSION_NAME_SIZE_MAX \<equiv> 256"
abbreviation (input) APP_TYPE_NOT_CARE :: int where "APP_TYPE_NOT_CARE \<equiv> 0"
abbreviation (input) APP_TYPE_NORMAL :: int where "APP_TYPE_NORMAL \<equiv> 1"
abbreviation (input) APP_TYPE_AUTH :: int where "APP_TYPE_AUTH \<equiv> 2"

record ProxyMessageHead =
  m_type :: "8 word"
  chiper :: "8 word"
  m_myId :: "16 word"
  m_peerId :: "16 word"
  reserved :: "16 word"

record ProxyMessage =
  msgHead :: ProxyMessageHead
  m_data :: "byte list"
  m_connId :: "32 word"
  m_chiperSide :: int

record AppInfoData =
  apiVersion :: int
  deviceId :: string
  pkgName :: string
  sessionName :: string
  uid :: int
  pid :: int
  authState :: string
  ip :: string
  port :: int
  a_channelId :: int

record AppInfo =
  groupId :: string
  sessionKey :: string
  a_reqId :: string
  routeType :: int
  businessType :: int
  streamType :: int
  udpConnType :: int
  udpChannelOptType :: int
  a_fd :: int
  appType :: int
  myData :: AppInfoData
  peerData :: AppInfoData

record ProxyChannelInfo =
  channelId :: int
  p_reqId :: int
  p_isServer :: bool
  status :: int
  timeout :: "16 word"
  myId :: "16 word"
  peerId :: "16 word"
  connId :: "32 word"
  p_type :: ConnectType
  seq :: int
  identity :: string
  appInfo :: AppInfo
  chiperSide :: int

definition upd_myData :: "(AppInfoData \<Rightarrow> AppInfoData) \<Rightarrow> ProxyChannelInfo \<Rightarrow> ProxyChannelInfo" where
  "upd_myData f c = c\<lparr>appInfo := (appInfo c)\<lparr>myData := f (myData (appInfo c))\<rparr>\<rparr>"

definition upd_peerData :: "(AppInfoData \<Rightarrow> AppInfoData) \<Rightarrow> ProxyChannelInfo \<Rightarrow> ProxyChannelInfo" where
  "upd_peerData f c = c\<lparr>appInfo := (appInfo c)\<lparr>peerData := f (peerData (appInfo c))\<rparr>\<rparr>"

text \<open>The memory of a message head.\<close>

definition mhead_bytes :: "ProxyMessageHead \<Rightarrow> byte list" where
  "mhead_bytes h = [m_type h, chiper h] @ le_bytes 2 (m_myId h) @ le_bytes 2 (m_peerId h) @ le_bytes 2 (reserved h)"

text \<open>
  What packing and parsing use of the environment: allocation, the connection option of a
  connection, the side stored for a channel, and the encryption of the authentication module,
  which returns the side it used and the encrypted bytes.
\<close>

record msg_env =
  pm_alloc :: bool
  pm_option :: "32 word \<Rightarrow> ConnectOption option"
  pm_side :: "int \<Rightarrow> int option"
  pm_enc :: "ConnectOption \<Rightarrow> byte list \<Rightarrow> (int \<times> byte list) option"
  pm_dec :: "ConnectOption \<Rightarrow> int \<Rightarrow> byte list \<Rightarrow> byte list option"
  pm_headLen :: nat

section \<open>Parsing\<close>

definition ChiperSideProc :: "msg_env \<Rightarrow> ProxyMessageHead \<Rightarrow> int option" where
  "ChiperSideProc env h =
     (if m_type h = PROXYCHANNEL_MSG_TYPE_HANDSHAKE
      then Some (if chiper h AND AUTH_SERVER_SIDE \<noteq> 0 then CLIENT_SIDE_FLAG else SERVER_SIDE_FLAG)
      else pm_side env (sint (m_myId h)))"

text \<open>
  The head is read from the bytes. The identifiers change places: the one the peer calls its own
  is the peer's here.
\<close>

definition TransProxyParseMessageHead :: "byte list \<Rightarrow> ProxyMessage \<Rightarrow> int \<times> ProxyMessage" where
  "TransProxyParseMessageHead data msg =
     (let firstByte = data ! 0;
          version = drop_bit VERSION_SHIFT firstByte AND FOUR_BIT_MASK;
          ty = firstByte AND FOUR_BIT_MASK;
          msg1 = msg\<lparr>msgHead := (msgHead msg)\<lparr>m_type := ty\<rparr>\<rparr>
      in if version \<noteq> PROXY_VERSION \<or> ty \<ge> PROXYCHANNEL_MSG_TYPE_MAX then (SOFTBUS_ERR, msg1)
         else (SOFTBUS_OK,
           msg1\<lparr>msgHead := (msgHead msg1)\<lparr>chiper := data ! 1,
                  m_peerId := le_word (take 2 (drop 2 data)), m_myId := le_word (take 2 (drop 4 data))\<rparr>,
                m_data := drop PROXY_CHANNEL_HEAD_LEN data\<rparr>))"

definition TransProxyParseMessage :: "msg_env \<Rightarrow> byte list \<Rightarrow> ProxyMessage \<Rightarrow> int \<times> ProxyMessage" where
  "TransProxyParseMessage env data msg =
     (if length data \<le> PROXY_CHANNEL_HEAD_LEN then (SOFTBUS_ERR, msg)
      else case TransProxyParseMessageHead data msg of
             (ret, msg1) \<Rightarrow>
               if ret \<noteq> SOFTBUS_OK then (SOFTBUS_ERR, msg1)
               else if chiper (msgHead msg1) AND ENCRYPTED = 0 then (SOFTBUS_OK, msg1)
               else (case ChiperSideProc env (msgHead msg1) of
                       None \<Rightarrow> (SOFTBUS_ERR, msg1)
                     | Some side \<Rightarrow>
                         let msg2 = msg1\<lparr>m_chiperSide := side\<rparr>
                         in case pm_option env (m_connId msg2) of
                              None \<Rightarrow> (SOFTBUS_ERR, msg2)
                            | Some opt \<Rightarrow>
                                if \<not> pm_alloc env then (SOFTBUS_ERR, msg2)
                                else (case pm_dec env opt side (drop PROXY_CHANNEL_HEAD_LEN data) of
                                        None \<Rightarrow> (SOFTBUS_ERR, msg2)
                                      | Some deBuf \<Rightarrow> (SOFTBUS_OK, msg2\<lparr>m_data := deBuf\<rparr>))))"

section \<open>Packing\<close>

text \<open>
  The packed message, with room for the header of the connection in front, and the head, whose
  cipher byte packing may change.
\<close>

definition TransProxyPackMessage ::
  "msg_env \<Rightarrow> ProxyMessageHead \<Rightarrow> 32 word \<Rightarrow> byte list \<Rightarrow> (byte list \<times> ProxyMessageHead) option" where
  "TransProxyPackMessage env msg cid payload =
     (if chiper msg = 0 then
        if \<not> pm_alloc env then None
        else (case memcpy_s (length payload) payload of
                None \<Rightarrow> None
              | Some p \<Rightarrow> Some (replicate (nat ConnGetHeadSize) 0 @ mhead_bytes msg @ p, msg))
      else
        case pm_option env cid of
          None \<Rightarrow> None
        | Some opt \<Rightarrow>
            if \<not> pm_alloc env then None
            else (case pm_enc env opt payload of
                    None \<Rightarrow> None
                  | Some (side, enBuf) \<Rightarrow>
                      let msg' = (if side = SERVER_SIDE_FLAG
                                  then msg\<lparr>chiper := chiper msg OR AUTH_SERVER_SIDE\<rparr> else msg)
                      in case memcpy_s (length payload + pm_headLen env) enBuf of
                           None \<Rightarrow> None
                         | Some p \<Rightarrow>
                             Some (replicate (nat ConnGetHeadSize) 0 @ mhead_bytes msg' @ p, msg')))"

section \<open>Handshake messages\<close>

text \<open>The keys of the items.\<close>

abbreviation (input) JSON_KEY_TYPE :: string where "JSON_KEY_TYPE \<equiv> ''TYPE''"
abbreviation (input) JSON_KEY_IDENTITY :: string where "JSON_KEY_IDENTITY \<equiv> ''IDENTITY''"
abbreviation (input) JSON_KEY_DEVICE_ID :: string where "JSON_KEY_DEVICE_ID \<equiv> ''DEVICE_ID''"
abbreviation (input) JSON_KEY_DST_BUS_NAME :: string where "JSON_KEY_DST_BUS_NAME \<equiv> ''DST_BUS_NAME''"
abbreviation (input) JSON_KEY_SRC_BUS_NAME :: string where "JSON_KEY_SRC_BUS_NAME \<equiv> ''SRC_BUS_NAME''"
abbreviation (input) JSON_KEY_HAS_PRIORITY :: string where "JSON_KEY_HAS_PRIORITY \<equiv> ''HAS_PRIORITY''"
abbreviation (input) JSON_KEY_UID :: string where "JSON_KEY_UID \<equiv> ''UID''"
abbreviation (input) JSON_KEY_PID :: string where "JSON_KEY_PID \<equiv> ''PID''"
abbreviation (input) JSON_KEY_GROUP_ID :: string where "JSON_KEY_GROUP_ID \<equiv> ''GROUP_ID''"
abbreviation (input) JSON_KEY_PKG_NAME :: string where "JSON_KEY_PKG_NAME \<equiv> ''PKG_NAME''"
abbreviation (input) JSON_KEY_SESSION_KEY :: string where "JSON_KEY_SESSION_KEY \<equiv> ''SESSION_KEY''"

definition PackHandshakeMsgForNormal :: "json_lib \<Rightarrow> AppInfo \<Rightarrow> json \<Rightarrow> json option" where
  "PackHandshakeMsgForNormal lib app root =
     Option.bind (SoftBusBase64Encode lib (sessionKey app)) (\<lambda>sessionKeyBase64.
     Option.bind (AddNumberToJsonObject lib JSON_KEY_UID (uid (myData app)) root) (\<lambda>root.
     Option.bind (AddNumberToJsonObject lib JSON_KEY_PID (pid (myData app)) root) (\<lambda>root.
     Option.bind (AddStringToJsonObject lib JSON_KEY_GROUP_ID (groupId app) root) (\<lambda>root.
     Option.bind (AddStringToJsonObject lib JSON_KEY_PKG_NAME (pkgName (myData app)) root) (\<lambda>root.
     AddStringToJsonObject lib JSON_KEY_SESSION_KEY sessionKeyBase64 root)))))"

definition TransProxyPackHandshakeMsg :: "json_lib \<Rightarrow> ProxyChannelInfo \<Rightarrow> string option" where
  "TransProxyPackHandshakeMsg lib info =
     (let app = appInfo info in
      if \<not> cJSON_CreateObject lib then None
      else
        Option.bind (AddNumberToJsonObject lib JSON_KEY_TYPE (appType app) []) (\<lambda>root.
        Option.bind (AddStringToJsonObject lib JSON_KEY_IDENTITY (identity info) root) (\<lambda>root.
        Option.bind (AddStringToJsonObject lib JSON_KEY_DEVICE_ID (deviceId (myData app)) root) (\<lambda>root.
        Option.bind (AddStringToJsonObject lib JSON_KEY_SRC_BUS_NAME (sessionName (myData app)) root) (\<lambda>root.
        Option.bind (AddStringToJsonObject lib JSON_KEY_DST_BUS_NAME (sessionName (peerData app)) root) (\<lambda>root.
        let root = cJSON_AddTrueToObject lib JSON_KEY_HAS_PRIORITY root in
        Option.bind
          (if appType app = APP_TYPE_NORMAL then PackHandshakeMsgForNormal lib app root
           else if appType app = APP_TYPE_AUTH
           then AddStringToJsonObject lib JSON_KEY_PKG_NAME (pkgName (myData app)) root
           else Option.bind (SoftBusBase64Encode lib (sessionKey app)) (\<lambda>sessionKeyBase64.
                AddStringToJsonObject lib JSON_KEY_SESSION_KEY sessionKeyBase64 root))
          (cJSON_PrintUnformatted lib)))))))"

definition TransProxyPackHandshakeAckMsg :: "json_lib \<Rightarrow> ProxyChannelInfo \<Rightarrow> string option" where
  "TransProxyPackHandshakeAckMsg lib chan =
     (let app = appInfo chan in
      if appType app = APP_TYPE_NOT_CARE then None
      else if \<not> cJSON_CreateObject lib then None
      else
        Option.bind (AddStringToJsonObject lib JSON_KEY_IDENTITY (identity chan) []) (\<lambda>root.
        Option.bind (AddStringToJsonObject lib JSON_KEY_DEVICE_ID (deviceId (myData app)) root) (\<lambda>root.
        let root = cJSON_AddTrueToObject lib JSON_KEY_HAS_PRIORITY root in
        Option.bind
          (if appType app = APP_TYPE_NORMAL then
             Option.bind (AddNumberToJsonObject lib JSON_KEY_UID (uid (myData app)) root) (\<lambda>root.
             Option.bind (AddNumberToJsonObject lib JSON_KEY_PID (pid (myData app)) root) (\<lambda>root.
             AddStringToJsonObject lib JSON_KEY_PKG_NAME (pkgName (myData app)) root))
           else if appType app = APP_TYPE_AUTH
           then AddStringToJsonObject lib JSON_KEY_PKG_NAME (pkgName (myData app)) root
           else Some root)
          (cJSON_PrintUnformatted lib))))"

definition TransProxyUnpackHandshakeAckMsg ::
  "json_lib \<Rightarrow> string \<Rightarrow> ProxyChannelInfo \<Rightarrow> int \<times> ProxyChannelInfo" where
  "TransProxyUnpackHandshakeAckMsg lib msg chan =
     (case cJSON_Parse lib msg of
        None \<Rightarrow> (SOFTBUS_ERR, chan)
      | Some root \<Rightarrow>
          let st1 = try_get (GetJsonObjectStringItem root JSON_KEY_IDENTITY (IDENTITY_LEN + 1))
                      (\<lambda>v c. c\<lparr>identity := v\<rparr>) (True, chan);
              st2 = try_get (GetJsonObjectStringItem root JSON_KEY_DEVICE_ID DEVICE_ID_SIZE_MAX)
                      (\<lambda>v. upd_peerData (\<lambda>d. d\<lparr>deviceId := v\<rparr>)) st1
          in if \<not> fst st2 then (SOFTBUS_ERR, snd st2)
             else (SOFTBUS_OK,
                   snd (try_get (GetJsonObjectStringItem root JSON_KEY_PKG_NAME PKG_NAME_SIZE_MAX)
                          (\<lambda>v. upd_peerData (\<lambda>d. d\<lparr>pkgName := v\<rparr>)) st2)))"

text \<open>The decoded key has to have the length of a session key.\<close>

definition decode_session_key :: "json_lib \<Rightarrow> string \<Rightarrow> ProxyChannelInfo \<Rightarrow> int \<times> ProxyChannelInfo" where
  "decode_session_key lib key c =
     (case SoftBusBase64Decode lib key of
        None \<Rightarrow> (SOFTBUS_ERR, c)
      | Some k \<Rightarrow>
          let c' = c\<lparr>appInfo := (appInfo c)\<lparr>sessionKey := k\<rparr>\<rparr>
          in if length k \<noteq> SESSION_KEY_LENGTH then (SOFTBUS_ERR, c') else (SOFTBUS_OK, c'))"

definition UnpackHandshakeMsgForNormal ::
  "json_lib \<Rightarrow> json \<Rightarrow> ProxyChannelInfo \<Rightarrow> int \<times> ProxyChannelInfo" where
  "UnpackHandshakeMsgForNormal lib root c =
     (let st1 = try_get (GetJsonObjectNumberItem root JSON_KEY_UID)
                  (\<lambda>v. upd_peerData (\<lambda>d. d\<lparr>uid := v\<rparr>)) (True, c);
          st2 = try_get (GetJsonObjectNumberItem root JSON_KEY_PID) (\<lambda>v. upd_peerData (\<lambda>d. d\<lparr>pid := v\<rparr>)) st1;
          st3 = try_get (GetJsonObjectStringItem root JSON_KEY_PKG_NAME PKG_NAME_SIZE_MAX)
                  (\<lambda>v. upd_peerData (\<lambda>d. d\<lparr>pkgName := v\<rparr>)) st2
      in if \<not> fst st3 then (SOFTBUS_ERR, snd st3)
         else case GetJsonObjectStringItem root JSON_KEY_SESSION_KEY BASE64KEY of
                None \<Rightarrow> (SOFTBUS_ERR, snd st3)
              | Some key \<Rightarrow> decode_session_key lib key (snd st3))"

definition TransProxyUnpackHandshakeMsg ::
  "json_lib \<Rightarrow> string \<Rightarrow> ProxyChannelInfo \<Rightarrow> int \<times> ProxyChannelInfo" where
  "TransProxyUnpackHandshakeMsg lib msg chan =
     (case cJSON_Parse lib msg of
        None \<Rightarrow> (SOFTBUS_ERR, chan)
      | Some root \<Rightarrow>
          (case GetJsonObjectNumberItem root JSON_KEY_TYPE of
             None \<Rightarrow> (SOFTBUS_ERR, chan)
           | Some ty \<Rightarrow>
               let st1 = try_get (GetJsonObjectStringItem root JSON_KEY_IDENTITY (IDENTITY_LEN + 1))
                           (\<lambda>v c. c\<lparr>identity := v\<rparr>) (True, chan);
                   st2 = try_get (GetJsonObjectStringItem root JSON_KEY_DEVICE_ID DEVICE_ID_SIZE_MAX)
                           (\<lambda>v. upd_peerData (\<lambda>d. d\<lparr>deviceId := v\<rparr>)) st1;
                   st3 = try_get (GetJsonObjectStringItem root JSON_KEY_SRC_BUS_NAME SESSION_NAME_SIZE_MAX)
                           (\<lambda>v. upd_peerData (\<lambda>d. d\<lparr>sessionName := v\<rparr>)) st2;
                   st4 = try_get (GetJsonObjectStringItem root JSON_KEY_DST_BUS_NAME SESSION_NAME_SIZE_MAX)
                           (\<lambda>v. upd_myData (\<lambda>d. d\<lparr>sessionName := v\<rparr>)) st3
               in if \<not> fst st4 then (SOFTBUS_ERR, snd st4)
                  else
                    let c = (snd st4)\<lparr>appInfo := (appInfo (snd st4))\<lparr>appType := ty\<rparr>\<rparr>
                    in if ty = APP_TYPE_NORMAL then UnpackHandshakeMsgForNormal lib root c
                       else if ty = APP_TYPE_AUTH then
                         (case GetJsonObjectStringItem root JSON_KEY_PKG_NAME PKG_NAME_SIZE_MAX of
                            None \<Rightarrow> (SOFTBUS_ERR, c)
                          | Some v \<Rightarrow> (SOFTBUS_OK, upd_peerData (\<lambda>d. d\<lparr>pkgName := v\<rparr>) c))
                       else
                         (case GetJsonObjectStringItem root JSON_KEY_SESSION_KEY BASE64KEY of
                            None \<Rightarrow> (SOFTBUS_ERR, c)
                          | Some key \<Rightarrow> decode_session_key lib key c)))"

definition TransProxyPackIdentity :: "json_lib \<Rightarrow> string option \<Rightarrow> string option" where
  "TransProxyPackIdentity lib idp =
     (case idp of
        None \<Rightarrow> None
      | Some i \<Rightarrow>
          if \<not> cJSON_CreateObject lib then None
          else Option.bind (AddStringToJsonObject lib JSON_KEY_IDENTITY i []) (cJSON_PrintUnformatted lib))"

definition TransProxyUnpackIdentity :: "json_lib \<Rightarrow> string \<Rightarrow> nat \<Rightarrow> int \<times> string option" where
  "TransProxyUnpackIdentity lib msg identitySize =
     (case cJSON_Parse lib msg of
        None \<Rightarrow> (SOFTBUS_ERR, None)
      | Some root \<Rightarrow>
          (case GetJsonObjectStringItem root JSON_KEY_IDENTITY identitySize of
             None \<Rightarrow> (SOFTBUS_ERR, None)
           | Some i \<Rightarrow> (SOFTBUS_OK, Some i)))"

section \<open>Control messages\<close>

abbreviation (input) CONN_LOW :: int where "CONN_LOW \<equiv> 1"
abbreviation (input) CONN_HIGH :: int where "CONN_HIGH \<equiv> 3"
abbreviation (input) INVALID_CHANNEL_ID :: "16 word" where "INVALID_CHANNEL_ID \<equiv> - 1"

text \<open>
  What a control function has sent: connection, bytes and priority. Sending itself
  (\<^verbatim>\<open>TransProxyTransSendMsg\<close>) is an argument that gives its return code, storing the side of a channel
  (\<^verbatim>\<open>TransProxySetChiperSide\<close>) one that also changes the state of the caller.
\<close>

type_synonym sent = "(32 word \<times> byte list \<times> int) list"
type_synonym sender = "32 word \<Rightarrow> byte list \<Rightarrow> int \<Rightarrow> int"

definition msg_type_byte :: "8 word \<Rightarrow> 8 word" where
  "msg_type_byte t = (t AND FOUR_BIT_MASK) OR push_bit VERSION_SHIFT PROXY_VERSION"

text \<open>A C string with its terminating zero, and the string at the start of some bytes.\<close>

definition cstr_bytes :: "string \<Rightarrow> byte list" where
  "cstr_bytes s = map of_char s @ [0]"

definition cstr :: "byte list \<Rightarrow> string" where
  "cstr bs = map (\<lambda>b. char_of (unat b)) (takeWhile (\<lambda>b. b \<noteq> 0) bs)"

definition TransProxySendMessage ::
  "msg_env \<Rightarrow> sender \<Rightarrow> ProxyChannelInfo \<Rightarrow> byte list \<Rightarrow> int \<Rightarrow> int \<times> sent" where
  "TransProxySendMessage env send info payLoad priority =
     (let h = \<lparr>m_type = msg_type_byte PROXYCHANNEL_MSG_TYPE_NORMAL,
               chiper = (if appType (appInfo info) \<noteq> APP_TYPE_NORMAL then ENCRYPTED else 0),
               m_myId = myId info, m_peerId = peerId info, reserved = 0\<rparr>
      in case TransProxyPackMessage env h (connId info) payLoad of
           None \<Rightarrow> (SOFTBUS_TRANS_PROXY_PACKMSG_ERR, [])
         | Some (buf, _) \<Rightarrow> (send (connId info) buf priority, [(connId info, buf, priority)]))"

definition TransProxyHandshake ::
  "json_lib \<Rightarrow> msg_env \<Rightarrow> sender \<Rightarrow> (int \<Rightarrow> int \<Rightarrow> 's \<Rightarrow> int \<times> 's) \<Rightarrow> ProxyChannelInfo \<Rightarrow> 's \<Rightarrow> (int \<times> sent) \<times> 's" where
  "TransProxyHandshake lib env send setSide info st =
     (let h = \<lparr>m_type = msg_type_byte PROXYCHANNEL_MSG_TYPE_HANDSHAKE, chiper = ENCRYPTED,
               m_myId = myId info, m_peerId = INVALID_CHANNEL_ID, reserved = 0\<rparr>
      in case TransProxyPackHandshakeMsg lib info of
           None \<Rightarrow> ((SOFTBUS_ERR, []), st)
         | Some payLoad \<Rightarrow>
             (case TransProxyPackMessage env h (connId info) (cstr_bytes payLoad) of
                None \<Rightarrow> ((SOFTBUS_ERR, []), st)
              | Some (buf, h') \<Rightarrow>
                  (case if chiper h' AND AUTH_SERVER_SIDE \<noteq> 0
                        then setSide (channelId info) SERVER_SIDE_FLAG st else (SOFTBUS_OK, st) of
                     (ret, st1) \<Rightarrow>
                       if ret \<noteq> SOFTBUS_OK then ((SOFTBUS_ERR, []), st1)
                       else ((if send (connId info) buf CONN_HIGH \<noteq> SOFTBUS_OK then SOFTBUS_ERR else SOFTBUS_OK,
                              [(connId info, buf, CONN_HIGH)]), st1))))"

definition TransProxyAckHandshake ::
  "json_lib \<Rightarrow> msg_env \<Rightarrow> sender \<Rightarrow> 32 word \<Rightarrow> ProxyChannelInfo \<Rightarrow> int \<times> sent" where
  "TransProxyAckHandshake lib env send cid chan =
     (case TransProxyPackHandshakeAckMsg lib chan of
        None \<Rightarrow> (SOFTBUS_ERR, [])
      | Some payLoad \<Rightarrow>
          let h = \<lparr>m_type = msg_type_byte PROXYCHANNEL_MSG_TYPE_HANDSHAKE_ACK, chiper = ENCRYPTED,
                   m_myId = myId chan, m_peerId = peerId chan, reserved = 0\<rparr>
          in case TransProxyPackMessage env h cid (cstr_bytes payLoad) of
               None \<Rightarrow> (SOFTBUS_ERR, [])
             | Some (buf, _) \<Rightarrow>
                 (if send cid buf CONN_HIGH \<noteq> SOFTBUS_OK then SOFTBUS_ERR else SOFTBUS_OK,
                  [(cid, buf, CONN_HIGH)]))"

definition TransProxyKeepalive ::
  "json_lib \<Rightarrow> msg_env \<Rightarrow> 32 word \<Rightarrow> ProxyChannelInfo \<Rightarrow> sent" where
  "TransProxyKeepalive lib env cid info =
     (case TransProxyPackIdentity lib (Some (identity info)) of
        None \<Rightarrow> []
      | Some payLoad \<Rightarrow>
          let h = \<lparr>m_type = msg_type_byte PROXYCHANNEL_MSG_TYPE_KEEPALIVE, chiper = ENCRYPTED,
                   m_myId = myId info, m_peerId = peerId info, reserved = 0\<rparr>
          in case TransProxyPackMessage env h cid (cstr_bytes payLoad) of
               None \<Rightarrow> []
             | Some (buf, _) \<Rightarrow> [(cid, buf, CONN_HIGH)])"

definition TransProxyAckKeepalive ::
  "json_lib \<Rightarrow> msg_env \<Rightarrow> sender \<Rightarrow> ProxyChannelInfo \<Rightarrow> int \<times> sent" where
  "TransProxyAckKeepalive lib env send info =
     (case TransProxyPackIdentity lib (Some (identity info)) of
        None \<Rightarrow> (SOFTBUS_ERR, [])
      | Some payLoad \<Rightarrow>
          let h = \<lparr>m_type = msg_type_byte PROXYCHANNEL_MSG_TYPE_KEEPALIVE_ACK, chiper = ENCRYPTED,
                   m_myId = myId info, m_peerId = peerId info, reserved = 0\<rparr>
          in case TransProxyPackMessage env h (connId info) (cstr_bytes payLoad) of
               None \<Rightarrow> (SOFTBUS_ERR, [])
             | Some (buf, _) \<Rightarrow>
                 (if send (connId info) buf CONN_HIGH \<noteq> SOFTBUS_OK then SOFTBUS_ERR else SOFTBUS_OK,
                  [(connId info, buf, CONN_HIGH)]))"

definition TransProxyResetPeer ::
  "json_lib \<Rightarrow> msg_env \<Rightarrow> sender \<Rightarrow> ProxyChannelInfo \<Rightarrow> int \<times> sent" where
  "TransProxyResetPeer lib env send info =
     (case TransProxyPackIdentity lib (Some (identity info)) of
        None \<Rightarrow> (SOFTBUS_ERR, [])
      | Some payLoad \<Rightarrow>
          let h = \<lparr>m_type = msg_type_byte PROXYCHANNEL_MSG_TYPE_RESET, chiper = ENCRYPTED,
                   m_myId = myId info, m_peerId = peerId info, reserved = 0\<rparr>
          in case TransProxyPackMessage env h (connId info) (cstr_bytes payLoad) of
               None \<Rightarrow> (SOFTBUS_ERR, [])
             | Some (buf, _) \<Rightarrow>
                 (if send (connId info) buf CONN_LOW \<noteq> SOFTBUS_OK then SOFTBUS_ERR else SOFTBUS_OK,
                  [(connId info, buf, CONN_LOW)]))"

section \<open>Parsing what was packed\<close>

lemma type_byte:
  assumes "t < PROXYCHANNEL_MSG_TYPE_MAX"
  shows "drop_bit VERSION_SHIFT (msg_type_byte t) AND FOUR_BIT_MASK = PROXY_VERSION"
    "msg_type_byte t AND FOUR_BIT_MASK = t"
proof -
  have "unat t < 6" using assms by (simp add: word_less_nat_alt)
  then have "unat t = 0 \<or> unat t = 1 \<or> unat t = 2 \<or> unat t = 3 \<or> unat t = 4 \<or> unat t = 5" by linarith
  then have "t = 0 \<or> t = 1 \<or> t = 2 \<or> t = 3 \<or> t = 4 \<or> t = 5" by (simp add: word_unat_eq_iff)
  then show "drop_bit VERSION_SHIFT (msg_type_byte t) AND FOUR_BIT_MASK = PROXY_VERSION"
    "msg_type_byte t AND FOUR_BIT_MASK = t"
    by (auto simp: msg_type_byte_def)
qed

lemma le_word_16 [simp]: "(le_word (le_bytes 2 w) :: 16 word) = w"
  by (simp add: le_word_le_bytes take_bit_word_eq_self)

lemma length_mhead_bytes [simp]: "length (mhead_bytes h) = 8"
  by (simp add: mhead_bytes_def)

text \<open>The head of a message with its identifiers in the receiver's view.\<close>

lemma ParseMessageHead_packed:
  assumes "m_type h = msg_type_byte t" "t < PROXYCHANNEL_MSG_TYPE_MAX"
  shows "TransProxyParseMessageHead (mhead_bytes h @ p) msg =
    (SOFTBUS_OK, msg\<lparr>msgHead := (msgHead msg)\<lparr>m_type := t, chiper := chiper h, m_peerId := m_myId h,
        m_myId := m_peerId h\<rparr>, m_data := p\<rparr>)"
proof -
  have b: "(mhead_bytes h @ p) ! 0 = m_type h" "(mhead_bytes h @ p) ! 1 = chiper h"
    "take 2 (drop 2 (mhead_bytes h @ p)) = le_bytes 2 (m_myId h)"
    "take 2 (drop 4 (mhead_bytes h @ p)) = le_bytes 2 (m_peerId h)"
    by (simp_all add: mhead_bytes_def)
  show ?thesis
    unfolding TransProxyParseMessageHead_def Let_def b using assms type_byte [OF assms(2)]
    by (simp add: not_le)
qed

text \<open>
  What the encryption promises to the two ends of a connection: it tells its side, client or
  server, and the other end undoes it with the opposite side.
\<close>

definition ciphers_match :: "msg_env \<Rightarrow> 32 word \<Rightarrow> msg_env \<Rightarrow> 32 word \<Rightarrow> bool" where
  "ciphers_match env cid env' cid' \<longleftrightarrow> (\<forall>opt p side c.
     pm_option env cid = Some opt \<longrightarrow> pm_enc env opt p = Some (side, c) \<longrightarrow>
     (side = CLIENT_SIDE_FLAG \<or> side = SERVER_SIDE_FLAG) \<and> c \<noteq> [] \<and> pm_alloc env' \<and>
     (\<exists>opt'. pm_option env' cid' = Some opt' \<and> pm_dec env' opt' (1 - side) c = Some p))"

definition side_known :: "msg_env \<Rightarrow> 32 word \<Rightarrow> msg_env \<Rightarrow> byte list \<Rightarrow> int \<Rightarrow> bool" where
  "side_known env cid env' p ch \<longleftrightarrow> (\<forall>opt side c. pm_option env cid = Some opt \<longrightarrow>
     pm_enc env opt p = Some (side, c) \<longrightarrow> pm_side env' ch = Some (1 - side))"

lemma ChiperSideProc_packed:
  assumes "side = CLIENT_SIDE_FLAG \<or> side = SERVER_SIDE_FLAG"
    and "m_type h \<noteq> PROXYCHANNEL_MSG_TYPE_HANDSHAKE \<longrightarrow> pm_side env (sint (m_myId h)) = Some (1 - side)"
    and "chiper h = (if side = SERVER_SIDE_FLAG then ENCRYPTED OR AUTH_SERVER_SIDE else ENCRYPTED)"
  shows "ChiperSideProc env h = Some (1 - side)"
  using assms by (auto simp: ChiperSideProc_def)

lemma packed_parses:
  assumes h: "m_type h = msg_type_byte t" "t < PROXYCHANNEL_MSG_TYPE_MAX" "chiper h = 0 \<or> chiper h = ENCRYPTED"
    and pk: "TransProxyPackMessage env h cid payload = Some (buf, h')"
    and match: "ciphers_match env cid env' (m_connId msg)"
    and side: "t \<noteq> PROXYCHANNEL_MSG_TYPE_HANDSHAKE \<longrightarrow> side_known env cid env' payload (sint (m_peerId h))"
  shows "\<exists>msg'. TransProxyParseMessage env' (drop 24 buf) msg = (SOFTBUS_OK, msg') \<and> m_data msg' = payload \<and>
    m_type (msgHead msg') = t \<and> chiper (msgHead msg') = chiper h' \<and>
    m_peerId (msgHead msg') = m_myId h \<and> m_myId (msgHead msg') = m_peerId h"
proof (cases "chiper h = 0")
  case True
  then have "buf = replicate 24 0 @ mhead_bytes h @ payload" "h' = h" "payload \<noteq> []"
    using pk by (auto simp: TransProxyPackMessage_def memcpy_s_def ConnGetHeadSize_def split: if_splits option.splits)
  then show ?thesis
    using True ParseMessageHead_packed [OF h(1,2)] by (simp add: TransProxyParseMessage_def)
next
  case False
  then have ch: "chiper h = ENCRYPTED" using h(3) by blast
  obtain opt sd c where enc: "pm_option env cid = Some opt" "pm_enc env opt payload = Some (sd, c)"
    and h': "h' = (if sd = SERVER_SIDE_FLAG then h\<lparr>chiper := ENCRYPTED OR AUTH_SERVER_SIDE\<rparr> else h)"
    and buf: "buf = replicate 24 0 @ mhead_bytes h' @ c"
    using pk ch
    by (auto simp: TransProxyPackMessage_def memcpy_s_def ConnGetHeadSize_def Let_def split: option.splits if_splits)
  from match enc obtain opt' where sd: "sd = CLIENT_SIDE_FLAG \<or> sd = SERVER_SIDE_FLAG" "c \<noteq> []" "pm_alloc env'"
    and dec: "pm_option env' (m_connId msg) = Some opt'" "pm_dec env' opt' (1 - sd) c = Some payload"
    unfolding ciphers_match_def by blast
  have k: "t \<noteq> PROXYCHANNEL_MSG_TYPE_HANDSHAKE \<longrightarrow> pm_side env' (sint (m_peerId h)) = Some (1 - sd)"
    using side enc unfolding side_known_def by blast
  define hd' where "hd' = (msgHead msg)\<lparr>m_type := t, chiper := chiper h', m_peerId := m_myId h, m_myId := m_peerId h\<rparr>"
  have "TransProxyParseMessageHead (mhead_bytes h' @ c) msg = (SOFTBUS_OK, msg\<lparr>msgHead := hd', m_data := c\<rparr>)"
    using ParseMessageHead_packed [of h' t c msg] h(1,2) by (simp add: h' hd'_def)
  moreover have "chiper hd' AND ENCRYPTED \<noteq> 0" using ch by (simp add: hd'_def h')
  moreover have "ChiperSideProc env' hd' = Some (1 - sd)"
    using sd(1) k ch by (intro ChiperSideProc_packed) (auto simp: hd'_def h')
  moreover have "\<not> length (mhead_bytes h' @ c) \<le> 8" "drop 8 (mhead_bytes h' @ c) = c" using sd(2) by simp_all
  ultimately show ?thesis
    using sd(3) dec buf by (simp add: TransProxyParseMessage_def hd'_def del: length_append)
qed

section \<open>Properties of the messages\<close>

text \<open>C35: A message that was packed, with or without encryption, and whose bytes behind the header of
  the connection are parsed at the other end, gives back its type and its payload, with the
  channel identifier of the sender as that of the peer and the other way round. Encrypted
  messages use the side the handshake carries or the channel has stored.\<close>

theorem proxy_message_roundtrip:
  assumes "m_type h = msg_type_byte t" "t < PROXYCHANNEL_MSG_TYPE_MAX" "chiper h = 0 \<or> chiper h = ENCRYPTED"
    and "TransProxyPackMessage env h cid payload = Some (buf, h')"
    and "ciphers_match env cid env' (m_connId msg)"
    and "t \<noteq> PROXYCHANNEL_MSG_TYPE_HANDSHAKE \<longrightarrow> side_known env cid env' payload (sint (m_peerId h))"
  shows "case TransProxyParseMessage env' (drop 24 buf) msg of (ret, msg') \<Rightarrow>
    ret = SOFTBUS_OK \<and> m_data msg' = payload \<and> m_type (msgHead msg') = t \<and>
    m_peerId (msgHead msg') = m_myId h \<and> m_myId (msgHead msg') = m_peerId h"
  using packed_parses [OF assms] by auto

text \<open>Two ends with a toy cipher that puts one byte in front.\<close>

definition demo_menv :: msg_env where
  "demo_menv = \<lparr>pm_alloc = True,
     pm_option = (\<lambda>_. Some \<lparr>co_type = CONNECT_TCP, co_info = IpOption ''10.0.0.1'' 1\<rparr>),
     pm_side = (\<lambda>_. Some 0), pm_enc = (\<lambda>_ p. Some (1, 7 # p)),
     pm_dec = (\<lambda>_ side c. if side = 0 then Some (tl c) else None), pm_headLen = 28\<rparr>"

definition demo_msg :: ProxyMessage where
  "demo_msg = \<lparr>msgHead = \<lparr>m_type = 0, chiper = 0, m_myId = 0, m_peerId = 0, reserved = 0\<rparr>,
     m_data = [], m_connId = 3, m_chiperSide = 0\<rparr>"

definition demo_head :: ProxyMessageHead where
  "demo_head = \<lparr>m_type = msg_type_byte 0, chiper = ENCRYPTED, m_myId = 5, m_peerId = 9, reserved = 0\<rparr>"

lemma demo_match: "ciphers_match demo_menv c demo_menv c'" "side_known demo_menv c demo_menv p ch"
  by (simp_all add: ciphers_match_def side_known_def demo_menv_def)

theorem proxy_message_roundtrip_witness:
  "\<exists>buf h'. TransProxyPackMessage demo_menv demo_head 3 [1, 2] = Some (buf, h') \<and>
    m_data (snd (TransProxyParseMessage demo_menv (drop 24 buf) demo_msg)) = [1, 2] \<and>
    m_myId (msgHead (snd (TransProxyParseMessage demo_menv (drop 24 buf) demo_msg))) = 9"
proof -
  obtain buf h' where p: "TransProxyPackMessage demo_menv demo_head 3 [1, 2] = Some (buf, h')"
    by (simp add: TransProxyPackMessage_def demo_menv_def demo_head_def memcpy_s_def Let_def)
  with proxy_message_roundtrip [of demo_head 0 demo_menv 3 "[1, 2]" buf h' demo_menv demo_msg] demo_match
  show ?thesis by (simp add: demo_head_def split: prod.splits)
qed

section \<open>The handshake between two ends\<close>

text \<open>
  What the JSON library and the base64 coder promise: parsing what was printed gives the object
  back, the text has no zero byte, and an encoded session key is decoded again and fits its
  buffer.
\<close>

definition lib_ok :: "json_lib \<Rightarrow> json_lib \<Rightarrow> bool" where
  "lib_ok lib lib' \<longleftrightarrow>
     (\<forall>root s. cJSON_PrintUnformatted lib root = Some s \<longrightarrow> cJSON_Parse lib' s = Some root \<and> CHR 0x00 \<notin> set s) \<and>
     (\<forall>k b. length k = SESSION_KEY_LENGTH \<longrightarrow> SoftBusBase64Encode lib k = Some b \<longrightarrow>
        SoftBusBase64Decode lib' b = Some k \<and> length b < BASE64KEY)"

text \<open>The fields of a channel fit the arrays they are stored in.\<close>

definition data_ok :: "AppInfoData \<Rightarrow> bool" where
  "data_ok d \<longleftrightarrow> length (deviceId d) < DEVICE_ID_SIZE_MAX \<and> length (pkgName d) < PKG_NAME_SIZE_MAX \<and>
     length (sessionName d) < SESSION_NAME_SIZE_MAX \<and> 0 \<le> uid d \<and> 0 \<le> pid d"

definition info_ok :: "ProxyChannelInfo \<Rightarrow> bool" where
  "info_ok c \<longleftrightarrow> length (identity c) \<le> IDENTITY_LEN \<and> 0 \<le> appType (appInfo c) \<and>
     length (sessionKey (appInfo c)) = SESSION_KEY_LENGTH \<and> data_ok (myData (appInfo c)) \<and>
     data_ok (peerData (appInfo c))"

definition handshake_tail :: "AppInfo \<Rightarrow> string \<Rightarrow> json" where
  "handshake_tail app key =
     (if appType app = APP_TYPE_NORMAL then
        [(JSON_KEY_UID, JNum (uid (myData app))), (JSON_KEY_PID, JNum (pid (myData app))),
         (JSON_KEY_GROUP_ID, JStr (groupId app)), (JSON_KEY_PKG_NAME, JStr (pkgName (myData app))),
         (JSON_KEY_SESSION_KEY, JStr key)]
      else if appType app = APP_TYPE_AUTH then [(JSON_KEY_PKG_NAME, JStr (pkgName (myData app)))]
      else [(JSON_KEY_SESSION_KEY, JStr key)])"

definition handshake_root :: "ProxyChannelInfo \<Rightarrow> json \<Rightarrow> string \<Rightarrow> json" where
  "handshake_root c prio key =
     (let app = appInfo c in
      [(JSON_KEY_TYPE, JNum (appType app)), (JSON_KEY_IDENTITY, JStr (identity c)),
       (JSON_KEY_DEVICE_ID, JStr (deviceId (myData app))), (JSON_KEY_SRC_BUS_NAME, JStr (sessionName (myData app))),
       (JSON_KEY_DST_BUS_NAME, JStr (sessionName (peerData app)))] @ prio @ handshake_tail app key)"

lemma PackHandshakeMsg_root:
  assumes "TransProxyPackHandshakeMsg lib c = Some s"
  shows "\<exists>prio key. (prio = [] \<or> prio = [(JSON_KEY_HAS_PRIORITY, JTrue)]) \<and>
    cJSON_PrintUnformatted lib (handshake_root c prio key) = Some s \<and>
    (appType (appInfo c) \<noteq> APP_TYPE_AUTH \<longrightarrow> SoftBusBase64Encode lib (sessionKey (appInfo c)) = Some key)"
proof -
  define prio where "prio = (if cJSON_CreateItem lib JSON_KEY_HAS_PRIORITY then [(JSON_KEY_HAS_PRIORITY, JTrue)] else [])"
  have "\<exists>key. cJSON_PrintUnformatted lib (handshake_root c prio key) = Some s \<and>
    (appType (appInfo c) \<noteq> APP_TYPE_AUTH \<longrightarrow> SoftBusBase64Encode lib (sessionKey (appInfo c)) = Some key)"
    using assms
    by (auto simp: TransProxyPackHandshakeMsg_def PackHandshakeMsgForNormal_def AddNumberToJsonObject_def
        AddStringToJsonObject_def cJSON_AddTrueToObject_def handshake_root_def handshake_tail_def prio_def
        Let_def bind_eq_Some_conv split: if_splits)
  then show ?thesis unfolding prio_def by (cases "cJSON_CreateItem lib JSON_KEY_HAS_PRIORITY") auto
qed

lemma UnpackHandshakeMsg_root:
  assumes lib: "cJSON_Parse lib s = Some (handshake_root c prio key)"
    and prio: "prio = [] \<or> prio = [(JSON_KEY_HAS_PRIORITY, JTrue)]" and ok: "info_ok c"
    and key: "appType (appInfo c) \<noteq> APP_TYPE_AUTH \<longrightarrow>
      SoftBusBase64Decode lib key = Some (sessionKey (appInfo c)) \<and> length key < BASE64KEY"
  shows "\<exists>c'. TransProxyUnpackHandshakeMsg lib s chan = (SOFTBUS_OK, c') \<and> identity c' = identity c \<and>
    appType (appInfo c') = appType (appInfo c) \<and>
    deviceId (peerData (appInfo c')) = deviceId (myData (appInfo c)) \<and>
    sessionName (peerData (appInfo c')) = sessionName (myData (appInfo c)) \<and>
    sessionName (myData (appInfo c')) = sessionName (peerData (appInfo c)) \<and>
    (appType (appInfo c) = APP_TYPE_NORMAL \<longrightarrow> uid (peerData (appInfo c')) = uid (myData (appInfo c)) \<and>
       pid (peerData (appInfo c')) = pid (myData (appInfo c))) \<and>
    (appType (appInfo c) = APP_TYPE_NORMAL \<or> appType (appInfo c) = APP_TYPE_AUTH \<longrightarrow>
       pkgName (peerData (appInfo c')) = pkgName (myData (appInfo c))) \<and>
    (appType (appInfo c) \<noteq> APP_TYPE_AUTH \<longrightarrow> sessionKey (appInfo c') = sessionKey (appInfo c))"
proof -
  consider "appType (appInfo c) = APP_TYPE_NORMAL" | "appType (appInfo c) = APP_TYPE_AUTH"
    | "appType (appInfo c) \<noteq> APP_TYPE_NORMAL" "appType (appInfo c) \<noteq> APP_TYPE_AUTH" by blast
  then show ?thesis
    using prio lib ok key
    by cases
      (auto simp: TransProxyUnpackHandshakeMsg_def UnpackHandshakeMsgForNormal_def decode_session_key_def
        handshake_root_def handshake_tail_def GetJsonObjectNumberItem_def GetJsonObjectStringItem_def
        strcpy_s_def try_get_def upd_peerData_def upd_myData_def info_ok_def data_ok_def Let_def)
qed

lemma char_of_of_char_word: "char_of (unat (of_char c :: 8 word)) = c"
proof -
  have "unat (of_char c :: 8 word) = of_char c"
    by (simp flip: of_nat_of_char [where ?'a = "8 word"] add: unat_of_nat)
  then show ?thesis by simp
qed

lemma of_char_word_eq_0: "(of_char c :: 8 word) = 0 \<Longrightarrow> c = CHR 0x00"
  using char_of_of_char_word [of c] by (simp add: char_of_def)

lemma cstr_cstr_bytes: "CHR 0x00 \<notin> set s \<Longrightarrow> cstr (cstr_bytes s) = s"
proof -
  assume "CHR 0x00 \<notin> set s"
  then have "\<forall>b \<in> set (map of_char s). (b :: 8 word) \<noteq> 0" using of_char_word_eq_0 by auto
  then have "takeWhile (\<lambda>b. b \<noteq> 0) (cstr_bytes s) = map of_char s"
    unfolding cstr_bytes_def by (subst takeWhile_append2) auto
  then show ?thesis by (simp add: cstr_def char_of_of_char_word o_def map_idI)
qed

lemma ParseMessage_connId: "TransProxyParseMessage env d msg = (r, msg') \<Longrightarrow> m_connId msg' = m_connId msg"
  by (auto simp: TransProxyParseMessage_def TransProxyParseMessageHead_def Let_def split: if_splits option.splits prod.splits)

lemma handshake_parses:
  assumes "TransProxyHandshake lib env send setSide info st = ((SOFTBUS_OK, [(cid, buf, priority)]), st')"
    and "lib_ok lib lib'" "info_ok info" "ciphers_match env (connId info) env' (m_connId msg)"
  shows "\<exists>msg' c'. TransProxyParseMessage env' (drop 24 buf) msg = (SOFTBUS_OK, msg') \<and>
    m_connId msg' = m_connId msg \<and>
    m_type (msgHead msg') = PROXYCHANNEL_MSG_TYPE_HANDSHAKE \<and> m_peerId (msgHead msg') = myId info \<and>
    TransProxyUnpackHandshakeMsg lib' (cstr (m_data msg')) chan = (SOFTBUS_OK, c') \<and>
    identity c' = identity info \<and> appType (appInfo c') = appType (appInfo info) \<and>
    deviceId (peerData (appInfo c')) = deviceId (myData (appInfo info)) \<and>
    sessionName (peerData (appInfo c')) = sessionName (myData (appInfo info)) \<and>
    sessionName (myData (appInfo c')) = sessionName (peerData (appInfo info)) \<and>
    (appType (appInfo info) = APP_TYPE_NORMAL \<longrightarrow> uid (peerData (appInfo c')) = uid (myData (appInfo info)) \<and>
       pid (peerData (appInfo c')) = pid (myData (appInfo info))) \<and>
    (appType (appInfo info) = APP_TYPE_NORMAL \<or> appType (appInfo info) = APP_TYPE_AUTH \<longrightarrow>
       pkgName (peerData (appInfo c')) = pkgName (myData (appInfo info))) \<and>
    (appType (appInfo info) \<noteq> APP_TYPE_AUTH \<longrightarrow> sessionKey (appInfo c') = sessionKey (appInfo info))"
proof -
  let ?h = "\<lparr>m_type = msg_type_byte PROXYCHANNEL_MSG_TYPE_HANDSHAKE, chiper = ENCRYPTED,
    m_myId = myId info, m_peerId = INVALID_CHANNEL_ID, reserved = 0\<rparr>"
  obtain s h' where s: "TransProxyPackHandshakeMsg lib info = Some s"
    and p: "TransProxyPackMessage env ?h (connId info) (cstr_bytes s) = Some (buf, h')"
    using assms(1) by (auto simp: TransProxyHandshake_def Let_def split: option.splits if_splits prod.splits)
  from PackHandshakeMsg_root [OF s] obtain prio key where r:
    "prio = [] \<or> prio = [(JSON_KEY_HAS_PRIORITY, JTrue)]"
    "cJSON_PrintUnformatted lib (handshake_root info prio key) = Some s"
    "appType (appInfo info) \<noteq> APP_TYPE_AUTH \<longrightarrow> SoftBusBase64Encode lib (sessionKey (appInfo info)) = Some key"
    by blast
  have l: "cJSON_Parse lib' s = Some (handshake_root info prio key)" "CHR 0x00 \<notin> set s"
    using assms(2) r(2) unfolding lib_ok_def by blast+
  have k: "appType (appInfo info) \<noteq> APP_TYPE_AUTH \<longrightarrow>
      SoftBusBase64Decode lib' key = Some (sessionKey (appInfo info)) \<and> length key < BASE64KEY"
    using assms(2,3) r(3) unfolding lib_ok_def info_ok_def by blast
  have "\<exists>msg'. TransProxyParseMessage env' (drop 24 buf) msg = (SOFTBUS_OK, msg') \<and> m_data msg' = cstr_bytes s \<and>
      m_type (msgHead msg') = PROXYCHANNEL_MSG_TYPE_HANDSHAKE \<and> chiper (msgHead msg') = chiper h' \<and>
      m_peerId (msgHead msg') = m_myId ?h \<and> m_myId (msgHead msg') = m_peerId ?h"
    using assms(4) by (intro packed_parses [OF _ _ _ p]) simp_all
  then obtain msg' where m: "TransProxyParseMessage env' (drop 24 buf) msg = (SOFTBUS_OK, msg')"
    "m_data msg' = cstr_bytes s" "m_type (msgHead msg') = PROXYCHANNEL_MSG_TYPE_HANDSHAKE"
    "m_peerId (msgHead msg') = myId info" by auto
  have "cstr (m_data msg') = s" using m(2) l(2) by (simp add: cstr_cstr_bytes)
  with UnpackHandshakeMsg_root [OF l(1) r(1) assms(3) k, of chan] m ParseMessage_connId [OF m(1)] show ?thesis by auto
qed

text \<open>The bytes a handshake sends, parsed and unpacked at the other end, give the receiver the
  sender's identity, application type and device, the sender's session name as that of the peer
  and the name the sender asked for as its own; with a normal application also user, process,
  package and session key, with an authentication channel the package, otherwise the session
  key.\<close>

theorem proxy_handshake_end_to_end:
  assumes "TransProxyHandshake lib env send setSide info st = ((SOFTBUS_OK, [(cid, buf, priority)]), st')"
    and "lib_ok lib lib'" "info_ok info" "ciphers_match env (connId info) env' (m_connId msg)"
  shows "\<exists>msg' c'. TransProxyParseMessage env' (drop 24 buf) msg = (SOFTBUS_OK, msg') \<and>
    m_type (msgHead msg') = PROXYCHANNEL_MSG_TYPE_HANDSHAKE \<and> m_peerId (msgHead msg') = myId info \<and>
    TransProxyUnpackHandshakeMsg lib' (cstr (m_data msg')) chan = (SOFTBUS_OK, c') \<and>
    identity c' = identity info \<and> appType (appInfo c') = appType (appInfo info) \<and>
    deviceId (peerData (appInfo c')) = deviceId (myData (appInfo info)) \<and>
    sessionName (peerData (appInfo c')) = sessionName (myData (appInfo info)) \<and>
    sessionName (myData (appInfo c')) = sessionName (peerData (appInfo info)) \<and>
    (appType (appInfo info) = APP_TYPE_NORMAL \<longrightarrow> uid (peerData (appInfo c')) = uid (myData (appInfo info)) \<and>
       pid (peerData (appInfo c')) = pid (myData (appInfo info))) \<and>
    (appType (appInfo info) = APP_TYPE_NORMAL \<or> appType (appInfo info) = APP_TYPE_AUTH \<longrightarrow>
       pkgName (peerData (appInfo c')) = pkgName (myData (appInfo info))) \<and>
    (appType (appInfo info) \<noteq> APP_TYPE_AUTH \<longrightarrow> sessionKey (appInfo c') = sessionKey (appInfo info))"
  using handshake_parses [OF assms] by blast

definition demo_appdata :: AppInfoData where
  "demo_appdata = \<lparr>apiVersion = 2, deviceId = ''D'', pkgName = ''P'', sessionName = ''S'', uid = 3, pid = 4,
     authState = [], ip = [], port = 0, a_channelId = 0\<rparr>"

definition demo_chan :: ProxyChannelInfo where
  "demo_chan = \<lparr>channelId = 1, p_reqId = 0, p_isServer = False, status = 0, timeout = 0, myId = 5, peerId = 0,
     connId = 3, p_type = CONNECT_TCP, seq = 0, identity = ''I'',
     appInfo = \<lparr>groupId = [], sessionKey = replicate 32 CHR ''k'', a_reqId = [], routeType = 0, businessType = 0,
       streamType = 0, udpConnType = 0, udpChannelOptType = 0, a_fd = 0, appType = 1,
       myData = demo_appdata, peerData = demo_appdata\<lparr>sessionName := ''T''\<rparr>\<rparr>, chiperSide = 0\<rparr>"

definition demo_lib :: json_lib where
  "demo_lib = \<lparr>cJSON_CreateObject = True, cJSON_CreateItem = (\<lambda>_. True),
     cJSON_PrintUnformatted = (\<lambda>root.
       if root = handshake_root demo_chan [(JSON_KEY_HAS_PRIORITY, JTrue)] ''K'' then Some ''J'' else None),
     cJSON_Parse = (\<lambda>_. Some (handshake_root demo_chan [(JSON_KEY_HAS_PRIORITY, JTrue)] ''K'')),
     SoftBusBase64Encode = (\<lambda>k. if k = replicate 32 CHR ''k'' then Some ''K'' else None),
     SoftBusBase64Decode = (\<lambda>_. Some (replicate 32 CHR ''k''))\<rparr>"

theorem proxy_handshake_end_to_end_witness:
  "\<exists>buf msg' c'. TransProxyHandshake demo_lib demo_menv (\<lambda>_ _ _. 0) (\<lambda>_ _ st. (0, st)) demo_chan () = ((SOFTBUS_OK, [(3, buf, 3)]), ()) \<and>
    TransProxyParseMessage demo_menv (drop 24 buf) demo_msg = (SOFTBUS_OK, msg') \<and>
    TransProxyUnpackHandshakeMsg demo_lib (cstr (m_data msg')) demo_chan = (SOFTBUS_OK, c') \<and>
    sessionName (myData (appInfo c')) = ''T'' \<and> uid (peerData (appInfo c')) = 3"
proof -
  have pk: "TransProxyPackHandshakeMsg demo_lib demo_chan = Some ''J''"
    by (simp add: TransProxyPackHandshakeMsg_def PackHandshakeMsgForNormal_def AddNumberToJsonObject_def
        AddStringToJsonObject_def cJSON_AddTrueToObject_def demo_lib_def handshake_root_def handshake_tail_def
        demo_chan_def demo_appdata_def)
  obtain buf where b: "TransProxyHandshake demo_lib demo_menv (\<lambda>_ _ _. 0) (\<lambda>_ _ st. (0, st)) demo_chan ()
      = ((SOFTBUS_OK, [(3, buf, 3)]), ())"
    by (simp add: TransProxyHandshake_def pk TransProxyPackMessage_def demo_menv_def memcpy_s_def Let_def cstr_bytes_def)
      (simp add: demo_chan_def)
  have "lib_ok demo_lib demo_lib" "info_ok demo_chan"
    by (simp_all add: lib_ok_def demo_lib_def info_ok_def data_ok_def demo_chan_def demo_appdata_def)
  from proxy_handshake_end_to_end [OF b this demo_match(1), of demo_msg demo_chan] b
  show ?thesis by (auto simp: demo_chan_def demo_appdata_def)
qed

end
