(* ===== verification/Adapter_Crypto.thy ===== *)
theory Adapter_Crypto
  imports Softbus_Prelude
begin

text \<open>
  The authenticated encryption of \<^verbatim>\<open>adapter/common/mbedtls/softbus_adapter_crypto.c\<close>: the framing of a
  ciphertext as initialisation vector, encrypted bytes and tag. The mbedtls functions are
  arguments: the cipher as functions of key and initialisation vector, the random generator as the
  outcomes of its calls. An outer \<^const>\<open>None\<close> is a read behind the end of a buffer.
\<close>

section \<open>State and parameters\<close>

abbreviation (input) GCM_IV_LEN :: nat where "GCM_IV_LEN \<equiv> 12"
abbreviation (input) TAG_LEN :: nat where "TAG_LEN \<equiv> 16"
abbreviation (input) OVERHEAD_LEN :: nat where "OVERHEAD_LEN \<equiv> 28"
abbreviation (input) KEY_BITS_UNIT :: nat where "KEY_BITS_UNIT \<equiv> 8"

record AesGcmCipherKey =
  keyLen :: nat
  key :: "8 word list"
  iv :: "8 word list"

text \<open>
  The cipher: \<^verbatim>\<open>mbedtls_gcm_setkey\<close> on key and number of bits, \<^verbatim>\<open>mbedtls_gcm_crypt_and_tag\<close> on key,
  vector and plain text, \<^verbatim>\<open>mbedtls_gcm_auth_decrypt\<close> on key, vector, tag and encrypted bytes.
\<close>

record gcm_lib =
  gcm_setkey :: "8 word list \<Rightarrow> nat \<Rightarrow> int"
  gcm_crypt_and_tag :: "8 word list \<Rightarrow> 8 word list \<Rightarrow> 8 word list \<Rightarrow> int \<times> 8 word list \<times> 8 word list"
  gcm_auth_decrypt :: "8 word list \<Rightarrow> 8 word list \<Rightarrow> 8 word list \<Rightarrow> 8 word list \<Rightarrow> int \<times> 8 word list"

text \<open>
  The random generator: the lock, the outcome of seeding, and return code and bytes of the
  n-th draw. Its state: the static \<^verbatim>\<open>initFlag\<close> and the number of draws made.
\<close>

record rng_env =
  random_lock :: bool
  ctr_drbg_seed :: int
  ctr_drbg_random :: "nat \<Rightarrow> nat \<Rightarrow> int \<times> 8 word list"

record rng =
  initFlag :: bool
  draws :: nat

section \<open>Operations\<close>

definition MbedAesGcmEncrypt ::
  "gcm_lib \<Rightarrow> AesGcmCipherKey \<Rightarrow> 8 word list \<Rightarrow> 32 word \<Rightarrow> int \<times> 8 word list" where
  "MbedAesGcmEncrypt lib ck plainText cipherTextLen =
     (let plainTextSize = of_nat (length plainText) :: 32 word
      in if plainTextSize = 0 \<or> cipherTextLen < plainTextSize + of_nat OVERHEAD_LEN
         then (SOFTBUS_INVALID_PARAM, [])
         else if gcm_setkey lib (key ck) (keyLen ck * KEY_BITS_UNIT) \<noteq> 0 then (SOFTBUS_ENCRYPT_ERR, [])
         else case gcm_crypt_and_tag lib (key ck) (iv ck) plainText of
                (ret, body, tagBuf) \<Rightarrow>
                  if ret \<noteq> 0 then (SOFTBUS_ENCRYPT_ERR, [])
                  else (case memcpy_s (unat cipherTextLen) (iv ck) of
                          None \<Rightarrow> (SOFTBUS_ENCRYPT_ERR, [])
                        | Some front \<Rightarrow>
                            (case memcpy_s (unat (cipherTextLen - of_nat GCM_IV_LEN - plainTextSize)) tagBuf of
                               None \<Rightarrow> (SOFTBUS_ENCRYPT_ERR, [])
                             | Some back \<Rightarrow>
                                 (sint (plainTextSize + of_nat OVERHEAD_LEN), front @ body @ back))))"

text \<open>The ciphertext is the first \<open>cipherTextSize\<close> bytes of the memory \<open>mem\<close>.\<close>

definition MbedAesGcmDecrypt ::
  "gcm_lib \<Rightarrow> AesGcmCipherKey \<Rightarrow> 8 word list \<Rightarrow> 32 word \<Rightarrow> 32 word \<Rightarrow> (int \<times> 8 word list) option" where
  "MbedAesGcmDecrypt lib ck mem cipherTextSize plainLen =
     (if cipherTextSize \<le> of_nat OVERHEAD_LEN \<or> plainLen < cipherTextSize - of_nat OVERHEAD_LEN
      then Some (SOFTBUS_INVALID_PARAM, [])
      else if gcm_setkey lib (key ck) (keyLen ck * KEY_BITS_UNIT) \<noteq> 0 then Some (SOFTBUS_DECRYPT_ERR, [])
      else if length mem < unat cipherTextSize then None
      else let actualPlainLen = cipherTextSize - of_nat OVERHEAD_LEN;
               tagBuf = take TAG_LEN (drop (unat actualPlainLen + GCM_IV_LEN) mem)
           in case gcm_auth_decrypt lib (key ck) (iv ck) tagBuf (take (unat actualPlainLen) (drop GCM_IV_LEN mem)) of
                (ret, plain) \<Rightarrow>
                  if ret \<noteq> 0 then Some (SOFTBUS_DECRYPT_ERR, []) else Some (sint actualPlainLen, plain))"

definition SoftBusGenerateRandomArray :: "rng_env \<Rightarrow> nat \<Rightarrow> rng \<Rightarrow> (int \<times> 8 word list) \<times> rng" where
  "SoftBusGenerateRandomArray env len g =
     (if len = 0 then ((SOFTBUS_INVALID_PARAM, []), g)
      else if \<not> random_lock env then ((SOFTBUS_ERR, []), g)
      else if \<not> initFlag g \<and> ctr_drbg_seed env \<noteq> 0 then ((SOFTBUS_ERR, []), g)
      else case ctr_drbg_random env (draws g) len of
             (ret, bytes) \<Rightarrow>
               ((if ret \<noteq> 0 then (SOFTBUS_ERR, []) else (SOFTBUS_OK, bytes)),
                g\<lparr>initFlag := True, draws := draws g + 1\<rparr>))"

definition SoftBusGenerateSessionKey :: "rng_env \<Rightarrow> nat \<Rightarrow> rng \<Rightarrow> (int \<times> 8 word list) \<times> rng" where
  "SoftBusGenerateSessionKey env len g =
     (case SoftBusGenerateRandomArray env len g of
        ((ret, bytes), g') \<Rightarrow>
          if ret \<noteq> SOFTBUS_OK then ((SOFTBUS_ENCRYPT_ERR, []), g') else ((SOFTBUS_OK, bytes), g'))"

text \<open>The tail that both encrypting functions share.\<close>

definition encrypt_with_iv :: "gcm_lib \<Rightarrow> AesGcmCipherKey \<Rightarrow> 8 word list \<Rightarrow> int \<times> 8 word list" where
  "encrypt_with_iv lib ck input =
     (let outLen = of_nat (length input) + of_nat OVERHEAD_LEN :: 32 word
      in case MbedAesGcmEncrypt lib ck input outLen of
           (result, out) \<Rightarrow> if result \<le> 0 then (SOFTBUS_ENCRYPT_ERR, []) else (SOFTBUS_OK, out))"

definition SoftBusEncryptData ::
  "gcm_lib \<Rightarrow> rng_env \<Rightarrow> AesGcmCipherKey \<Rightarrow> 8 word list \<Rightarrow> rng \<Rightarrow> (int \<times> 8 word list) \<times> rng" where
  "SoftBusEncryptData lib env ck input g =
     (if length input = 0 then ((SOFTBUS_INVALID_PARAM, []), g)
      else case SoftBusGenerateRandomArray env GCM_IV_LEN g of
             ((ret, rnd), g') \<Rightarrow>
               if ret \<noteq> SOFTBUS_OK then ((SOFTBUS_ENCRYPT_ERR, []), g')
               else (encrypt_with_iv lib (ck\<lparr>iv := rnd\<rparr>) input, g'))"

text \<open>The sequence number replaces the first four bytes of the random vector.\<close>

definition SoftBusEncryptDataWithSeq ::
  "gcm_lib \<Rightarrow> rng_env \<Rightarrow> AesGcmCipherKey \<Rightarrow> 8 word list \<Rightarrow> int \<Rightarrow> rng \<Rightarrow> (int \<times> 8 word list) \<times> rng" where
  "SoftBusEncryptDataWithSeq lib env ck input seqNum g =
     (if length input = 0 then ((SOFTBUS_INVALID_PARAM, []), g)
      else case SoftBusGenerateRandomArray env GCM_IV_LEN g of
             ((ret, rnd), g') \<Rightarrow>
               if ret \<noteq> SOFTBUS_OK then ((SOFTBUS_ENCRYPT_ERR, []), g')
               else (encrypt_with_iv lib (ck\<lparr>iv := le_bytes 4 (of_int seqNum :: 32 word) @ drop 4 rnd\<rparr>) input, g'))"

definition SoftBusDecryptData ::
  "gcm_lib \<Rightarrow> AesGcmCipherKey \<Rightarrow> 8 word list \<Rightarrow> 32 word \<Rightarrow> (int \<times> 8 word list) option" where
  "SoftBusDecryptData lib ck mem inLen =
     (if inLen < of_nat GCM_IV_LEN then Some (SOFTBUS_INVALID_PARAM, [])
      else if length mem < GCM_IV_LEN then None
      else case memcpy_s GCM_IV_LEN (take GCM_IV_LEN mem) of
             None \<Rightarrow> Some (SOFTBUS_ENCRYPT_ERR, [])
           | Some v \<Rightarrow>
               (case MbedAesGcmDecrypt lib (ck\<lparr>iv := v\<rparr>) mem inLen (inLen - of_nat OVERHEAD_LEN) of
                  None \<Rightarrow> None
                | Some (result, plain) \<Rightarrow>
                    if result \<le> 0 then Some (SOFTBUS_ENCRYPT_ERR, []) else Some (SOFTBUS_OK, plain)))"

definition SoftBusDecryptDataWithSeq ::
  "gcm_lib \<Rightarrow> AesGcmCipherKey \<Rightarrow> 8 word list \<Rightarrow> 32 word \<Rightarrow> int \<Rightarrow> (int \<times> 8 word list) option" where
  "SoftBusDecryptDataWithSeq lib ck mem inLen seqNum = SoftBusDecryptData lib ck mem inLen"

section \<open>What was encrypted is decrypted\<close>

text \<open>
  The documented behaviour of the libraries: the generator returns as many bytes as asked for; the
  tag has 16 bytes, the encrypted text has the length of the plain text, and decryption under the
  same key and vector gives it back.
\<close>

definition gcm_ok :: "gcm_lib \<Rightarrow> gcm_lib \<Rightarrow> bool" where
  "gcm_ok lib lib' \<longleftrightarrow>
     (\<forall>k n. gcm_setkey lib k n = 0 \<longrightarrow> gcm_setkey lib' k n = 0) \<and>
     (\<forall>k v p body tagBuf. gcm_crypt_and_tag lib k v p = (0, body, tagBuf) \<longrightarrow>
        length body = length p \<and> length tagBuf = TAG_LEN \<and> gcm_auth_decrypt lib' k v tagBuf body = (0, p))"

definition rng_ok :: "rng_env \<Rightarrow> bool" where
  "rng_ok env \<longleftrightarrow> (\<forall>n len bytes. ctr_drbg_random env n len = (0, bytes) \<longrightarrow> length bytes = len)"

lemma encrypt_with_iv_frame:
  assumes "encrypt_with_iv lib ck p = (SOFTBUS_OK, c)" "length (iv ck) = GCM_IV_LEN" "gcm_ok lib lib'"
    "length p + OVERHEAD_LEN < 2 ^ 31"
  shows "\<exists>body tagBuf. c = iv ck @ body @ tagBuf \<and> length body = length p \<and> length tagBuf = TAG_LEN \<and>
    p \<noteq> [] \<and> gcm_setkey lib' (key ck) (keyLen ck * KEY_BITS_UNIT) = 0 \<and>
    gcm_auth_decrypt lib' (key ck) (iv ck) tagBuf body = (0, p)"
proof -
  obtain ret body tagBuf where t: "gcm_crypt_and_tag lib (key ck) (iv ck) p = (ret, body, tagBuf)"
    by (metis prod_cases3)
  have s: "gcm_setkey lib (key ck) (keyLen ck * KEY_BITS_UNIT) = 0" "ret = 0" "c = iv ck @ body @ tagBuf" "p \<noteq> []"
    using assms(1) t
    by (auto simp: encrypt_with_iv_def MbedAesGcmEncrypt_def Let_def memcpy_s_def split: if_splits option.splits prod.splits)
  with assms(3) t show ?thesis by (intro exI [of _ body] exI [of _ tagBuf]) (auto simp: gcm_ok_def)
qed

lemma decrypt_frame:
  assumes "length v = GCM_IV_LEN" "length body = length p" "length tagBuf = TAG_LEN" "p \<noteq> []"
    "gcm_setkey lib' (key ck) (keyLen ck * KEY_BITS_UNIT) = 0" "gcm_auth_decrypt lib' (key ck) v tagBuf body = (0, p)"
    "n = length p + OVERHEAD_LEN" "n < 2 ^ 31"
  shows "SoftBusDecryptData lib' ck (v @ body @ tagBuf @ rest) (of_nat n) = Some (SOFTBUS_OK, p)"
proof -
  have n: "unat (of_nat n :: 32 word) = n" using assms(8) by (simp add: unat_of_nat take_bit_nat_def)
  have m: "(of_nat n :: 32 word) - 28 = of_nat (length p)" by (simp add: assms(7))
  have l: "length p < 2 ^ 31" using assms(7,8) by simp
  then have u: "unat (of_nat (length p) :: 32 word) = length p" "sint (of_nat (length p) :: 32 word) = int (length p)"
    by (simp_all add: unat_of_nat take_bit_nat_def sint_of_small_nat)
  show ?thesis
    using assms n by (simp add: SoftBusDecryptData_def MbedAesGcmDecrypt_def m u memcpy_s_def Let_def
        word_less_nat_alt word_le_nat_alt)
qed

lemma random_iv_length:
  assumes "SoftBusGenerateRandomArray env len g = ((SOFTBUS_OK, rnd), g')" "rng_ok env"
  shows "length rnd = len"
  using assms by (auto simp: SoftBusGenerateRandomArray_def rng_ok_def split: if_splits prod.splits)

lemma encrypt_seq_frame:
  assumes "SoftBusEncryptDataWithSeq lib env ck p seqNum g = ((SOFTBUS_OK, c), g')" "gcm_ok lib lib'" "rng_ok env"
    "length p + OVERHEAD_LEN < 2 ^ 31"
  shows "length c = length p + OVERHEAD_LEN \<and> take 4 c = le_bytes 4 (of_int seqNum :: 32 word) \<and> p \<noteq> [] \<and>
    (\<forall>ck' rest s. key ck' = key ck \<and> keyLen ck' = keyLen ck \<longrightarrow>
       SoftBusDecryptDataWithSeq lib' ck' (c @ rest) (of_nat (length c)) s = Some (SOFTBUS_OK, p))"
proof -
  obtain rnd where r: "SoftBusGenerateRandomArray env GCM_IV_LEN g = ((SOFTBUS_OK, rnd), g')"
    and e: "encrypt_with_iv lib (ck\<lparr>iv := le_bytes 4 (of_int seqNum :: 32 word) @ drop 4 rnd\<rparr>) p = (SOFTBUS_OK, c)"
    using assms(1) by (auto simp: SoftBusEncryptDataWithSeq_def split: if_splits prod.splits)
  let ?v = "le_bytes 4 (of_int seqNum :: 32 word) @ drop 4 rnd"
  have v: "length ?v = GCM_IV_LEN" using random_iv_length [OF r assms(3)] by simp
  obtain body tagBuf where f: "c = ?v @ body @ tagBuf" "length body = length p" "length tagBuf = TAG_LEN" "p \<noteq> []"
    "gcm_setkey lib' (key ck) (keyLen ck * KEY_BITS_UNIT) = 0" "gcm_auth_decrypt lib' (key ck) ?v tagBuf body = (0, p)"
    using encrypt_with_iv_frame [OF e _ assms(2,4)] v by auto
  have n: "length c = length p + OVERHEAD_LEN" using f v by simp
  have "SoftBusDecryptDataWithSeq lib' ck' (c @ rest) (of_nat (length c)) s = Some (SOFTBUS_OK, p)"
    if "key ck' = key ck" "keyLen ck' = keyLen ck" for ck' rest s
    using decrypt_frame [OF v f(2-4), of lib' ck' "length c" rest] f(1,5,6) that n assms(4)
    by (simp add: SoftBusDecryptDataWithSeq_def)
  with n f show ?thesis by simp
qed

text \<open>What \<^verbatim>\<open>SoftBusEncryptDataWithSeq\<close> produces is 28 bytes longer than its input and starts with
  the sequence number, and \<^verbatim>\<open>SoftBusDecryptDataWithSeq\<close> under the same key gives the input back,
  whatever follows the ciphertext in memory and whatever sequence number it is called with: the
  number is not checked when decrypting.\<close>

theorem crypto_seq_roundtrip:
  assumes "SoftBusEncryptDataWithSeq lib env ck p seqNum g = ((SOFTBUS_OK, c), g')" "gcm_ok lib lib'" "rng_ok env"
    "length p + OVERHEAD_LEN < 2 ^ 31"
  shows "length c = length p + OVERHEAD_LEN \<and> take 4 c = le_bytes 4 (of_int seqNum :: 32 word) \<and>
    SoftBusDecryptDataWithSeq lib' ck (c @ rest) (of_nat (length c)) otherSeq = Some (SOFTBUS_OK, p)"
  using encrypt_seq_frame [OF assms] by blast

text \<open>A concrete cipher: the tag repeats the key, and the bytes are complemented.\<close>

definition demo_gcm :: gcm_lib where
  "demo_gcm = \<lparr>gcm_setkey = (\<lambda>k n. 0), gcm_crypt_and_tag = (\<lambda>k v p. (0, map not p, replicate 16 7)),
     gcm_auth_decrypt = (\<lambda>k v t c. if t = replicate 16 7 then (0, map not c) else (- 18, []))\<rparr>"

definition demo_rng :: rng_env where
  "demo_rng = \<lparr>random_lock = True, ctr_drbg_seed = 0, ctr_drbg_random = (\<lambda>n len. (0, replicate len (of_nat n)))\<rparr>"

lemma demo_gcm_ok: "gcm_ok demo_gcm demo_gcm" and demo_rng_ok: "rng_ok demo_rng"
  by (auto simp: gcm_ok_def demo_gcm_def rng_ok_def demo_rng_def comp_def)

lemma demo_encrypt:
  "SoftBusEncryptDataWithSeq demo_gcm demo_rng \<lparr>keyLen = 1, key = [9], iv = []\<rparr> [1, 2, 3] 5 \<lparr>initFlag = False, draws = 0\<rparr>
     = ((SOFTBUS_OK, [5, 0, 0, 0] @ replicate 8 0 @ map not [1, 2, 3] @ replicate 16 7), \<lparr>initFlag = True, draws = 1\<rparr>)"
proof -
  have "le_bytes 4 (5 :: 32 word) = [5, 0, 0, 0]" by (simp add: le_bytes_4)
  then show ?thesis
    by (simp add: SoftBusEncryptDataWithSeq_def SoftBusGenerateRandomArray_def encrypt_with_iv_def MbedAesGcmEncrypt_def
        demo_gcm_def demo_rng_def memcpy_s_def Let_def)
qed

theorem crypto_seq_roundtrip_witness:
  "\<exists>c g'. SoftBusEncryptDataWithSeq demo_gcm demo_rng \<lparr>keyLen = 1, key = [9], iv = []\<rparr> [1, 2, 3] 5 \<lparr>initFlag = False, draws = 0\<rparr>
       = ((SOFTBUS_OK, c), g') \<and>
     length c = 31 \<and> take 4 c = [5, 0, 0, 0] \<and>
     SoftBusDecryptDataWithSeq demo_gcm \<lparr>keyLen = 1, key = [9], iv = []\<rparr> (c @ [4]) 31 6 = Some (SOFTBUS_OK, [1, 2, 3])"
proof -
  show ?thesis
    using crypto_seq_roundtrip [OF demo_encrypt demo_gcm_ok demo_rng_ok, of "[4]" 6]
    by (intro exI conjI) (rule demo_encrypt, simp_all add: le_bytes_4)
qed

end
