(* ===== verification/Proxy_Session.thy ===== *)
theory Proxy_Session
  imports Proxy_Message Adapter_Crypto Softbus_Utils
begin

text \<open>
  Session data on proxy channels, \<^verbatim>\<open>proxy/src/softbus_proxychannel_session.c\<close> under
  \<^verbatim>\<open>core/transmission/trans_channel\<close>: encryption of a packet, cutting it into slices, sending the slices, and at the
  other end reassembling, decrypting and handing the data to the client. The functions it uses of
  \<^verbatim>\<open>softbus_proxychannel_manager.c\<close> and \<^verbatim>\<open>softbus_proxychannel_transceiver.c\<close> are here as well. Lengths are
  those of the byte lists, below 2^31. An outer \<^const>\<open>None\<close> is a memory fault.
\<close>

unbundle bit_operations_syntax

section \<open>Constants, structures and state\<close>

abbreviation (input) PROXY_FLAG_BYTES :: int where "PROXY_FLAG_BYTES \<equiv> 0"
abbreviation (input) PROXY_FLAG_ACK :: int where "PROXY_FLAG_ACK \<equiv> 1"
abbreviation (input) PROXY_FLAG_MESSAGE :: int where "PROXY_FLAG_MESSAGE \<equiv> 2"
abbreviation (input) PROXY_FLAG_ASYNC_MESSAGE :: int where "PROXY_FLAG_ASYNC_MESSAGE \<equiv> 8"
abbreviation (input) TRANS_SESSION_BYTES :: int where "TRANS_SESSION_BYTES \<equiv> 0"
abbreviation (input) TRANS_SESSION_MESSAGE :: int where "TRANS_SESSION_MESSAGE \<equiv> 1"
abbreviation (input) PROXY_CHANNEL_PRORITY_MESSAGE :: int where "PROXY_CHANNEL_PRORITY_MESSAGE \<equiv> 0"
abbreviation (input) PROXY_CHANNEL_PRORITY_BYTES :: int where "PROXY_CHANNEL_PRORITY_BYTES \<equiv> 1"
abbreviation (input) PROXY_CHANNEL_PRORITY_BUTT :: int where "PROXY_CHANNEL_PRORITY_BUTT \<equiv> 3"
abbreviation (input) PROCESSOR_MAX :: nat where "PROCESSOR_MAX \<equiv> 3"
abbreviation (input) PROXY_CHANNEL_STATUS_KEEPLIVEING :: int where "PROXY_CHANNEL_STATUS_KEEPLIVEING \<equiv> 3"
abbreviation (input) PROXY_CHANNEL_STATUS_COMPLETED :: int where "PROXY_CHANNEL_STATUS_COMPLETED \<equiv> 6"
abbreviation (input) CONN_DEFAULT :: int where "CONN_DEFAULT \<equiv> 0"
abbreviation (input) CONN_MIDDLE :: int where "CONN_MIDDLE \<equiv> 2"
abbreviation (input) MODULE_PROXY_CHANNEL :: "32 word" where "MODULE_PROXY_CHANNEL \<equiv> 13"
abbreviation (input) MAX_SEND_LENGTH :: nat where "MAX_SEND_LENGTH \<equiv> 1024"
abbreviation (input) PROXY_ACK_SIZE :: nat where "PROXY_ACK_SIZE \<equiv> 4"
abbreviation (input) PACKET_HEAD_SIZE :: nat where "PACKET_HEAD_SIZE \<equiv> 16"
abbreviation (input) SLICE_HEAD_SIZE :: nat where "SLICE_HEAD_SIZE \<equiv> 16"
abbreviation (input) SLICE_HEAD_LEN :: nat where "SLICE_HEAD_LEN \<equiv> 32"
abbreviation (input) MAGIC_NUMBER :: "32 word" where "MAGIC_NUMBER \<equiv> 0xBABEFACE"
abbreviation (input) PROXY_MAX_BYTES_LEN :: nat where "PROXY_MAX_BYTES_LEN \<equiv> 4096"
abbreviation (input) PROXY_MAX_MESSAGE_LEN :: nat where "PROXY_MAX_MESSAGE_LEN \<equiv> 1024"
abbreviation (input) PROXY_BYTES_LENGTH_MAX :: nat where "PROXY_BYTES_LENGTH_MAX \<equiv> 4096"
abbreviation (input) PROXY_MESSAGE_LENGTH_MAX :: nat where "PROXY_MESSAGE_LENGTH_MAX \<equiv> 1024"
abbreviation (input) DATA_HEAD_SIZE :: nat where "DATA_HEAD_SIZE \<equiv> 4096"
abbreviation (input) SLICE_PACKET_TIMEOUT :: int where "SLICE_PACKET_TIMEOUT \<equiv> 10"
abbreviation (input) SOFTBUS_PROXYSLICE_TIMER_FUN :: int where "SOFTBUS_PROXYSLICE_TIMER_FUN \<equiv> 4"

text \<open>The two headers, read from and written to memory in little-endian order.\<close>

record SliceHead =
  priority :: int
  sliceNum :: int
  sliceSeq :: int
  s_reserved :: int

record PacketHead =
  magicNumber :: "32 word"
  ph_seq :: int
  ph_flags :: int
  ph_dataLen :: int

definition int_bytes :: "int \<Rightarrow> byte list" where
  "int_bytes i = le_bytes 4 (of_int i :: 32 word)"

definition bytes_int :: "byte list \<Rightarrow> int" where
  "bytes_int bs = sint (le_word (take 4 bs) :: 32 word)"

definition slice_head_bytes :: "SliceHead \<Rightarrow> byte list" where
  "slice_head_bytes h = int_bytes (priority h) @ int_bytes (sliceNum h) @ int_bytes (sliceSeq h) @ int_bytes (s_reserved h)"

definition read_slice_head :: "byte list \<Rightarrow> SliceHead" where
  "read_slice_head bs = \<lparr>priority = bytes_int bs, sliceNum = bytes_int (drop 4 bs), sliceSeq = bytes_int (drop 8 bs),
     s_reserved = bytes_int (drop 12 bs)\<rparr>"

definition packet_head_bytes :: "PacketHead \<Rightarrow> byte list" where
  "packet_head_bytes h = le_bytes 4 (magicNumber h) @ int_bytes (ph_seq h) @ int_bytes (ph_flags h) @ int_bytes (ph_dataLen h)"

definition read_packet_head :: "byte list \<Rightarrow> PacketHead" where
  "read_packet_head bs = \<lparr>magicNumber = le_word (take 4 bs), ph_seq = bytes_int (drop 4 bs), ph_flags = bytes_int (drop 8 bs),
     ph_dataLen = bytes_int (drop 12 bs)\<rparr>"

text \<open>The reassembly of one priority of a channel; \<open>sp_data\<close> is the whole buffer of \<open>bufLen\<close> bytes.\<close>

record SliceProcessor =
  active :: bool
  sp_timeout :: int
  sliceNumber :: int
  expectedSeq :: int
  dataLen :: int
  bufLen :: int
  sp_data :: "byte list option"

record ChannelSliceProcessor =
  cs_channelId :: int
  processor :: "SliceProcessor list"

text \<open>A static pointer to a list: null, valid, or left behind when the list was freed.\<close>

datatype 'a handle = Null | Live 'a | Dangling

text \<open>
  What the client and the pending-packet table are told: a message for a package, the arrival of
  an acknowledgement, the start of a wait for one.
\<close>

datatype proxy_event =
    MsgReceived string int "byte list" int
  | SetPending int int
  | ProcPending int int
  | DelPending int
  | InitPending
  | DeinitPending

text \<open>
  The static variables the functions use, and what went out: the packets handed to the connection
  manager, and the events.
\<close>

record proxy_world =
  g_proxyChannelList :: "ProxyChannelInfo SoftBusList option"
  g_channelSliceProcessorList :: "ChannelSliceProcessor SoftBusList handle"
  msgSeq :: "64 word"
  w_rng :: rng
  w_timers :: timers
  wire :: "(32 word \<times> ConnPostData) list"
  events :: "proxy_event list"

text \<open>
  Outcomes of the environment: allocation at each place of the code, the locks, the crypto
  library, and the results of \<^verbatim>\<open>ConnPostBytes\<close>, of the notification of the client
  and of the two functions of the pending-packet table.
\<close>

datatype alloc_site = PackBuf | ChanInfo | SliceBuf int | ProcNode | ProcBuf | OutBuf

record sess_env =
  s_alloc :: "alloc_site \<Rightarrow> bool"
  chan_lock :: bool
  slice_lock :: bool
  s_gcm :: gcm_lib
  s_rng :: rng_env
  s_post :: "32 word \<Rightarrow> ConnPostData \<Rightarrow> int"
  s_notify :: "string \<Rightarrow> int \<Rightarrow> byte list \<Rightarrow> int \<Rightarrow> int"
  s_set_pending :: "int \<Rightarrow> int \<Rightarrow> int"
  s_proc_pending :: "int \<Rightarrow> int \<Rightarrow> int"

section \<open>The channel list\<close>

text \<open>The two lookups reset the timer of a completed channel.\<close>

definition touch :: "ProxyChannelInfo \<Rightarrow> ProxyChannelInfo" where
  "touch item = (if status item = PROXY_CHANNEL_STATUS_COMPLETED then item\<lparr>timeout := 0\<rparr> else item)"

definition find_chan :: "sess_env \<Rightarrow> int \<Rightarrow> proxy_world \<Rightarrow> ProxyChannelInfo option" where
  "find_chan env ch w =
     (case g_proxyChannelList w of
        None \<Rightarrow> None
      | Some l \<Rightarrow> if \<not> chan_lock env then None else find (\<lambda>i. channelId i = ch) (lst l))"

definition upd_chan :: "int \<Rightarrow> (ProxyChannelInfo \<Rightarrow> ProxyChannelInfo) \<Rightarrow> proxy_world \<Rightarrow> proxy_world" where
  "upd_chan ch f w =
     w\<lparr>g_proxyChannelList := map_option (sl_upd_first (\<lambda>i. channelId i = ch) f) (g_proxyChannelList w)\<rparr>"

definition TransProxyGetSendMsgChanInfo ::
  "sess_env \<Rightarrow> int \<Rightarrow> proxy_world \<Rightarrow> ProxyChannelInfo option \<times> proxy_world" where
  "TransProxyGetSendMsgChanInfo env ch w =
     (case find_chan env ch w of
        None \<Rightarrow> (None, w)
      | Some item \<Rightarrow> (Some (touch item), upd_chan ch touch w))"

definition TransProxyGetNewChanSeq :: "sess_env \<Rightarrow> int \<Rightarrow> proxy_world \<Rightarrow> int \<times> proxy_world" where
  "TransProxyGetNewChanSeq env ch w =
     (case find_chan env ch w of
        None \<Rightarrow> (0, w)
      | Some item \<Rightarrow>
          (seq item, upd_chan ch (\<lambda>i. i\<lparr>seq := sint (of_int (seq i + 1) :: 32 word)\<rparr>) w))"

definition TransProxyGetSessionKeyByChanId ::
  "sess_env \<Rightarrow> int \<Rightarrow> proxy_world \<Rightarrow> byte list option \<times> proxy_world" where
  "TransProxyGetSessionKeyByChanId env ch w =
     (case find_chan env ch w of
        None \<Rightarrow> (None, w)
      | Some item \<Rightarrow>
          (memcpy_s SESSION_KEY_LENGTH (map of_char (sessionKey (appInfo item)) :: byte list), upd_chan ch touch w))"

section \<open>Sending\<close>

definition ProxyTypeToProxyIndex :: "int \<Rightarrow> int" where
  "ProxyTypeToProxyIndex t =
     (if t = PROXY_FLAG_MESSAGE \<or> t = PROXY_FLAG_ASYNC_MESSAGE \<or> t = PROXY_FLAG_ACK
      then PROXY_CHANNEL_PRORITY_MESSAGE else PROXY_CHANNEL_PRORITY_BYTES)"

definition SessionTypeToPacketType :: "int \<Rightarrow> int" where
  "SessionTypeToPacketType t = (if t = TRANS_SESSION_MESSAGE then PROXY_FLAG_MESSAGE else PROXY_FLAG_BYTES)"

definition ProxyTypeToConnPri :: "int \<Rightarrow> int" where
  "ProxyTypeToConnPri t =
     (if t = PROXY_FLAG_BYTES then CONN_MIDDLE
      else if t = PROXY_FLAG_ASYNC_MESSAGE \<or> t = PROXY_FLAG_ACK then CONN_HIGH
      else CONN_DEFAULT)"

text \<open>The cipher key built from a session key; its vector is set by the crypto functions.\<close>

definition cipher_key :: "byte list \<Rightarrow> AesGcmCipherKey" where
  "cipher_key k = \<lparr>keyLen = SESSION_KEY_LENGTH, key = k, iv = replicate GCM_IV_LEN 0\<rparr>"

definition TransProxyEncryptPacketData ::
  "sess_env \<Rightarrow> int \<Rightarrow> int \<Rightarrow> byte list \<Rightarrow> proxy_world \<Rightarrow> (int \<times> byte list) \<times> proxy_world" where
  "TransProxyEncryptPacketData env ch sq inData w =
     (case TransProxyGetSessionKeyByChanId env ch w of
        (None, w1) \<Rightarrow> ((SOFTBUS_ERR, []), w1)
      | (Some k, w1) \<Rightarrow>
          (case SoftBusEncryptDataWithSeq (s_gcm env) (s_rng env) (cipher_key k) inData sq (w_rng w1) of
             ((ret, out), g) \<Rightarrow>
               ((if ret \<noteq> SOFTBUS_OK \<or> length out \<noteq> length inData + OVERHEAD_LEN then (SOFTBUS_ENCRYPT_ERR, [])
                 else (SOFTBUS_OK, out)), w1\<lparr>w_rng := g\<rparr>)))"

text \<open>An acknowledgement carries the number it acknowledges as its data and as its own number.\<close>

definition TransProxyGetPktSeqId :: "sess_env \<Rightarrow> int \<Rightarrow> byte list \<Rightarrow> int \<Rightarrow> proxy_world \<Rightarrow> int \<times> proxy_world" where
  "TransProxyGetPktSeqId env ch inData flag w =
     (if flag = PROXY_FLAG_ACK \<and> memcpy_s 4 inData \<noteq> None then (bytes_int inData, w)
      else TransProxyGetNewChanSeq env ch w)"

definition TransProxyPackBytes ::
  "sess_env \<Rightarrow> int \<Rightarrow> byte list \<Rightarrow> int \<Rightarrow> proxy_world \<Rightarrow> (int \<times> int \<times> byte list) \<times> proxy_world" where
  "TransProxyPackBytes env ch inData flag w =
     (if \<not> s_alloc env PackBuf then ((SOFTBUS_MEM_ERR, 0, []), w)
      else case TransProxyGetPktSeqId env ch inData flag w of
             (sq, w1) \<Rightarrow>
               (case TransProxyEncryptPacketData env ch sq inData w1 of
                  ((ret, out), w2) \<Rightarrow>
                    if ret \<noteq> SOFTBUS_OK then ((SOFTBUS_TRANS_PROXY_SESS_ENCRYPT_ERR, 0, []), w2)
                    else let h = \<lparr>magicNumber = MAGIC_NUMBER, ph_seq = sq, ph_flags = flag, ph_dataLen = int (length out)\<rparr>
                         in ((SOFTBUS_OK, sq, packet_head_bytes h @ out), w2)))"

definition TransProxyTransSendMsg ::
  "sess_env \<Rightarrow> 32 word \<Rightarrow> byte list \<Rightarrow> int \<Rightarrow> proxy_world \<Rightarrow> int \<times> proxy_world" where
  "TransProxyTransSendMsg env cid buf pri w =
     (let data = \<lparr>d_module = MODULE_PROXY_CHANNEL, d_seq = msgSeq w, d_flag = of_int pri, d_pid = 0,
                  d_len = int (length buf), d_buf = Some buf\<rparr>;
          w1 = w\<lparr>msgSeq := msgSeq w + 1, wire := wire w @ [(cid, data)]\<rparr>;
          ret = s_post env cid data
      in (if ret < 0 then ret else SOFTBUS_OK, w1))"

definition TransProxyGetBufLen :: nat where
  "TransProxyGetBufLen = MAX_SEND_LENGTH"

definition TransProxyPackAppNormalMsg ::
  "sess_env \<Rightarrow> ProxyMessageHead \<Rightarrow> SliceHead \<Rightarrow> byte list \<Rightarrow> byte list option" where
  "TransProxyPackAppNormalMsg env msg sliceHead payLoad =
     (if \<not> s_alloc env (SliceBuf (sliceSeq sliceHead)) then None
      else case memcpy_s (length payLoad) payLoad of
             None \<Rightarrow> None
           | Some p \<Rightarrow> Some (replicate (nat ConnGetHeadSize) 0 @ mhead_bytes msg @ slice_head_bytes sliceHead @ p))"

text \<open>The loop over the slices \<open>i\<close>, \<open>i + 1\<close>, ...\<close>

fun send_slices ::
  "sess_env \<Rightarrow> ProxyChannelInfo \<Rightarrow> byte list \<Rightarrow> int \<Rightarrow> nat \<Rightarrow> nat list \<Rightarrow> proxy_world \<Rightarrow> int \<times> proxy_world" where
  "send_slices env info payLoad flag n [] w = (SOFTBUS_OK, w)"
| "send_slices env info payLoad flag n (i # is) w =
     (let msgHead = \<lparr>m_type = msg_type_byte PROXYCHANNEL_MSG_TYPE_NORMAL, chiper = 0, m_myId = myId info,
                     m_peerId = peerId info, reserved = 0\<rparr>;
          sliceHead = \<lparr>priority = ProxyTypeToProxyIndex flag, sliceNum = int n, sliceSeq = int i, s_reserved = 0\<rparr>;
          len = (if n > 1 then if i = n - 1 then length payLoad - i * MAX_SEND_LENGTH else MAX_SEND_LENGTH
                 else length payLoad);
          offset = (if n > 1 then i * MAX_SEND_LENGTH else 0)
      in case TransProxyPackAppNormalMsg env msgHead sliceHead (take len (drop offset payLoad)) of
           None \<Rightarrow> (SOFTBUS_TRANS_PROXY_PACKMSG_ERR, w)
         | Some buf \<Rightarrow>
             (case TransProxyTransSendMsg env (connId info) buf (ProxyTypeToConnPri flag) w of
                (ret, w1) \<Rightarrow>
                  if ret \<noteq> SOFTBUS_OK then (SOFTBUS_TRANS_PROXY_SENDMSG_ERR, w1)
                  else send_slices env info payLoad flag n is w1))"

definition TransProxyTransAppNormalMsg ::
  "sess_env \<Rightarrow> ProxyChannelInfo \<Rightarrow> byte list \<Rightarrow> int \<Rightarrow> proxy_world \<Rightarrow> int \<times> proxy_world" where
  "TransProxyTransAppNormalMsg env info payLoad flag w =
     (let singleLen = TransProxyGetBufLen
      in if singleLen \<le> 0 then (SOFTBUS_ERR, w)
         else let n = (length payLoad + singleLen - 1) div singleLen
              in send_slices env info payLoad flag n [0..<n] w)"

definition TransProxyTransNetWorkMsg ::
  "msg_env \<Rightarrow> sess_env \<Rightarrow> ProxyMessageHead \<Rightarrow> ProxyChannelInfo \<Rightarrow> byte list \<Rightarrow> int \<Rightarrow> proxy_world \<Rightarrow> int \<times> proxy_world" where
  "TransProxyTransNetWorkMsg menv env msghead info payLoad pri w =
     (case TransProxyPackMessage menv msghead (connId info) payLoad of
        None \<Rightarrow> (SOFTBUS_TRANS_PROXY_PACKMSG_ERR, w)
      | Some (buf, _) \<Rightarrow> TransProxyTransSendMsg env (connId info) buf pri w)"

definition TransProxyTransDataSendMsg ::
  "sess_env \<Rightarrow> int \<Rightarrow> byte list \<Rightarrow> int \<Rightarrow> proxy_world \<Rightarrow> int \<times> proxy_world" where
  "TransProxyTransDataSendMsg env ch payLoad flag w =
     (if \<not> s_alloc env ChanInfo then (SOFTBUS_MALLOC_ERR, w)
      else case TransProxyGetSendMsgChanInfo env ch w of
             (None, w1) \<Rightarrow> (SOFTBUS_TRANS_PROXY_SEND_CHANNELID_INVALID, w1)
           | (Some info, w1) \<Rightarrow>
               if status info \<noteq> PROXY_CHANNEL_STATUS_COMPLETED \<and> status info \<noteq> PROXY_CHANNEL_STATUS_KEEPLIVEING
               then (SOFTBUS_TRANS_PROXY_CHANNLE_STATUS_INVALID, w1)
               else TransProxyTransAppNormalMsg env info payLoad flag w1)"

definition TransProxyTransDataSendSyncMsg ::
  "sess_env \<Rightarrow> int \<Rightarrow> byte list \<Rightarrow> int \<Rightarrow> int \<Rightarrow> proxy_world \<Rightarrow> int \<times> proxy_world" where
  "TransProxyTransDataSendSyncMsg env ch payLoad flag sq w =
     (case TransProxyTransDataSendMsg env ch payLoad flag w of
        (ret, w1) \<Rightarrow>
          if ret \<noteq> SOFTBUS_OK then (ret, w1)
          else (s_proc_pending env ch sq, w1\<lparr>events := events w1 @ [ProcPending ch sq]\<rparr>))"

definition TransProxyPostPacketData ::
  "sess_env \<Rightarrow> int \<Rightarrow> byte list option \<Rightarrow> int \<Rightarrow> proxy_world \<Rightarrow> int \<times> proxy_world" where
  "TransProxyPostPacketData env ch data flags w =
     (case data of
        None \<Rightarrow> (SOFTBUS_INVALID_PARAM, w)
      | Some inData \<Rightarrow>
          (case TransProxyPackBytes env ch inData flags w of
             ((ret, sq, out), w1) \<Rightarrow>
               if ret \<noteq> SOFTBUS_OK then (ret, w1)
               else if flags = PROXY_FLAG_MESSAGE then TransProxyTransDataSendSyncMsg env ch out flags sq w1
               else TransProxyTransDataSendMsg env ch out flags w1))"

definition TransProxyPostSessionData ::
  "sess_env \<Rightarrow> int \<Rightarrow> byte list option \<Rightarrow> int \<Rightarrow> proxy_world \<Rightarrow> int \<times> proxy_world" where
  "TransProxyPostSessionData env ch data flags w =
     TransProxyPostPacketData env ch data (SessionTypeToPacketType flags) w"

section \<open>Receiving a packet\<close>

definition NotifyClientMsgReceived ::
  "sess_env \<Rightarrow> string \<Rightarrow> int \<Rightarrow> byte list \<Rightarrow> int \<Rightarrow> proxy_world \<Rightarrow> int \<times> proxy_world" where
  "NotifyClientMsgReceived env pkg ch data ty w =
     (s_notify env pkg ch data ty, w\<lparr>events := events w @ [MsgReceived pkg ch data ty]\<rparr>)"

text \<open>The number of an acknowledgement is taken in network byte order, the first byte highest.\<close>

definition TransProxyProcSendMsgAck :: "sess_env \<Rightarrow> int \<Rightarrow> byte list \<Rightarrow> proxy_world \<Rightarrow> int \<times> proxy_world" where
  "TransProxyProcSendMsgAck env ch data w =
     (if length data \<noteq> PROXY_ACK_SIZE then (SOFTBUS_TRANS_INVALID_DATA_LENGTH, w)
      else let sq = bytes_int (rev data)
           in (s_set_pending env ch sq, w\<lparr>events := events w @ [SetPending ch sq]\<rparr>))"

definition TransProxySendSessionAck :: "sess_env \<Rightarrow> int \<Rightarrow> int \<Rightarrow> proxy_world \<Rightarrow> proxy_world" where
  "TransProxySendSessionAck env ch sq w = snd (TransProxyPostPacketData env ch (Some (int_bytes sq)) PROXY_FLAG_ACK w)"

definition TransProxyNotifySession ::
  "sess_env \<Rightarrow> string \<Rightarrow> int \<Rightarrow> int \<Rightarrow> int \<Rightarrow> byte list \<Rightarrow> proxy_world \<Rightarrow> int \<times> proxy_world" where
  "TransProxyNotifySession env pkg ch flags sq data w =
     (if flags = PROXY_FLAG_BYTES then NotifyClientMsgReceived env pkg ch data TRANS_SESSION_BYTES w
      else if flags = PROXY_FLAG_MESSAGE
      then NotifyClientMsgReceived env pkg ch data TRANS_SESSION_MESSAGE (TransProxySendSessionAck env ch sq w)
      else if flags = PROXY_FLAG_ASYNC_MESSAGE then NotifyClientMsgReceived env pkg ch data TRANS_SESSION_MESSAGE w
      else if flags = PROXY_FLAG_ACK then TransProxyProcSendMsgAck env ch data w
      else (SOFTBUS_INVALID_PARAM, w))"

definition TransProxySessionDataLenCheck :: "nat \<Rightarrow> int \<Rightarrow> int" where
  "TransProxySessionDataLenCheck len ty =
     (if ty = PROXY_FLAG_MESSAGE \<or> ty = PROXY_FLAG_ASYNC_MESSAGE
      then if len > PROXY_MAX_MESSAGE_LEN then SOFTBUS_ERR else SOFTBUS_OK
      else if ty = PROXY_FLAG_BYTES
      then if len > PROXY_MAX_BYTES_LEN then SOFTBUS_ERR else SOFTBUS_OK
      else SOFTBUS_OK)"

text \<open>The bytes to decrypt are the first \<open>len\<close> bytes of \<open>mem\<close>.\<close>

definition TransProxyDecryptPacketData ::
  "sess_env \<Rightarrow> int \<Rightarrow> int \<Rightarrow> byte list \<Rightarrow> int \<Rightarrow> proxy_world \<Rightarrow> ((int \<times> byte list) \<times> proxy_world) option" where
  "TransProxyDecryptPacketData env ch sq mem len w =
     (case TransProxyGetSessionKeyByChanId env ch w of
        (None, w1) \<Rightarrow> Some ((SOFTBUS_ERR, []), w1)
      | (Some k, w1) \<Rightarrow>
          (case SoftBusDecryptDataWithSeq (s_gcm env) (cipher_key k) mem (of_int len) sq of
             None \<Rightarrow> None
           | Some (ret, out) \<Rightarrow>
               Some ((if ret \<noteq> SOFTBUS_OK then (SOFTBUS_ERR, []) else (SOFTBUS_OK, out)), w1)))"

definition TransProxyProcessSessionData ::
  "sess_env \<Rightarrow> string \<Rightarrow> int \<Rightarrow> PacketHead \<Rightarrow> byte list \<Rightarrow> proxy_world \<Rightarrow> (int \<times> proxy_world) option" where
  "TransProxyProcessSessionData env pkg ch h mem w =
     (if ph_dataLen h \<le> int OVERHEAD_LEN then Some (SOFTBUS_TRANS_INVALID_DATA_LENGTH, w)
      else if \<not> s_alloc env OutBuf then Some (SOFTBUS_MALLOC_ERR, w)
      else case TransProxyDecryptPacketData env ch (ph_seq h) mem (ph_dataLen h) w of
             None \<Rightarrow> None
           | Some ((ret, out), w1) \<Rightarrow>
               if ret \<noteq> SOFTBUS_OK then Some (SOFTBUS_DECRYPT_ERR, w1)
               else if TransProxySessionDataLenCheck (length out) (ph_flags h) \<noteq> SOFTBUS_OK then Some (SOFTBUS_ERR, w1)
               else (case TransProxyNotifySession env pkg ch (ph_flags h) (ph_seq h) out w1 of
                       (ret2, w2) \<Rightarrow> Some (if ret2 \<noteq> SOFTBUS_OK then SOFTBUS_ERR else SOFTBUS_OK, w2)))"

text \<open>The packet is the start of the memory \<open>mem\<close>.\<close>

definition TransProxyNoSubPacketProc ::
  "sess_env \<Rightarrow> string \<Rightarrow> int \<Rightarrow> byte list \<Rightarrow> proxy_world \<Rightarrow> (int \<times> proxy_world) option" where
  "TransProxyNoSubPacketProc env pkg ch mem w =
     (if length mem < PACKET_HEAD_SIZE then None
      else let h = read_packet_head mem
           in if magicNumber h \<noteq> MAGIC_NUMBER then Some (SOFTBUS_ERR, w)
              else if ph_dataLen h \<le> 0 then Some (SOFTBUS_ERR, w)
              else (case TransProxyProcessSessionData env pkg ch h (drop PACKET_HEAD_SIZE mem) w of
                      None \<Rightarrow> None
                    | Some (ret, w1) \<Rightarrow> Some (if ret \<noteq> SOFTBUS_OK then SOFTBUS_ERR else SOFTBUS_OK, w1)))"

section \<open>Receiving slices\<close>

definition TransProxyCheckSliceHead :: "SliceHead \<Rightarrow> int" where
  "TransProxyCheckSliceHead h =
     (if priority h < 0 \<or> priority h \<ge> PROXY_CHANNEL_PRORITY_BUTT then SOFTBUS_ERR
      else if sliceNum h \<noteq> 1 \<and> sliceSeq h \<ge> sliceNum h then SOFTBUS_ERR
      else SOFTBUS_OK)"

definition cleared :: SliceProcessor where
  "cleared = \<lparr>active = False, sp_timeout = 0, sliceNumber = 0, expectedSeq = 0, dataLen = 0, bufLen = 0, sp_data = None\<rparr>"

definition TransProxyClearProcessor :: "SliceProcessor \<Rightarrow> SliceProcessor" where
  "TransProxyClearProcessor p =
     p\<lparr>sp_data := None, active := False, bufLen := 0, dataLen := 0, expectedSeq := 0, sliceNumber := 0, sp_timeout := 0\<rparr>"

text \<open>The node of the channel, allocated with zeroed processors and put in front when there is none.\<close>

definition TransProxyGetChannelSliceProcessor ::
  "sess_env \<Rightarrow> int \<Rightarrow> ChannelSliceProcessor SoftBusList
    \<Rightarrow> ChannelSliceProcessor option \<times> ChannelSliceProcessor SoftBusList" where
  "TransProxyGetChannelSliceProcessor env ch l =
     (case find (\<lambda>p. cs_channelId p = ch) (lst l) of
        Some p \<Rightarrow> (Some p, l)
      | None \<Rightarrow>
          if \<not> s_alloc env ProcNode then (None, l)
          else let node = \<lparr>cs_channelId = ch, processor = replicate PROCESSOR_MAX cleared\<rparr>
               in (Some node, sl_add node l))"

definition TransProxyFirstSliceProcess ::
  "sess_env \<Rightarrow> SliceProcessor \<Rightarrow> SliceHead \<Rightarrow> byte list \<Rightarrow> int \<times> SliceProcessor" where
  "TransProxyFirstSliceProcess env p h data =
     (let p1 = TransProxyClearProcessor p;
          maxDataLen = (if priority h = PROXY_CHANNEL_PRORITY_MESSAGE then PROXY_MESSAGE_LENGTH_MAX else PROXY_BYTES_LENGTH_MAX);
          maxLen = maxDataLen + DATA_HEAD_SIZE + OVERHEAD_LEN
      in if \<not> s_alloc env ProcBuf then (SOFTBUS_MALLOC_ERR, p1)
         else let p2 = p1\<lparr>sp_data := Some (replicate maxLen 0), bufLen := int maxLen\<rparr>
              in case memcpy_s maxLen data of
                   None \<Rightarrow> (SOFTBUS_SLICE_ERROR, p2)
                 | Some d \<Rightarrow>
                     (SOFTBUS_OK,
                      p2\<lparr>sp_data := Some (d @ replicate (maxLen - length d) 0), sliceNumber := sliceNum h, expectedSeq := 1,
                         dataLen := int (length d), active := True, sp_timeout := 0\<rparr>))"

definition TransProxySliceProcessChkPkgIsValid :: "SliceProcessor \<Rightarrow> SliceHead \<Rightarrow> byte list \<Rightarrow> int" where
  "TransProxySliceProcessChkPkgIsValid p h data =
     (if sliceNum h \<noteq> sliceNumber p \<or> sliceSeq h \<noteq> expectedSeq p then SOFTBUS_TRANS_PROXY_ASSEMBLE_PACK_NO_INVALID
      else if int (length data) + dataLen p > bufLen p then SOFTBUS_TRANS_PROXY_ASSEMBLE_PACK_EXCEED_LENGTH
      else if sp_data p = None then SOFTBUS_TRANS_PROXY_ASSEMBLE_PACK_DATA_NULL
      else SOFTBUS_OK)"

text \<open>
  The copy of a slice behind the bytes collected so far, shared by the next two functions. The
  timer is not reset here.
\<close>

definition append_slice :: "SliceProcessor \<Rightarrow> byte list \<Rightarrow> (byte list \<times> SliceProcessor) option" where
  "append_slice p data =
     (case memcpy_s (nat (bufLen p - dataLen p)) data of
        None \<Rightarrow> None
      | Some d \<Rightarrow>
          let n = nat (dataLen p);
              buf = take n (the (sp_data p)) @ d @ drop (n + length d) (the (sp_data p))
          in Some (buf, p\<lparr>sp_data := Some buf, expectedSeq := expectedSeq p + 1, dataLen := dataLen p + int (length d)\<rparr>))"

definition TransProxyNormalSliceProcess :: "SliceProcessor \<Rightarrow> SliceHead \<Rightarrow> byte list \<Rightarrow> int \<times> SliceProcessor" where
  "TransProxyNormalSliceProcess p h data =
     (let ret = TransProxySliceProcessChkPkgIsValid p h data
      in if ret \<noteq> SOFTBUS_OK then (ret, p)
         else case append_slice p data of
                None \<Rightarrow> (SOFTBUS_MEM_ERR, p)
              | Some (_, p1) \<Rightarrow> (ret, p1\<lparr>sp_timeout := 0\<rparr>))"

definition TransProxyLastSliceProcess ::
  "sess_env \<Rightarrow> SliceProcessor \<Rightarrow> SliceHead \<Rightarrow> byte list \<Rightarrow> string \<Rightarrow> int \<Rightarrow> proxy_world
    \<Rightarrow> ((int \<times> SliceProcessor) \<times> proxy_world) option" where
  "TransProxyLastSliceProcess env p h data pkg ch w =
     (let ret = TransProxySliceProcessChkPkgIsValid p h data
      in if ret \<noteq> SOFTBUS_OK then Some ((ret, p), w)
         else case append_slice p data of
                None \<Rightarrow> Some ((SOFTBUS_MEM_ERR, p), w)
              | Some (buf, p1) \<Rightarrow>
                  (case TransProxyNoSubPacketProc env pkg ch buf w of
                     None \<Rightarrow> None
                   | Some (ret1, w1) \<Rightarrow>
                       if ret1 \<noteq> SOFTBUS_OK then Some ((ret1, p1), w1)
                       else Some ((ret1, TransProxyClearProcessor p1), w1)))"

definition TransProxySubPacketProc ::
  "sess_env \<Rightarrow> string \<Rightarrow> int \<Rightarrow> SliceHead \<Rightarrow> byte list \<Rightarrow> proxy_world \<Rightarrow> (int \<times> proxy_world) option" where
  "TransProxySubPacketProc env pkg ch h data w =
     (if length data = 0 then Some (SOFTBUS_INVALID_PARAM, w)
      else case g_channelSliceProcessorList w of
             Null \<Rightarrow> Some (SOFTBUS_NO_INIT, w)
           | Dangling \<Rightarrow> None
           | Live l \<Rightarrow>
               if \<not> slice_lock env then Some (SOFTBUS_ERR, w)
               else (case TransProxyGetChannelSliceProcessor env ch l of
                       (None, l1) \<Rightarrow> Some (SOFTBUS_ERR, w)
                     | (Some node, l1) \<Rightarrow>
                         let index = nat (priority h);
                             p = processor node ! index;
                             res = (if sliceSeq h = 0 then Some (TransProxyFirstSliceProcess env p h data, w)
                                    else if sliceNum h = sliceSeq h + 1
                                    then TransProxyLastSliceProcess env p h data pkg ch w
                                    else Some (TransProxyNormalSliceProcess p h data, w))
                         in case res of
                              None \<Rightarrow> None
                            | Some ((ret, p1), w1) \<Rightarrow>
                                let p2 = (if ret \<noteq> SOFTBUS_OK then TransProxyClearProcessor p1 else p1)
                                in Some (ret, w1\<lparr>g_channelSliceProcessorList :=
                                     Live (sl_upd_first (\<lambda>n. cs_channelId n = ch)
                                       (\<lambda>n. n\<lparr>processor := (processor n)[index := p2]\<rparr>) l1)\<rparr>)))"

definition TransOnNormalMsgReceived ::
  "sess_env \<Rightarrow> string \<Rightarrow> int \<Rightarrow> byte list option \<Rightarrow> proxy_world \<Rightarrow> (int \<times> proxy_world) option" where
  "TransOnNormalMsgReceived env pkg ch datap w =
     (case datap of
        None \<Rightarrow> Some (SOFTBUS_ERR, w)
      | Some data \<Rightarrow>
          if length data \<le> SLICE_HEAD_LEN then Some (SOFTBUS_ERR, w)
          else let h = read_slice_head data
               in if TransProxyCheckSliceHead h \<noteq> SOFTBUS_OK then Some (SOFTBUS_TRANS_PROXY_INVALID_SLICE_HEAD, w)
                  else if sliceNum h = 1 then TransProxyNoSubPacketProc env pkg ch (drop SLICE_HEAD_SIZE data) w
                  else TransProxySubPacketProc env pkg ch h (drop SLICE_HEAD_SIZE data) w)"

section \<open>Removal, timer and initialisation\<close>

definition TransProxyDelSliceProcessorByChannelId ::
  "sess_env \<Rightarrow> int \<Rightarrow> proxy_world \<Rightarrow> (int \<times> proxy_world) option" where
  "TransProxyDelSliceProcessorByChannelId env ch w =
     (case g_channelSliceProcessorList w of
        Null \<Rightarrow> Some (SOFTBUS_NO_INIT, w)
      | Dangling \<Rightarrow> None
      | Live l \<Rightarrow>
          if \<not> slice_lock env then Some (SOFTBUS_ERR, w)
          else Some (SOFTBUS_OK,
            w\<lparr>g_channelSliceProcessorList := Live (sl_del_first (\<lambda>n. cs_channelId n = ch) l)\<rparr>))"

text \<open>One tick: each active reassembly gets older and is dropped at ten.\<close>

definition slice_tick :: "SliceProcessor \<Rightarrow> SliceProcessor" where
  "slice_tick p =
     (if active p then
        let p1 = p\<lparr>sp_timeout := sp_timeout p + 1\<rparr>
        in if sp_timeout p1 \<ge> SLICE_PACKET_TIMEOUT then TransProxyClearProcessor p1 else p1
      else p)"

definition TransProxySliceTimerProc :: "sess_env \<Rightarrow> proxy_world \<Rightarrow> proxy_world option" where
  "TransProxySliceTimerProc env w =
     (case g_channelSliceProcessorList w of
        Null \<Rightarrow> Some w
      | Dangling \<Rightarrow> None
      | Live l \<Rightarrow>
          if cnt l = 0 then Some w
          else if \<not> slice_lock env then Some w
          else Some (w\<lparr>g_channelSliceProcessorList :=
            Live (l\<lparr>lst := map (\<lambda>n. n\<lparr>processor := map slice_tick (processor n)\<rparr>) (lst l)\<rparr>)\<rparr>))"

text \<open>The timer function is the callback with the address \<open>cb\<close>.\<close>

definition TransSliceManagerInit :: "bool \<Rightarrow> bool \<Rightarrow> nat \<Rightarrow> proxy_world \<Rightarrow> int \<times> proxy_world" where
  "TransSliceManagerInit alloc mutexInit cb w =
     (case CreateSoftBusList alloc mutexInit of
        None \<Rightarrow> (SOFTBUS_ERR, w\<lparr>g_channelSliceProcessorList := Null\<rparr>)
      | Some l \<Rightarrow>
          (case RegisterTimeoutCallback SOFTBUS_PROXYSLICE_TIMER_FUN (Some cb) (w_timers w) of
             (ret, ts) \<Rightarrow>
               if ret \<noteq> SOFTBUS_OK
               then (SOFTBUS_ERR, w\<lparr>g_channelSliceProcessorList := Dangling, w_timers := ts\<rparr>)
               else (SOFTBUS_OK, w\<lparr>g_channelSliceProcessorList := Live l, w_timers := ts\<rparr>)))"

text \<open>A second call would free the list again.\<close>

definition TransSliceManagerDeInit :: "proxy_world \<Rightarrow> proxy_world option" where
  "TransSliceManagerDeInit w =
     (case g_channelSliceProcessorList w of
        Null \<Rightarrow> Some w
      | Dangling \<Rightarrow> None
      | Live l \<Rightarrow> Some (w\<lparr>g_channelSliceProcessorList := Dangling\<rparr>))"

section \<open>Headers in memory\<close>

lemma length_int_bytes [simp]: "length (int_bytes i) = 4"
  by (simp add: int_bytes_def)

lemma bytes_int_append [simp]: "- (2 ^ 31) \<le> i \<Longrightarrow> i < 2 ^ 31 \<Longrightarrow> bytes_int (int_bytes i @ bs) = i"
  by (simp add: bytes_int_def int_bytes_def signed_of_int signed_take_bit_int_eq_self)

lemma four_bytes: "length bs = 4 \<Longrightarrow> \<exists>a b c d. bs = [a, b, c, d]"
  by (auto simp: numeral_eq_Suc length_Suc_conv)

lemma int_bytes_bytes_int:
  assumes "length bs = 4"
  shows "int_bytes (bytes_int bs) = bs"
proof -
  obtain a b c d where "bs = [a, b, c, d]" using four_bytes [OF assms] by blast
  then show ?thesis
    by (auto simp: int_bytes_def bytes_int_def le_bytes_4 intro!: bit_word_eqI) (auto simp: bit_simps dest: bit_imp_le_length)
qed

lemma int_bytes_small:
  assumes "0 \<le> i" "i < 65536"
  shows "drop 2 (int_bytes i) = [0, 0]"
proof -
  have "unat (of_int i :: 32 word) = nat i"
    using assms by (simp only: unat_eq_nat_uint uint_word_of_int_eq) (simp add: take_bit_int_eq_self)
  then have "unat (drop_bit 16 (of_int i :: 32 word)) = 0"
    unfolding unat_drop_bit_eq using assms by (simp add: drop_bit_eq_div)
  then have "drop_bit 16 (of_int i :: 32 word) = 0" by (simp only: unat_eq_zero)
  then show ?thesis by (simp add: int_bytes_def le_bytes_4 drop_bit_drop_bit)
qed

lemma read_slice_head_bytes:
  assumes "\<forall>i \<in> {priority h, sliceNum h, sliceSeq h, s_reserved h}. - (2 ^ 31) \<le> i \<and> i < 2 ^ 31"
  shows "read_slice_head (slice_head_bytes h @ bs) = h"
  using assms by (simp add: read_slice_head_def slice_head_bytes_def)

lemma read_packet_head_bytes:
  assumes "\<forall>i \<in> {ph_seq h, ph_flags h, ph_dataLen h}. - (2 ^ 31) \<le> i \<and> i < 2 ^ 31"
  shows "read_packet_head (packet_head_bytes h @ bs) = h"
  using assms by (simp add: read_packet_head_def packet_head_bytes_def)

lemma length_heads [simp]: "length (slice_head_bytes h) = SLICE_HEAD_SIZE" "length (packet_head_bytes g) = PACKET_HEAD_SIZE"
  by (simp_all add: slice_head_bytes_def packet_head_bytes_def)

section \<open>Reassembly\<close>

text \<open>The list is there and its nodes have their three processors; the processor of a channel.\<close>

definition slices_wf :: "ChannelSliceProcessor SoftBusList handle \<Rightarrow> bool" where
  "slices_wf s \<longleftrightarrow> (\<exists>l. s = Live l \<and> (\<forall>n \<in> set (lst l). length (processor n) = PROCESSOR_MAX))"

definition proc_at :: "ChannelSliceProcessor SoftBusList handle \<Rightarrow> int \<Rightarrow> nat \<Rightarrow> SliceProcessor" where
  "proc_at s ch i =
     (case s of
        Live l \<Rightarrow> (case find (\<lambda>n. cs_channelId n = ch) (lst l) of None \<Rightarrow> cleared | Some n \<Rightarrow> processor n ! i)
      | _ \<Rightarrow> cleared)"

text \<open>
  The branches of \<^const>\<open>TransProxySubPacketProc\<close> work on the processor of the channel and put their
  result back in its place.
\<close>

definition slice_branch ::
  "sess_env \<Rightarrow> string \<Rightarrow> int \<Rightarrow> SliceHead \<Rightarrow> byte list \<Rightarrow> SliceProcessor \<Rightarrow> proxy_world
    \<Rightarrow> ((int \<times> SliceProcessor) \<times> proxy_world) option" where
  "slice_branch env pkg ch h data p w =
     (if sliceSeq h = 0 then Some (TransProxyFirstSliceProcess env p h data, w)
      else if sliceNum h = sliceSeq h + 1 then TransProxyLastSliceProcess env p h data pkg ch w
      else Some (TransProxyNormalSliceProcess p h data, w))"

lemma put_processor:
  assumes "find (\<lambda>n. cs_channelId n = ch) (lst l) = Some node" "i < PROCESSOR_MAX"
    "\<forall>n \<in> set (lst l). length (processor n) = PROCESSOR_MAX"
  shows "slices_wf (Live (sl_upd_first (\<lambda>n. cs_channelId n = ch) (\<lambda>n. n\<lparr>processor := (processor n)[i := p]\<rparr>) l))"
    "proc_at (Live (sl_upd_first (\<lambda>n. cs_channelId n = ch) (\<lambda>n. n\<lparr>processor := (processor n)[i := p]\<rparr>) l)) ch i = p"
proof -
  show "slices_wf (Live (sl_upd_first (\<lambda>n. cs_channelId n = ch) (\<lambda>n. n\<lparr>processor := (processor n)[i := p]\<rparr>) l))"
    using assms(3) by (auto simp: slices_wf_def elim!: in_upd_firstE)
  have "length (processor node) = PROCESSOR_MAX" using assms(1,3) by (auto dest: find_SomeD)
  then show "proc_at (Live (sl_upd_first (\<lambda>n. cs_channelId n = ch) (\<lambda>n. n\<lparr>processor := (processor n)[i := p]\<rparr>) l)) ch i = p"
    using assms(1,2) by (simp add: proc_at_def find_upd_first_same)
qed

lemma SubPacketProc_branch:
  assumes "slices_wf (g_channelSliceProcessorList w)" "slice_lock env" "s_alloc env ProcNode"
    "0 \<le> priority h" "priority h < PROXY_CHANNEL_PRORITY_BUTT" "data \<noteq> []"
  shows "\<exists>put. (\<forall>p. slices_wf (put p) \<and> proc_at (put p) ch (nat (priority h)) = p) \<and>
    TransProxySubPacketProc env pkg ch h data w =
      (case slice_branch env pkg ch h data (proc_at (g_channelSliceProcessorList w) ch (nat (priority h))) w of
         None \<Rightarrow> None
       | Some ((ret, p1), w1) \<Rightarrow>
           Some (ret, w1\<lparr>g_channelSliceProcessorList := put (if ret \<noteq> SOFTBUS_OK then TransProxyClearProcessor p1 else p1)\<rparr>))"
proof -
  let ?P = "\<lambda>n. cs_channelId n = ch" and ?i = "nat (priority h)"
  obtain l where l: "g_channelSliceProcessorList w = Live l" "\<forall>n \<in> set (lst l). length (processor n) = PROCESSOR_MAX"
    using assms(1) by (auto simp: slices_wf_def)
  obtain node l1 where g: "TransProxyGetChannelSliceProcessor env ch l = (Some node, l1)"
    and f: "find ?P (lst l1) = Some node" "\<forall>n \<in> set (lst l1). length (processor n) = PROCESSOR_MAX"
    and p: "processor node ! ?i = proc_at (Live l) ch ?i"
    using l(2) assms(3-5)
    by (cases "find ?P (lst l)") (auto simp: TransProxyGetChannelSliceProcessor_def proc_at_def Let_def)
  have i: "?i < PROCESSOR_MAX" using assms(5) by simp
  show ?thesis
    using put_processor [OF f(1) i f(2)] assms(2,6)
    by (intro exI [of _ "\<lambda>p. Live (sl_upd_first ?P (\<lambda>n. n\<lparr>processor := (processor n)[?i := p]\<rparr>) l1)"])
      (simp add: TransProxySubPacketProc_def l(1) g p slice_branch_def Let_def)
qed

text \<open>A processor that has collected the first \<open>i\<close> of \<open>n\<close> slices, with the bytes \<open>pre\<close>.\<close>

definition buf_size :: "int \<Rightarrow> nat" where
  "buf_size pri = (if pri = PROXY_CHANNEL_PRORITY_MESSAGE then PROXY_MESSAGE_LENGTH_MAX else PROXY_BYTES_LENGTH_MAX)
     + DATA_HEAD_SIZE + OVERHEAD_LEN"

definition collected :: "int \<Rightarrow> nat \<Rightarrow> nat \<Rightarrow> byte list \<Rightarrow> SliceProcessor" where
  "collected pri n i pre = \<lparr>active = True, sp_timeout = 0, sliceNumber = int n, expectedSeq = int i, dataLen = int (length pre),
     bufLen = int (buf_size pri), sp_data = Some (pre @ replicate (buf_size pri - length pre) 0)\<rparr>"

definition slice_head :: "int \<Rightarrow> nat \<Rightarrow> nat \<Rightarrow> SliceHead" where
  "slice_head pri n i = \<lparr>priority = pri, sliceNum = int n, sliceSeq = int i, s_reserved = 0\<rparr>"

lemma slice_head_sel [simp]:
  "priority (slice_head pri n i) = pri" "sliceNum (slice_head pri n i) = int n" "sliceSeq (slice_head pri n i) = int i"
  by (simp_all add: slice_head_def)

lemma first_slice:
  assumes "s_alloc env ProcBuf" "length data \<le> buf_size pri"
  shows "TransProxyFirstSliceProcess env p (slice_head pri n 0) data = (SOFTBUS_OK, collected pri n 1 data)"
  using assms
  by (simp add: TransProxyFirstSliceProcess_def slice_head_def collected_def buf_size_def TransProxyClearProcessor_def
      memcpy_s_def Let_def)

lemma append_slice_collected:
  assumes "data \<noteq> []" "length pre + length data \<le> buf_size pri"
  shows "append_slice (collected pri n i pre) data =
    Some (pre @ data @ replicate (buf_size pri - length pre - length data) 0, collected pri n (Suc i) (pre @ data))"
proof -
  have "length data \<le> nat (int (buf_size pri) - int (length pre))" "nat (int (buf_size pri) - int (length pre)) \<noteq> 0"
    using assms by (cases data; simp)+
  then show ?thesis
    using assms(2) by (simp add: append_slice_def collected_def memcpy_s_def Let_def)
qed

lemma slice_valid:
  assumes "length pre + length data \<le> buf_size pri"
  shows "TransProxySliceProcessChkPkgIsValid (collected pri n i pre) (slice_head pri n i) data = SOFTBUS_OK"
  using assms by (simp add: TransProxySliceProcessChkPkgIsValid_def collected_def slice_head_def)

lemma normal_slice:
  assumes "data \<noteq> []" "length pre + length data \<le> buf_size pri"
  shows "TransProxyNormalSliceProcess (collected pri n i pre) (slice_head pri n i) data =
    (SOFTBUS_OK, collected pri n (Suc i) (pre @ data))"
  using append_slice_collected [OF assms] slice_valid [OF assms(2)]
  by (simp add: TransProxyNormalSliceProcess_def) (simp add: collected_def)

text \<open>One slice arrives: the three cases.\<close>

definition receives ::
  "sess_env \<Rightarrow> string \<Rightarrow> int \<Rightarrow> int \<Rightarrow> nat \<Rightarrow> nat \<Rightarrow> byte list \<Rightarrow> proxy_world \<Rightarrow> (int \<times> proxy_world) option" where
  "receives env pkg ch pri n i data w = TransOnNormalMsgReceived env pkg ch (Some (slice_head_bytes (slice_head pri n i) @ data)) w"

lemma receives_sub:
  assumes "1 < n" "n < 2 ^ 31" "i < n" "0 \<le> pri" "pri < 3" "16 < length data"
  shows "receives env pkg ch pri n i data w = TransProxySubPacketProc env pkg ch (slice_head pri n i) data w"
proof -
  have "read_slice_head (slice_head_bytes (slice_head pri n i) @ data) = slice_head pri n i"
    using assms by (intro read_slice_head_bytes) (auto simp: slice_head_def)
  then show ?thesis
    using assms by (simp add: receives_def TransOnNormalMsgReceived_def TransProxyCheckSliceHead_def)
qed

lemma receives_short: "length data \<le> 16 \<Longrightarrow> receives env pkg ch pri n i data w = Some (SOFTBUS_ERR, w)"
  by (simp add: receives_def TransOnNormalMsgReceived_def)

lemma receives_first:
  assumes "slices_wf (g_channelSliceProcessorList w)" "slice_lock env" "\<forall>x. s_alloc env x" "0 \<le> pri" "pri < 3"
    "1 < n" "n < 2 ^ 31" "16 < length data" "length data \<le> buf_size pri"
  shows "\<exists>s. receives env pkg ch pri n 0 data w = Some (SOFTBUS_OK, w\<lparr>g_channelSliceProcessorList := s\<rparr>) \<and>
    slices_wf s \<and> proc_at s ch (nat pri) = collected pri n 1 data"
proof -
  have d: "data \<noteq> []" using \<open>16 < length data\<close> by auto
  obtain put where put: "\<forall>p. slices_wf (put p) \<and> proc_at (put p) ch (nat pri) = p"
    and e: "TransProxySubPacketProc env pkg ch (slice_head pri n 0) data w =
      (case slice_branch env pkg ch (slice_head pri n 0) data (proc_at (g_channelSliceProcessorList w) ch (nat pri)) w of
         None \<Rightarrow> None
       | Some ((ret, p1), w1) \<Rightarrow>
           Some (ret, w1\<lparr>g_channelSliceProcessorList := put (if ret \<noteq> SOFTBUS_OK then TransProxyClearProcessor p1 else p1)\<rparr>))"
    using SubPacketProc_branch [of w env "slice_head pri n 0" data ch pkg] assms d by auto
  have "slice_branch env pkg ch (slice_head pri n 0) data p w = Some ((SOFTBUS_OK, collected pri n 1 data), w)" for p
    using assms by (simp add: slice_branch_def first_slice)
  then show ?thesis
    using assms put by (simp add: receives_sub e) blast
qed

lemma receives_next:
  assumes "slices_wf (g_channelSliceProcessorList w)" "slice_lock env" "\<forall>x. s_alloc env x" "0 \<le> pri" "pri < 3"
    "n < 2 ^ 31" "16 < length data" "proc_at (g_channelSliceProcessorList w) ch (nat pri) = collected pri n i pre"
    "0 < i" "i < n" "length pre + length data \<le> buf_size pri"
  shows "\<exists>s. slices_wf s \<and>
    (if Suc i < n then receives env pkg ch pri n i data w = Some (SOFTBUS_OK, w\<lparr>g_channelSliceProcessorList := s\<rparr>) \<and>
       proc_at s ch (nat pri) = collected pri n (Suc i) (pre @ data)
     else receives env pkg ch pri n i data w =
       (case TransProxyNoSubPacketProc env pkg ch (pre @ data @ replicate (buf_size pri - length pre - length data) 0) w of
          None \<Rightarrow> None
        | Some (ret, w1) \<Rightarrow> Some (ret, w1\<lparr>g_channelSliceProcessorList := s\<rparr>)))"
proof -
  have d: "data \<noteq> []" using \<open>16 < length data\<close> by auto
  obtain put where put: "\<forall>p. slices_wf (put p) \<and> proc_at (put p) ch (nat pri) = p"
    and e: "TransProxySubPacketProc env pkg ch (slice_head pri n i) data w =
      (case slice_branch env pkg ch (slice_head pri n i) data (collected pri n i pre) w of
         None \<Rightarrow> None
       | Some ((ret, p1), w1) \<Rightarrow>
           Some (ret, w1\<lparr>g_channelSliceProcessorList := put (if ret \<noteq> SOFTBUS_OK then TransProxyClearProcessor p1 else p1)\<rparr>))"
    using SubPacketProc_branch [of w env "slice_head pri n i" data ch pkg] assms d by auto
  have r: "receives env pkg ch pri n i data w = TransProxySubPacketProc env pkg ch (slice_head pri n i) data w"
    using assms by (intro receives_sub) simp_all
  show ?thesis
  proof (cases "Suc i < n")
    case True
    then have "slice_branch env pkg ch (slice_head pri n i) data (collected pri n i pre) w =
        Some ((SOFTBUS_OK, collected pri n (Suc i) (pre @ data)), w)"
      using assms d by (simp add: slice_branch_def normal_slice)
    with True put show ?thesis by (intro exI [of _ "put (collected pri n (Suc i) (pre @ data))"]) (simp add: r e)
  next
    case False
    then have "n = Suc i" using assms by simp
    then have b: "slice_branch env pkg ch (slice_head pri n i) data (collected pri n i pre) w =
        TransProxyLastSliceProcess env (collected pri n i pre) (slice_head pri n i) data pkg ch w"
      using assms(9) by (simp add: slice_branch_def)
    let ?mem = "pre @ data @ replicate (buf_size pri - length pre - length data) 0"
    let ?p = "TransProxyClearProcessor (collected pri n (Suc i) (pre @ data))"
    have "TransProxyClearProcessor ?p = ?p" by (simp add: TransProxyClearProcessor_def)
    then have "TransProxySubPacketProc env pkg ch (slice_head pri n i) data w =
      (case TransProxyNoSubPacketProc env pkg ch ?mem w of
         None \<Rightarrow> None | Some (ret, w1) \<Rightarrow> Some (ret, w1\<lparr>g_channelSliceProcessorList := put ?p\<rparr>))"
      using append_slice_collected [OF d assms(11)] slice_valid [OF assms(11)]
      by (simp add: e b TransProxyLastSliceProcess_def split: option.split prod.split)
    with False put r show ?thesis by (intro exI [of _ "put ?p"]) simp
  qed
qed

section \<open>Slices of a packet\<close>

text \<open>The bytes of slice \<open>i\<close> of \<open>n\<close>, and the buffer the sender builds for it.\<close>

definition chunk :: "byte list \<Rightarrow> nat \<Rightarrow> nat \<Rightarrow> byte list" where
  "chunk P n i = (if n > 1 then take (if i = n - 1 then length P - i * MAX_SEND_LENGTH else MAX_SEND_LENGTH)
      (drop (i * MAX_SEND_LENGTH) P) else P)"

definition slice_count :: "nat \<Rightarrow> nat" where
  "slice_count len = (len + MAX_SEND_LENGTH - 1) div MAX_SEND_LENGTH"

definition normal_head :: "ProxyChannelInfo \<Rightarrow> ProxyMessageHead" where
  "normal_head info = \<lparr>m_type = msg_type_byte PROXYCHANNEL_MSG_TYPE_NORMAL, chiper = 0, m_myId = myId info,
     m_peerId = peerId info, reserved = 0\<rparr>"

definition slice_buf :: "ProxyChannelInfo \<Rightarrow> byte list \<Rightarrow> int \<Rightarrow> nat \<Rightarrow> nat \<Rightarrow> byte list" where
  "slice_buf info P flag n i = replicate 24 0 @ mhead_bytes (normal_head info) @
     slice_head_bytes (slice_head (ProxyTypeToProxyIndex flag) n i) @ chunk P n i"

lemma slice_count_bounds:
  "len \<le> slice_count len * 1024" "0 < len \<Longrightarrow> (slice_count len - 1) * 1024 < len" "0 < len \<Longrightarrow> 0 < slice_count len"
  unfolding slice_count_def by (simp_all; presburger)+

lemma chunk_full:
  assumes "Suc i < slice_count (length P)"
  shows "length (chunk P (slice_count (length P)) i) = 1024"
    "take (i * 1024) P @ chunk P (slice_count (length P)) i = take (Suc i * 1024) P"
proof -
  have P: "0 < length P" using assms by (cases P) (simp_all add: slice_count_def)
  have "Suc i * 1024 \<le> (slice_count (length P) - 1) * 1024" using assms by (intro mult_le_mono1) linarith
  then have "Suc i * 1024 < length P" using slice_count_bounds(2) [OF P] by linarith
  then show "length (chunk P (slice_count (length P)) i) = 1024"
    "take (i * 1024) P @ chunk P (slice_count (length P)) i = take (Suc i * 1024) P"
    using assms by (simp_all add: chunk_def add.commute flip: take_add)
qed

lemma chunk_last:
  assumes "Suc i = slice_count (length P)" "0 < length P"
  shows "length (chunk P (Suc i) i) = length P - i * 1024" "take (i * 1024) P @ chunk P (Suc i) i = P"
    "chunk P (Suc i) i \<noteq> []"
proof -
  have b: "i * 1024 < length P" using slice_count_bounds(2) [OF assms(2)] assms(1) by (metis diff_Suc_1)
  show l: "length (chunk P (Suc i) i) = length P - i * 1024" "take (i * 1024) P @ chunk P (Suc i) i = P"
    using b by (auto simp: chunk_def)
  show "chunk P (Suc i) i \<noteq> []" using l(1) b by auto
qed

lemma chunk_nonempty: "i < slice_count (length P) \<Longrightarrow> chunk P (slice_count (length P)) i \<noteq> []"
  using chunk_full(1) [of i P] chunk_last(3) [of i P]
  by (cases "Suc i < slice_count (length P)"; cases P)
    (force simp: slice_count_def simp del: One_nat_def dest: Suc_lessI)+

lemma send_slices_ok:
  assumes "\<forall>x. s_alloc env x" "\<forall>c d. 0 \<le> s_post env c d" "\<forall>i \<in> set is. chunk P n i \<noteq> []"
  shows "\<exists>ds. send_slices env info P flag n is w =
      (SOFTBUS_OK, w\<lparr>msgSeq := msgSeq w + of_nat (length is), wire := wire w @ map (Pair (connId info)) ds\<rparr>) \<and>
    map d_buf ds = map (\<lambda>i. Some (slice_buf info P flag n i)) is"
  using assms(3)
proof (induction "is" arbitrary: w)
  case Nil
  show ?case by (intro exI [of _ "[]"]) simp
next
  case (Cons i "is")
  let ?h = "slice_head (ProxyTypeToProxyIndex flag) n i"
  let ?d = "\<lparr>d_module = MODULE_PROXY_CHANNEL, d_seq = msgSeq w, d_flag = of_int (ProxyTypeToConnPri flag), d_pid = 0,
      d_len = int (length (slice_buf info P flag n i)), d_buf = Some (slice_buf info P flag n i)\<rparr>"
  let ?w = "w\<lparr>msgSeq := msgSeq w + 1, wire := wire w @ [(connId info, ?d)]\<rparr>"
  obtain ds where ds: "send_slices env info P flag n is ?w =
      (SOFTBUS_OK, ?w\<lparr>msgSeq := msgSeq ?w + of_nat (length is), wire := wire ?w @ map (Pair (connId info)) ds\<rparr>)"
    "map d_buf ds = map (\<lambda>i. Some (slice_buf info P flag n i)) is"
    using Cons.IH [of ?w] Cons.prems by auto
  have c: "take (if n > 1 then if i = n - 1 then length P - i * 1024 else 1024 else length P)
      (drop (if n > 1 then i * 1024 else 0) P) = chunk P n i"
    by (simp add: chunk_def)
  have "TransProxyPackAppNormalMsg env (normal_head info) ?h (chunk P n i) = Some (slice_buf info P flag n i)"
    using assms(1) Cons.prems
    by (simp add: TransProxyPackAppNormalMsg_def memcpy_s_def slice_buf_def ConnGetHeadSize_def)
  moreover have "TransProxyTransSendMsg env (connId info) (slice_buf info P flag n i) (ProxyTypeToConnPri flag) w = (SOFTBUS_OK, ?w)"
    using assms(2) by (simp add: TransProxyTransSendMsg_def Let_def not_less)
  ultimately have "send_slices env info P flag n (i # is) w = send_slices env info P flag n is ?w"
    unfolding send_slices.simps Let_def c by (simp flip: normal_head_def slice_head_def)
  with ds show ?case by (intro exI [of _ "?d # ds"]) (simp add: add.assoc)
qed

section \<open>From the buffers of the sender to the client of the receiver\<close>

text \<open>
  The receiver handles the buffers in order: behind the header of the connection it parses the
  proxy message and passes its data on. The results are collected.
\<close>

fun deliver ::
  "msg_env \<Rightarrow> sess_env \<Rightarrow> string \<Rightarrow> int \<Rightarrow> ProxyMessage \<Rightarrow> byte list list \<Rightarrow> proxy_world \<Rightarrow> (int list \<times> proxy_world) option" where
  "deliver menv env pkg ch msg [] w = Some ([], w)"
| "deliver menv env pkg ch msg (buf # bufs) w =
     (case TransProxyParseMessage menv (drop 24 buf) msg of
        (ret, msg1) \<Rightarrow>
          (case if ret \<noteq> SOFTBUS_OK then Some (ret, w) else TransOnNormalMsgReceived env pkg ch (Some (m_data msg1)) w of
             None \<Rightarrow> None
           | Some (ret1, w1) \<Rightarrow> map_option (\<lambda>(rets, w2). (ret1 # rets, w2)) (deliver menv env pkg ch msg bufs w1)))"

lemma deliver_slice:
  "deliver menv env pkg ch msg (slice_buf info P flag n i # bufs) w =
     (case receives env pkg ch (ProxyTypeToProxyIndex flag) n i (chunk P n i) w of
        None \<Rightarrow> None
      | Some (ret1, w1) \<Rightarrow> map_option (\<lambda>(rets, w2). (ret1 # rets, w2)) (deliver menv env pkg ch msg bufs w1))"
proof -
  let ?d = "slice_head_bytes (slice_head (ProxyTypeToProxyIndex flag) n i) @ chunk P n i"
  have "TransProxyParseMessageHead (mhead_bytes (normal_head info) @ ?d) msg =
    (SOFTBUS_OK, msg\<lparr>msgHead := (msgHead msg)\<lparr>m_type := PROXYCHANNEL_MSG_TYPE_NORMAL, chiper := 0,
       m_peerId := myId info, m_myId := peerId info\<rparr>, m_data := ?d\<rparr>)"
    using ParseMessageHead_packed [of "normal_head info" PROXYCHANNEL_MSG_TYPE_NORMAL ?d msg] by (simp add: normal_head_def)
  then have "\<exists>m. TransProxyParseMessage menv (mhead_bytes (normal_head info) @ ?d) msg = (SOFTBUS_OK, m) \<and> m_data m = ?d"
    by (simp add: TransProxyParseMessage_def)
  then show ?thesis by (auto simp: slice_buf_def receives_def)
qed

lemma deliver_append:
  "deliver menv env pkg ch msg (xs @ ys) w =
     (case deliver menv env pkg ch msg xs w of
        None \<Rightarrow> None
      | Some (r1, w1) \<Rightarrow> map_option (\<lambda>(r2, w2). (r1 @ r2, w2)) (deliver menv env pkg ch msg ys w1))"
proof (induction xs arbitrary: w)
  case Nil
  show ?case by (simp add: option.map_id)
next
  case (Cons x xs)
  show ?case
    by (auto simp: Cons.IH split: prod.splits option.splits if_splits)
      (simp_all add: option.map_comp comp_def case_prod_unfold)
qed

declare deliver.simps(2) [simp del]

text \<open>All slices but the last one: the bytes they carry are collected.\<close>

lemma deliver_collects:
  fixes P :: "byte list"
  defines "n \<equiv> slice_count (length P)"
  assumes "slices_wf (g_channelSliceProcessorList w)" "slice_lock env" "\<forall>x. s_alloc env x"
    "length P \<le> buf_size (ProxyTypeToProxyIndex flag)" "0 < k" "k < n"
  shows "\<exists>s. deliver menv env pkg ch msg (map (slice_buf info P flag n) [0..<k]) w =
      Some (replicate k SOFTBUS_OK, w\<lparr>g_channelSliceProcessorList := s\<rparr>) \<and>
    slices_wf s \<and> proc_at s ch (nat (ProxyTypeToProxyIndex flag)) =
      collected (ProxyTypeToProxyIndex flag) n k (take (k * 1024) P)"
  using assms(6,7)
proof (induction k)
  case 0
  then show ?case by simp
next
  case (Suc k)
  let ?pri = "ProxyTypeToProxyIndex flag"
  have pri: "0 \<le> ?pri" "?pri < 3" by (simp_all add: ProxyTypeToProxyIndex_def)
  have bs: "buf_size ?pri \<le> 8220" by (simp add: buf_size_def)
  have n: "1 < n" "n < 2 ^ 31" using Suc.prems assms(5) bs by (simp_all add: n_def slice_count_def)
  have c: "length (chunk P n k) = 1024" "take (k * 1024) P @ chunk P n k = take (Suc k * 1024) P"
    using chunk_full [of k P] Suc.prems by (simp_all add: n_def)
  show ?case
  proof (cases "k = 0")
    case True
    have c0: "chunk P n 0 = take 1024 P" "1024 \<le> buf_size ?pri" "16 < length (chunk P n 0)" "length (chunk P n 0) \<le> buf_size ?pri"
      using c True by (simp_all add: buf_size_def)
    show ?thesis
      using receives_first [OF assms(2-4) pri n c0(3,4), of pkg ch] c0(1)
      by (auto simp: True deliver_slice)
  next
    case False
    then obtain s where s: "deliver menv env pkg ch msg (map (slice_buf info P flag n) [0..<k]) w =
        Some (replicate k SOFTBUS_OK, w\<lparr>g_channelSliceProcessorList := s\<rparr>)"
      "slices_wf s" "proc_at s ch (nat ?pri) = collected ?pri n k (take (k * 1024) P)"
      using Suc by auto
    have l: "length (take (k * 1024) P) + length (chunk P n k) \<le> buf_size ?pri"
      using arg_cong [OF c(2), of length] assms(5) by simp
    obtain s1 where "receives env pkg ch ?pri n k (chunk P n k) (w\<lparr>g_channelSliceProcessorList := s\<rparr>) =
        Some (SOFTBUS_OK, w\<lparr>g_channelSliceProcessorList := s1\<rparr>)"
      "slices_wf s1" "proc_at s1 ch (nat ?pri) = collected ?pri n (Suc k) (take (Suc k * 1024) P)"
      using receives_next [of "w\<lparr>g_channelSliceProcessorList := s\<rparr>" env ?pri n "chunk P n k" ch k "take (k * 1024) P" pkg]
        s(2,3) assms(3,4) pri n c l False Suc.prems by auto
    then show ?thesis
      using s(1) by (intro exI [of _ s1]) (simp add: deliver_append deliver_slice replicate_append_same)
  qed
qed

text \<open>The packet sizes whose last slice is too short for the receiver.\<close>

definition last_slice_lost :: "nat \<Rightarrow> bool" where
  "last_slice_lost len \<longleftrightarrow> 1024 < len \<and> 0 < len mod 1024 \<and> len mod 1024 \<le> 16"

lemma last_slice_size:
  assumes "Suc i = slice_count len" "0 < i"
  shows "len - i * 1024 \<le> 16 \<longleftrightarrow> last_slice_lost len" "i * 1024 < len"
proof -
  have l: "len = i * 1024 + (len - i * 1024)" "0 < len - i * 1024" "len - i * 1024 \<le> 1024"
    using assms slice_count_bounds [of len] unfolding slice_count_def by linarith+
  have "len mod 1024 = (len - i * 1024) mod 1024" using l(1) by (metis mod_mult_self3)
  then show "len - i * 1024 \<le> 16 \<longleftrightarrow> last_slice_lost len"
    using l assms(2) by (cases "len - i * 1024 = 1024") (auto simp: last_slice_lost_def)
  show "i * 1024 < len" using l(2) by simp
qed

lemma receives_single:
  assumes "16 < length data" "0 \<le> pri" "pri < 3"
  shows "receives env pkg ch pri 1 0 data w = TransProxyNoSubPacketProc env pkg ch data w"
proof -
  have "read_slice_head (slice_head_bytes (slice_head pri 1 0) @ data) = slice_head pri 1 0"
    using assms by (intro read_slice_head_bytes) (auto simp: slice_head_def)
  then show ?thesis
    using assms by (simp add: receives_def TransOnNormalMsgReceived_def TransProxyCheckSliceHead_def)
qed

text \<open>
  A whole packet: either its last slice is dropped and nothing happens but the collecting, or the
  packet is processed as if it had come in one piece, with zeros behind it.
\<close>

lemma deliver_packet:
  fixes P :: "byte list"
  defines "n \<equiv> slice_count (length P)"
  assumes "slices_wf (g_channelSliceProcessorList w)" "slice_lock env" "\<forall>x. s_alloc env x"
    "16 < length P" "length P \<le> buf_size (ProxyTypeToProxyIndex flag)"
    and proc: "\<And>rest s. TransProxyNoSubPacketProc env pkg ch (P @ rest) (w\<lparr>g_channelSliceProcessorList := s\<rparr>) =
      Some (ret, w'\<lparr>g_channelSliceProcessorList := s\<rparr>)"
  shows "\<exists>rets s. deliver menv env pkg ch msg (map (slice_buf info P flag n) [0..<n]) w =
    Some (rets, (if last_slice_lost (length P) then w else w')\<lparr>g_channelSliceProcessorList := s\<rparr>)"
proof (cases "length P \<le> 1024")
  case True
  let ?pri = "ProxyTypeToProxyIndex flag"
  have pri: "0 \<le> ?pri" "?pri < 3" by (simp_all add: ProxyTypeToProxyIndex_def)
  have n: "n = 1" using True assms(5) by (simp add: n_def slice_count_def)
  have "receives env pkg ch ?pri 1 0 P w = Some (ret, w'\<lparr>g_channelSliceProcessorList := g_channelSliceProcessorList w\<rparr>)"
    using receives_single [OF assms(5) pri, of env pkg ch w] proc [of "[]" "g_channelSliceProcessorList w"] by simp
  then show ?thesis
    using True by (auto simp: n deliver_slice chunk_def last_slice_lost_def)
next
  case False
  let ?pri = "ProxyTypeToProxyIndex flag"
  have pri: "0 \<le> ?pri" "?pri < 3" by (simp_all add: ProxyTypeToProxyIndex_def)
  obtain k where k: "n = Suc k" "0 < k"
    using False by (cases n) (auto simp: n_def slice_count_def intro!: gr0I)
  have n31: "n < 2 ^ 31" using assms(6) by (simp add: n_def slice_count_def buf_size_def split: if_splits)
  have ck: "length (chunk P n k) = length P - k * 1024" "take (k * 1024) P @ chunk P n k = P"
    using chunk_last(1,2) [of k P] k \<open>16 < length P\<close> by (cases P; simp add: n_def)+
  obtain s where s: "deliver menv env pkg ch msg (map (slice_buf info P flag n) [0..<k]) w =
      Some (replicate k SOFTBUS_OK, w\<lparr>g_channelSliceProcessorList := s\<rparr>)"
    "slices_wf s" "proc_at s ch (nat ?pri) = collected ?pri n k (take (k * 1024) P)"
    using deliver_collects [where menv = menv and pkg = pkg and ch = ch and msg = msg and info = info and k = k,
        OF assms(2-4,6)] k by (auto simp: n_def)
  have "\<exists>r s1. receives env pkg ch ?pri n k (chunk P n k) (w\<lparr>g_channelSliceProcessorList := s\<rparr>) =
    Some (r, (if last_slice_lost (length P) then w else w')\<lparr>g_channelSliceProcessorList := s1\<rparr>)"
  proof (cases "last_slice_lost (length P)")
    case True
    then show ?thesis
      using receives_short [of "chunk P n k" env pkg ch ?pri n k] ck(1) last_slice_size(1) [of k "length P"] k
      by (auto simp: n_def)
  next
    case lost: False
    then have r: "16 < length (chunk P n k)"
      using ck(1) last_slice_size(1) [of k "length P"] k by (simp add: n_def)
    have l: "length (take (k * 1024) P) + length (chunk P n k) \<le> buf_size ?pri"
      using arg_cong [OF ck(2), of length] assms(6) by simp
    show ?thesis
      using receives_next [of "w\<lparr>g_channelSliceProcessorList := s\<rparr>" env ?pri n "chunk P n k" ch k "take (k * 1024) P" pkg]
        s(2,3) assms(3,4) pri n31 r l k lost proc ck(2) by (auto simp flip: append_assoc)
  qed
  then show ?thesis
    using s(1) by (auto simp: k(1) deliver_append deliver_slice)
qed

text \<open>The two ends: the key of the channel and a packet made with it.\<close>

definition chan_key :: "ProxyChannelInfo \<Rightarrow> byte list" where
  "chan_key item = map of_char (sessionKey (appInfo item))"

lemma touch_simps [simp]:
  "appInfo (touch i) = appInfo i" "status (touch i) = status i" "connId (touch i) = connId i" "channelId (touch i) = channelId i"
  by (simp_all add: touch_def)

lemma upd_chan_simps [simp]:
  "events (upd_chan ch f w) = events w" "wire (upd_chan ch f w) = wire w" "msgSeq (upd_chan ch f w) = msgSeq w"
  "w_rng (upd_chan ch f w) = w_rng w"
  "upd_chan ch f (w\<lparr>g_channelSliceProcessorList := s\<rparr>) = (upd_chan ch f w)\<lparr>g_channelSliceProcessorList := s\<rparr>"
  by (simp_all add: upd_chan_def)

lemma find_chan_slices [simp]: "find_chan env ch (w\<lparr>g_channelSliceProcessorList := s\<rparr>) = find_chan env ch w"
  by (simp add: find_chan_def)

lemma find_chan_rng [simp]: "find_chan env ch (w\<lparr>w_rng := g\<rparr>) = find_chan env ch w"
  by (simp add: find_chan_def)

lemma find_chan_upd:
  assumes "find_chan env ch w = Some item" "\<And>i. channelId (f i) = channelId i"
  shows "find_chan env ch (upd_chan ch f w) = Some (f item)"
  using assms
  by (auto simp: find_chan_def upd_chan_def find_upd_first_same split: option.splits if_splits)

lemma packet_delivered:
  assumes "SoftBusEncryptDataWithSeq lib renv (cipher_key (chan_key item)) data sq g = ((SOFTBUS_OK, c), g')"
    "gcm_ok lib (s_gcm env)" "rng_ok renv" "length data \<le> PROXY_MAX_BYTES_LEN" "- (2 ^ 31) \<le> sq" "sq < 2 ^ 31"
    "find_chan env ch w = Some item'" "chan_key item' = chan_key item" "length (chan_key item) \<le> 32"
    "\<forall>x. s_alloc env x" "s_notify env pkg ch data TRANS_SESSION_BYTES = SOFTBUS_OK"
  shows "TransProxyNoSubPacketProc env pkg ch
      (packet_head_bytes \<lparr>magicNumber = MAGIC_NUMBER, ph_seq = sq, ph_flags = PROXY_FLAG_BYTES, ph_dataLen = int (length c)\<rparr>
        @ c @ rest) w =
    Some (SOFTBUS_OK, (upd_chan ch touch w)\<lparr>events := events w @ [MsgReceived pkg ch data TRANS_SESSION_BYTES]\<rparr>)"
proof -
  let ?h = "\<lparr>magicNumber = MAGIC_NUMBER, ph_seq = sq, ph_flags = PROXY_FLAG_BYTES, ph_dataLen = int (length c)\<rparr>"
  have "length data + OVERHEAD_LEN < 2 ^ 31" using assms(4) by simp
  from encrypt_seq_frame [OF assms(1-3) this]
  have c: "length c = length data + OVERHEAD_LEN" "data \<noteq> []"
    "SoftBusDecryptDataWithSeq (s_gcm env) (cipher_key (chan_key item)) (c @ rest) (of_nat (length c)) sq = Some (SOFTBUS_OK, data)"
    by blast+
  have h: "read_packet_head (packet_head_bytes ?h @ c @ rest) = ?h"
    using assms(4-6) c(1) by (intro read_packet_head_bytes) simp
  have "TransProxyGetSessionKeyByChanId env ch w = (Some (chan_key item), upd_chan ch touch w)"
    using assms(7-9) by (simp add: TransProxyGetSessionKeyByChanId_def memcpy_s_def chan_key_def)
  then have "TransProxyProcessSessionData env pkg ch ?h (c @ rest) w =
    Some (SOFTBUS_OK, (upd_chan ch touch w)\<lparr>events := events w @ [MsgReceived pkg ch data TRANS_SESSION_BYTES]\<rparr>)"
    using c assms(4,10,11)
    by (simp add: TransProxyProcessSessionData_def TransProxyDecryptPacketData_def TransProxySessionDataLenCheck_def
        TransProxyNotifySession_def NotifyClientMsgReceived_def)
  then show ?thesis
    using c h by (simp add: TransProxyNoSubPacketProc_def Let_def)
qed

lemma PostSessionData_sends:
  assumes "\<forall>x. s_alloc env x" "\<forall>c d. 0 \<le> s_post env c d" "find_chan env ch w = Some item"
    "status item = PROXY_CHANNEL_STATUS_COMPLETED" "length (chan_key item) \<le> 32"
    "SoftBusEncryptDataWithSeq (s_gcm env) (s_rng env) (cipher_key (chan_key item)) data (seq item) (w_rng w) = ((SOFTBUS_OK, c), g)"
    "length c = length data + OVERHEAD_LEN"
    "P = packet_head_bytes \<lparr>magicNumber = MAGIC_NUMBER, ph_seq = seq item, ph_flags = PROXY_FLAG_BYTES,
       ph_dataLen = int (length c)\<rparr> @ c"
  shows "\<exists>w1 ds info. TransProxyPostSessionData env ch (Some data) TRANS_SESSION_BYTES w = (SOFTBUS_OK, w1) \<and>
    wire w1 = wire w @ map (Pair (connId item)) ds \<and> connId info = connId item \<and>
    map d_buf ds = map (\<lambda>i. Some (slice_buf info P PROXY_FLAG_BYTES (slice_count (length P)) i)) [0..<slice_count (length P)]"
proof -
  let ?bump = "\<lambda>i. i\<lparr>seq := sint (of_int (seq i + 1) :: 32 word)\<rparr>"
  let ?w1 = "upd_chan ch ?bump w"
  let ?w2 = "(upd_chan ch touch ?w1)\<lparr>w_rng := g\<rparr>"
  let ?w3 = "upd_chan ch touch ?w2"
  let ?info = "touch (touch (?bump item))"
  have f1: "find_chan env ch ?w1 = Some (?bump item)" using assms(3) by (rule find_chan_upd) simp
  have f2: "find_chan env ch ?w2 = Some (touch (?bump item))" using find_chan_upd [OF f1, of touch] by simp
  have pk: "TransProxyPackBytes env ch data PROXY_FLAG_BYTES w = ((SOFTBUS_OK, seq item, P), ?w2)"
    using assms(1,3,5-8) f1
    by (simp add: TransProxyPackBytes_def TransProxyGetPktSeqId_def TransProxyGetNewChanSeq_def
        TransProxyEncryptPacketData_def TransProxyGetSessionKeyByChanId_def memcpy_s_def chan_key_def Let_def)
  have "TransProxyGetSendMsgChanInfo env ch ?w2 = (Some ?info, ?w3)"
    using f2 by (simp add: TransProxyGetSendMsgChanInfo_def)
  then have "TransProxyTransDataSendMsg env ch P PROXY_FLAG_BYTES ?w2 =
      send_slices env ?info P PROXY_FLAG_BYTES (slice_count (length P)) [0..<slice_count (length P)] ?w3"
    using assms(1,4)
    by (simp add: TransProxyTransDataSendMsg_def TransProxyTransAppNormalMsg_def TransProxyGetBufLen_def slice_count_def Let_def)
  then have "TransProxyPostSessionData env ch (Some data) TRANS_SESSION_BYTES w =
      send_slices env ?info P PROXY_FLAG_BYTES (slice_count (length P)) [0..<slice_count (length P)] ?w3"
    using pk by (simp add: TransProxyPostSessionData_def SessionTypeToPacketType_def TransProxyPostPacketData_def)
  moreover obtain ds where
    "send_slices env ?info P PROXY_FLAG_BYTES (slice_count (length P)) [0..<slice_count (length P)] ?w3 =
      (SOFTBUS_OK, ?w3\<lparr>msgSeq := msgSeq ?w3 + of_nat (length [0..<slice_count (length P)]),
         wire := wire ?w3 @ map (Pair (connId ?info)) ds\<rparr>)"
    "map d_buf ds = map (\<lambda>i. Some (slice_buf ?info P PROXY_FLAG_BYTES (slice_count (length P)) i)) [0..<slice_count (length P)]"
    using send_slices_ok [OF assms(1,2), of "[0..<slice_count (length P)]" P "slice_count (length P)" ?info PROXY_FLAG_BYTES ?w3]
      chunk_nonempty by auto
  ultimately show ?thesis
    by (intro exI [of _ "?w3\<lparr>msgSeq := msgSeq ?w3 + of_nat (length [0..<slice_count (length P)]),
         wire := wire ?w3 @ map (Pair (connId ?info)) ds\<rparr>"] exI [of _ ds] exI [of _ ?info]) simp
qed

section \<open>Properties of session data\<close>


text \<open>Two ends with one channel each; data of 981 bytes is lost and three bytes are delivered.\<close>

definition demo_sess :: sess_env where
  "demo_sess = \<lparr>s_alloc = (\<lambda>_. True), chan_lock = True, slice_lock = True, s_gcm = demo_gcm, s_rng = demo_rng,
     s_post = (\<lambda>_ _. 0), s_notify = (\<lambda>_ _ _ _. SOFTBUS_OK), s_set_pending = (\<lambda>_ _. SOFTBUS_OK), s_proc_pending = (\<lambda>_ _. SOFTBUS_OK)\<rparr>"

definition demo_item :: ProxyChannelInfo where
  "demo_item = demo_chan\<lparr>status := PROXY_CHANNEL_STATUS_COMPLETED\<rparr>"

definition demo_proxy :: proxy_world where
  "demo_proxy = \<lparr>g_proxyChannelList = Some \<lparr>cnt = 1, lst = [demo_item]\<rparr>, g_channelSliceProcessorList = Live \<lparr>cnt = 0, lst = []\<rparr>,
     msgSeq = 1, w_rng = \<lparr>initFlag = True, draws = 0\<rparr>, w_timers = timers_reset, wire = [], events = []\<rparr>"

lemma demo_find: "find_chan demo_sess 1 demo_proxy = Some demo_item"
  by (simp add: find_chan_def demo_proxy_def demo_sess_def demo_item_def demo_chan_def)

lemma demo_seal:
  assumes "data \<noteq> []" "length data \<le> 4096"
  shows "\<exists>c g. SoftBusEncryptDataWithSeq (s_gcm demo_sess) (s_rng demo_sess) (cipher_key (chan_key demo_item)) data (seq demo_item)
    (w_rng demo_proxy) = ((SOFTBUS_OK, c), g)"
proof -
  have l: "length data < 2 ^ 31" "length data + 28 < 2 ^ 31" using assms(2) by simp_all
  have u: "unat (of_nat (length data) :: 32 word) = length data" "unat (of_nat (length data) + 28 :: 32 word) = length data + 28"
    "sint (of_nat (length data) + 28 :: 32 word) = int (length data) + 28"
    using l unat_of_nat [of "length data", where 'a = 32] unat_of_nat [of "length data + 28", where 'a = 32]
      sint_of_small_nat [OF l(2)] by (simp_all add: take_bit_nat_def)
  moreover have "(of_nat (length data) :: 32 word) \<noteq> 0" using u(1) assms(1) by (metis length_0_conv unat_0)
  ultimately show ?thesis
    using assms by (simp add: SoftBusEncryptDataWithSeq_def SoftBusGenerateRandomArray_def encrypt_with_iv_def MbedAesGcmEncrypt_def
        demo_sess_def demo_gcm_def demo_rng_def demo_proxy_def memcpy_s_def Let_def cipher_key_def)
qed

definition demo_long :: "byte list" where
  "demo_long = replicate 981 7"

lemma demo_long: "length demo_long = 981"
  unfolding demo_long_def by (rule length_replicate)


text \<open>C36: A packet says itself how long its encrypted data is, and the receiver does not compare this with
  the bytes it got: a message in one slice whose packet head claims more bytes than follow
  makes the decryption read behind the end of the message, for every channel that has a key.\<close>

theorem packet_length_unchecked:
  assumes "magicNumber h = MAGIC_NUMBER" "int OVERHEAD_LEN < ph_dataLen h" "int (length body) < ph_dataLen h"
    "\<forall>i \<in> {ph_seq h, ph_flags h, ph_dataLen h}. - (2 ^ 31) \<le> i \<and> i < 2 ^ 31" "body \<noteq> []" "0 \<le> pri" "pri < 3"
    and "s_alloc env OutBuf" "find_chan env ch w = Some item" "length (chan_key item) \<le> 32"
    "gcm_setkey (s_gcm env) (chan_key item) 256 = 0"
  shows "TransOnNormalMsgReceived env pkg ch (Some (slice_head_bytes (slice_head pri 1 0) @ packet_head_bytes h @ body)) w = None"
proof -
  have u: "unat (of_int (ph_dataLen h) :: 32 word) = nat (ph_dataLen h)"
    using assms(2,4) by (simp only: unat_eq_nat_uint uint_word_of_int_eq) (simp add: take_bit_int_eq_self)
  have l: "length body < nat (ph_dataLen h)" "28 < nat (ph_dataLen h)" using assms(2,3) by linarith+
  have d: "SoftBusDecryptData (s_gcm env) (cipher_key (chan_key item)) body (of_int (ph_dataLen h)) = None"
    using l assms(11) u
    by (simp add: SoftBusDecryptData_def MbedAesGcmDecrypt_def memcpy_s_def cipher_key_def word_less_nat_alt word_le_nat_alt)
  have k: "TransProxyGetSessionKeyByChanId env ch w = (Some (chan_key item), upd_chan ch touch w)"
    using assms(9,10) by (simp add: TransProxyGetSessionKeyByChanId_def memcpy_s_def chan_key_def)
  have "TransProxyProcessSessionData env pkg ch h body w = None"
    using assms(2,8) d k by (simp add: TransProxyProcessSessionData_def TransProxyDecryptPacketData_def SoftBusDecryptDataWithSeq_def)
  then have "TransProxyNoSubPacketProc env pkg ch (packet_head_bytes h @ body) w = None"
    using assms(1,2) by (simp add: TransProxyNoSubPacketProc_def read_packet_head_bytes [OF assms(4)] Let_def)
  moreover have "16 < length (packet_head_bytes h @ body)" using assms(5) by simp
  ultimately show ?thesis
    using receives_single [OF _ assms(6,7), of "packet_head_bytes h @ body" env pkg ch w] unfolding receives_def by metis
qed

theorem packet_length_unchecked_witness:
  "TransOnNormalMsgReceived demo_sess ''p'' 1 (Some (slice_head_bytes (slice_head 1 1 0) @
     packet_head_bytes \<lparr>magicNumber = MAGIC_NUMBER, ph_seq = 0, ph_flags = 0, ph_dataLen = 100\<rparr> @ [1, 2, 3])) demo_proxy = None"
proof -
  have k: "s_alloc demo_sess OutBuf" "length (chan_key demo_item) \<le> 32" "gcm_setkey (s_gcm demo_sess) (chan_key demo_item) 256 = 0"
    by (simp_all add: demo_sess_def demo_gcm_def demo_item_def demo_chan_def chan_key_def)
  show ?thesis
    by (rule packet_length_unchecked [OF _ _ _ _ _ _ _ k(1) demo_find k(2,3)]) simp_all
qed

text \<open>The receiver of a message acknowledges it with the number of the message in the byte order of
  the machine, and the sender reads the number of an acknowledgement in network byte order. On a
  little-endian machine it therefore looks for the number with its bytes reversed, which is the
  number sent only when the bytes read the same both ways: none of the first 65535 messages of a
  channel is ever matched with its acknowledgement, and each of these calls waits until it times out.\<close>

theorem session_ack_number_reversed:
  assumes "- (2 ^ 31) \<le> sq" "sq < 2 ^ 31"
  shows "events (snd (TransProxyNotifySession env pkg ch PROXY_FLAG_ACK s (int_bytes sq) w)) =
      events w @ [SetPending ch (bytes_int (rev (int_bytes sq)))] \<and>
    (bytes_int (rev (int_bytes sq)) = sq \<longleftrightarrow> rev (int_bytes sq) = int_bytes sq) \<and>
    (0 < sq \<and> sq < 65536 \<longrightarrow> bytes_int (rev (int_bytes sq)) \<noteq> sq)"
proof (intro conjI impI)
  show "events (snd (TransProxyNotifySession env pkg ch PROXY_FLAG_ACK s (int_bytes sq) w)) =
      events w @ [SetPending ch (bytes_int (rev (int_bytes sq)))]"
    by (simp add: TransProxyNotifySession_def TransProxyProcSendMsgAck_def Let_def)
  show eq: "bytes_int (rev (int_bytes sq)) = sq \<longleftrightarrow> rev (int_bytes sq) = int_bytes sq"
    using int_bytes_bytes_int [of "rev (int_bytes sq)"] bytes_int_append [OF assms, of "[]"] by auto
  assume sq: "0 < sq \<and> sq < 65536"
  show "bytes_int (rev (int_bytes sq)) \<noteq> sq"
  proof
    assume "bytes_int (rev (int_bytes sq)) = sq"
    then have r: "rev (int_bytes sq) = int_bytes sq" using eq by simp
    have z: "drop 2 (int_bytes sq) = [0, 0]" using sq by (intro int_bytes_small) simp_all
    obtain a b c d where l: "int_bytes sq = [a, b, c, d]" using four_bytes [OF length_int_bytes] by blast
    have "c = 0" "d = 0" using z unfolding l by simp_all
    moreover have "d = a" "c = b" using arg_cong [OF r, of hd] arg_cong [OF r, of "\<lambda>x. x ! 1"] unfolding l by simp_all
    ultimately have "int_bytes sq = [0, 0, 0, 0]" using l by metis
    then have "bytes_int (int_bytes sq @ []) = 0" by (simp add: bytes_int_def)
    then show False using bytes_int_append [OF assms, of "[]"] sq by linarith
  qed
qed

theorem session_ack_number_reversed_witness:
  "events (snd (TransProxyNotifySession demo_sess ''p'' 1 PROXY_FLAG_ACK 9 (int_bytes 1) demo_proxy)) = [SetPending 1 (2 ^ 24)]"
proof -
  have "bytes_int (rev (int_bytes 1)) = 2 ^ 24" by (simp add: int_bytes_def le_bytes_4 bytes_int_def)
  then show ?thesis
    using session_ack_number_reversed [of 1 demo_sess "''p''" 1 9 demo_proxy] by (simp add: demo_proxy_def)
qed

end
