(* ===== verification/Proxy_Conn.thy ===== *)
theory Proxy_Conn
  imports Proxy_Session
begin

text \<open>
  The connections under proxy channels: the listener functions of
  \<^verbatim>\<open>softbus_proxychannel_listener.c\<close>, \<^verbatim>\<open>softbus_proxychannel_callback.c\<close> and
  \<^verbatim>\<open>softbus_proxychannel_network.c\<close>, and of \<^verbatim>\<open>softbus_proxychannel_transceiver.c\<close> the counted list of
  connections and the messages posted to the loop (all under
  \<^verbatim>\<open>core/transmission/trans_channel/proxy/src\<close>). Callbacks of clients are recorded with their results
  taken from the environment; the requests to the connection manager are recorded as well.
\<close>

unbundle bit_operations_syntax

section \<open>State and environment\<close>

abbreviation (input) APP_TYPE_INNER :: int where "APP_TYPE_INNER \<equiv> 3"
abbreviation (input) PROXY_CHANNEL_STATUS_PYH_CONNECTED :: int where "PROXY_CHANNEL_STATUS_PYH_CONNECTED \<equiv> 0"
abbreviation (input) PROXY_CHANNEL_STATUS_PYH_CONNECTING :: int where "PROXY_CHANNEL_STATUS_PYH_CONNECTING \<equiv> 1"
abbreviation (input) PROXY_CHANNEL_STATUS_HANDSHAKEING :: int where "PROXY_CHANNEL_STATUS_HANDSHAKEING \<equiv> 2"
abbreviation (input) PROXY_CHANNEL_STATUS_TIMEOUT :: int where "PROXY_CHANNEL_STATUS_TIMEOUT \<equiv> 4"
abbreviation (input) PROXY_CHANNEL_STATUS_HANDSHAKE_TIMEOUT :: int where "PROXY_CHANNEL_STATUS_HANDSHAKE_TIMEOUT \<equiv> 5"
abbreviation (input) IP_LEN :: nat where "IP_LEN \<equiv> 46"

record ProxyConnInfo =
  requestId :: "32 word"
  pc_connInfo :: ConnectOption
  pc_connId :: "32 word"
  pc_ref :: int
  pc_state :: int

text \<open>The messages of the loop, with the object each carries.\<close>

datatype loop_msg =
    LOOP_HANDSHAKE_MSG int
  | LOOP_DISCONNECT_MSG "32 word"
  | LOOP_OPENFAIL_MSG ProxyChannelInfo
  | LOOP_OPENCLOSE_MSG ProxyChannelInfo
  | LOOP_KEEPALIVE_MSG ProxyChannelInfo
  | LOOP_RESETPEER_MSG ProxyChannelInfo

text \<open>Calls of the client's callbacks, of the networking listener and of the connection manager.\<close>

datatype chan_call =
    OnChannelOpened string string int bool
  | OnChannelClosed string int
  | OnChannelOpenFailed string int
  | onChannelOpened int string bool
  | onChannelOpenFailed int string
  | onChannelClosed int
  | onMessageReceived int "byte list"
  | ConnectCall ConnectOption "32 word"
  | DisconnectCall "32 word"

record mgr_world =
  pw :: proxy_world
  g_proxyConnectionList :: "ProxyConnInfo SoftBusList option"
  lastMyId :: "16 word"
  conn_mgr :: "(unit, unit) ConnManager"
  g_netChanlistener :: bool
  loopq :: "loop_msg list"
  calls :: "chan_call list"

text \<open>
  Outcomes of the environment: what the session functions use, allocation and locks, the JSON
  library and the encryption of the authentication module, the answers of the connection manager,
  of the clients and of the device ledger.
\<close>

datatype mgr_site = ChanItem | ConnItem | LoopItem | LoopId | ResetItem | HexBuf

record mgr_env =
  sess :: sess_env
  m_site :: "mgr_site \<Rightarrow> bool"
  conn_lock :: bool
  myid_lock :: bool
  m_json :: json_lib
  m_alloc :: bool
  m_enc :: "ConnectOption \<Rightarrow> byte list \<Rightarrow> (int \<times> byte list) option"
  m_dec :: "ConnectOption \<Rightarrow> int \<Rightarrow> byte list \<Rightarrow> byte list option"
  m_headLen :: nat
  conn_info :: "32 word \<Rightarrow> ConnectionInfo option"
  conn_connect :: "ConnectOption \<Rightarrow> 32 word \<Rightarrow> int"
  cb_opened :: "string \<Rightarrow> string \<Rightarrow> int \<Rightarrow> bool \<Rightarrow> int"
  cb_closed :: "string \<Rightarrow> int \<Rightarrow> int"
  cb_failed :: "string \<Rightarrow> int \<Rightarrow> int"
  cb_pkgName :: "string \<Rightarrow> nat \<Rightarrow> string option"
  net_opened :: "int \<Rightarrow> string \<Rightarrow> bool \<Rightarrow> int"
  udid :: "nat \<Rightarrow> string option"
  networkId :: "string \<Rightarrow> nat \<Rightarrow> string option"

definition log_call :: "chan_call \<Rightarrow> mgr_world \<Rightarrow> mgr_world" where
  "log_call c m = m\<lparr>calls := calls m @ [c]\<rparr>"

section \<open>Listeners\<close>

text \<open>\<^verbatim>\<open>softbus_proxychannel_callback.c\<close> passes on to the functions registered at the initialisation.\<close>

definition TransProxyOnChannelOpened ::
  "mgr_env \<Rightarrow> string \<Rightarrow> string \<Rightarrow> int \<Rightarrow> bool \<Rightarrow> mgr_world \<Rightarrow> int \<times> mgr_world" where
  "TransProxyOnChannelOpened env pkg name ch srv m =
     (cb_opened env pkg name ch srv, log_call (OnChannelOpened pkg name ch srv) m)"

definition TransProxyOnChannelClosed :: "mgr_env \<Rightarrow> string \<Rightarrow> int \<Rightarrow> mgr_world \<Rightarrow> int \<times> mgr_world" where
  "TransProxyOnChannelClosed env pkg ch m = (cb_closed env pkg ch, log_call (OnChannelClosed pkg ch) m)"

definition TransProxyOnChannelOpenFailed :: "mgr_env \<Rightarrow> string \<Rightarrow> int \<Rightarrow> mgr_world \<Rightarrow> int \<times> mgr_world" where
  "TransProxyOnChannelOpenFailed env pkg ch m = (cb_failed env pkg ch, log_call (OnChannelOpenFailed pkg ch) m)"

definition NotifyNormalChannelClosed :: "mgr_env \<Rightarrow> string \<Rightarrow> int \<Rightarrow> mgr_world \<Rightarrow> int \<times> mgr_world" where
  "NotifyNormalChannelClosed env pkg ch m = TransProxyOnChannelClosed env pkg ch m"

definition NotifyNormalChannelOpenFailed :: "mgr_env \<Rightarrow> string \<Rightarrow> int \<Rightarrow> mgr_world \<Rightarrow> int \<times> mgr_world" where
  "NotifyNormalChannelOpenFailed env pkg ch m = TransProxyOnChannelOpenFailed env pkg ch m"

definition NotifyNormalChannelOpened :: "mgr_env \<Rightarrow> int \<Rightarrow> AppInfo \<Rightarrow> bool \<Rightarrow> mgr_world \<Rightarrow> int \<times> mgr_world" where
  "NotifyNormalChannelOpened env ch app srv m =
     (case networkId env (deviceId (peerData app)) 65 of
        None \<Rightarrow> (SOFTBUS_ERR, m)
      | Some _ \<Rightarrow> TransProxyOnChannelOpened env (pkgName (myData app)) (sessionName (myData app)) ch srv m)"

definition NotifyNetworkingChannelOpened :: "mgr_env \<Rightarrow> int \<Rightarrow> AppInfo \<Rightarrow> bool \<Rightarrow> mgr_world \<Rightarrow> int \<times> mgr_world" where
  "NotifyNetworkingChannelOpened env ch app srv m =
     (if \<not> g_netChanlistener m then (SOFTBUS_ERR, m)
      else (if net_opened env ch (deviceId (peerData app)) srv \<noteq> SOFTBUS_OK then SOFTBUS_ERR else SOFTBUS_OK,
            log_call (onChannelOpened ch (deviceId (peerData app)) srv) m))"

definition NotifyNetworkingChannelOpenFailed :: "int \<Rightarrow> string \<Rightarrow> mgr_world \<Rightarrow> mgr_world" where
  "NotifyNetworkingChannelOpenFailed ch dev m = (if \<not> g_netChanlistener m then m else log_call (onChannelOpenFailed ch dev) m)"

definition NotifyNetworkingChannelClosed :: "int \<Rightarrow> mgr_world \<Rightarrow> mgr_world" where
  "NotifyNetworkingChannelClosed ch m = (if \<not> g_netChanlistener m then m else log_call (onChannelClosed ch) m)"

definition NotifyNetworkingMsgReceived :: "int \<Rightarrow> byte list \<Rightarrow> mgr_world \<Rightarrow> mgr_world" where
  "NotifyNetworkingMsgReceived ch data m = (if \<not> g_netChanlistener m then m else log_call (onMessageReceived ch data) m)"

definition OnProxyChannelOpened :: "mgr_env \<Rightarrow> int \<Rightarrow> AppInfo \<Rightarrow> bool \<Rightarrow> mgr_world \<Rightarrow> int \<times> mgr_world" where
  "OnProxyChannelOpened env ch app srv m =
     (if appType app = APP_TYPE_NORMAL then NotifyNormalChannelOpened env ch app srv m
      else if appType app = APP_TYPE_AUTH then (SOFTBUS_ERR, m)
      else if appType app = APP_TYPE_INNER then NotifyNetworkingChannelOpened env ch app srv m
      else (SOFTBUS_ERR, m))"

definition OnProxyChannelOpenFailed :: "mgr_env \<Rightarrow> int \<Rightarrow> AppInfo \<Rightarrow> mgr_world \<Rightarrow> int \<times> mgr_world" where
  "OnProxyChannelOpenFailed env ch app m =
     (if appType app = APP_TYPE_NORMAL then NotifyNormalChannelOpenFailed env (pkgName (myData app)) ch m
      else if appType app = APP_TYPE_AUTH then (SOFTBUS_ERR, m)
      else if appType app = APP_TYPE_INNER
      then (SOFTBUS_OK, NotifyNetworkingChannelOpenFailed ch (deviceId (peerData app)) m)
      else (SOFTBUS_ERR, m))"

definition OnProxyChannelClosed :: "mgr_env \<Rightarrow> int \<Rightarrow> AppInfo \<Rightarrow> mgr_world \<Rightarrow> int \<times> mgr_world" where
  "OnProxyChannelClosed env ch app m =
     (if appType app = APP_TYPE_NORMAL then NotifyNormalChannelClosed env (pkgName (myData app)) ch m
      else if appType app = APP_TYPE_AUTH then (SOFTBUS_ERR, m)
      else if appType app = APP_TYPE_INNER then (SOFTBUS_OK, NotifyNetworkingChannelClosed ch m)
      else (SOFTBUS_ERR, m))"

definition OnProxyChannelMsgReceived ::
  "mgr_env \<Rightarrow> int \<Rightarrow> AppInfo \<Rightarrow> byte list \<Rightarrow> mgr_world \<Rightarrow> (int \<times> mgr_world) option" where
  "OnProxyChannelMsgReceived env ch app data m =
     (if length data = 0 then Some (SOFTBUS_INVALID_PARAM, m)
      else if appType app = APP_TYPE_NORMAL then
        (case TransOnNormalMsgReceived (sess env) (pkgName (myData app)) ch (Some data) (pw m) of
           None \<Rightarrow> None
         | Some (_, w) \<Rightarrow> Some (SOFTBUS_OK, m\<lparr>pw := w\<rparr>))
      else if appType app = APP_TYPE_AUTH then Some (SOFTBUS_ERR, m)
      else if appType app = APP_TYPE_INNER then Some (SOFTBUS_OK, NotifyNetworkingMsgReceived ch data m)
      else Some (SOFTBUS_ERR, m))"

section \<open>Messages to the loop\<close>

text \<open>A message that cannot be allocated is not posted.\<close>

definition TransProxyCreateLoopMsg :: "mgr_env \<Rightarrow> loop_msg \<Rightarrow> loop_msg option" where
  "TransProxyCreateLoopMsg env msg = (if \<not> m_site env LoopItem then None else Some msg)"

definition post_loop :: "mgr_env \<Rightarrow> loop_msg \<Rightarrow> mgr_world \<Rightarrow> mgr_world" where
  "post_loop env msg m =
     (case TransProxyCreateLoopMsg env msg of None \<Rightarrow> m | Some x \<Rightarrow> m\<lparr>loopq := loopq m @ [x]\<rparr>)"

definition TransProxyPostResetPeerMsgToLoop :: "mgr_env \<Rightarrow> ProxyChannelInfo \<Rightarrow> mgr_world \<Rightarrow> mgr_world" where
  "TransProxyPostResetPeerMsgToLoop env chan m = post_loop env (LOOP_RESETPEER_MSG chan) m"

definition TransProxyPostHandshakeMsgToLoop :: "mgr_env \<Rightarrow> int \<Rightarrow> mgr_world \<Rightarrow> mgr_world" where
  "TransProxyPostHandshakeMsgToLoop env ch m =
     (if \<not> m_site env LoopId then m else post_loop env (LOOP_HANDSHAKE_MSG ch) m)"

definition TransProxyPostDisConnectMsgToLoop :: "mgr_env \<Rightarrow> 32 word \<Rightarrow> mgr_world \<Rightarrow> mgr_world" where
  "TransProxyPostDisConnectMsgToLoop env cid m = post_loop env (LOOP_DISCONNECT_MSG cid) m"

definition TransProxyPostKeepAliveMsgToLoop :: "mgr_env \<Rightarrow> ProxyChannelInfo \<Rightarrow> mgr_world \<Rightarrow> mgr_world" where
  "TransProxyPostKeepAliveMsgToLoop env chan m = post_loop env (LOOP_KEEPALIVE_MSG chan) m"

definition TransProxyPostOpenFailMsgToLoop :: "mgr_env \<Rightarrow> ProxyChannelInfo \<Rightarrow> mgr_world \<Rightarrow> mgr_world" where
  "TransProxyPostOpenFailMsgToLoop env chan m = post_loop env (LOOP_OPENFAIL_MSG chan) m"

definition TransProxyPostOpenClosedMsgToLoop :: "mgr_env \<Rightarrow> ProxyChannelInfo \<Rightarrow> mgr_world \<Rightarrow> mgr_world" where
  "TransProxyPostOpenClosedMsgToLoop env chan m = post_loop env (LOOP_OPENCLOSE_MSG chan) m"

section \<open>The list of connections\<close>

definition conn_list :: "mgr_env \<Rightarrow> mgr_world \<Rightarrow> ProxyConnInfo SoftBusList option" where
  "conn_list env m =
     (case g_proxyConnectionList m of None \<Rightarrow> None | Some l \<Rightarrow> if \<not> conn_lock env then None else Some l)"

definition set_conns :: "ProxyConnInfo SoftBusList \<Rightarrow> mgr_world \<Rightarrow> mgr_world" where
  "set_conns l m = m\<lparr>g_proxyConnectionList := Some l\<rparr>"

definition pending_conn :: "32 word \<Rightarrow> ProxyConnInfo \<Rightarrow> bool" where
  "pending_conn rid c \<longleftrightarrow> requestId c = rid \<and> pc_state c = PROXY_CHANNEL_STATUS_PYH_CONNECTING"

definition TransDelConnByReqId :: "mgr_env \<Rightarrow> 32 word \<Rightarrow> mgr_world \<Rightarrow> int \<times> mgr_world" where
  "TransDelConnByReqId env rid m =
     (case conn_list env m of
        None \<Rightarrow> (SOFTBUS_ERR, m)
      | Some l \<Rightarrow> (SOFTBUS_OK, set_conns (sl_del_first (pending_conn rid) l) m))"

definition TransDelConnByConnId :: "mgr_env \<Rightarrow> 32 word \<Rightarrow> mgr_world \<Rightarrow> mgr_world" where
  "TransDelConnByConnId env cid m =
     (case conn_list env m of
        None \<Rightarrow> m
      | Some l \<Rightarrow> set_conns (sl_del_first (\<lambda>c. pc_connId c = cid) l) m)"

definition TransDecConnRefByConnId :: "mgr_env \<Rightarrow> 32 word \<Rightarrow> mgr_world \<Rightarrow> int \<times> mgr_world" where
  "TransDecConnRefByConnId env cid m =
     (case conn_list env m of
        None \<Rightarrow> (SOFTBUS_ERR, m)
      | Some l \<Rightarrow>
          (case find (\<lambda>c. pc_connId c = cid) (lst l) of
             None \<Rightarrow> (SOFTBUS_OK, m)
           | Some c \<Rightarrow>
               if pc_ref c - 1 \<le> 0 then (SOFTBUS_OK, set_conns (sl_del_first (\<lambda>c. pc_connId c = cid) l) m)
               else (SOFTBUS_ERR,
                     set_conns (sl_upd_first (\<lambda>c. pc_connId c = cid) (\<lambda>c. c\<lparr>pc_ref := pc_ref c - 1\<rparr>) l) m)))"

definition TransAddConnRefByConnId :: "mgr_env \<Rightarrow> 32 word \<Rightarrow> mgr_world \<Rightarrow> int \<times> mgr_world" where
  "TransAddConnRefByConnId env cid m =
     (case conn_list env m of
        None \<Rightarrow> (SOFTBUS_ERR, m)
      | Some l \<Rightarrow>
          (SOFTBUS_OK, set_conns (sl_upd_first (\<lambda>c. pc_connId c = cid) (\<lambda>c. c\<lparr>pc_ref := pc_ref c + 1\<rparr>) l) m))"

definition TransSetConnStateByReqId :: "mgr_env \<Rightarrow> 32 word \<Rightarrow> 32 word \<Rightarrow> int \<Rightarrow> mgr_world \<Rightarrow> mgr_world" where
  "TransSetConnStateByReqId env rid cid st m =
     (case conn_list env m of
        None \<Rightarrow> m
      | Some l \<Rightarrow>
          set_conns (sl_upd_first (pending_conn rid)
            (\<lambda>c. c\<lparr>pc_state := st, pc_connId := cid, requestId := 0\<rparr>) l) m)"

text \<open>
  The options of a connection share their memory: read as the address of a bluetooth device, an
  option for TCP shows its IP address.
\<close>

definition brMac :: "ConnectOption \<Rightarrow> string" where
  "brMac o' = (case co_info o' of BrOption a \<Rightarrow> a | BleOption a _ \<Rightarrow> a | IpOption a _ \<Rightarrow> a)"

definition ip_matches :: "ConnectOption \<Rightarrow> ConnectOption \<Rightarrow> bool" where
  "ip_matches a b =
     (case (co_info a, co_info b) of (IpOption i p, IpOption j q) \<Rightarrow> i = j \<and> p = q | _ \<Rightarrow> False)"

definition TransGetConn :: "mgr_env \<Rightarrow> ConnectOption \<Rightarrow> mgr_world \<Rightarrow> ProxyConnInfo option" where
  "TransGetConn env opt m =
     (case conn_list env m of
        None \<Rightarrow> None
      | Some l \<Rightarrow>
          find (\<lambda>c. co_type (pc_connInfo c) = co_type opt \<and>
                    (if co_type opt = CONNECT_TCP then ip_matches opt (pc_connInfo c)
                     else if co_type opt = CONNECT_BR then brMac opt = brMac (pc_connInfo c)
                     else False)) (lst l))"

text \<open>
  The connection of an accepted channel. The code copies the start of the connection info over an
  option, whose fields lie elsewhere: the type becomes the flag of availability, the address the
  bytes of the flag of the server side, and the port what lies in the address from byte 40 on.
\<close>

definition addr_bytes :: "conn_addr \<Rightarrow> byte list" where
  "addr_bytes a = map of_char (case a of BrInfo s \<Rightarrow> s | BleInfo s _ \<Rightarrow> s | IpInfo s _ _ \<Rightarrow> s)"

definition info_as_option :: "ConnectionInfo \<Rightarrow> ConnectOption" where
  "info_as_option info =
     \<lparr>co_type = (if isAvailable info then 1 else 0),
      co_info = IpOption (if isServer info then [CHR 0x01] else [])
        (bytes_int (take 4 (drop 40 (addr_bytes (ci_info info) @ replicate IP_LEN 0))))\<rparr>"

definition TransCreateConnByConnId :: "mgr_env \<Rightarrow> 32 word \<Rightarrow> mgr_world \<Rightarrow> mgr_world" where
  "TransCreateConnByConnId env cid m =
     (if g_proxyConnectionList m = None then m
      else case conn_info env cid of
             None \<Rightarrow> m
           | Some info \<Rightarrow>
               (case conn_list env m of
                  None \<Rightarrow> m
                | Some l \<Rightarrow>
                    if find (\<lambda>c. pc_connId c = cid) (lst l) \<noteq> None
                    then set_conns (sl_upd_first (\<lambda>c. pc_connId c = cid) (\<lambda>c. c\<lparr>pc_ref := pc_ref c + 1\<rparr>) l) m
                    else if \<not> m_site env ConnItem then m
                    else set_conns (sl_add \<lparr>requestId = 0, pc_connInfo = info_as_option info, pc_connId = cid,
                           pc_ref = 1, pc_state = PROXY_CHANNEL_STATUS_PYH_CONNECTED\<rparr> l) m))"

definition TransProxyCloseConnChannel :: "mgr_env \<Rightarrow> 32 word \<Rightarrow> mgr_world \<Rightarrow> int \<times> mgr_world" where
  "TransProxyCloseConnChannel env cid m =
     (case TransDecConnRefByConnId env cid m of
        (ret, m1) \<Rightarrow> (SOFTBUS_OK, if ret = SOFTBUS_OK then log_call (DisconnectCall cid) m1 else m1))"

text \<open>The option of a connection, read field by field.\<close>

definition TransProxyGetConnectOption :: "mgr_env \<Rightarrow> 32 word \<Rightarrow> ConnectOption option" where
  "TransProxyGetConnectOption env cid =
     (case conn_info env cid of
        None \<Rightarrow> None
      | Some info \<Rightarrow>
          (case (ci_type info, ci_info info) of
             (t, BrInfo a) \<Rightarrow> if t = CONNECT_BR then Some \<lparr>co_type = t, co_info = BrOption a\<rparr> else None
           | (t, BleInfo a h) \<Rightarrow> if t = CONNECT_BLE then Some \<lparr>co_type = t, co_info = BleOption a h\<rparr> else None
           | (t, IpInfo a p _) \<Rightarrow> if t = CONNECT_TCP then Some \<lparr>co_type = t, co_info = IpOption a p\<rparr> else None))"

end
