(* ===== verification/Proxy_Manager.thy ===== *)
theory Proxy_Manager
  imports Proxy_Conn
begin

text \<open>
  The manager of proxy channels, \<^verbatim>\<open>softbus_proxychannel_manager.c\<close> and the callbacks of
  \<^verbatim>\<open>softbus_proxychannel_transceiver.c\<close> (under \<^verbatim>\<open>core/transmission/trans_channel/proxy/src\<close>): the life of a
  channel from opening through the handshake to its end by closing, reset, disconnection or
  timeout. The channel list and the functions that sending uses are in theory \<open>Proxy_Session\<close>,
  the connection list is in theory \<open>Proxy_Conn\<close>. An outer \<^const>\<open>None\<close> is a memory fault.
\<close>

unbundle bit_operations_syntax

abbreviation (input) PROXY_CHANNEL_CONTROL_TIMEOUT :: "16 word" where "PROXY_CHANNEL_CONTROL_TIMEOUT \<equiv> 19"
abbreviation (input) PROXY_CHANNEL_BT_IDLE_TIMEOUT :: "16 word" where "PROXY_CHANNEL_BT_IDLE_TIMEOUT \<equiv> 240"
abbreviation (input) MYID_MAX_NUM :: nat where "MYID_MAX_NUM \<equiv> 100"

section \<open>Channel numbers\<close>

definition chan_list :: "mgr_env \<Rightarrow> mgr_world \<Rightarrow> ProxyChannelInfo SoftBusList option" where
  "chan_list env m =
     (case g_proxyChannelList (pw m) of None \<Rightarrow> None | Some l \<Rightarrow> if \<not> chan_lock (sess env) then None else Some l)"

definition set_chans :: "ProxyChannelInfo SoftBusList \<Rightarrow> mgr_world \<Rightarrow> mgr_world" where
  "set_chans l m = m\<lparr>pw := (pw m)\<lparr>g_proxyChannelList := Some l\<rparr>\<rparr>"

definition MyIdIsValid :: "mgr_env \<Rightarrow> 16 word \<Rightarrow> mgr_world \<Rightarrow> int" where
  "MyIdIsValid env i m =
     (case chan_list env m of
        None \<Rightarrow> SOFTBUS_ERR
      | Some l \<Rightarrow> if find (\<lambda>item. myId item = i) (lst l) \<noteq> None then SOFTBUS_ERR else SOFTBUS_OK)"

definition IsLittleEndianCPU :: bool where
  "IsLittleEndianCPU = (if hd (le_bytes 2 (0x0100 :: 16 word)) = 1 then False else True)"

definition EndianSwap16 :: "16 word \<Rightarrow> 16 word" where
  "EndianSwap16 num =
     (if \<not> IsLittleEndianCPU then num
      else drop_bit 8 (num AND 0xFF00) OR push_bit 8 (num AND 0x00FF))"

text \<open>The remainder of C keeps the sign of the dividend.\<close>

definition c_rem :: "int \<Rightarrow> int \<Rightarrow> int" where
  "c_rem a b = sgn a * (\<bar>a\<bar> mod b)"

fun my_id_loop :: "mgr_env \<Rightarrow> mgr_world \<Rightarrow> nat \<Rightarrow> 16 word \<Rightarrow> 16 word \<times> 16 word" where
  "my_id_loop env m 0 s = (INVALID_CHANNEL_ID, s)"
| "my_id_loop env m (Suc n) s =
     (let s1 = s + 1;
          ret = EndianSwap16 (of_int (c_rem (sint s1) (int MYID_MAX_NUM) + 1))
      in if MyIdIsValid env ret m = SOFTBUS_OK then (ret, s1) else my_id_loop env m n s1)"

definition TransProxyGetNewMyId :: "mgr_env \<Rightarrow> mgr_world \<Rightarrow> 16 word \<times> mgr_world" where
  "TransProxyGetNewMyId env m =
     (if \<not> myid_lock env then (of_int SOFTBUS_ERR, m)
      else case my_id_loop env m MYID_MAX_NUM (lastMyId m) of (ret, s) \<Rightarrow> (ret, m\<lparr>lastMyId := s\<rparr>))"

section \<open>The channel list\<close>

definition ChanIsEqual :: "ProxyChannelInfo \<Rightarrow> ProxyChannelInfo \<Rightarrow> int" where
  "ChanIsEqual a b =
     (if myId a = myId b \<and> peerId a = peerId b \<and> identity a = identity b then SOFTBUS_OK else SOFTBUS_ERR)"

definition ResetChanIsEqual :: "int \<Rightarrow> ProxyChannelInfo \<Rightarrow> ProxyChannelInfo \<Rightarrow> int" where
  "ResetChanIsEqual st a b =
     (if st = PROXY_CHANNEL_STATUS_HANDSHAKEING \<and> myId a = myId b \<and> identity a = identity b then SOFTBUS_OK
      else if myId a = myId b \<and> peerId a = peerId b \<and> identity a = identity b then SOFTBUS_OK
      else SOFTBUS_ERR)"

definition ack_matches :: "ProxyChannelInfo \<Rightarrow> ProxyChannelInfo \<Rightarrow> bool" where
  "ack_matches info item \<longleftrightarrow> myId item = myId info \<and> identity item = identity info"

definition acked :: "ProxyChannelInfo \<Rightarrow> ProxyChannelInfo \<Rightarrow> ProxyChannelInfo" where
  "acked info item = item\<lparr>peerId := peerId info, status := PROXY_CHANNEL_STATUS_COMPLETED, timeout := 0,
     appInfo := (appInfo item)\<lparr>peerData := peerData (appInfo info)\<rparr>\<rparr>"

definition TransProxyUpdateAckInfo ::
  "mgr_env \<Rightarrow> ProxyChannelInfo \<Rightarrow> mgr_world \<Rightarrow> (int \<times> ProxyChannelInfo) \<times> mgr_world" where
  "TransProxyUpdateAckInfo env info m =
     (case chan_list env m of
        None \<Rightarrow> ((SOFTBUS_ERR, info), m)
      | Some l \<Rightarrow>
          (case find (ack_matches info) (lst l) of
             None \<Rightarrow> ((SOFTBUS_ERR, info), m)
           | Some item \<Rightarrow> ((SOFTBUS_OK, acked info item), set_chans (sl_upd_first (ack_matches info) (acked info) l) m)))"

definition TransProxyAddChanItem :: "mgr_env \<Rightarrow> ProxyChannelInfo \<Rightarrow> mgr_world \<Rightarrow> mgr_world" where
  "TransProxyAddChanItem env chan m =
     (case chan_list env m of None \<Rightarrow> m | Some l \<Rightarrow> set_chans (sl_add chan l) m)"

definition TransProxyGetChanByChanId :: "mgr_env \<Rightarrow> int \<Rightarrow> mgr_world \<Rightarrow> ProxyChannelInfo option" where
  "TransProxyGetChanByChanId env ch m =
     (case chan_list env m of None \<Rightarrow> None | Some l \<Rightarrow> find (\<lambda>item. channelId item = ch) (lst l))"

text \<open>Waiting for the connection that was requested under a number.\<close>

definition connecting :: "int \<Rightarrow> ProxyChannelInfo \<Rightarrow> bool" where
  "connecting rid item \<longleftrightarrow> p_reqId item = rid \<and> status item = PROXY_CHANNEL_STATUS_PYH_CONNECTING"

definition TransProxyDelChanByReqId :: "mgr_env \<Rightarrow> int \<Rightarrow> mgr_world \<Rightarrow> mgr_world" where
  "TransProxyDelChanByReqId env rid m =
     (case chan_list env m of
        None \<Rightarrow> m
      | Some l \<Rightarrow>
          fold (TransProxyPostOpenFailMsgToLoop env) (filter (connecting rid) (lst l))
            (set_chans (sl_remove (connecting rid) l) m))"

definition TransProxyDelChanByChanId :: "mgr_env \<Rightarrow> int \<Rightarrow> mgr_world \<Rightarrow> mgr_world" where
  "TransProxyDelChanByChanId env ch m =
     (case chan_list env m of
        None \<Rightarrow> m
      | Some l \<Rightarrow> set_chans (sl_del_first (\<lambda>item. channelId item = ch) l) m)"

definition TransProxyChanProcessByReqId :: "mgr_env \<Rightarrow> int \<Rightarrow> 32 word \<Rightarrow> mgr_world \<Rightarrow> mgr_world" where
  "TransProxyChanProcessByReqId env rid cid m =
     (case chan_list env m of
        None \<Rightarrow> m
      | Some l \<Rightarrow>
          fold (\<lambda>item m. TransProxyPostHandshakeMsgToLoop env (channelId item) (snd (TransAddConnRefByConnId env cid m)))
            (filter (connecting rid) (lst l))
            (set_chans (l\<lparr>lst := map (\<lambda>item. if connecting rid item
                then item\<lparr>status := PROXY_CHANNEL_STATUS_HANDSHAKEING, connId := cid\<rparr> else item) (lst l)\<rparr>) m))"

text \<open>The callbacks run while the list is locked; they do not change it.\<close>

definition report_removed :: "mgr_env \<Rightarrow> ProxyChannelInfo \<Rightarrow> mgr_world \<Rightarrow> mgr_world" where
  "report_removed env item m =
     (if status item = PROXY_CHANNEL_STATUS_HANDSHAKEING \<or> status item = PROXY_CHANNEL_STATUS_PYH_CONNECTING
      then snd (OnProxyChannelOpenFailed env (channelId item) (appInfo item) m)
      else snd (OnProxyChannelClosed env (channelId item) (appInfo item) m))"

definition TransProxyDelByConnId :: "mgr_env \<Rightarrow> 32 word \<Rightarrow> mgr_world \<Rightarrow> mgr_world" where
  "TransProxyDelByConnId env cid m =
     (case chan_list env m of
        None \<Rightarrow> m
      | Some l \<Rightarrow>
          fold (report_removed env) (filter (\<lambda>item. connId item = cid) (lst l))
            (set_chans (sl_remove (\<lambda>item. connId item = cid) l) m))"

definition TransProxyDelByChannelId :: "mgr_env \<Rightarrow> int \<Rightarrow> mgr_world \<Rightarrow> ProxyChannelInfo option \<times> mgr_world" where
  "TransProxyDelByChannelId env ch m =
     (case chan_list env m of
        None \<Rightarrow> (None, m)
      | Some l \<Rightarrow>
          (case find (\<lambda>item. channelId item = ch) (lst l) of
             None \<Rightarrow> (None, m)
           | Some item \<Rightarrow> (Some item, set_chans (sl_del_first (\<lambda>item. channelId item = ch) l) m)))"

definition TransProxyResetChan :: "mgr_env \<Rightarrow> ProxyChannelInfo \<Rightarrow> mgr_world \<Rightarrow> ProxyChannelInfo option \<times> mgr_world" where
  "TransProxyResetChan env info m =
     (case chan_list env m of
        None \<Rightarrow> (None, m)
      | Some l \<Rightarrow>
          (case find (\<lambda>item. ResetChanIsEqual (status item) item info = SOFTBUS_OK) (lst l) of
             None \<Rightarrow> (None, m)
           | Some item \<Rightarrow>
               (Some item, set_chans (sl_del_first (\<lambda>item. ResetChanIsEqual (status item) item info = SOFTBUS_OK) l) m)))"

definition TransProxyGetRecvMsgChanInfo ::
  "mgr_env \<Rightarrow> 16 word \<Rightarrow> 16 word \<Rightarrow> mgr_world \<Rightarrow> ProxyChannelInfo option \<times> mgr_world" where
  "TransProxyGetRecvMsgChanInfo env mine peer m =
     (case chan_list env m of
        None \<Rightarrow> (None, m)
      | Some l \<Rightarrow>
          (case find (\<lambda>item. myId item = mine \<or> peerId item = peer) (lst l) of
             None \<Rightarrow> (None, m)
           | Some item \<Rightarrow>
               (Some (touch item), set_chans (sl_upd_first (\<lambda>item. myId item = mine \<or> peerId item = peer) touch l) m)))"

definition revive :: "ProxyChannelInfo \<Rightarrow> ProxyChannelInfo" where
  "revive item =
     (if status item = PROXY_CHANNEL_STATUS_KEEPLIVEING \<or> status item = PROXY_CHANNEL_STATUS_COMPLETED
      then item\<lparr>timeout := 0, status := PROXY_CHANNEL_STATUS_COMPLETED\<rparr> else item)"

definition TransProxyKeepAlvieChan ::
  "mgr_env \<Rightarrow> ProxyChannelInfo \<Rightarrow> mgr_world \<Rightarrow> ProxyChannelInfo option \<times> mgr_world" where
  "TransProxyKeepAlvieChan env info m =
     (case chan_list env m of
        None \<Rightarrow> (None, m)
      | Some l \<Rightarrow>
          (case find (\<lambda>item. ChanIsEqual item info = SOFTBUS_OK) (lst l) of
             None \<Rightarrow> (None, m)
           | Some item \<Rightarrow>
               (Some (revive item), set_chans (sl_upd_first (\<lambda>item. ChanIsEqual item info = SOFTBUS_OK) revive l) m)))"

definition TransProxySetChiperSide :: "mgr_env \<Rightarrow> int \<Rightarrow> int \<Rightarrow> mgr_world \<Rightarrow> int \<times> mgr_world" where
  "TransProxySetChiperSide env ch side m =
     (case chan_list env m of
        None \<Rightarrow> (SOFTBUS_ERR, m)
      | Some l \<Rightarrow>
          if find (\<lambda>item. channelId item = ch) (lst l) = None then (SOFTBUS_ERR, m)
          else (SOFTBUS_OK,
                set_chans (sl_upd_first (\<lambda>item. channelId item = ch) (\<lambda>item. item\<lparr>chiperSide := side\<rparr>) l) m))"

definition TransProxyGetChiperSide :: "mgr_env \<Rightarrow> int \<Rightarrow> mgr_world \<Rightarrow> int option" where
  "TransProxyGetChiperSide env ch m =
     (case chan_list env m of
        None \<Rightarrow> None
      | Some l \<Rightarrow> map_option chiperSide (find (\<lambda>item. channelId item = ch) (lst l)))"

section \<open>Sending control messages\<close>

text \<open>The environment of packing and parsing, with the sides of the channels and the connections in place.\<close>

definition menv :: "mgr_env \<Rightarrow> mgr_world \<Rightarrow> msg_env" where
  "menv env m = \<lparr>pm_alloc = m_alloc env, pm_option = TransProxyGetConnectOption env,
     pm_side = (\<lambda>ch. TransProxyGetChiperSide env ch m), pm_enc = m_enc env, pm_dec = m_dec env,
     pm_headLen = m_headLen env\<rparr>"

definition send_code :: "mgr_env \<Rightarrow> mgr_world \<Rightarrow> sender" where
  "send_code env m cid buf pri = fst (TransProxyTransSendMsg (sess env) cid buf pri (pw m))"

definition send_out :: "mgr_env \<Rightarrow> sent \<Rightarrow> mgr_world \<Rightarrow> mgr_world" where
  "send_out env out m =
     m\<lparr>pw := fold (\<lambda>(cid, buf, pri) w. snd (TransProxyTransSendMsg (sess env) cid buf pri w)) out (pw m)\<rparr>"

section \<open>Received messages\<close>

text \<open>A zeroed channel.\<close>

definition zero_data :: AppInfoData where
  "zero_data = \<lparr>apiVersion = 0, deviceId = [], pkgName = [], sessionName = [], uid = 0, pid = 0,
     authState = [], ip = [], port = 0, a_channelId = 0\<rparr>"

definition zero_chan :: ProxyChannelInfo where
  "zero_chan = \<lparr>channelId = 0, p_reqId = 0, p_isServer = False, status = 0, timeout = 0, myId = 0, peerId = 0,
     connId = 0, p_type = 0, seq = 0, identity = [],
     appInfo = \<lparr>groupId = [], sessionKey = replicate SESSION_KEY_LENGTH (CHR 0x00), a_reqId = [], routeType = 0,
       businessType = 0, streamType = 0, udpConnType = 0, udpChannelOptType = 0, a_fd = 0, appType = 0,
       myData = zero_data, peerData = zero_data\<rparr>, chiperSide = 0\<rparr>"

definition TransProxyProcessHandshakeAckMsg :: "mgr_env \<Rightarrow> ProxyMessage \<Rightarrow> mgr_world \<Rightarrow> mgr_world" where
  "TransProxyProcessHandshakeAckMsg env msg m =
     (if \<not> m_site env ChanItem then m
      else case TransProxyUnpackHandshakeAckMsg (m_json env) (cstr (m_data msg)) zero_chan of
             (ret, info) \<Rightarrow>
               if ret \<noteq> SOFTBUS_OK then m
               else (case TransProxyUpdateAckInfo env
                          (info\<lparr>myId := m_myId (msgHead msg), peerId := m_peerId (msgHead msg)\<rparr>) m of
                       ((ret, info), m1) \<Rightarrow>
                         if ret \<noteq> SOFTBUS_OK then m1
                         else snd (OnProxyChannelOpened env (channelId info) (appInfo info) False m1)))"

definition TransProxyGetLocalInfo :: "mgr_env \<Rightarrow> ProxyChannelInfo \<Rightarrow> ProxyChannelInfo option" where
  "TransProxyGetLocalInfo env chan =
     Option.bind
       (if appType (appInfo chan) \<noteq> APP_TYPE_INNER
        then map_option (\<lambda>p. upd_myData (\<lambda>d. d\<lparr>pkgName := p\<rparr>) chan)
               (cb_pkgName env (sessionName (myData (appInfo chan))) PKG_NAME_SIZE_MAX)
        else Some chan)
       (\<lambda>chan. map_option (\<lambda>u. upd_myData (\<lambda>d. d\<lparr>deviceId := u\<rparr>) chan) (udid env DEVICE_ID_SIZE_MAX))"

text \<open>When the channel cannot be put into the list it is freed there and used afterwards.\<close>

definition TransProxyProcessHandshakeMsg :: "mgr_env \<Rightarrow> ProxyMessage \<Rightarrow> mgr_world \<Rightarrow> mgr_world option" where
  "TransProxyProcessHandshakeMsg env msg m =
     (if \<not> m_site env ChanItem then Some m
      else case TransProxyUnpackHandshakeMsg (m_json env) (cstr (m_data msg)) zero_chan of
             (ret, chan) \<Rightarrow>
               if ret \<noteq> SOFTBUS_OK then Some m
               else (case TransProxyGetLocalInfo env chan of
                       None \<Rightarrow> Some m
                     | Some chan \<Rightarrow>
                         (case TransProxyGetNewMyId env m of
                            (newId, m1) \<Rightarrow>
                              (case OnProxyChannelOpened env (sint newId) (appInfo chan) True m1 of
                                 (ret, m2) \<Rightarrow>
                                   if ret \<noteq> SOFTBUS_OK then Some m2
                                   else if chan_list env m2 = None then None
                                   else
                                     let chan = chan\<lparr>p_isServer := True, status := PROXY_CHANNEL_STATUS_COMPLETED,
                                           connId := m_connId msg, myId := newId, channelId := sint newId,
                                           peerId := m_peerId (msgHead msg), chiperSide := m_chiperSide msg\<rparr>;
                                         m3 = TransProxyAddChanItem env chan m2
                                     in case TransProxyAckHandshake (m_json env) (menv env m3) (send_code env m3)
                                               (m_connId msg) chan of
                                          (ret, out) \<Rightarrow>
                                            let m4 = send_out env out m3
                                            in Some (if ret \<noteq> SOFTBUS_OK
                                               then TransProxyDelChanByChanId env (sint newId)
                                                      (snd (OnProxyChannelClosed env (sint newId) (appInfo chan) m4))
                                               else TransCreateConnByConnId env (m_connId msg) m4)))))"

text \<open>The identity in a message, in a zeroed channel with the numbers of the head.\<close>

definition unpack_identity :: "mgr_env \<Rightarrow> ProxyMessage \<Rightarrow> ProxyChannelInfo option" where
  "unpack_identity env msg =
     (case TransProxyUnpackIdentity (m_json env) (cstr (m_data msg)) (IDENTITY_LEN + 1) of
        (ret, i) \<Rightarrow>
          if ret \<noteq> SOFTBUS_OK then None
          else Some (zero_chan\<lparr>identity := the i, peerId := m_peerId (msgHead msg), myId := m_myId (msgHead msg)\<rparr>))"

definition TransProxyProcessResetMsg :: "mgr_env \<Rightarrow> ProxyMessage \<Rightarrow> mgr_world \<Rightarrow> mgr_world" where
  "TransProxyProcessResetMsg env msg m =
     (if \<not> m_site env ChanItem then m
      else case unpack_identity env msg of
             None \<Rightarrow> m
           | Some info \<Rightarrow>
               (case TransProxyResetChan env info m of
                  (None, m1) \<Rightarrow> m1
                | (Some item, m1) \<Rightarrow>
                    let m2 = (if status item = PROXY_CHANNEL_STATUS_HANDSHAKEING
                              then snd (OnProxyChannelOpenFailed env (channelId item) (appInfo item) m1)
                              else snd (OnProxyChannelClosed env (channelId item) (appInfo item) m1))
                    in snd (TransProxyCloseConnChannel env (m_connId msg) m2)))"

definition TransProxyProcessKeepAlive :: "mgr_env \<Rightarrow> ProxyMessage \<Rightarrow> mgr_world \<Rightarrow> mgr_world" where
  "TransProxyProcessKeepAlive env msg m =
     (if \<not> m_site env ChanItem then m
      else case unpack_identity env msg of
             None \<Rightarrow> m
           | Some info \<Rightarrow>
               (case TransProxyKeepAlvieChan env info m of
                  (None, m1) \<Rightarrow> m1
                | (Some item, m1) \<Rightarrow>
                    send_out env (snd (TransProxyAckKeepalive (m_json env) (menv env m1) (send_code env m1) item)) m1))"

definition TransProxyProcessKeepAliveAck :: "mgr_env \<Rightarrow> ProxyMessage \<Rightarrow> mgr_world \<Rightarrow> mgr_world" where
  "TransProxyProcessKeepAliveAck env msg m =
     (if \<not> m_site env ChanItem then m
      else case unpack_identity env msg of
             None \<Rightarrow> m
           | Some info \<Rightarrow> snd (TransProxyKeepAlvieChan env info m))"

definition TransProxyProcessDataRecv :: "mgr_env \<Rightarrow> ProxyMessage \<Rightarrow> mgr_world \<Rightarrow> mgr_world option" where
  "TransProxyProcessDataRecv env msg m =
     (if \<not> m_site env ChanItem then Some m
      else case TransProxyGetRecvMsgChanInfo env (m_myId (msgHead msg)) (m_peerId (msgHead msg)) m of
             (None, m1) \<Rightarrow> Some m1
           | (Some info, m1) \<Rightarrow>
               map_option snd (OnProxyChannelMsgReceived env (channelId info) (appInfo info) (m_data msg) m1))"

definition TransProxyonMessageReceived :: "mgr_env \<Rightarrow> ProxyMessage \<Rightarrow> mgr_world \<Rightarrow> mgr_world option" where
  "TransProxyonMessageReceived env msg m =
     (let t = m_type (msgHead msg)
      in if t = PROXYCHANNEL_MSG_TYPE_HANDSHAKE then TransProxyProcessHandshakeMsg env msg m
         else if t = PROXYCHANNEL_MSG_TYPE_HANDSHAKE_ACK then Some (TransProxyProcessHandshakeAckMsg env msg m)
         else if t = PROXYCHANNEL_MSG_TYPE_RESET then Some (TransProxyProcessResetMsg env msg m)
         else if t = PROXYCHANNEL_MSG_TYPE_KEEPALIVE then Some (TransProxyProcessKeepAlive env msg m)
         else if t = PROXYCHANNEL_MSG_TYPE_KEEPALIVE_ACK then Some (TransProxyProcessKeepAliveAck env msg m)
         else if t = PROXYCHANNEL_MSG_TYPE_NORMAL then TransProxyProcessDataRecv env msg m
         else Some m)"

definition zero_msg :: ProxyMessage where
  "zero_msg = \<lparr>msgHead = \<lparr>m_type = 0, chiper = 0, m_myId = 0, m_peerId = 0, reserved = 0\<rparr>, m_data = [],
     m_connId = 0, m_chiperSide = 0\<rparr>"

definition TransProxyOnDataReceived ::
  "mgr_env \<Rightarrow> 32 word \<Rightarrow> ConnModule \<Rightarrow> byte list option \<Rightarrow> mgr_world \<Rightarrow> mgr_world option" where
  "TransProxyOnDataReceived env cid module data m =
     (case data of
        None \<Rightarrow> Some m
      | Some bytes \<Rightarrow>
          if module \<noteq> MODULE_PROXY_CHANNEL then Some m
          else (case TransProxyParseMessage (menv env m) bytes (zero_msg\<lparr>m_connId := cid\<rparr>) of
                  (ret, msg) \<Rightarrow> if ret \<noteq> SOFTBUS_OK then Some m else TransProxyonMessageReceived env msg m))"

section \<open>Opening and closing\<close>

text \<open>The random bytes of an identity and of a session key are drawn one after the other.\<close>

definition draw :: "mgr_env \<Rightarrow> nat \<Rightarrow> mgr_world \<Rightarrow> byte list option \<times> mgr_world" where
  "draw env n m =
     (case SoftBusGenerateRandomArray (s_rng (sess env)) n (w_rng (pw m)) of
        ((ret, bytes), g) \<Rightarrow>
          (if ret \<noteq> SOFTBUS_OK then None else Some bytes, m\<lparr>pw := (pw m)\<lparr>w_rng := g\<rparr>\<rparr>))"

definition TransProxyCreateChanInfo ::
  "mgr_env \<Rightarrow> ProxyChannelInfo \<Rightarrow> 16 word \<Rightarrow> AppInfo \<Rightarrow> mgr_world \<Rightarrow> (int \<times> mgr_world) option" where
  "TransProxyCreateChanInfo env chan newId app m =
     (let m1 = (if m_site env HexBuf then snd (draw env (IDENTITY_LEN div 2) m) else m)
      in case GenerateRandomStr (m_site env HexBuf) (\<lambda>n. fst (draw env n m)) (Some (IDENTITY_LEN + 1))
                (of_nat (IDENTITY_LEN + 1)) of
           None \<Rightarrow> None
         | Some (ret, text) \<Rightarrow>
             if ret \<noteq> SOFTBUS_OK then Some (SOFTBUS_ERR, m1)
             else (case draw env SESSION_KEY_LENGTH m1 of
                     (None, m2) \<Rightarrow> Some (SOFTBUS_ERR, m2)
                   | (Some k, m2) \<Rightarrow>
                       Some (SOFTBUS_OK,
                         TransProxyAddChanItem env
                           (chan\<lparr>myId := newId, channelId := sint newId, identity := cstr text,
                              appInfo := app\<lparr>sessionKey := map (\<lambda>b. char_of (unat b)) k\<rparr>\<rparr>) m2)))"

definition TransProxyOpenProxyChannelSuccess :: "mgr_env \<Rightarrow> int \<Rightarrow> mgr_world \<Rightarrow> mgr_world" where
  "TransProxyOpenProxyChannelSuccess env ch m =
     (if \<not> m_site env ChanItem then m
      else case TransProxyGetChanByChanId env ch m of
             None \<Rightarrow> snd (TransProxyCloseConnChannel env (connId zero_chan) m)
           | Some chan \<Rightarrow>
               (case TransProxyHandshake (m_json env) (menv env m) (send_code env m) (TransProxySetChiperSide env) chan m of
                  ((ret, out), m1) \<Rightarrow>
                    let m2 = send_out env out m1
                    in if ret = SOFTBUS_ERR
                       then TransProxyDelChanByChanId env ch
                              (snd (OnProxyChannelOpenFailed env (channelId chan) (appInfo chan)
                                (snd (TransProxyCloseConnChannel env (connId chan) m2))))
                       else m2))"

definition TransProxyConnExistProc ::
  "mgr_env \<Rightarrow> ProxyConnInfo \<Rightarrow> AppInfo \<Rightarrow> 16 word \<Rightarrow> mgr_world \<Rightarrow> (int \<times> mgr_world) option" where
  "TransProxyConnExistProc env conn app newId m =
     (if \<not> m_site env ChanItem then Some (SOFTBUS_ERR, m)
      else if pc_state conn = PROXY_CHANNEL_STATUS_PYH_CONNECTING then
        (case TransProxyCreateChanInfo env
                (zero_chan\<lparr>p_reqId := sint (requestId conn), status := PROXY_CHANNEL_STATUS_PYH_CONNECTING\<rparr>) newId app m of
           None \<Rightarrow> None
         | Some (ret, m1) \<Rightarrow> Some (if ret \<noteq> SOFTBUS_OK then SOFTBUS_ERR else SOFTBUS_OK, m1))
      else
        (case TransProxyCreateChanInfo env
                (zero_chan\<lparr>connId := pc_connId conn, status := PROXY_CHANNEL_STATUS_HANDSHAKEING\<rparr>) newId app m of
           None \<Rightarrow> None
         | Some (ret, m1) \<Rightarrow>
             if ret \<noteq> SOFTBUS_OK then Some (SOFTBUS_ERR, m1)
             else Some (SOFTBUS_OK, TransProxyPostHandshakeMsgToLoop env (sint newId)
                    (snd (TransAddConnRefByConnId env (pc_connId conn) m1)))))"

text \<open>
  A connection to the same address, read as bluetooth address whatever the type, is not requested
  twice: a channel that waits for it is started at once when it is there.
\<close>

definition TransAddConnItem :: "mgr_env \<Rightarrow> ProxyConnInfo \<Rightarrow> mgr_world \<Rightarrow> int \<times> mgr_world" where
  "TransAddConnItem env conn m =
     (case conn_list env m of
        None \<Rightarrow> (SOFTBUS_ERR, m)
      | Some l \<Rightarrow>
          (case find (\<lambda>c. brMac (pc_connInfo c) = brMac (pc_connInfo conn)) (lst l) of
             Some item \<Rightarrow>
               (SOFTBUS_ERR,
                if pc_state item = PROXY_CHANNEL_STATUS_PYH_CONNECTED
                then TransProxyChanProcessByReqId env (sint (requestId conn)) (pc_connId item) m else m)
           | None \<Rightarrow> (SOFTBUS_OK, set_conns (sl_add conn l) m)))"

text \<open>The result, the channel number stored for the caller, and the state.\<close>

definition TransProxyOpenConnChannel ::
  "mgr_env \<Rightarrow> AppInfo \<Rightarrow> ConnectOption \<Rightarrow> mgr_world \<Rightarrow> ((int \<times> int option) \<times> mgr_world) option" where
  "TransProxyOpenConnChannel env app opt m =
     (case ConnGetNewRequestId (conn_mgr m) of
        (rid, cm) \<Rightarrow>
          (case TransProxyGetNewMyId env (m\<lparr>conn_mgr := cm\<rparr>) of
             (newId, m1) \<Rightarrow>
               (case TransGetConn env opt m1 of
                  Some conn \<Rightarrow>
                    (case TransProxyConnExistProc env conn app newId m1 of
                       None \<Rightarrow> None
                     | Some (ret, m2) \<Rightarrow>
                         Some (if ret = SOFTBUS_ERR then (SOFTBUS_ERR, None) else (SOFTBUS_OK, Some (sint newId)), m2))
                | None \<Rightarrow>
                    if \<not> m_site env ChanItem then Some ((SOFTBUS_ERR, None), m1)
                    else (case TransProxyCreateChanInfo env
                            (zero_chan\<lparr>p_reqId := sint rid, status := PROXY_CHANNEL_STATUS_PYH_CONNECTING,
                               p_type := co_type opt\<rparr>) newId app m1 of
                       None \<Rightarrow> None
                     | Some (ret, m2) \<Rightarrow>
                         if ret \<noteq> SOFTBUS_OK then Some ((SOFTBUS_ERR, None), m2)
                         else if \<not> m_site env ConnItem
                         then Some ((SOFTBUS_ERR, None), TransProxyDelChanByChanId env (sint newId) m2)
                         else (case TransAddConnItem env \<lparr>requestId = rid, pc_connInfo = opt, pc_connId = 0,
                                      pc_ref = 0, pc_state = PROXY_CHANNEL_STATUS_PYH_CONNECTING\<rparr> m2 of
                                 (ret, m3) \<Rightarrow>
                                   if ret \<noteq> SOFTBUS_OK then Some ((SOFTBUS_OK, Some (sint newId)), m3)
                                   else
                                     let ret = conn_connect env opt rid;
                                         m4 = log_call (ConnectCall opt rid) m3
                                     in if ret \<noteq> SOFTBUS_OK
                                        then Some ((ret, Some (sint newId)),
                                               TransProxyDelChanByChanId env (sint newId)
                                                 (snd (TransDelConnByReqId env rid m4)))
                                        else Some ((ret, Some (sint newId)), m4))))))"

definition TransProxyOpenProxyChannel ::
  "mgr_env \<Rightarrow> AppInfo option \<Rightarrow> ConnectOption option \<Rightarrow> mgr_world \<Rightarrow> ((int \<times> int option) \<times> mgr_world) option" where
  "TransProxyOpenProxyChannel env appp optp m =
     (case (appp, optp) of
        (Some app, Some opt) \<Rightarrow> TransProxyOpenConnChannel env app opt m
      | _ \<Rightarrow> Some ((SOFTBUS_ERR, None), m))"

definition TransOnConnectSuccessed :: "mgr_env \<Rightarrow> 32 word \<Rightarrow> 32 word \<Rightarrow> mgr_world \<Rightarrow> mgr_world" where
  "TransOnConnectSuccessed env rid cid m =
     TransProxyChanProcessByReqId env (sint rid) cid
       (TransSetConnStateByReqId env rid cid PROXY_CHANNEL_STATUS_PYH_CONNECTED m)"

definition TransOnConnectFailed :: "mgr_env \<Rightarrow> 32 word \<Rightarrow> mgr_world \<Rightarrow> mgr_world" where
  "TransOnConnectFailed env rid m =
     TransProxyDelChanByReqId env (sint rid) (snd (TransDelConnByReqId env rid m))"

definition TransProxyOnDisConnect :: "mgr_env \<Rightarrow> 32 word \<Rightarrow> mgr_world \<Rightarrow> mgr_world" where
  "TransProxyOnDisConnect env cid m = TransDelConnByConnId env cid (TransProxyDelByConnId env cid m)"

definition TransProxyCloseProxyOtherRes :: "mgr_env \<Rightarrow> int \<Rightarrow> ProxyChannelInfo \<Rightarrow> mgr_world \<Rightarrow> mgr_world option" where
  "TransProxyCloseProxyOtherRes env ch info m =
     (case TransProxyDelSliceProcessorByChannelId (sess env) ch (pw m) of
        None \<Rightarrow> None
      | Some (_, w) \<Rightarrow>
          Some (TransProxyPostDisConnectMsgToLoop env (connId info)
            (TransProxyPostResetPeerMsgToLoop env info (m\<lparr>pw := w\<lparr>events := events w @ [DelPending ch]\<rparr>\<rparr>))))"

definition TransProxyCloseProxyChannel :: "mgr_env \<Rightarrow> int \<Rightarrow> mgr_world \<Rightarrow> (int \<times> mgr_world) option" where
  "TransProxyCloseProxyChannel env ch m =
     (if \<not> m_site env ChanItem then Some (SOFTBUS_MALLOC_ERR, m)
      else case TransProxyDelByChannelId env ch m of
             (None, m1) \<Rightarrow> Some (SOFTBUS_TRANS_PROXY_DEL_CHANNELID_INVALID, m1)
           | (Some info, m1) \<Rightarrow> map_option (Pair SOFTBUS_OK) (TransProxyCloseProxyOtherRes env ch info m1))"

definition TransProxySendMsg :: "mgr_env \<Rightarrow> int \<Rightarrow> byte list \<Rightarrow> int \<Rightarrow> mgr_world \<Rightarrow> int \<times> mgr_world" where
  "TransProxySendMsg env ch data pri m =
     (if \<not> m_site env ChanItem then (SOFTBUS_MALLOC_ERR, m)
      else case TransProxyGetSendMsgChanInfo (sess env) ch (pw m) of
             (None, w) \<Rightarrow> (SOFTBUS_TRANS_PROXY_SEND_CHANNELID_INVALID, m\<lparr>pw := w\<rparr>)
           | (Some info, w) \<Rightarrow>
               let m1 = m\<lparr>pw := w\<rparr>
               in if status info \<noteq> PROXY_CHANNEL_STATUS_COMPLETED \<and> status info \<noteq> PROXY_CHANNEL_STATUS_KEEPLIVEING
                  then (SOFTBUS_TRANS_PROXY_CHANNLE_STATUS_INVALID, m1)
                  else (case TransProxySendMessage (menv env m1) (send_code env m1) info data pri of
                          (ret, out) \<Rightarrow> (ret, send_out env out m1)))"

section \<open>The loop, the timer and the death of a client\<close>

definition TransProxyLoopMsgHandler :: "mgr_env \<Rightarrow> loop_msg \<Rightarrow> mgr_world \<Rightarrow> mgr_world" where
  "TransProxyLoopMsgHandler env msg m =
     (case msg of
        LOOP_HANDSHAKE_MSG ch \<Rightarrow> TransProxyOpenProxyChannelSuccess env ch m
      | LOOP_DISCONNECT_MSG cid \<Rightarrow> snd (TransProxyCloseConnChannel env cid m)
      | LOOP_OPENFAIL_MSG chan \<Rightarrow> snd (OnProxyChannelOpenFailed env (channelId chan) (appInfo chan) m)
      | LOOP_OPENCLOSE_MSG chan \<Rightarrow> snd (OnProxyChannelClosed env (channelId chan) (appInfo chan) m)
      | LOOP_KEEPALIVE_MSG chan \<Rightarrow>
          send_out env (TransProxyKeepalive (m_json env) (menv env m) (connId chan) chan) m
      | LOOP_RESETPEER_MSG chan \<Rightarrow>
          send_out env (snd (TransProxyResetPeer (m_json env) (menv env m) (send_code env m) chan)) m)"

text \<open>One tick of a channel, and whether it then leaves the list.\<close>

definition timer_item :: "ProxyChannelInfo \<Rightarrow> ProxyChannelInfo \<times> bool" where
  "timer_item item =
     (let i1 = item\<lparr>timeout := timeout item + 1\<rparr>
      in if (status i1 = PROXY_CHANNEL_STATUS_HANDSHAKEING \<or> status i1 = PROXY_CHANNEL_STATUS_PYH_CONNECTING) \<and>
            timeout i1 \<ge> PROXY_CHANNEL_CONTROL_TIMEOUT
         then (i1\<lparr>status := PROXY_CHANNEL_STATUS_HANDSHAKE_TIMEOUT\<rparr>, True)
         else if status i1 = PROXY_CHANNEL_STATUS_KEEPLIVEING \<and> timeout i1 \<ge> PROXY_CHANNEL_CONTROL_TIMEOUT
         then (i1\<lparr>status := PROXY_CHANNEL_STATUS_TIMEOUT\<rparr>, True)
         else if status i1 = PROXY_CHANNEL_STATUS_COMPLETED \<and> timeout i1 \<ge> PROXY_CHANNEL_BT_IDLE_TIMEOUT
         then (i1\<lparr>status := PROXY_CHANNEL_STATUS_TIMEOUT\<rparr>, True)
         else (i1, False))"

definition TransProxyTimerItemProc :: "mgr_env \<Rightarrow> ProxyChannelInfo list \<Rightarrow> mgr_world \<Rightarrow> mgr_world" where
  "TransProxyTimerItemProc env items m =
     fold (\<lambda>item m.
       let m1 = (if status item = PROXY_CHANNEL_STATUS_TIMEOUT
                 then TransProxyPostDisConnectMsgToLoop env (connId item)
                        (TransProxyPostOpenClosedMsgToLoop env item
                          (if m_site env ResetItem then TransProxyPostResetPeerMsgToLoop env item m else m))
                 else m);
           m2 = (if status item = PROXY_CHANNEL_STATUS_HANDSHAKE_TIMEOUT
                 then TransProxyPostDisConnectMsgToLoop env (connId item) (TransProxyPostOpenFailMsgToLoop env item m1)
                 else m1)
       in if status item = PROXY_CHANNEL_STATUS_KEEPLIVEING then TransProxyPostKeepAliveMsgToLoop env item m2 else m2)
     items m"

text \<open>The channels that leave are put in front of a list of their own, so they are handled last first.\<close>

definition TransProxyTimerProc :: "mgr_env \<Rightarrow> mgr_world \<Rightarrow> mgr_world" where
  "TransProxyTimerProc env m =
     (case g_proxyChannelList (pw m) of
        None \<Rightarrow> m
      | Some l \<Rightarrow>
          if cnt l = 0 then m
          else if \<not> chan_lock (sess env) then m
          else
            let ticked = map timer_item (lst l);
                gone = map fst (filter snd ticked);
                stay = map fst (filter (\<lambda>x. \<not> snd x) ticked)
            in TransProxyTimerItemProc env (rev gone)
                 (set_chans \<lparr>cnt = cnt l - of_nat (length gone), lst = stay\<rparr> m))"

definition TransProxyDeathCallback :: "mgr_env \<Rightarrow> string \<Rightarrow> mgr_world \<Rightarrow> mgr_world" where
  "TransProxyDeathCallback env pkg m =
     (case chan_list env m of
        None \<Rightarrow> m
      | Some l \<Rightarrow>
          fold (\<lambda>item m. snd (TransProxyCloseConnChannel env (connId item)
                 (send_out env (snd (TransProxyResetPeer (m_json env) (menv env m) (send_code env m) item)) m)))
            (filter (\<lambda>item. pkgName (myData (appInfo item)) = pkg) (lst l))
            (set_chans (sl_remove (\<lambda>item. pkgName (myData (appInfo item)) = pkg) l) m))"

section \<open>Runs of the manager\<close>

text \<open>Whatever comes from outside: clients, connections, the loop and the timers.\<close>

datatype mgr_op =
    OpOpen "AppInfo option" "ConnectOption option"
  | OpClose int
  | OpSend int "byte list" int
  | OpPost int "byte list option" int
  | OpConnected "32 word" "32 word"
  | OpConnectFailed "32 word"
  | OpDisconnected "32 word"
  | OpData "32 word" ConnModule "byte list option"
  | OpLoop
  | OpTimer
  | OpSliceTimer
  | OpDeath string

fun mgr_step :: "mgr_env \<Rightarrow> mgr_op \<Rightarrow> mgr_world \<Rightarrow> mgr_world option" where
  "mgr_step env (OpOpen app opt) m = map_option snd (TransProxyOpenProxyChannel env app opt m)"
| "mgr_step env (OpClose ch) m = map_option snd (TransProxyCloseProxyChannel env ch m)"
| "mgr_step env (OpSend ch data pri) m = Some (snd (TransProxySendMsg env ch data pri m))"
| "mgr_step env (OpPost ch data flags) m =
     Some (m\<lparr>pw := snd (TransProxyPostSessionData (sess env) ch data flags (pw m))\<rparr>)"
| "mgr_step env (OpConnected rid cid) m = Some (TransOnConnectSuccessed env rid cid m)"
| "mgr_step env (OpConnectFailed rid) m = Some (TransOnConnectFailed env rid m)"
| "mgr_step env (OpDisconnected cid) m = Some (TransProxyOnDisConnect env cid m)"
| "mgr_step env (OpData cid module data) m = TransProxyOnDataReceived env cid module data m"
| "mgr_step env OpLoop m =
     (case loopq m of [] \<Rightarrow> Some m | x # q \<Rightarrow> Some (TransProxyLoopMsgHandler env x (m\<lparr>loopq := q\<rparr>)))"
| "mgr_step env OpTimer m = Some (TransProxyTimerProc env m)"
| "mgr_step env OpSliceTimer m = map_option (\<lambda>w. m\<lparr>pw := w\<rparr>) (TransProxySliceTimerProc (sess env) (pw m))"
| "mgr_step env (OpDeath pkg) m = Some (TransProxyDeathCallback env pkg m)"

fun mgr_run :: "(mgr_env \<times> mgr_op) list \<Rightarrow> mgr_world \<Rightarrow> mgr_world option" where
  "mgr_run [] m = Some m"
| "mgr_run ((env, x) # xs) m = Option.bind (mgr_step env x m) (mgr_run xs)"

text \<open>
  The invariant: the counts are those of the lists, a channel in the list waits for its connection,
  is in the handshake or is complete, a connection is pending or there, and no keep-alive is
  waiting to be sent.
\<close>

definition chan_ok :: "ProxyChannelInfo \<Rightarrow> bool" where
  "chan_ok c \<longleftrightarrow> status c \<in> {PROXY_CHANNEL_STATUS_PYH_CONNECTING, PROXY_CHANNEL_STATUS_HANDSHAKEING,
     PROXY_CHANNEL_STATUS_COMPLETED}"

definition list_ok :: "('a \<Rightarrow> bool) \<Rightarrow> 'a SoftBusList option \<Rightarrow> bool" where
  "list_ok P x \<longleftrightarrow> (case x of None \<Rightarrow> True | Some l \<Rightarrow> wf_sl l \<and> (\<forall>i \<in> set (lst l). P i))"

definition conn_ok :: "ProxyConnInfo \<Rightarrow> bool" where
  "conn_ok c \<longleftrightarrow> pc_state c \<in> {PROXY_CHANNEL_STATUS_PYH_CONNECTED, PROXY_CHANNEL_STATUS_PYH_CONNECTING}"

definition not_keepalive :: "loop_msg \<Rightarrow> bool" where
  "not_keepalive x = (case x of LOOP_KEEPALIVE_MSG _ \<Rightarrow> False | _ \<Rightarrow> True)"

definition mgr_inv :: "mgr_world \<Rightarrow> bool" where
  "mgr_inv m \<longleftrightarrow> list_ok chan_ok (g_proxyChannelList (pw m)) \<and> list_ok conn_ok (g_proxyConnectionList m) \<and>
     list_all not_keepalive (loopq m)"

lemma list_ok_intros:
  "list_ok P None"
  "list_ok P (Some l) \<Longrightarrow> P x \<Longrightarrow> list_ok P (Some (sl_add x l))"
  "list_ok P (Some l) \<Longrightarrow> list_ok P (Some (sl_del_first Q l))"
  "list_ok P (Some l) \<Longrightarrow> list_ok P (Some (sl_remove Q l))"
  "list_ok P (Some l) \<Longrightarrow> (\<And>x. P x \<Longrightarrow> P (f x)) \<Longrightarrow> list_ok P (Some (sl_upd_first Q f l))"
  "list_ok P (Some l) \<Longrightarrow> (\<And>x. P x \<Longrightarrow> P (f x)) \<Longrightarrow> list_ok P (Some (l\<lparr>lst := map f (lst l)\<rparr>))"
  by (auto simp: list_ok_def dest: in_del_firstD elim!: in_upd_firstE)

text \<open>The session functions keep the channel list well-formed: they only touch timers and numbers.\<close>

abbreviation (input) chans_ok :: "proxy_world \<Rightarrow> bool" where
  "chans_ok w \<equiv> list_ok chan_ok (g_proxyChannelList w)"

lemma chan_ok_updates [simp]:
  "chan_ok (touch c) = chan_ok c" "chan_ok (c\<lparr>seq := n\<rparr>) = chan_ok c" "chan_ok (c\<lparr>chiperSide := k\<rparr>) = chan_ok c"
  "chan_ok (c\<lparr>timeout := t\<rparr>) = chan_ok c" "chan_ok (c\<lparr>connId := cid\<rparr>) = chan_ok c"
  by (simp_all add: chan_ok_def)

lemma chans_ok_upd: "chans_ok w \<Longrightarrow> (\<And>x. chan_ok x \<Longrightarrow> chan_ok (f x)) \<Longrightarrow> chans_ok (upd_chan ch f w)"
  by (cases "g_proxyChannelList w") (auto simp: upd_chan_def intro: list_ok_intros)

lemma chans_ok_get:
  "TransProxyGetSendMsgChanInfo env ch w = (r, w') \<Longrightarrow> chans_ok w \<Longrightarrow> chans_ok w'"
  "TransProxyGetNewChanSeq env ch w = (n, w') \<Longrightarrow> chans_ok w \<Longrightarrow> chans_ok w'"
  "TransProxyGetSessionKeyByChanId env ch w = (k, w') \<Longrightarrow> chans_ok w \<Longrightarrow> chans_ok w'"
  by (auto simp: TransProxyGetSendMsgChanInfo_def TransProxyGetNewChanSeq_def TransProxyGetSessionKeyByChanId_def
      split: option.splits intro!: chans_ok_upd)

lemma chans_ok_encrypt:
  assumes "TransProxyEncryptPacketData env ch sq d w = (r, w')" "chans_ok w"
  shows "chans_ok w'"
  using assms
  by (auto simp: TransProxyEncryptPacketData_def split: option.splits prod.splits dest: chans_ok_get(3))

lemma chans_ok_seqid: "TransProxyGetPktSeqId env ch d flag w = (n, w') \<Longrightarrow> chans_ok w \<Longrightarrow> chans_ok w'"
  by (auto simp: TransProxyGetPktSeqId_def split: if_splits dest: chans_ok_get(2))

lemma chans_ok_pack: "TransProxyPackBytes env ch d flag w = (r, w') \<Longrightarrow> chans_ok w \<Longrightarrow> chans_ok w'"
  by (auto simp: TransProxyPackBytes_def Let_def split: if_splits prod.splits dest!: chans_ok_seqid chans_ok_encrypt)

lemma send_msg_chans [simp]: "g_proxyChannelList (snd (TransProxyTransSendMsg env cid buf pri w)) = g_proxyChannelList w"
  by (simp add: TransProxyTransSendMsg_def Let_def)

lemma send_slices_chans [simp]:
  "g_proxyChannelList (snd (send_slices env info P flag n is w)) = g_proxyChannelList w"
proof (induction "is" arbitrary: w)
  case (Cons i "is")
  then show ?case
    by (simp add: Let_def case_prod_unfold split: option.splits)
qed simp

lemma chans_ok_send: "chans_ok w \<Longrightarrow> chans_ok (snd (TransProxyTransDataSendMsg env ch P flag w))"
  by (auto simp: TransProxyTransDataSendMsg_def TransProxyTransAppNormalMsg_def Let_def
      split: option.splits prod.splits dest: chans_ok_get(1))

lemma chans_ok_post: "chans_ok w \<Longrightarrow> chans_ok (snd (TransProxyPostPacketData env ch d flag w))"
proof -
  assume w: "chans_ok w"
  have "chans_ok (snd (TransProxyTransDataSendSyncMsg env ch P flag sq w1))" if "chans_ok w1" for P sq w1
    using chans_ok_send [OF that, of env ch P flag]
    by (auto simp: TransProxyTransDataSendSyncMsg_def split: prod.splits)
  with w show ?thesis
    by (auto simp: TransProxyPostPacketData_def split: option.splits prod.splits
        intro!: chans_ok_send dest!: chans_ok_pack)
qed

lemma chans_ok_notify: "chans_ok w \<Longrightarrow> chans_ok (snd (TransProxyNotifySession env pkg ch flags sq d w))"
  using chans_ok_post [of w env ch "Some (int_bytes sq)" PROXY_FLAG_ACK]
  by (simp add: TransProxyNotifySession_def NotifyClientMsgReceived_def TransProxyProcSendMsgAck_def
      TransProxySendSessionAck_def Let_def)

lemma chans_ok_packet:
  assumes "TransProxyNoSubPacketProc env pkg ch mem w = Some (r, w')" "chans_ok w"
  shows "chans_ok w'"
proof -
  have d: "chans_ok w1" if "TransProxyDecryptPacketData env ch sq mem len w = Some (x, w1)" for sq mem len x w1
    using that assms(2)
    by (auto simp: TransProxyDecryptPacketData_def split: option.splits prod.splits dest: chans_ok_get(3))
  have "chans_ok w1" if "TransProxyProcessSessionData env pkg ch h mem w = Some (x, w1)" for h mem x w1
    using that assms(2)
    by (auto simp: TransProxyProcessSessionData_def split: option.splits prod.splits if_splits dest!: d)
      (metis chans_ok_notify snd_conv)+
  then show ?thesis
    using assms by (auto simp: TransProxyNoSubPacketProc_def Let_def split: option.splits if_splits)
qed

lemma chans_ok_received:
  assumes "TransOnNormalMsgReceived env pkg ch d w = Some (r, w')" "chans_ok w"
  shows "chans_ok w'"
proof -
  have l: "chans_ok w1" if "TransProxyLastSliceProcess env p h data pkg ch w = Some (x, w1)" for p h data x w1
    using that assms(2)
    by (auto simp: TransProxyLastSliceProcess_def Let_def split: option.splits prod.splits if_splits dest: chans_ok_packet)
  have "chans_ok w1" if "TransProxySubPacketProc env pkg ch h data w = Some (x, w1)" for h data x w1
    using that assms(2)
    by (auto simp: TransProxySubPacketProc_def Let_def split: handle.splits option.splits prod.splits if_splits dest: l)
  with assms show ?thesis
    by (auto simp: TransOnNormalMsgReceived_def Let_def split: option.splits if_splits dest: chans_ok_packet)
qed

section \<open>Every operation keeps the invariant\<close>

named_theorems mgr_intros

lemma mgr_inv_frame [mgr_intros]:
  "mgr_inv m \<Longrightarrow> mgr_inv (log_call c m)"
  "mgr_inv m \<Longrightarrow> chans_ok w \<Longrightarrow> mgr_inv (m\<lparr>pw := w\<rparr>)"
  "mgr_inv m \<Longrightarrow> mgr_inv (m\<lparr>lastMyId := i\<rparr>)"
  "mgr_inv m \<Longrightarrow> mgr_inv (m\<lparr>conn_mgr := cm\<rparr>)"
  "mgr_inv m \<Longrightarrow> list_ok conn_ok (Some k) \<Longrightarrow> mgr_inv (set_conns k m)"
  "mgr_inv m \<Longrightarrow> list_ok chan_ok (Some l) \<Longrightarrow> mgr_inv (set_chans l m)"
  by (simp_all add: mgr_inv_def log_call_def set_conns_def set_chans_def)

lemma mgr_inv_chans: "mgr_inv m \<Longrightarrow> chans_ok (pw m)"
  by (simp add: mgr_inv_def)

lemma mgr_inv_chan_list: "mgr_inv m \<Longrightarrow> chan_list env m = Some l \<Longrightarrow> list_ok chan_ok (Some l)"
  by (auto simp: mgr_inv_def chan_list_def split: option.splits if_splits)

lemma mgr_inv_conn_list: "mgr_inv m \<Longrightarrow> conn_list env m = Some k \<Longrightarrow> list_ok conn_ok (Some k)"
  by (auto simp: mgr_inv_def conn_list_def split: option.splits if_splits)

lemma mgr_inv_post [mgr_intros]: "mgr_inv m \<Longrightarrow> not_keepalive x \<Longrightarrow> mgr_inv (post_loop env x m)"
  by (simp add: mgr_inv_def post_loop_def split: option.splits)
    (auto simp: TransProxyCreateLoopMsg_def split: if_splits)

lemma mgr_inv_posts [mgr_intros]:
  "mgr_inv m \<Longrightarrow> mgr_inv (TransProxyPostResetPeerMsgToLoop env c m)"
  "mgr_inv m \<Longrightarrow> mgr_inv (TransProxyPostHandshakeMsgToLoop env ch m)"
  "mgr_inv m \<Longrightarrow> mgr_inv (TransProxyPostDisConnectMsgToLoop env cid m)"
  "mgr_inv m \<Longrightarrow> mgr_inv (TransProxyPostOpenFailMsgToLoop env c m)"
  "mgr_inv m \<Longrightarrow> mgr_inv (TransProxyPostOpenClosedMsgToLoop env c m)"
  by (auto simp: TransProxyPostResetPeerMsgToLoop_def TransProxyPostHandshakeMsgToLoop_def
      TransProxyPostDisConnectMsgToLoop_def TransProxyPostOpenFailMsgToLoop_def
      TransProxyPostOpenClosedMsgToLoop_def not_keepalive_def intro!: mgr_intros)

lemmas callback_defs = OnProxyChannelOpened_def OnProxyChannelOpenFailed_def OnProxyChannelClosed_def
  NotifyNormalChannelOpened_def NotifyNormalChannelOpenFailed_def NotifyNormalChannelClosed_def
  NotifyNetworkingChannelOpened_def NotifyNetworkingChannelOpenFailed_def NotifyNetworkingChannelClosed_def
  NotifyNetworkingMsgReceived_def TransProxyOnChannelOpened_def TransProxyOnChannelOpenFailed_def
  TransProxyOnChannelClosed_def

lemma mgr_inv_callbacks [mgr_intros]:
  "mgr_inv m \<Longrightarrow> mgr_inv (snd (OnProxyChannelOpened env ch app srv m))"
  "mgr_inv m \<Longrightarrow> mgr_inv (snd (OnProxyChannelOpenFailed env ch app m))"
  "mgr_inv m \<Longrightarrow> mgr_inv (snd (OnProxyChannelClosed env ch app m))"
  "mgr_inv m \<Longrightarrow> mgr_inv (NotifyNetworkingMsgReceived ch d m)"
  by (auto simp: callback_defs split: option.split intro: mgr_intros)

lemma mgr_inv_conns [mgr_intros]:
  "mgr_inv m \<Longrightarrow> mgr_inv (snd (TransDelConnByReqId env rid m))"
  "mgr_inv m \<Longrightarrow> mgr_inv (TransDelConnByConnId env cid m)"
  "mgr_inv m \<Longrightarrow> mgr_inv (snd (TransDecConnRefByConnId env cid m))"
  "mgr_inv m \<Longrightarrow> mgr_inv (snd (TransAddConnRefByConnId env cid m))"
  "mgr_inv m \<Longrightarrow> mgr_inv (TransSetConnStateByReqId env rid cid PROXY_CHANNEL_STATUS_PYH_CONNECTED m)"
  "mgr_inv m \<Longrightarrow> mgr_inv (TransCreateConnByConnId env cid m)"
  by (auto simp: TransDelConnByReqId_def TransDelConnByConnId_def TransDecConnRefByConnId_def
      TransAddConnRefByConnId_def TransSetConnStateByReqId_def TransCreateConnByConnId_def conn_ok_def
      split: option.split intro!: mgr_intros list_ok_intros dest: mgr_inv_conn_list)

lemma mgr_inv_close [mgr_intros]: "mgr_inv m \<Longrightarrow> mgr_inv (snd (TransProxyCloseConnChannel env cid m))"
  using mgr_inv_conns(3) [of m env cid]
  by (auto simp: TransProxyCloseConnChannel_def split: prod.splits intro: mgr_intros)

lemma fold_inv: "Q s \<Longrightarrow> (\<And>x s. x \<in> set xs \<Longrightarrow> Q s \<Longrightarrow> Q (f x s)) \<Longrightarrow> Q (fold f xs s)"
  by (induction xs arbitrary: s) auto

lemma mgr_inv_send_out [mgr_intros]:
  assumes "mgr_inv m"
  shows "mgr_inv (send_out env out m)"
proof -
  have "chans_ok (fold (\<lambda>(cid, buf, pri) w. snd (TransProxyTransSendMsg (sess env) cid buf pri w)) out (pw m))"
    by (rule fold_inv) (use assms mgr_inv_chans in auto)
  with assms show ?thesis by (simp add: send_out_def mgr_intros)
qed

lemma mgr_inv_chan_ops [mgr_intros]:
  "mgr_inv m \<Longrightarrow> chan_ok c \<Longrightarrow> mgr_inv (TransProxyAddChanItem env c m)"
  "mgr_inv m \<Longrightarrow> mgr_inv (TransProxyDelChanByChanId env ch m)"
  "mgr_inv m \<Longrightarrow> mgr_inv (snd (TransProxyUpdateAckInfo env info m))"
  "mgr_inv m \<Longrightarrow> mgr_inv (snd (TransProxyDelByChannelId env ch m))"
  "mgr_inv m \<Longrightarrow> mgr_inv (snd (TransProxyResetChan env info m))"
  "mgr_inv m \<Longrightarrow> mgr_inv (snd (TransProxyGetRecvMsgChanInfo env a b m))"
  "mgr_inv m \<Longrightarrow> mgr_inv (snd (TransProxyKeepAlvieChan env info m))"
  "mgr_inv m \<Longrightarrow> mgr_inv (snd (TransProxySetChiperSide env ch side m))"
  "mgr_inv m \<Longrightarrow> mgr_inv (snd (TransProxyGetNewMyId env m))"
  by (auto simp: TransProxyAddChanItem_def TransProxyDelChanByChanId_def TransProxyUpdateAckInfo_def
      TransProxyDelByChannelId_def TransProxyResetChan_def TransProxyGetRecvMsgChanInfo_def TransProxyKeepAlvieChan_def
      TransProxySetChiperSide_def TransProxyGetNewMyId_def
      split: option.split prod.split intro!: mgr_intros list_ok_intros dest: mgr_inv_chan_list)
    (auto simp: acked_def revive_def chan_ok_def)

lemma mgr_inv_removals [mgr_intros]:
  "mgr_inv m \<Longrightarrow> mgr_inv (TransProxyDelChanByReqId env rid m)"
  "mgr_inv m \<Longrightarrow> mgr_inv (TransProxyDelByConnId env cid m)"
  "mgr_inv m \<Longrightarrow> mgr_inv (TransProxyDeathCallback env pkg m)"
  by (auto simp: TransProxyDelChanByReqId_def TransProxyDelByConnId_def TransProxyDeathCallback_def report_removed_def
      split: option.split intro!: fold_inv [where Q = mgr_inv] mgr_intros list_ok_intros dest: mgr_inv_chan_list)

lemma mgr_inv_process [mgr_intros]: "mgr_inv m \<Longrightarrow> mgr_inv (TransProxyChanProcessByReqId env rid cid m)"
  by (auto simp: TransProxyChanProcessByReqId_def chan_ok_def
      split: option.split intro!: fold_inv [where Q = mgr_inv] mgr_intros list_ok_intros dest: mgr_inv_chan_list)

lemma mgr_inv_pairs:
  "TransProxyUpdateAckInfo env info m = (r, m') \<Longrightarrow> mgr_inv m \<Longrightarrow> mgr_inv m'"
  "TransProxyGetNewMyId env m = (i, m') \<Longrightarrow> mgr_inv m \<Longrightarrow> mgr_inv m'"
  "TransProxyResetChan env info m = (c, m') \<Longrightarrow> mgr_inv m \<Longrightarrow> mgr_inv m'"
  "TransProxyKeepAlvieChan env info m = (c, m') \<Longrightarrow> mgr_inv m \<Longrightarrow> mgr_inv m'"
  "TransProxyGetRecvMsgChanInfo env a b m = (c, m') \<Longrightarrow> mgr_inv m \<Longrightarrow> mgr_inv m'"
  "TransProxyDelByChannelId env ch m = (c, m') \<Longrightarrow> mgr_inv m \<Longrightarrow> mgr_inv m'"
  "OnProxyChannelOpened env ch app srv m = (n, m') \<Longrightarrow> mgr_inv m \<Longrightarrow> mgr_inv m'"
  by (metis snd_conv mgr_intros)+

lemma mgr_inv_replies [mgr_intros]:
  "mgr_inv m \<Longrightarrow> mgr_inv (TransProxyProcessHandshakeAckMsg env msg m)"
  "mgr_inv m \<Longrightarrow> mgr_inv (TransProxyProcessResetMsg env msg m)"
  "mgr_inv m \<Longrightarrow> mgr_inv (TransProxyProcessKeepAlive env msg m)"
  "mgr_inv m \<Longrightarrow> mgr_inv (TransProxyProcessKeepAliveAck env msg m)"
  by (auto simp: TransProxyProcessHandshakeAckMsg_def TransProxyProcessResetMsg_def TransProxyProcessKeepAlive_def
      TransProxyProcessKeepAliveAck_def Let_def split: option.split prod.split intro!: mgr_intros dest: mgr_inv_pairs)

lemma mgr_inv_handshake:
  "TransProxyProcessHandshakeMsg env msg m = Some m' \<Longrightarrow> mgr_inv m \<Longrightarrow> mgr_inv m'"
  by (auto simp: TransProxyProcessHandshakeMsg_def Let_def chan_ok_def split: option.splits prod.splits if_splits
      intro!: mgr_intros dest!: mgr_inv_pairs)

lemma mgr_inv_data:
  "TransProxyProcessDataRecv env msg m = Some m' \<Longrightarrow> mgr_inv m \<Longrightarrow> mgr_inv m'"
  by (auto simp: TransProxyProcessDataRecv_def OnProxyChannelMsgReceived_def split: option.splits prod.splits if_splits
      intro!: mgr_intros dest!: mgr_inv_pairs elim!: chans_ok_received dest: mgr_inv_chans)

lemma mgr_inv_message:
  "TransProxyOnDataReceived env cid module data m = Some m' \<Longrightarrow> mgr_inv m \<Longrightarrow> mgr_inv m'"
  by (auto simp: TransProxyOnDataReceived_def TransProxyonMessageReceived_def Let_def
      split: option.splits prod.splits if_splits intro: mgr_intros mgr_inv_handshake mgr_inv_data)

lemma mgr_inv_draw: "draw env n m = (x, m') \<Longrightarrow> mgr_inv m \<Longrightarrow> mgr_inv m'"
  by (auto simp: draw_def split: prod.splits intro!: mgr_intros dest: mgr_inv_chans)

lemma mgr_inv_create:
  assumes "TransProxyCreateChanInfo env c i app m = Some (r, m')" "mgr_inv m" "chan_ok c"
  shows "mgr_inv m'"
proof -
  have c: "chan_ok (c\<lparr>myId := a, channelId := b, identity := d, appInfo := e\<rparr>)" for a b d e
    using assms(3) by (simp add: chan_ok_def)
  have "mgr_inv (snd (draw env n m))" for n
    using assms(2) by (metis mgr_inv_draw prod.collapse)
  with assms(1,2) c show ?thesis
    by (auto simp: TransProxyCreateChanInfo_def Let_def split: option.splits prod.splits if_splits
        intro!: mgr_intros dest!: mgr_inv_draw)
qed

lemma mgr_inv_exist:
  "TransProxyConnExistProc env conn app i m = Some (r, m') \<Longrightarrow> mgr_inv m \<Longrightarrow> mgr_inv m'"
  by (auto simp: TransProxyConnExistProc_def chan_ok_def split: option.splits prod.splits if_splits
      intro!: mgr_intros dest!: mgr_inv_create)

lemma mgr_inv_add_conn:
  "TransAddConnItem env conn m = (r, m') \<Longrightarrow> mgr_inv m \<Longrightarrow> conn_ok conn \<Longrightarrow> mgr_inv m'"
  by (auto simp: TransAddConnItem_def split: option.splits if_splits
      intro!: mgr_intros list_ok_intros dest: mgr_inv_conn_list)

lemma mgr_inv_open:
  assumes "TransProxyOpenProxyChannel env app opt m = Some (r, m')" "mgr_inv m"
  shows "mgr_inv m'"
proof -
  have "mgr_inv m1" if "TransProxyGetNewMyId env (m\<lparr>conn_mgr := cm\<rparr>) = (i, m1)" for cm i m1
    using that assms(2) by (blast intro: mgr_inv_pairs mgr_intros)
  with assms show ?thesis
    by (auto simp: TransProxyOpenProxyChannel_def TransProxyOpenConnChannel_def chan_ok_def conn_ok_def Let_def
        split: option.splits prod.splits if_splits
        intro!: mgr_intros dest!: mgr_inv_create mgr_inv_exist mgr_inv_add_conn)
qed

lemma mgr_inv_start [mgr_intros]:
  assumes "mgr_inv m"
  shows "mgr_inv (TransProxyOpenProxyChannelSuccess env ch m)"
proof -
  have "mgr_inv m1" if "TransProxyHandshake lib menv' send (TransProxySetChiperSide env) c m = (r, m1)" for lib menv' send c r m1
    using that assms mgr_inv_chan_ops(8) [OF assms]
    by (auto simp: TransProxyHandshake_def Let_def split: option.splits prod.splits if_splits) (metis snd_conv)+
  with assms show ?thesis
    by (auto simp: TransProxyOpenProxyChannelSuccess_def Let_def split: option.split prod.split intro!: mgr_intros)
qed

lemma mgr_inv_shut:
  "TransProxyCloseProxyChannel env ch m = Some (r, m') \<Longrightarrow> mgr_inv m \<Longrightarrow> mgr_inv m'"
  by (auto simp: TransProxyCloseProxyChannel_def TransProxyCloseProxyOtherRes_def
      TransProxyDelSliceProcessorByChannelId_def split: option.splits prod.splits if_splits handle.splits
      intro!: mgr_intros dest!: mgr_inv_pairs dest: mgr_inv_chans)

lemma mgr_inv_send [mgr_intros]: "mgr_inv m \<Longrightarrow> mgr_inv (snd (TransProxySendMsg env ch data pri m))"
  by (auto simp: TransProxySendMsg_def Let_def split: option.split prod.split
      intro!: mgr_intros dest: chans_ok_get(1) mgr_inv_chans)

lemma mgr_inv_loop [mgr_intros]: "mgr_inv m \<Longrightarrow> mgr_inv (TransProxyLoopMsgHandler env x m)"
  by (auto simp: TransProxyLoopMsgHandler_def split: loop_msg.split intro!: mgr_intros)

text \<open>A channel that leaves at a tick has a timeout status, so no keep-alive is posted for it.\<close>

lemma timer_item_status:
  assumes "chan_ok c"
  shows "snd (timer_item c) \<Longrightarrow>
      status (fst (timer_item c)) \<in> {PROXY_CHANNEL_STATUS_HANDSHAKE_TIMEOUT, PROXY_CHANNEL_STATUS_TIMEOUT}"
    and "\<not> snd (timer_item c) \<Longrightarrow> chan_ok (fst (timer_item c))"
  using assms by (auto simp: timer_item_def chan_ok_def Let_def split: if_splits)

lemma mgr_inv_timer_items:
  assumes "mgr_inv m" "\<And>c. c \<in> set cs \<Longrightarrow> status c \<noteq> PROXY_CHANNEL_STATUS_KEEPLIVEING"
  shows "mgr_inv (TransProxyTimerItemProc env cs m)"
  unfolding TransProxyTimerItemProc_def
  by (rule fold_inv) (use assms in \<open>auto simp: Let_def intro!: mgr_intros\<close>)

lemma mgr_inv_timer [mgr_intros]:
  assumes m: "mgr_inv m"
  shows "mgr_inv (TransProxyTimerProc env m)"
proof (cases "g_proxyChannelList (pw m)")
  case (Some l)
  then have l: "wf_sl l" "\<And>c. c \<in> set (lst l) \<Longrightarrow> chan_ok c"
    using m by (auto simp: mgr_inv_def list_ok_def)
  let ?t = "map timer_item (lst l)"
  have "length (filter snd ?t) + length (filter (\<lambda>x. \<not> snd x) ?t) = length (lst l)"
    by (simp only: sum_length_filter_compl length_map)
  then have "of_nat (length (lst l)) - of_nat (length (filter snd ?t)) =
      (of_nat (length (filter (\<lambda>x. \<not> snd x) ?t)) :: 32 word)"
    by (metis add_diff_cancel_left' of_nat_add)
  moreover have "chan_ok c" if "c \<in> set (map fst (filter (\<lambda>x. \<not> snd x) ?t))" for c
    using that l(2) timer_item_status(2) by fastforce
  ultimately have "list_ok chan_ok (Some \<lparr>cnt = cnt l - of_nat (length (map fst (filter snd ?t))),
      lst = map fst (filter (\<lambda>x. \<not> snd x) ?t)\<rparr>)"
    using l(1) by (simp add: list_ok_def wf_sl_def del: set_map filter_map)
  moreover have "status c \<noteq> PROXY_CHANNEL_STATUS_KEEPLIVEING" if "c \<in> set (rev (map fst (filter snd ?t)))" for c
    using that l(2) timer_item_status(1) by fastforce
  ultimately have "mgr_inv (TransProxyTimerItemProc env (rev (map fst (filter snd ?t)))
      (set_chans \<lparr>cnt = cnt l - of_nat (length (map fst (filter snd ?t))),
         lst = map fst (filter (\<lambda>x. \<not> snd x) ?t)\<rparr> m))"
    by (intro mgr_inv_timer_items mgr_inv_frame(6) m)
  with m show ?thesis by (simp only: TransProxyTimerProc_def Some Let_def option.simps if_True if_False split: if_split) blast
qed (use m in \<open>simp add: TransProxyTimerProc_def\<close>)

theorem mgr_step_inv:
  assumes "mgr_step env x m = Some m'" "mgr_inv m"
  shows "mgr_inv m'"
proof (cases x)
  case OpLoop
  with assms show ?thesis
    by (auto simp: mgr_inv_def split: list.splits intro!: mgr_inv_loop [unfolded mgr_inv_def])
next
  case OpSliceTimer
  with assms show ?thesis
    by (auto simp: TransProxySliceTimerProc_def split: handle.splits if_splits intro!: mgr_intros dest: mgr_inv_chans)
qed (use assms in \<open>auto simp: TransProxyPostSessionData_def TransOnConnectSuccessed_def TransOnConnectFailed_def
    TransProxyOnDisConnect_def mgr_inv_chans chans_ok_post intro: mgr_intros mgr_inv_open mgr_inv_shut mgr_inv_message\<close>)

lemma mgr_run_inv: "mgr_run xs m = Some m' \<Longrightarrow> mgr_inv m \<Longrightarrow> mgr_inv m'"
  by (induction xs m rule: mgr_run.induct) (auto simp: bind_eq_Some_conv dest: mgr_step_inv)

section \<open>Channel numbers are fresh\<close>

definition id_of :: "16 word \<Rightarrow> 16 word" where
  "id_of s = EndianSwap16 (of_int (c_rem (sint s) (int MYID_MAX_NUM) + 1))"

definition my_ids :: "16 word list" where
  "my_ids = map (\<lambda>k. EndianSwap16 (of_nat k)) [1..<101]"

lemma my_id_loop_find:
  "my_id_loop env m n s =
    (case find (\<lambda>k. MyIdIsValid env (id_of (s + of_nat k)) m = SOFTBUS_OK) [1..<Suc n] of
       None \<Rightarrow> (INVALID_CHANNEL_ID, s + of_nat n)
     | Some k \<Rightarrow> (id_of (s + of_nat k), s + of_nat k))"
proof (induction n arbitrary: s)
  case (Suc n)
  have l: "[1..<Suc (Suc n)] = 1 # map Suc [1..<Suc n]" by (simp only: map_Suc_upt) (simp add: upt_rec)
  have f: "find P (map Suc ks) = map_option Suc (find (\<lambda>k. P (Suc k)) ks)" for P ks by (induction ks) auto
  have e: "s + 1 + of_nat k = s + of_nat (Suc k)" for k by (simp add: algebra_simps)
  show ?case
    unfolding my_id_loop.simps Let_def l f find.simps Suc.IH e
    by (auto simp: id_of_def e [symmetric] algebra_simps split: option.split)
qed simp

lemma MyIdIsValid_unused:
  "chan_list env m = Some l \<Longrightarrow> MyIdIsValid env i m = SOFTBUS_OK \<longleftrightarrow> i \<notin> myId ` set (lst l)"
  by (auto simp: MyIdIsValid_def find_None_iff)

text \<open>While the counter does not overflow, a hundred steps go through all the numbers.\<close>

lemma shifted_mod:
  assumes "1 \<le> j" "j < 101"
  shows "(s + (1 + (int j - 2 - s) mod 100)) mod 100 = int j - 1"
proof -
  have "(s + (1 + (int j - 2 - s) mod 100)) mod 100 = (s + 1 + (int j - 2 - s)) mod 100"
    by (simp only: mod_add_right_eq flip: add.assoc)
  also have "\<dots> = int j - 1" using assms by simp
  finally show ?thesis .
qed

lemma shifted_range: "(\<lambda>k. nat ((s + int k) mod 100) + 1) ` {1..<101} = {1..<101}"
proof (rule set_eqI, rule iffI)
  fix j :: nat
  assume "j \<in> {1..<101}"
  then show "j \<in> (\<lambda>k. nat ((s + int k) mod 100) + 1) ` {1..<101}"
    by (intro image_eqI [of _ _ "nat ((int j - 2 - s) mod 100) + 1"])
      (use shifted_mod [of j s] in \<open>auto simp: nat_less_iff\<close>)
qed (auto simp: nat_less_iff)

lemma id_of_range:
  assumes "0 \<le> sint s" "sint s < 32667"
  shows "(\<lambda>k. id_of (s + of_nat k)) ` {1..<101} = set my_ids"
proof -
  have a: "id_of (s + of_nat k) = EndianSwap16 (of_nat (nat ((sint s + int k) mod 100) + 1))" if "k < 101" for k
  proof -
    have "sint (s + of_nat k) = sint s + int k"
      using assms that by (simp add: sint_word_ariths(1) signed_of_nat signed_take_bit_int_eq_self)
    then show ?thesis
      using assms by (simp add: id_of_def c_rem_def sgn_if add.commute)
  qed
  have "(\<lambda>k. id_of (s + of_nat k)) ` {1..<101} =
      (\<lambda>j. EndianSwap16 (of_nat j)) ` (\<lambda>k. nat ((sint s + int k) mod 100) + 1) ` {1..<101}"
    unfolding image_image by (rule image_cong) (simp_all only: a atLeastLessThan_iff)
  then show ?thesis by (simp only: shifted_range my_ids_def set_map set_upt)
qed

lemma EndianSwap16_swap: "EndianSwap16 n = drop_bit 8 (n AND 0xFF00) OR push_bit 8 (n AND 0x00FF)"
proof -
  have IsLittleEndianCPU by code_simp
  then show ?thesis by (simp add: EndianSwap16_def)
qed

lemma INVALID_not_id: "INVALID_CHANNEL_ID \<notin> set my_ids"
proof
  assume "INVALID_CHANNEL_ID \<in> set my_ids"
  then obtain k where k: "k < 101" "EndianSwap16 (of_nat k) = - 1" unfolding my_ids_def by force
  have "bit (of_nat k :: 16 word) 15 = bit (EndianSwap16 (of_nat k)) 7"
    by (simp add: EndianSwap16_swap bit_simps)
  with k show False by (simp add: bit_simps bit_nat_def)
qed


text \<open>A service in which everything succeeds, with the one complete channel number 5.\<close>

definition demo_mgr :: mgr_env where
  "demo_mgr = \<lparr>sess = demo_sess, m_site = (\<lambda>_. True), conn_lock = True, myid_lock = True, m_json = demo_lib, m_alloc = True,
     m_enc = pm_enc demo_menv, m_dec = pm_dec demo_menv, m_headLen = 28,
     conn_info = (\<lambda>_. Some \<lparr>isAvailable = True, isServer = True, ci_type = CONNECT_TCP, ci_info = IpInfo ''10.0.0.1'' 1 0\<rparr>),
     conn_connect = (\<lambda>_ _. 0), cb_opened = (\<lambda>_ _ _ _. 0), cb_closed = (\<lambda>_ _. 0), cb_failed = (\<lambda>_ _. 0),
     cb_pkgName = (\<lambda>_ _. Some ''P''), net_opened = (\<lambda>_ _ _. 0), udid = (\<lambda>_. Some ''U''),
     networkId = (\<lambda>_ _. Some ''N'')\<rparr>"

definition demo_mworld :: mgr_world where
  "demo_mworld = \<lparr>pw = demo_proxy, g_proxyConnectionList = Some \<lparr>cnt = 0, lst = []\<rparr>, lastMyId = 0,
     conn_mgr = conn_manager_start, g_netChanlistener = False, loopq = [], calls = []\<rparr>"

lemma demo_chans: "chan_list demo_mgr demo_mworld = Some \<lparr>cnt = 1, lst = [demo_item]\<rparr>"
  by (simp add: chan_list_def demo_mgr_def demo_mworld_def demo_proxy_def demo_sess_def)


section \<open>Which channel gets a message\<close>

lemma find_append: "find P (xs @ ys) = (case find P xs of None \<Rightarrow> find P ys | Some x \<Rightarrow> Some x)"
  by (induction xs) auto

text \<open>C39: A data message carries the number of the channel here and of the peer's channel. It reaches the
  channel with these two numbers if and only if no channel before it in the list has the same
  number at the peer, whichever device that peer is: either number is enough for the match.\<close>

theorem TransProxyGetRecvMsgChanInfo_routes:
  assumes "chan_list env m = Some l" "lst l = xs @ c # ys" "myId c = mine" "peerId c = peer"
    and "distinct (map myId (lst l))"
  shows "fst (TransProxyGetRecvMsgChanInfo env mine peer m) = Some (touch c) \<longleftrightarrow> (\<forall>d \<in> set xs. peerId d \<noteq> peer)"
proof (cases "find (\<lambda>item. myId item = mine \<or> peerId item = peer) xs")
  case None
  then have "\<forall>d \<in> set xs. peerId d \<noteq> peer" by (auto simp: find_None_iff)
  with None show ?thesis
    using assms(1-4) by (simp add: TransProxyGetRecvMsgChanInfo_def find_append)
next
  case (Some d)
  then have d: "d \<in> set xs" "myId d = mine \<or> peerId d = peer" by (auto simp: find_Some_iff)
  have "mine \<notin> myId ` set xs" using assms(2,3,5) by auto
  then have n: "myId d \<noteq> mine" using d(1) by blast
  then have "touch d \<noteq> touch c" using assms(3) by (auto simp: touch_def dest: arg_cong [where f = myId])
  with d n Some show ?thesis
    using assms(1,2) by (fastforce simp: TransProxyGetRecvMsgChanInfo_def find_append)
qed

text \<open>Two channels to different devices that chose the same number: the message for the second goes to the first.\<close>

theorem TransProxyGetRecvMsgChanInfo_routes_witness:
  "fst (TransProxyGetRecvMsgChanInfo demo_mgr 6 0
     (set_chans \<lparr>cnt = 2, lst = [demo_item, demo_item\<lparr>myId := 6, channelId := 6\<rparr>]\<rparr> demo_mworld))
   \<noteq> Some (touch (demo_item\<lparr>myId := 6, channelId := 6\<rparr>))"
proof -
  let ?m = "set_chans \<lparr>cnt = 2, lst = [demo_item, demo_item\<lparr>myId := 6, channelId := 6\<rparr>]\<rparr> demo_mworld"
  have "chan_list demo_mgr ?m = Some \<lparr>cnt = 2, lst = [demo_item, demo_item\<lparr>myId := 6, channelId := 6\<rparr>]\<rparr>"
    by (simp add: chan_list_def set_chans_def demo_mgr_def demo_sess_def)
  from TransProxyGetRecvMsgChanInfo_routes [OF this, of "[demo_item]" _ "[]" 6 0] show ?thesis
    by (simp add: demo_item_def demo_chan_def)
qed

section \<open>The timer\<close>

text \<open>The reference: which channels end at a tick, and what the loop is then asked to do.\<close>

definition expired :: "ProxyChannelInfo \<Rightarrow> bool" where
  "expired c \<longleftrightarrow> (if status c = PROXY_CHANNEL_STATUS_COMPLETED then timeout c + 1 \<ge> PROXY_CHANNEL_BT_IDLE_TIMEOUT
     else timeout c + 1 \<ge> PROXY_CHANNEL_CONTROL_TIMEOUT)"

definition farewell :: "ProxyChannelInfo \<Rightarrow> loop_msg list" where
  "farewell c =
     (let t = c\<lparr>timeout := timeout c + 1\<rparr>
      in if status c = PROXY_CHANNEL_STATUS_COMPLETED
         then let d = t\<lparr>status := PROXY_CHANNEL_STATUS_TIMEOUT\<rparr>
              in [LOOP_RESETPEER_MSG d, LOOP_OPENCLOSE_MSG d, LOOP_DISCONNECT_MSG (connId c)]
         else let d = t\<lparr>status := PROXY_CHANNEL_STATUS_HANDSHAKE_TIMEOUT\<rparr>
              in [LOOP_OPENFAIL_MSG d, LOOP_DISCONNECT_MSG (connId c)])"

lemma timer_item_expired:
  assumes "chan_ok c"
  shows "snd (timer_item c) = expired c"
    and "\<not> expired c \<Longrightarrow> fst (timer_item c) = c\<lparr>timeout := timeout c + 1\<rparr>"
    and "expired c \<Longrightarrow> fst (timer_item c) = c\<lparr>timeout := timeout c + 1, status :=
      if status c = PROXY_CHANNEL_STATUS_COMPLETED then PROXY_CHANNEL_STATUS_TIMEOUT
      else PROXY_CHANNEL_STATUS_HANDSHAKE_TIMEOUT\<rparr>"
  using assms by (auto simp: timer_item_def chan_ok_def expired_def Let_def)

lemma TransProxyTimerItemProc_farewell:
  assumes "\<forall>x. m_site env x" "\<forall>c \<in> set cs. chan_ok c \<and> expired c"
  shows "TransProxyTimerItemProc env (map (\<lambda>c. fst (timer_item c)) cs) m =
    m\<lparr>loopq := loopq m @ concat (map farewell cs)\<rparr>"
  using assms(2)
proof (induction cs arbitrary: m)
  case (Cons c cs)
  have "TransProxyTimerItemProc env (map (\<lambda>c. fst (timer_item c)) (c # cs)) m =
      TransProxyTimerItemProc env (map (\<lambda>c. fst (timer_item c)) cs) (m\<lparr>loopq := loopq m @ farewell c\<rparr>)"
    using Cons.prems assms(1)
    by (simp add: TransProxyTimerItemProc_def timer_item_expired farewell_def Let_def
        TransProxyPostResetPeerMsgToLoop_def TransProxyPostOpenClosedMsgToLoop_def TransProxyPostDisConnectMsgToLoop_def
        TransProxyPostOpenFailMsgToLoop_def post_loop_def TransProxyCreateLoopMsg_def)
  with Cons show ?case by simp
qed (simp add: TransProxyTimerItemProc_def)

text \<open>C37: One tick of the timer makes every channel older, takes out the ones that have waited nineteen ticks for their
  connection or handshake or have been idle for two hundred and forty, with the count of the list exact, and posts for
  each of these, the last first, exactly the messages that reset the peer and report the closing, or report
  the failed opening, and give up the connection.\<close>

theorem TransProxyTimerProc_correct:
  assumes "mgr_inv m" "g_proxyChannelList (pw m) = Some l" "length (lst l) < 2 ^ 32" "chan_lock (sess env)"
    and "\<forall>x. m_site env x"
  shows "TransProxyTimerProc env m =
    m\<lparr>pw := (pw m)\<lparr>g_proxyChannelList := Some
        \<lparr>cnt = of_nat (length (filter (\<lambda>c. \<not> expired c) (lst l))),
         lst = map (\<lambda>c. c\<lparr>timeout := timeout c + 1\<rparr>) (filter (\<lambda>c. \<not> expired c) (lst l))\<rparr>\<rparr>,
      loopq := loopq m @ concat (map farewell (rev (filter expired (lst l))))\<rparr>"
proof -
  have ok: "\<forall>c \<in> set (lst l). chan_ok c" and cnt: "cnt l = of_nat (length (lst l))"
    using assms(1,2) by (auto simp: mgr_inv_def list_ok_def wf_sl_def)
  show ?thesis
  proof (cases "lst l = []")
    case True
    with cnt have "l = \<lparr>cnt = 0, lst = []\<rparr>" by (cases l) simp
    then show ?thesis using assms(2) by (simp add: TransProxyTimerProc_def)
  next
    case False
    then have n: "cnt l \<noteq> 0"
      using cnt assms(3) by (simp add: word_of_nat_eq_0_iff) (meson dvd_imp_le leD length_greater_0_conv)
    have g: "map fst (filter snd (map timer_item (lst l))) = map (\<lambda>c. fst (timer_item c)) (filter expired (lst l))"
      using ok by (auto simp: filter_map o_def timer_item_expired cong: filter_cong)
    have s: "map fst (filter (\<lambda>x. \<not> snd x) (map timer_item (lst l))) =
        map (\<lambda>c. c\<lparr>timeout := timeout c + 1\<rparr>) (filter (\<lambda>c. \<not> expired c) (lst l))"
      using ok by (auto simp: filter_map o_def timer_item_expired cong: filter_cong)
    have c: "cnt l - of_nat (length (filter expired (lst l))) = of_nat (length (filter (\<lambda>c. \<not> expired c) (lst l)))"
      unfolding cnt by (metis add_diff_cancel_left' of_nat_add sum_length_filter_compl)
    have f: "TransProxyTimerItemProc env (rev (map (\<lambda>c. fst (timer_item c)) (filter expired (lst l)))) m' =
        m'\<lparr>loopq := loopq m' @ concat (map farewell (rev (filter expired (lst l))))\<rparr>" for m'
      unfolding rev_map using ok by (intro TransProxyTimerItemProc_farewell assms(5)) simp
    show ?thesis
      unfolding TransProxyTimerProc_def assms(2) option.case Let_def g s unfolding length_map c f using n assms(4)
      by (simp add: set_chans_def)
  qed
qed

theorem TransProxyTimerProc_correct_witness:
  "loopq (TransProxyTimerProc demo_mgr
     (set_chans \<lparr>cnt = 2, lst = [demo_item\<lparr>timeout := 239\<rparr>, demo_item\<lparr>status := 2, timeout := 18, connId := 9\<rparr>]\<rparr> demo_mworld)) =
   farewell (demo_item\<lparr>status := 2, timeout := 18, connId := 9\<rparr>) @ farewell (demo_item\<lparr>timeout := 239\<rparr>)"
proof -
  let ?l = "\<lparr>cnt = 2, lst = [demo_item\<lparr>timeout := 239\<rparr>, demo_item\<lparr>status := 2, timeout := 18, connId := 9\<rparr>]\<rparr>"
  have "mgr_inv (set_chans ?l demo_mworld)"
    by (simp add: mgr_inv_def set_chans_def demo_mworld_def list_ok_def wf_sl_def chan_ok_def demo_item_def)
  then show ?thesis
    by (subst TransProxyTimerProc_correct [where l = ?l])
      (simp_all add: set_chans_def demo_mgr_def demo_sess_def demo_mworld_def expired_def demo_item_def)
qed

end
