(* ===== verification/Proxy_Network.thy ===== *)
theory Proxy_Network
  imports Proxy_Manager
begin

text \<open>
  The life of the proxy channel service and its use inside the device: the initialisation of
  \<^verbatim>\<open>softbus_proxychannel_manager.c\<close>, \<^verbatim>\<open>softbus_proxychannel_transceiver.c\<close> and
  \<^verbatim>\<open>softbus_proxychannel_callback.c\<close>, and the networking channels of
  \<^verbatim>\<open>softbus_proxychannel_listener.c\<close> and \<^verbatim>\<open>softbus_proxychannel_network.c\<close>. The lanes of the bus
  centre are a parameter: what a lane request, a lane number and a lane lookup return.
\<close>

section \<open>Initialisation\<close>

abbreviation (input) SOFTBUS_PROXYCHANNEL_TIMER_FUN :: int where "SOFTBUS_PROXYCHANNEL_TIMER_FUN \<equiv> 3"
abbreviation (input) SOFTBUS_TRANS_GET_LANE_INFO_ERR :: int where "SOFTBUS_TRANS_GET_LANE_INFO_ERR \<equiv> - 10991"
abbreviation (input) SOFTBUS_GET_REMOTE_UUID_ERR :: int where "SOFTBUS_GET_REMOTE_UUID_ERR \<equiv> - 983"

text \<open>
  Outcomes at start-up: the mutexes, the callbacks handed in, the two allocations of the listener of the connection manager,
  those of the two lists, the looper, the pending packets; and the addresses of the functions registered.
\<close>

record init_env =
  i_mutex :: bool
  i_cb :: bool
  i_listener :: "bool \<times> bool"
  i_onConnected :: nat
  i_onDisConnect :: nat
  i_onDataReceived :: nat
  i_connList :: "bool \<times> bool"
  i_looper :: bool
  i_chanList :: "bool \<times> bool"
  i_pending :: bool
  i_timer :: nat

definition TransProxySetCallBack :: "init_env \<Rightarrow> int" where
  "TransProxySetCallBack ie = (if \<not> i_cb ie then SOFTBUS_INVALID_PARAM else SOFTBUS_OK)"

definition TransProxyLoopInit :: "init_env \<Rightarrow> int" where
  "TransProxyLoopInit ie = (if \<not> i_looper ie then SOFTBUS_ERR else SOFTBUS_OK)"

definition TransProxyTransInit :: "init_env \<Rightarrow> mgr_world \<Rightarrow> int \<times> mgr_world" where
  "TransProxyTransInit ie m =
     (case ConnSetConnectCallback (i_listener ie) MODULE_PROXY_CHANNEL
             (Some \<lparr>OnConnected = Some (i_onConnected ie), OnDisconnected = Some (i_onDisConnect ie),
                OnDataReceived = Some (i_onDataReceived ie)\<rparr>) (conn_mgr m) of
        (ret, cm) \<Rightarrow>
          let m1 = m\<lparr>conn_mgr := cm\<rparr>
          in if ret \<noteq> SOFTBUS_OK then (SOFTBUS_ERR, m1)
             else
               let k = CreateSoftBusList (fst (i_connList ie)) (snd (i_connList ie));
                   m2 = m1\<lparr>g_proxyConnectionList := k\<rparr>
               in if k = None then (SOFTBUS_ERR, m2)
                  else if TransProxyLoopInit ie \<noteq> SOFTBUS_OK then (SOFTBUS_ERR, m2)
                  else (SOFTBUS_OK, m2))"

text \<open>
  The second component tells that the list of channels has been freed while the pointer to it stays: every
  later use of it is outside the model.
\<close>

definition TransProxyManagerInit :: "init_env \<Rightarrow> mgr_world \<Rightarrow> (int \<times> bool) \<times> mgr_world" where
  "TransProxyManagerInit ie m =
     (if \<not> i_mutex ie then ((SOFTBUS_ERR, False), m)
      else if TransProxySetCallBack ie \<noteq> SOFTBUS_OK then ((SOFTBUS_ERR, False), m)
      else case TransProxyTransInit ie m of
             (ret, m1) \<Rightarrow>
               if ret \<noteq> SOFTBUS_OK then ((SOFTBUS_ERR, False), m1)
               else
                 let l = CreateSoftBusList (fst (i_chanList ie)) (snd (i_chanList ie));
                     w = (pw m1)\<lparr>g_proxyChannelList := l\<rparr>
                 in if l = None then ((SOFTBUS_ERR, False), m1\<lparr>pw := w\<rparr>)
                    else
                      let w1 = w\<lparr>events := events w @ [InitPending]\<rparr>
                      in if \<not> i_pending ie then ((SOFTBUS_ERR, False), m1\<lparr>pw := w1\<rparr>)
                         else (case RegisterTimeoutCallback SOFTBUS_PROXYCHANNEL_TIMER_FUN (Some (i_timer ie)) (w_timers w1) of
                                 (ret, ts) \<Rightarrow>
                                   ((if ret \<noteq> SOFTBUS_OK then SOFTBUS_ERR else SOFTBUS_OK, ret \<noteq> SOFTBUS_OK),
                                    m1\<lparr>pw := w1\<lparr>w_timers := ts\<rparr>\<rparr>)))"

definition TransProxyManagerDeinit :: "mgr_world \<Rightarrow> mgr_world" where
  "TransProxyManagerDeinit m =
     (let ts = snd (RegisterTimeoutCallback SOFTBUS_PROXYCHANNEL_TIMER_FUN None (w_timers (pw m)))
      in m\<lparr>pw := (pw m)\<lparr>w_timers := ts, events := events (pw m) @ [DeinitPending]\<rparr>\<rparr>)"

definition TransProxyGetNameByChanId ::
  "mgr_env \<Rightarrow> int \<Rightarrow> nat option \<Rightarrow> nat option \<Rightarrow> mgr_world \<Rightarrow> int \<times> string option \<times> string option" where
  "TransProxyGetNameByChanId env ch pkgBuf nameBuf m =
     (case (pkgBuf, nameBuf) of
        (Some pkgLen, Some sessionLen) \<Rightarrow>
          if \<not> m_site env ChanItem then (SOFTBUS_MALLOC_ERR, None, None)
          else (case TransProxyGetChanByChanId env ch m of
                  None \<Rightarrow> (SOFTBUS_ERR, None, None)
                | Some chan \<Rightarrow>
                    (case cb_pkgName env (sessionName (myData (appInfo chan))) pkgLen of
                       None \<Rightarrow> (SOFTBUS_ERR, None, None)
                     | Some pkg \<Rightarrow>
                         (case strcpy_s sessionLen (sessionName (myData (appInfo chan))) of
                            None \<Rightarrow> (SOFTBUS_MEM_ERR, Some pkg, None)
                          | Some s \<Rightarrow> (SOFTBUS_OK, Some pkg, Some s))))
      | _ \<Rightarrow> (SOFTBUS_INVALID_PARAM, None, None))"

definition TransProxyOpenProxyChannelFail :: "mgr_env \<Rightarrow> int \<Rightarrow> AppInfo \<Rightarrow> mgr_world \<Rightarrow> mgr_world" where
  "TransProxyOpenProxyChannelFail env ch app m = snd (OnProxyChannelOpenFailed env ch app m)"

definition TransRegisterNetworkingChannelListener :: "bool option \<Rightarrow> mgr_world \<Rightarrow> int \<times> mgr_world" where
  "TransRegisterNetworkingChannelListener listener m =
     (case listener of None \<Rightarrow> (SOFTBUS_ERR, m) | Some b \<Rightarrow> (SOFTBUS_OK, m\<lparr>g_netChanlistener := b\<rparr>))"

section \<open>Networking channels\<close>

abbreviation (input) CONNECTION_ADDR_WLAN :: int where "CONNECTION_ADDR_WLAN \<equiv> 0"
abbreviation (input) CONNECTION_ADDR_BR :: int where "CONNECTION_ADDR_BR \<equiv> 1"
abbreviation (input) CONNECTION_ADDR_ETH :: int where "CONNECTION_ADDR_ETH \<equiv> 3"
abbreviation (input) LNN_LANE_PROPERTY_BUTT :: int where "LNN_LANE_PROPERTY_BUTT \<equiv> 5"
abbreviation (input) TYPE_MESSAGE :: int where "TYPE_MESSAGE \<equiv> 1"
abbreviation (input) API_V2 :: int where "API_V2 \<equiv> 2"

text \<open>The members of the union of an address side by side; the type says which is read.\<close>

record ConnectionAddr =
  ca_type :: int
  ca_brMac :: string
  ca_ip :: string
  ca_port :: "16 word"

text \<open>The lanes: objects by device, property and number of lanes, the number of a lane, and its address.\<close>

record 'o lane_env =
  LnnRequestLanesObject :: "string \<Rightarrow> int \<Rightarrow> int \<Rightarrow> 'o option"
  LnnGetLaneId :: "'o \<Rightarrow> int \<Rightarrow> int"
  LnnGetConnection :: "int \<Rightarrow> ConnectionAddr option"
  local_uuid :: "nat \<Rightarrow> string option"
  remote_uuid :: "string \<Rightarrow> nat \<Rightarrow> string option"

definition TransProxyGetAppInfo :: "'o lane_env \<Rightarrow> string \<Rightarrow> string \<Rightarrow> AppInfo \<Rightarrow> int \<times> AppInfo" where
  "TransProxyGetAppInfo le name peer app =
     (let a1 = app\<lparr>appType := APP_TYPE_INNER, myData := (myData app)\<lparr>apiVersion := API_V2\<rparr>\<rparr>
      in case local_uuid le DEVICE_ID_SIZE_MAX of
           None \<Rightarrow> (SOFTBUS_ERR, a1)
         | Some dev \<Rightarrow>
             let a2 = a1\<lparr>myData := (myData a1)\<lparr>deviceId := dev\<rparr>\<rparr>
             in case strcpy_s SESSION_NAME_SIZE_MAX name of
                  None \<Rightarrow> (SOFTBUS_ERR, a2)
                | Some s \<Rightarrow>
                    let a3 = a2\<lparr>myData := (myData a2)\<lparr>sessionName := s\<rparr>,
                               peerData := (peerData a2)\<lparr>apiVersion := API_V2, sessionName := s\<rparr>\<rparr>
                    in case remote_uuid le peer DEVICE_ID_SIZE_MAX of
                         None \<Rightarrow> (SOFTBUS_GET_REMOTE_UUID_ERR, a3)
                       | Some dev \<Rightarrow> (SOFTBUS_OK, a3\<lparr>peerData := (peerData a3)\<lparr>deviceId := dev\<rparr>\<rparr>))"

definition TransParseConnectOption :: "ConnectionAddr \<Rightarrow> ConnectOption option" where
  "TransParseConnectOption a =
     (if ca_type a = CONNECTION_ADDR_WLAN \<or> ca_type a = CONNECTION_ADDR_ETH then
        map_option (\<lambda>s. \<lparr>co_type = CONNECT_TCP, co_info = IpOption s (uint (ca_port a))\<rparr>) (strcpy_s IP_LEN (ca_ip a))
      else if ca_type a = CONNECTION_ADDR_BR then
        map_option (\<lambda>s. \<lparr>co_type = CONNECT_BR, co_info = BrOption s\<rparr>) (strcpy_s 18 (ca_brMac a))
      else None)"

definition TransGetLnnLaneProperty :: "int \<Rightarrow> int" where
  "TransGetLnnLaneProperty type =
     (if type = 1 then 1 else if type = 2 then 2 else if type = 3 then 3 else if type = 4 then 4
      else LNN_LANE_PROPERTY_BUTT)"

text \<open>The object and the address of its first lane, and the objects given back.\<close>

definition TransGetLaneInfo :: "'o lane_env \<Rightarrow> int \<Rightarrow> string \<Rightarrow> ('o \<times> ConnectionAddr) option \<times> 'o list" where
  "TransGetLaneInfo le flags peer =
     (let p = TransGetLnnLaneProperty flags
      in if p = LNN_LANE_PROPERTY_BUTT then (None, [])
         else case LnnRequestLanesObject le peer p 1 of
                None \<Rightarrow> (None, [])
              | Some obj \<Rightarrow>
                  (case LnnGetConnection le (LnnGetLaneId le obj 0) of
                     None \<Rightarrow> (None, [obj])
                   | Some a \<Rightarrow> (Some (obj, a), [])))"

definition TransGetConnectOption :: "'o lane_env \<Rightarrow> string \<Rightarrow> (int \<times> ConnectOption option) \<times> 'o list" where
  "TransGetConnectOption le peer =
     (case TransGetLaneInfo le TYPE_MESSAGE peer of
        (None, rel) \<Rightarrow> ((SOFTBUS_TRANS_GET_LANE_INFO_ERR, None), rel)
      | (Some (obj, a), rel) \<Rightarrow>
          (case TransParseConnectOption a of
             None \<Rightarrow> ((SOFTBUS_TRANS_GET_LANE_INFO_ERR, None), rel @ [obj])
           | Some opt \<Rightarrow> ((SOFTBUS_OK, Some opt), rel @ [obj])))"

definition TransOpenNetWorkingChannel ::
  "mgr_env \<Rightarrow> 'o lane_env \<Rightarrow> string option \<Rightarrow> string option \<Rightarrow> mgr_world \<Rightarrow> (int \<times> mgr_world) option" where
  "TransOpenNetWorkingChannel env le name peer m =
     (if \<not> IsValidString name (of_nat SESSION_NAME_SIZE_MAX) \<or> \<not> IsValidString peer (of_nat DEVICE_ID_SIZE_MAX)
      then Some (- 1, m)
      else case fst (TransGetConnectOption le (the peer)) of
             (ret, opt) \<Rightarrow>
               if ret \<noteq> SOFTBUS_OK then Some (- 1, m)
               else (case TransProxyGetAppInfo le (the name) (the peer) (appInfo zero_chan) of
                       (ret, app) \<Rightarrow>
                         if ret \<noteq> SOFTBUS_OK then Some (- 1, m)
                         else (case TransProxyOpenProxyChannel env (Some app) opt m of
                                 None \<Rightarrow> None
                               | Some ((ret, ch), m1) \<Rightarrow>
                                   Some (if ret \<noteq> SOFTBUS_OK then - 1 else (case ch of None \<Rightarrow> - 1 | Some c \<Rightarrow> c), m1))))"

definition TransSendNetworkingMessage :: "mgr_env \<Rightarrow> int \<Rightarrow> byte list \<Rightarrow> int \<Rightarrow> mgr_world \<Rightarrow> int \<times> mgr_world" where
  "TransSendNetworkingMessage env ch data pri m = TransProxySendMsg env ch data pri m"

definition TransCloseNetWorkingChannel :: "mgr_env \<Rightarrow> int \<Rightarrow> mgr_world \<Rightarrow> (int \<times> mgr_world) option" where
  "TransCloseNetWorkingChannel env ch m = TransProxyCloseProxyChannel env ch m"

section \<open>Facts\<close>

text \<open>An object of lanes that was handed out is given back exactly once, whatever goes wrong.\<close>

lemma TransGetConnectOption_releases:
  "snd (TransGetConnectOption le peer) = (case LnnRequestLanesObject le peer 1 1 of None \<Rightarrow> [] | Some obj \<Rightarrow> [obj])"
  by (simp add: TransGetConnectOption_def TransGetLaneInfo_def TransGetLnnLaneProperty_def split: option.split)

lemma TransOpenNetWorkingChannel_inv:
  "TransOpenNetWorkingChannel env le name peer m = Some (r, m') \<Longrightarrow> mgr_inv m \<Longrightarrow> mgr_inv m'"
  by (auto simp: TransOpenNetWorkingChannel_def split: if_splits option.splits prod.splits dest: mgr_inv_open)

text \<open>A successful initialisation gives empty lists, so the invariant holds; the timer stays registered afterwards.\<close>

lemma TransProxyManagerInit_inv:
  assumes "TransProxyManagerInit ie m = ((SOFTBUS_OK, freed), m')" "loopq m = []"
  shows "mgr_inv m' \<and> \<not> freed"
  using assms
  by (auto simp: TransProxyManagerInit_def TransProxyTransInit_def CreateSoftBusList_def mgr_inv_def list_ok_def wf_sl_def
      Let_def split: if_splits prod.splits)

lemma TransProxyManagerDeinit_keeps_timer: "w_timers (pw (TransProxyManagerDeinit m)) = w_timers (pw m)"
  by (simp add: TransProxyManagerDeinit_def RegisterTimeoutCallback_def Let_def)

section \<open>The state stays well-formed\<close>

text \<open>C19: After a successful initialisation, and after any sequence of openings, closings, messages, events of
  connections, loop messages and ticks that does not fault, the counts of the channel and of the connection list
  are the lengths of the lists, every channel in the list waits for its connection, is in the handshake or is
  complete, every connection is pending or there, and no keep-alive message was ever queued.\<close>

theorem proxy_manager_well_formed:
  assumes "TransProxyManagerInit ie m0 = ((SOFTBUS_OK, freed), m)" "loopq m0 = []" "mgr_run ops m = Some m'"
  shows "(\<forall>l. g_proxyChannelList (pw m') = Some l \<longrightarrow> cnt l = of_nat (length (lst l)) \<and>
      (\<forall>c \<in> set (lst l). status c \<in> {PROXY_CHANNEL_STATUS_PYH_CONNECTING, PROXY_CHANNEL_STATUS_HANDSHAKEING,
         PROXY_CHANNEL_STATUS_COMPLETED})) \<and>
    (\<forall>k. g_proxyConnectionList m' = Some k \<longrightarrow> cnt k = of_nat (length (lst k)) \<and>
      (\<forall>c \<in> set (lst k). pc_state c \<in> {PROXY_CHANNEL_STATUS_PYH_CONNECTED, PROXY_CHANNEL_STATUS_PYH_CONNECTING})) \<and>
    (\<forall>c. LOOP_KEEPALIVE_MSG c \<notin> set (loopq m'))"
proof -
  have "mgr_inv m'" using TransProxyManagerInit_inv [OF assms(1,2)] mgr_run_inv [OF assms(3)] by simp
  then show ?thesis
    by (force simp: mgr_inv_def list_ok_def wf_sl_def chan_ok_def conn_ok_def not_keepalive_def list_all_iff)
qed

definition demo_init :: init_env where
  "demo_init = \<lparr>i_mutex = True, i_cb = True, i_listener = (True, True), i_onConnected = 1, i_onDisConnect = 2,
     i_onDataReceived = 3, i_connList = (True, True), i_looper = True, i_chanList = (True, True), i_pending = True,
     i_timer = 4\<rparr>"

definition demo_start :: mgr_world where
  "demo_start = demo_mworld\<lparr>pw := demo_proxy\<lparr>g_proxyChannelList := None, w_timers := timers_reset\<rparr>,
     g_proxyConnectionList := None, conn_mgr := conn_manager_start\<lparr>g_listenerList := Some \<lparr>cnt = 0, lst = []\<rparr>\<rparr>\<rparr>"

definition demo_ops :: "(mgr_env \<times> mgr_op) list" where
  "demo_ops = map (Pair demo_mgr) [OpOpen (Some (appInfo demo_chan)) (Some \<lparr>co_type = CONNECT_BR, co_info = BrOption ''m''\<rparr>),
     OpConnected 3 7, OpTimer]"

lemma demo_manager_run:
  "map_option (\<lambda>m. (map status (lst (the (g_proxyChannelList (pw m)))), length (loopq m)))
     (mgr_run demo_ops (snd (TransProxyManagerInit demo_init demo_start))) = Some ([2], 1)"
  by code_simp

theorem proxy_manager_well_formed_witness:
  "\<exists>m m'. TransProxyManagerInit demo_init demo_start = ((SOFTBUS_OK, False), m) \<and> mgr_run demo_ops m = Some m' \<and>
    (\<forall>l. g_proxyChannelList (pw m') = Some l \<longrightarrow> map status (lst l) = [2] \<and> cnt l = 1)"
proof -
  obtain m' where r: "mgr_run demo_ops (snd (TransProxyManagerInit demo_init demo_start)) = Some m'"
    "map status (lst (the (g_proxyChannelList (pw m')))) = [2]" using demo_manager_run by auto
  have "fst (TransProxyManagerInit demo_init demo_start) = (SOFTBUS_OK, False)" by code_simp
  then have i: "TransProxyManagerInit demo_init demo_start =
      ((SOFTBUS_OK, False), snd (TransProxyManagerInit demo_init demo_start))" by (metis prod.collapse)
  have "loopq demo_start = []" by (simp add: demo_start_def demo_mworld_def)
  from proxy_manager_well_formed [OF i this r(1)] r(2) i r(1) show ?thesis
    by (intro exI conjI) (assumption, assumption, force)
qed

end
