(* ===== verification/Auth_Session_Key.thy ===== *)
theory Auth_Session_Key
  imports Proxy_Conn
begin

text \<open>
  The store of session keys behind the encryption of messages, \<^verbatim>\<open>core/authentication/src/auth_sessionkey.c\<close>,
  with the device keys and sequence numbers of \<^verbatim>\<open>auth_common.c\<close>. The store is a list with the newest key
  first and at most twenty entries. A device key is the address of the connection, read from whatever
  member of the union the option has.
\<close>

unbundle bit_operations_syntax

abbreviation (input) MAX_KEY_LIST_SIZE :: nat where "MAX_KEY_LIST_SIZE \<equiv> 20"
abbreviation (input) MAX_DEVICE_KEY_LEN :: nat where "MAX_DEVICE_KEY_LEN \<equiv> 64"
abbreviation (input) UDID_BUF_LEN :: nat where "UDID_BUF_LEN \<equiv> 65"
abbreviation (input) MESSAGE_INDEX_LEN :: nat where "MESSAGE_INDEX_LEN \<equiv> 4"
abbreviation (input) ENCRYPT_OVER_HEAD_LEN :: nat where "ENCRYPT_OVER_HEAD_LEN \<equiv> 32"
abbreviation (input) BT_MAC_LEN :: nat where "BT_MAC_LEN \<equiv> 18"

section \<open>Sequence numbers and device keys\<close>

record seq_state =
  g_uniqueId :: "64 word"
  g_authAbility :: "32 word"
  seq_integer :: "64 word"

definition GetSeq :: "seq_state \<Rightarrow> 64 word \<times> seq_state" where
  "GetSeq st =
     (let i = (if seq_integer st = 0xFFFFFE then 0 else seq_integer st) + 2
      in (push_bit 24 (g_uniqueId st) OR (i AND 0xFFFFFF), st\<lparr>seq_integer := i\<rparr>))"

definition AuthGetSideByRemoteSeq :: "64 word \<Rightarrow> int" where
  "AuthGetSideByRemoteSeq s = (if sint s mod 2 = 0 then SERVER_SIDE_FLAG else CLIENT_SIDE_FLAG)"

text \<open>The configured abilities, if the configuration can be read, and the microseconds of the clock.\<close>

definition AuthGetAbility :: "32 word option \<Rightarrow> seq_state \<Rightarrow> seq_state" where
  "AuthGetAbility config st = st\<lparr>g_authAbility := (case config of None \<Rightarrow> 0 | Some v \<Rightarrow> v)\<rparr>"

definition AuthIsSupportServerSide :: "seq_state \<Rightarrow> bool" where
  "AuthIsSupportServerSide st = (g_authAbility st AND 1 \<noteq> 0)"

definition UniqueIdInit :: "64 word \<Rightarrow> seq_state \<Rightarrow> seq_state" where
  "UniqueIdInit usec st = st\<lparr>g_uniqueId := usec\<rparr>"

definition AuthGetDeviceKey :: "ConnectOption \<Rightarrow> (string \<times> nat) option" where
  "AuthGetDeviceKey opt =
     (if co_type opt = CONNECT_BR then
        map_option (\<lambda>k. (k, BT_MAC_LEN)) (strcpy_s MAX_DEVICE_KEY_LEN (take BT_MAC_LEN (brMac opt)))
      else if co_type opt = CONNECT_TCP then
        map_option (\<lambda>k. (k, IP_LEN)) (strcpy_s MAX_DEVICE_KEY_LEN (take IP_LEN (brMac opt)))
      else None)"

text \<open>The option for the other end of a connection; the address is the one of the type of the connection.\<close>

definition AuthConvertConnInfo :: "ConnectionInfo \<Rightarrow> ConnectOption option" where
  "AuthConvertConnInfo info =
     (case (ci_type info, ci_info info) of
        (t, BrInfo a) \<Rightarrow>
          if t = CONNECT_BR
          then map_option (\<lambda>a. \<lparr>co_type = t, co_info = BrOption a\<rparr>) (strcpy_s BT_MAC_LEN (take BT_MAC_LEN a)) else None
      | (t, IpInfo a p _) \<Rightarrow>
          if t = CONNECT_TCP
          then map_option (\<lambda>a. \<lparr>co_type = t, co_info = IpOption a p\<rparr>) (strcpy_s IP_LEN (take IP_LEN a)) else None
      | _ \<Rightarrow> None)"

text \<open>The numbers a device draws are even, so the receiver of a number always takes the server's side.\<close>

lemma GetSeq_even:
  assumes "even (seq_integer st)"
  shows "AuthGetSideByRemoteSeq (fst (GetSeq st)) = SERVER_SIDE_FLAG \<and> even (seq_integer (snd (GetSeq st)))"
proof -
  define i where "i = (if seq_integer st = 0xFFFFFE then 0 else seq_integer st) + 2"
  have i: "even i" using assms by (simp add: i_def)
  have "\<not> bit (fst (GetSeq st)) 0"
    using i unfolding GetSeq_def Let_def i_def [symmetric] fst_conv by (simp add: bit_0 even_or_iff even_and_iff even_push_bit_iff)
  then have "\<not> bit (sint (fst (GetSeq st))) 0" unfolding bit_sint_iff by simp
  then have "even (sint (fst (GetSeq st)))" by (simp add: bit_0)
  then show ?thesis using i by (simp add: AuthGetSideByRemoteSeq_def even_iff_mod_2_eq_zero GetSeq_def Let_def i_def)
qed

section \<open>The store\<close>

record NecessaryDevInfo =
  nd_type :: ConnectType
  nd_deviceKey :: string
  nd_deviceKeyLen :: nat
  nd_side :: int
  nd_seq :: int

record SessionKeyList =
  sk_deviceKey :: string
  sk_deviceKeyLen :: nat
  sk_type :: ConnectType
  sk_seq :: int
  sk_sessionKey :: "byte list"
  sk_sessionKeyLen :: nat
  sk_peerUdid :: string
  sk_side :: int

text \<open>Whether \<^verbatim>\<open>strncmp\<close> finds no difference, for strings without their final zero.\<close>

definition strncmp_eq :: "string \<Rightarrow> string \<Rightarrow> nat \<Rightarrow> bool" where
  "strncmp_eq a b n \<longleftrightarrow> take n a = take n b"

definition AuthSessionKeyListInit :: "SessionKeyList list" where
  "AuthSessionKeyListInit = []"

definition AuthSetLocalSessionKey ::
  "bool \<Rightarrow> NecessaryDevInfo option \<Rightarrow> string option \<Rightarrow> byte list option \<Rightarrow> SessionKeyList list \<Rightarrow> SessionKeyList list" where
  "AuthSetLocalSessionKey alloc devp udidp keyp ks =
     (case (devp, udidp, keyp) of
        (Some dev, Some peer, Some skey) \<Rightarrow>
          let ks1 = (if length ks = MAX_KEY_LIST_SIZE then butlast ks else ks)
          in if \<not> alloc then ks1
             else (case memcpy_s UDID_BUF_LEN peer of
                     None \<Rightarrow> ks1
                   | Some u \<Rightarrow>
                       if MAX_DEVICE_KEY_LEN < nd_deviceKeyLen dev then ks1
                       else (case memcpy_s SESSION_KEY_LENGTH skey of
                               None \<Rightarrow> ks1
                             | Some k \<Rightarrow>
                                 \<lparr>sk_deviceKey = take (nd_deviceKeyLen dev) (nd_deviceKey dev),
                                  sk_deviceKeyLen = nd_deviceKeyLen dev, sk_type = nd_type dev, sk_seq = nd_seq dev,
                                  sk_sessionKey = k, sk_sessionKeyLen = length skey, sk_peerUdid = u,
                                  sk_side = nd_side dev\<rparr> # ks1))
      | _ \<Rightarrow> ks)"

definition AuthIsDeviceVerified :: "ConnectType \<Rightarrow> string option \<Rightarrow> nat \<Rightarrow> SessionKeyList list \<Rightarrow> bool" where
  "AuthIsDeviceVerified type keyp n ks =
     (case keyp of
        None \<Rightarrow> False
      | Some k \<Rightarrow> find (\<lambda>s. sk_type s = type \<and> strncmp_eq (sk_deviceKey s) k n) ks \<noteq> None)"

definition AuthIsSeqInKeyList :: "int \<Rightarrow> SessionKeyList list \<Rightarrow> bool" where
  "AuthIsSeqInKeyList sq ks = (find (\<lambda>s. sk_seq s = sq) ks \<noteq> None)"

definition AuthGetLastSessionKey :: "NecessaryDevInfo \<Rightarrow> SessionKeyList list \<Rightarrow> SessionKeyList option" where
  "AuthGetLastSessionKey dev ks =
     find (\<lambda>s. sk_type s = nd_type dev \<and> strncmp_eq (sk_deviceKey s) (nd_deviceKey dev) (nd_deviceKeyLen dev)) ks"

definition dev_matches :: "NecessaryDevInfo \<Rightarrow> SessionKeyList \<Rightarrow> bool" where
  "dev_matches dev s \<longleftrightarrow> sk_type s = nd_type dev \<and> sk_seq s = nd_seq dev \<and>
     strncmp_eq (sk_deviceKey s) (nd_deviceKey dev) (nd_deviceKeyLen dev)"

definition GetSessionKeyByDevinfo :: "NecessaryDevInfo \<Rightarrow> SessionKeyList list \<Rightarrow> SessionKeyList option" where
  "GetSessionKeyByDevinfo dev ks = find (dev_matches dev) ks"

definition AuthGetSessionKeyBySeq :: "int \<Rightarrow> SessionKeyList list \<Rightarrow> SessionKeyList option" where
  "AuthGetSessionKeyBySeq sq ks = find (\<lambda>s. sk_seq s = sq) ks"

definition AuthClearSessionKeyBySeq :: "int \<Rightarrow> SessionKeyList list \<Rightarrow> SessionKeyList list" where
  "AuthClearSessionKeyBySeq sq ks = filter (\<lambda>s. sk_seq s \<noteq> sq) ks"

definition AuthClearAllSessionKey :: "SessionKeyList list \<Rightarrow> SessionKeyList list" where
  "AuthClearAllSessionKey ks = []"

section \<open>Encryption\<close>

definition sk_cipher :: "SessionKeyList \<Rightarrow> byte list \<Rightarrow> AesGcmCipherKey" where
  "sk_cipher s k = \<lparr>keyLen = sk_sessionKeyLen s, key = k, iv = replicate GCM_IV_LEN 0\<rparr>"

text \<open>The part both encrypting functions share: the number of the key in front of the encrypted bytes.\<close>

definition encrypt_by_key ::
  "gcm_lib \<Rightarrow> rng_env \<Rightarrow> SessionKeyList \<Rightarrow> byte list \<Rightarrow> rng \<Rightarrow> (int \<times> byte list) \<times> rng" where
  "encrypt_by_key lib env s data g =
     (case memcpy_s SESSION_KEY_LENGTH (take (sk_sessionKeyLen s) (sk_sessionKey s)) of
        None \<Rightarrow> ((SOFTBUS_ENCRYPT_ERR, []), g)
      | Some k \<Rightarrow>
          (case SoftBusEncryptDataWithSeq lib env (sk_cipher s k) data (sk_seq s) g of
             ((ret, out), g1) \<Rightarrow>
               if ret \<noteq> SOFTBUS_OK then ((SOFTBUS_ENCRYPT_ERR, []), g1)
               else ((SOFTBUS_OK, int_bytes (sk_seq s) @ out), g1)))"

definition AuthEncryptBySeq ::
  "gcm_lib \<Rightarrow> rng_env \<Rightarrow> SessionKeyList list \<Rightarrow> int \<Rightarrow> byte list option \<Rightarrow> 32 word \<Rightarrow> rng \<Rightarrow> (int \<times> int option \<times> byte list) \<times> rng" where
  "AuthEncryptBySeq lib env ks sq datap cap g =
     (case datap of
        None \<Rightarrow> ((SOFTBUS_INVALID_PARAM, None, []), g)
      | Some data \<Rightarrow>
          if cap < of_nat (length data) + of_nat ENCRYPT_OVER_HEAD_LEN then ((SOFTBUS_INVALID_PARAM, None, []), g)
          else (case AuthGetSessionKeyBySeq sq ks of
                  None \<Rightarrow> ((SOFTBUS_ENCRYPT_ERR, None, []), g)
                | Some s \<Rightarrow>
                    (case encrypt_by_key lib env s data g of ((ret, out), g1) \<Rightarrow> ((ret, Some (sk_side s), out), g1))))"

definition AuthEncrypt ::
  "gcm_lib \<Rightarrow> rng_env \<Rightarrow> SessionKeyList list \<Rightarrow> ConnectOption option \<Rightarrow> byte list option \<Rightarrow> 32 word \<Rightarrow> rng
    \<Rightarrow> (int \<times> int option \<times> byte list) \<times> rng" where
  "AuthEncrypt lib env ks optp datap cap g =
     (case (optp, datap) of
        (Some opt, Some data) \<Rightarrow>
          if cap < of_nat (length data) + of_nat ENCRYPT_OVER_HEAD_LEN then ((SOFTBUS_INVALID_PARAM, None, []), g)
          else (case AuthGetDeviceKey opt of
                  None \<Rightarrow> ((SOFTBUS_ENCRYPT_ERR, None, []), g)
                | Some (k, n) \<Rightarrow>
                    (case AuthGetLastSessionKey \<lparr>nd_type = co_type opt, nd_deviceKey = k, nd_deviceKeyLen = n,
                            nd_side = 0, nd_seq = 0\<rparr> ks of
                       None \<Rightarrow> ((SOFTBUS_ENCRYPT_ERR, None, []), g)
                     | Some s \<Rightarrow>
                         (case encrypt_by_key lib env s data g of
                            ((ret, out), g1) \<Rightarrow> ((ret, Some (sk_side s), out), g1))))
      | _ \<Rightarrow> ((SOFTBUS_INVALID_PARAM, None, []), g))"

text \<open>\<^const>\<open>None\<close> is a read behind the end of the data.\<close>

definition AuthDecrypt ::
  "gcm_lib \<Rightarrow> SessionKeyList list \<Rightarrow> ConnectOption option \<Rightarrow> int \<Rightarrow> byte list option \<Rightarrow> 32 word \<Rightarrow> 32 word
    \<Rightarrow> (int \<times> byte list) option" where
  "AuthDecrypt lib ks optp side datap len cap =
     (case (optp, datap) of
        (Some opt, Some mem) \<Rightarrow>
          if cap < len - of_nat ENCRYPT_OVER_HEAD_LEN then Some (SOFTBUS_INVALID_PARAM, [])
          else (case AuthGetDeviceKey opt of
                  None \<Rightarrow> Some (SOFTBUS_ENCRYPT_ERR, [])
                | Some (dk, n) \<Rightarrow>
                    if length mem < 4 then None
                    else (case GetSessionKeyByDevinfo \<lparr>nd_type = co_type opt, nd_deviceKey = dk, nd_deviceKeyLen = n,
                                 nd_side = side, nd_seq = bytes_int (take 4 mem)\<rparr> ks of
                            None \<Rightarrow> Some (SOFTBUS_ENCRYPT_ERR, [])
                          | Some s \<Rightarrow>
                              (case memcpy_s SESSION_KEY_LENGTH (take (sk_sessionKeyLen s) (sk_sessionKey s)) of
                                 None \<Rightarrow> Some (SOFTBUS_ENCRYPT_ERR, [])
                               | Some k \<Rightarrow>
                                   (case SoftBusDecryptDataWithSeq lib (sk_cipher s k) (drop 4 mem) (len - 4) (sk_seq s) of
                                      None \<Rightarrow> None
                                    | Some (ret, out) \<Rightarrow>
                                        if ret \<noteq> SOFTBUS_OK then Some (SOFTBUS_ENCRYPT_ERR, [])
                                        else Some (SOFTBUS_OK, out)))))
      | _ \<Rightarrow> Some (SOFTBUS_INVALID_PARAM, []))"

definition AuthGetEncryptHeadLen :: nat where
  "AuthGetEncryptHeadLen = ENCRYPT_OVER_HEAD_LEN"

section \<open>Keys stay found\<close>

text \<open>The entry that matches first, and how far from the front it is at most.\<close>

definition found_at :: "(SessionKeyList \<Rightarrow> bool) \<Rightarrow> SessionKeyList \<Rightarrow> nat \<Rightarrow> SessionKeyList list \<Rightarrow> bool" where
  "found_at P s j ks \<longleftrightarrow> length ks \<le> MAX_KEY_LIST_SIZE \<and> (\<exists>xs ys. ks = xs @ s # ys \<and> length xs \<le> j \<and> P s \<and> (\<forall>x \<in> set xs. \<not> P x))"

lemma found_at_find: "found_at P s j ks \<Longrightarrow> find P ks = Some s"
proof -
  have "find P (xs @ s # ys) = Some s" if "P s" "\<forall>x \<in> set xs. \<not> P x" for xs ys
    using that by (induction xs) auto
  then show "found_at P s j ks \<Longrightarrow> find P ks = Some s" by (auto simp: found_at_def)
qed

lemma found_at_butlast:
  assumes "found_at P s j ks" "length ks = MAX_KEY_LIST_SIZE" "j < 19"
  shows "found_at P s j (butlast ks)"
proof -
  from assms(1) obtain xs ys where k: "ks = xs @ s # ys" "length xs \<le> j" "P s" "\<forall>x \<in> set xs. \<not> P x"
    by (auto simp: found_at_def)
  with assms(2,3) have "ys \<noteq> []" by auto
  then have "butlast ks = xs @ s # butlast ys" by (simp add: k(1) butlast_append)
  moreover have "length (butlast ks) \<le> MAX_KEY_LIST_SIZE" using assms(2) by simp
  ultimately show ?thesis using k(2-4) unfolding found_at_def by blast
qed

lemma found_at_Cons: "found_at P s j ks \<Longrightarrow> \<not> P x \<Longrightarrow> length ks < MAX_KEY_LIST_SIZE \<Longrightarrow> found_at P s (Suc j) (x # ks)"
  unfolding found_at_def by (elim conjE exE, intro conjI, simp, rule_tac x = "x # xs" in exI, rule_tac x = ys in exI) simp

lemma found_at_mono: "found_at P s i ks \<Longrightarrow> i \<le> j \<Longrightarrow> found_at P s j ks"
  unfolding found_at_def using le_trans by blast

text \<open>The entry that storing makes, and the store it is put in front of.\<close>

definition key_entry :: "NecessaryDevInfo \<Rightarrow> string \<Rightarrow> byte list \<Rightarrow> SessionKeyList" where
  "key_entry dev peer k = \<lparr>sk_deviceKey = take (nd_deviceKeyLen dev) (nd_deviceKey dev), sk_deviceKeyLen = nd_deviceKeyLen dev,
     sk_type = nd_type dev, sk_seq = nd_seq dev, sk_sessionKey = k, sk_sessionKeyLen = length k, sk_peerUdid = peer,
     sk_side = nd_side dev\<rparr>"

definition room :: "SessionKeyList list \<Rightarrow> SessionKeyList list" where
  "room ks = (if length ks = MAX_KEY_LIST_SIZE then butlast ks else ks)"

lemma length_room: "length ks \<le> MAX_KEY_LIST_SIZE \<Longrightarrow> length (room ks) < MAX_KEY_LIST_SIZE"
  by (simp add: room_def)

lemma set_key_cases:
  "AuthSetLocalSessionKey alloc devp udidp keyp ks \<in> {ks, room ks} \<union>
     (case (devp, udidp, keyp) of (Some dev, Some peer, Some k) \<Rightarrow> {key_entry dev peer k # room ks} | _ \<Rightarrow> {})"
  by (auto simp: AuthSetLocalSessionKey_def room_def key_entry_def memcpy_s_def Let_def split: option.split)

lemma set_key_stored:
  "length peer \<le> UDID_BUF_LEN \<Longrightarrow> nd_deviceKeyLen dev \<le> MAX_DEVICE_KEY_LEN \<Longrightarrow> length k \<le> SESSION_KEY_LENGTH \<Longrightarrow>
   AuthSetLocalSessionKey True (Some dev) (Some peer) (Some k) ks = key_entry dev peer k # room ks"
  by (simp add: AuthSetLocalSessionKey_def room_def key_entry_def memcpy_s_def Let_def)

text \<open>Keys stored later, each with its outcome of the allocation and its arguments.\<close>

type_synonym key_call = "bool \<times> NecessaryDevInfo option \<times> string option \<times> byte list option"

definition set_keys :: "key_call list \<Rightarrow> SessionKeyList list \<Rightarrow> SessionKeyList list" where
  "set_keys ls ks = fold (\<lambda>(alloc, d, u, k). AuthSetLocalSessionKey alloc d u k) ls ks"

definition call_misses :: "(SessionKeyList \<Rightarrow> bool) \<Rightarrow> key_call \<Rightarrow> bool" where
  "call_misses P c \<longleftrightarrow> (case c of (_, Some d, Some u, Some k) \<Rightarrow> \<not> P (key_entry d u k) | _ \<Rightarrow> True)"

lemma found_at_set_keys:
  "found_at P s j ks \<Longrightarrow> j + length ls < MAX_KEY_LIST_SIZE \<Longrightarrow> \<forall>c \<in> set ls. call_misses P c \<Longrightarrow>
   found_at P s (j + length ls) (set_keys ls ks)"
proof (induction ls arbitrary: j ks)
  case (Cons c ls)
  obtain alloc d u k where c: "c = (alloc, d, u, k)" by (cases c) auto
  have r: "found_at P s j (room ks)"
    using Cons.prems(1,2) found_at_butlast by (auto simp: room_def)
  have l: "length (room ks) < MAX_KEY_LIST_SIZE" using Cons.prems(1) length_room by (auto simp: found_at_def)
  have "found_at P s (Suc j) (AuthSetLocalSessionKey alloc d u k ks)"
    using set_key_cases [of alloc d u k ks] Cons.prems(1,3) r l found_at_mono [of P s j _ "Suc j"]
    by (auto simp: c call_misses_def split: option.splits intro: found_at_Cons)
  with Cons.IH [of "Suc j"] Cons.prems(2,3) show ?case by (simp add: set_keys_def c)
qed (simp add: set_keys_def)

lemma found_at_stored:
  assumes "length ks \<le> MAX_KEY_LIST_SIZE" "P (key_entry dev peer k)" "length peer \<le> UDID_BUF_LEN"
    "nd_deviceKeyLen dev \<le> MAX_DEVICE_KEY_LEN" "length k \<le> SESSION_KEY_LENGTH"
  shows "found_at P (key_entry dev peer k) 0 (AuthSetLocalSessionKey True (Some dev) (Some peer) (Some k) ks)"
  using length_room [OF assms(1)] assms(2) unfolding set_key_stored [OF assms(3-5)] found_at_def by auto

lemma stored_found:
  assumes "length ks \<le> MAX_KEY_LIST_SIZE" "length later < MAX_KEY_LIST_SIZE" "length peer \<le> UDID_BUF_LEN"
    "nd_deviceKeyLen dev \<le> MAX_DEVICE_KEY_LEN" "length k \<le> SESSION_KEY_LENGTH"
    "P (key_entry dev peer k)" "\<forall>c \<in> set later. call_misses P c"
  shows "find P (set_keys later (AuthSetLocalSessionKey True (Some dev) (Some peer) (Some k) ks)) = Some (key_entry dev peer k)"
  using found_at_set_keys [OF found_at_stored [where P = P, OF assms(1,6,3-5)], of later] assms(2,7)
  by (auto intro: found_at_find)

section \<open>Two devices that agreed on a key\<close>

lemma encrypt_by_key_frame:
  assumes "encrypt_by_key lib env s p g = ((SOFTBUS_OK, c), g')" "gcm_ok lib lib'" "rng_ok env"
    "length p + ENCRYPT_OVER_HEAD_LEN < 2 ^ 31"
  shows "\<exists>k out. memcpy_s SESSION_KEY_LENGTH (take (sk_sessionKeyLen s) (sk_sessionKey s)) = Some k \<and>
    c = int_bytes (sk_seq s) @ out \<and> length out = length p + OVERHEAD_LEN \<and>
    (\<forall>ck sq. key ck = k \<and> keyLen ck = sk_sessionKeyLen s \<longrightarrow>
      SoftBusDecryptDataWithSeq lib' ck out (of_nat (length out)) sq = Some (SOFTBUS_OK, p))"
proof -
  obtain k out where k: "memcpy_s SESSION_KEY_LENGTH (take (sk_sessionKeyLen s) (sk_sessionKey s)) = Some k"
    and e: "SoftBusEncryptDataWithSeq lib env (sk_cipher s k) p (sk_seq s) g = ((SOFTBUS_OK, out), g')"
    and c: "c = int_bytes (sk_seq s) @ out"
    using assms(1) by (auto simp: encrypt_by_key_def split: option.splits prod.splits if_splits)
  have "length p + OVERHEAD_LEN < 2 ^ 31" using assms(4) by simp
  from encrypt_seq_frame [OF e assms(2,3) this] k c show ?thesis
    by (force simp: sk_cipher_def dest: spec [where x = "[]"])
qed

lemma AuthDecrypt_by_key:
  assumes "encrypt_by_key lib env s p g = ((SOFTBUS_OK, c), g')" "gcm_ok lib lib'" "rng_ok env"
    "length p + ENCRYPT_OVER_HEAD_LEN < 2 ^ 31" "- (2 ^ 31) \<le> sk_seq s" "sk_seq s < 2 ^ 31"
    and "AuthGetDeviceKey opt = Some (dk, n)" "of_nat (length p) \<le> cap"
    "GetSessionKeyByDevinfo \<lparr>nd_type = co_type opt, nd_deviceKey = dk, nd_deviceKeyLen = n, nd_side = side, nd_seq = sk_seq s\<rparr> ks = Some s'"
    "sk_sessionKey s' = sk_sessionKey s" "sk_sessionKeyLen s' = sk_sessionKeyLen s"
  shows "AuthDecrypt lib' ks (Some opt) side (Some c) (of_nat (length c)) cap = Some (SOFTBUS_OK, p) \<and>
    length c = length p + ENCRYPT_OVER_HEAD_LEN"
proof -
  obtain k out where f: "memcpy_s SESSION_KEY_LENGTH (take (sk_sessionKeyLen s) (sk_sessionKey s)) = Some k"
    "c = int_bytes (sk_seq s) @ out" "length out = length p + OVERHEAD_LEN"
    "\<forall>ck sq. key ck = k \<and> keyLen ck = sk_sessionKeyLen s \<longrightarrow>
      SoftBusDecryptDataWithSeq lib' ck out (of_nat (length out)) sq = Some (SOFTBUS_OK, p)"
    using encrypt_by_key_frame [OF assms(1-4)] by blast
  have l: "length c = length p + ENCRYPT_OVER_HEAD_LEN" by (simp add: f(2,3))
  have m: "(of_nat (length c) :: 32 word) - 32 = of_nat (length p)" "(of_nat (length c) :: 32 word) - 4 = of_nat (length out)"
    by (simp_all add: l f(3))
  have "take 4 c = int_bytes (sk_seq s)" "drop 4 c = out" by (simp_all add: f(2))
  moreover have "bytes_int (int_bytes (sk_seq s)) = sk_seq s" using bytes_int_append [OF assms(5,6), of "[]"] by simp
  ultimately show ?thesis
    using assms(7-11) f(1,4) l by (auto simp: AuthDecrypt_def m not_less sk_cipher_def)
qed

lemma strncmp_take: "strncmp_eq (take n a) a n"
  by (simp add: strncmp_eq_def)

text \<open>C6: Two devices store the same session key under the same number, each for the address of the other, and after that
  fewer than twenty further keys: on the sending device none for that address, on the receiving device none for that address and number.
  Then what the sender encrypts is decrypted by the receiver to the same bytes, with whatever side it is asked to take; the
  encrypted message is 32 bytes longer and names the key, and the side reported is that of the sender's key.\<close>

theorem auth_key_agreement:
  assumes sender: "ks = set_keys later (AuthSetLocalSessionKey True (Some dev) (Some peer) (Some k) ks0)"
    "length ks0 \<le> MAX_KEY_LIST_SIZE" "length later < MAX_KEY_LIST_SIZE" "length peer \<le> UDID_BUF_LEN"
    "AuthGetDeviceKey opt = Some (nd_deviceKey dev, nd_deviceKeyLen dev)" "co_type opt = nd_type dev"
    "\<forall>c \<in> set later. call_misses (\<lambda>s. sk_type s = nd_type dev \<and> strncmp_eq (sk_deviceKey s) (nd_deviceKey dev) (nd_deviceKeyLen dev)) c"
    and receiver: "ks' = set_keys later' (AuthSetLocalSessionKey True (Some dev') (Some peer') (Some k) ks0')"
    "length ks0' \<le> MAX_KEY_LIST_SIZE" "length later' < MAX_KEY_LIST_SIZE" "length peer' \<le> UDID_BUF_LEN"
    "AuthGetDeviceKey opt' = Some (nd_deviceKey dev', nd_deviceKeyLen dev')" "co_type opt' = nd_type dev'"
    "\<forall>c \<in> set later'. call_misses (dev_matches dev') c"
    and agreed: "length k \<le> SESSION_KEY_LENGTH" "nd_seq dev' = nd_seq dev" "- (2 ^ 31) \<le> nd_seq dev" "nd_seq dev < 2 ^ 31"
    and libraries: "gcm_ok lib lib'" "rng_ok env"
    and encrypted: "AuthEncrypt lib env ks (Some opt) (Some p) cap g = ((SOFTBUS_OK, side, c), g')"
    "length p + ENCRYPT_OVER_HEAD_LEN < 2 ^ 31" "of_nat (length p) \<le> cap'"
  shows "AuthDecrypt lib' ks' (Some opt') side' (Some c) (of_nat (length c)) cap' = Some (SOFTBUS_OK, p) \<and>
    length c = length p + ENCRYPT_OVER_HEAD_LEN \<and> side = Some (nd_side dev)"
proof -
  let ?P = "\<lambda>s. sk_type s = nd_type dev \<and> strncmp_eq (sk_deviceKey s) (nd_deviceKey dev) (nd_deviceKeyLen dev)"
  have n: "nd_deviceKeyLen dev \<le> MAX_DEVICE_KEY_LEN" "nd_deviceKeyLen dev' \<le> MAX_DEVICE_KEY_LEN"
    using sender(5) receiver(5) by (auto simp: AuthGetDeviceKey_def split: if_splits)
  have m: "?P (key_entry dev peer k)" "dev_matches dev' (key_entry dev' peer' k)"
    by (simp_all add: key_entry_def strncmp_take dev_matches_def)
  have f: "find ?P ks = Some (key_entry dev peer k)"
    unfolding sender(1) by (rule stored_found [OF sender(2-4) n(1) agreed(1) m(1) sender(7)])
  have f': "find (dev_matches dev') ks' = Some (key_entry dev' peer' k)"
    unfolding receiver(1) by (rule stored_found [OF receiver(2-4) n(2) agreed(1) m(2) receiver(7)])
  have e: "encrypt_by_key lib env (key_entry dev peer k) p g = ((SOFTBUS_OK, c), g')" "side = Some (nd_side dev)"
    using f encrypted(1) sender(5,6)
    by (auto simp: AuthEncrypt_def AuthGetLastSessionKey_def key_entry_def split: if_splits prod.splits)
  have g: "GetSessionKeyByDevinfo \<lparr>nd_type = co_type opt', nd_deviceKey = nd_deviceKey dev', nd_deviceKeyLen = nd_deviceKeyLen dev',
      nd_side = side', nd_seq = sk_seq (key_entry dev peer k)\<rparr> ks' = Some (key_entry dev' peer' k)"
    using f' receiver(6) agreed(2) by (simp add: GetSessionKeyByDevinfo_def dev_matches_def [abs_def] key_entry_def)
  have "- (2 ^ 31) \<le> sk_seq (key_entry dev peer k)" "sk_seq (key_entry dev peer k) < 2 ^ 31"
    using agreed(3,4) by (simp_all add: key_entry_def)
  from AuthDecrypt_by_key [OF e(1) libraries encrypted(2) this receiver(5) encrypted(3) g] e(2) show ?thesis
    by (auto simp: key_entry_def)
qed

text \<open>Two devices with one key, the sender after another key for another device.\<close>

definition demo_dev :: "string \<Rightarrow> int \<Rightarrow> NecessaryDevInfo" where
  "demo_dev a side = \<lparr>nd_type = CONNECT_TCP, nd_deviceKey = a, nd_deviceKeyLen = IP_LEN, nd_side = side, nd_seq = 6\<rparr>"

definition demo_option :: "string \<Rightarrow> ConnectOption" where
  "demo_option a = \<lparr>co_type = CONNECT_TCP, co_info = IpOption a 1\<rparr>"

theorem auth_key_agreement_witness:
  "\<exists>c. fst (AuthEncrypt demo_gcm demo_rng
      (set_keys [(True, Some (demo_dev ''C'' 0), Some ''u'', Some [4])]
        (AuthSetLocalSessionKey True (Some (demo_dev ''B'' 0)) (Some ''u'') (Some [9]) []))
      (Some (demo_option ''B'')) (Some [1, 2, 3]) 35 \<lparr>initFlag = False, draws = 0\<rparr>) = (SOFTBUS_OK, Some 0, c) \<and>
    AuthDecrypt demo_gcm (AuthSetLocalSessionKey True (Some (demo_dev ''A'' 1)) (Some ''v'') (Some [9]) [])
      (Some (demo_option ''A'')) 1 (Some c) (of_nat (length c)) 35 = Some (SOFTBUS_OK, [1, 2, 3])"
proof -
  let ?ks = "set_keys [(True, Some (demo_dev ''C'' 0), Some ''u'', Some [4])]
        (AuthSetLocalSessionKey True (Some (demo_dev ''B'' 0)) (Some ''u'') (Some [9]) [])"
  let ?e = "AuthEncrypt demo_gcm demo_rng ?ks (Some (demo_option ''B'')) (Some [1, 2, 3]) 35 \<lparr>initFlag = False, draws = 0\<rparr>"
  have "fst (fst ?e) = SOFTBUS_OK" by code_simp
  then obtain side c g where e: "?e = ((SOFTBUS_OK, side, c), g)" by (metis prod.collapse)
  have k: "AuthGetDeviceKey (demo_option a) = Some (nd_deviceKey (demo_dev a s), nd_deviceKeyLen (demo_dev a s))"
    "co_type (demo_option a) = nd_type (demo_dev a s)" "nd_seq (demo_dev a s) = 6" if "length a < 46" for a s
    using that by (simp_all add: AuthGetDeviceKey_def brMac_def demo_option_def demo_dev_def strcpy_s_def)
  have "AuthDecrypt demo_gcm (set_keys [] (AuthSetLocalSessionKey True (Some (demo_dev ''A'' 1)) (Some ''v'') (Some [9]) []))
      (Some (demo_option ''A'')) 1 (Some c) (of_nat (length c)) 35 = Some (SOFTBUS_OK, [1, 2, 3]) \<and>
      length c = length [1 :: 8 word, 2, 3] + ENCRYPT_OVER_HEAD_LEN \<and> side = Some (nd_side (demo_dev ''B'' 0))"
    by (rule auth_key_agreement [OF refl _ _ _ k(1,2) _ refl _ _ _ k(1,2) _ _ _ _ _ demo_gcm_ok demo_rng_ok e])
      (simp_all add: call_misses_def key_entry_def demo_dev_def strncmp_eq_def)
  then show ?thesis using e by (auto simp: set_keys_def demo_dev_def)
qed

end
