(* ===== verification/Proxy_Handshake.thy ===== *)
theory Proxy_Handshake
  imports Proxy_Manager Auth_Session_Key
begin

text \<open>
  The handshake of a proxy channel between two devices, over the manager, the messages and the key store of each:
  the device that opens the channel starts the handshake from its loop, the other accepts the channel and
  answers, and the answer completes the channel of the first.
\<close>

section \<open>The answer\<close>

definition ack_tail :: "AppInfo \<Rightarrow> json" where
  "ack_tail app =
     (if appType app = APP_TYPE_NORMAL then
        [(JSON_KEY_UID, JNum (uid (myData app))), (JSON_KEY_PID, JNum (pid (myData app))),
         (JSON_KEY_PKG_NAME, JStr (pkgName (myData app)))]
      else if appType app = APP_TYPE_AUTH then [(JSON_KEY_PKG_NAME, JStr (pkgName (myData app)))]
      else [])"

definition ack_root :: "ProxyChannelInfo \<Rightarrow> json \<Rightarrow> json" where
  "ack_root c prio = [(JSON_KEY_IDENTITY, JStr (identity c)), (JSON_KEY_DEVICE_ID, JStr (deviceId (myData (appInfo c))))] @
     prio @ ack_tail (appInfo c)"

lemma PackHandshakeAckMsg_root:
  assumes "TransProxyPackHandshakeAckMsg lib c = Some s"
  shows "\<exists>prio. (prio = [] \<or> prio = [(JSON_KEY_HAS_PRIORITY, JTrue)]) \<and> cJSON_PrintUnformatted lib (ack_root c prio) = Some s"
proof -
  define prio where "prio = (if cJSON_CreateItem lib JSON_KEY_HAS_PRIORITY then [(JSON_KEY_HAS_PRIORITY, JTrue)] else [])"
  have "cJSON_PrintUnformatted lib (ack_root c prio) = Some s"
    using assms
    by (auto simp: TransProxyPackHandshakeAckMsg_def AddNumberToJsonObject_def AddStringToJsonObject_def
        cJSON_AddTrueToObject_def ack_root_def ack_tail_def prio_def Let_def bind_eq_Some_conv split: if_splits)
  then show ?thesis unfolding prio_def by (cases "cJSON_CreateItem lib JSON_KEY_HAS_PRIORITY") auto
qed

lemma UnpackHandshakeAckMsg_root:
  assumes "cJSON_Parse lib s = Some (ack_root c prio)" "prio = [] \<or> prio = [(JSON_KEY_HAS_PRIORITY, JTrue)]"
    "length (identity c) \<le> IDENTITY_LEN" "length (deviceId (myData (appInfo c))) < DEVICE_ID_SIZE_MAX"
  shows "\<exists>c'. TransProxyUnpackHandshakeAckMsg lib s chan = (SOFTBUS_OK, c') \<and> identity c' = identity c"
  using assms
  by (auto simp: TransProxyUnpackHandshakeAckMsg_def ack_root_def ack_tail_def GetJsonObjectStringItem_def strcpy_s_def
      try_get_def upd_peerData_def Let_def split: if_splits option.split)

text \<open>The bytes of the answer reach the first device as its own channel's answer.\<close>

lemma ack_parses:
  assumes "TransProxyAckHandshake lib env send cid c = (SOFTBUS_OK, [(cid, buf, pri)])" "lib_ok lib lib'"
    and "length (identity c) \<le> IDENTITY_LEN" "length (deviceId (myData (appInfo c))) < DEVICE_ID_SIZE_MAX"
    and "ciphers_match env cid env' (m_connId msg)" "\<And>payload. side_known env cid env' payload (sint (peerId c))"
  shows "\<exists>msg' c'. TransProxyParseMessage env' (drop 24 buf) msg = (SOFTBUS_OK, msg') \<and>
    m_type (msgHead msg') = PROXYCHANNEL_MSG_TYPE_HANDSHAKE_ACK \<and> m_peerId (msgHead msg') = myId c \<and>
    m_myId (msgHead msg') = peerId c \<and>
    TransProxyUnpackHandshakeAckMsg lib' (cstr (m_data msg')) chan = (SOFTBUS_OK, c') \<and> identity c' = identity c"
proof -
  let ?h = "\<lparr>m_type = msg_type_byte PROXYCHANNEL_MSG_TYPE_HANDSHAKE_ACK, chiper = ENCRYPTED, m_myId = myId c,
    m_peerId = peerId c, reserved = 0\<rparr>"
  obtain s h' where s: "TransProxyPackHandshakeAckMsg lib c = Some s"
    and p: "TransProxyPackMessage env ?h cid (cstr_bytes s) = Some (buf, h')"
    using assms(1) by (auto simp: TransProxyAckHandshake_def Let_def split: option.splits if_splits)
  from PackHandshakeAckMsg_root [OF s] obtain prio where r: "prio = [] \<or> prio = [(JSON_KEY_HAS_PRIORITY, JTrue)]"
    "cJSON_PrintUnformatted lib (ack_root c prio) = Some s" by blast
  have l: "cJSON_Parse lib' s = Some (ack_root c prio)" "CHR 0x00 \<notin> set s"
    using assms(2) r(2) unfolding lib_ok_def by blast+
  have "\<exists>msg'. TransProxyParseMessage env' (drop 24 buf) msg = (SOFTBUS_OK, msg') \<and> m_data msg' = cstr_bytes s \<and>
      m_type (msgHead msg') = PROXYCHANNEL_MSG_TYPE_HANDSHAKE_ACK \<and> chiper (msgHead msg') = chiper h' \<and>
      m_peerId (msgHead msg') = m_myId ?h \<and> m_myId (msgHead msg') = m_peerId ?h"
    using assms(5,6) by (intro packed_parses [OF _ _ _ p]) simp_all
  with UnpackHandshakeAckMsg_root [OF l(1) r(1) assms(3,4), of chan] l(2) show ?thesis
    by (auto simp: cstr_cstr_bytes)
qed

section \<open>What the steps leave alone\<close>

lemma pw_frames [simp]:
  "pw (log_call c m) = pw m" "pw (set_conns k m) = pw m"
  "pw (snd (OnProxyChannelOpened env ch app srv m)) = pw m"
  "pw (snd (OnProxyChannelOpenFailed env ch app m)) = pw m"
  "pw (snd (OnProxyChannelClosed env ch app m)) = pw m"
  "pw (snd (TransProxyCloseConnChannel env cid m)) = pw m"
  "pw (TransCreateConnByConnId env cid m) = pw m"
  "pw (snd (TransProxyGetNewMyId env m)) = pw m"
  by (simp_all add: log_call_def set_conns_def callback_defs TransProxyCloseConnChannel_def TransDecConnRefByConnId_def
      TransCreateConnByConnId_def TransProxyGetNewMyId_def split: option.split prod.split)

lemma wire_frames [simp]:
  "wire (pw (set_chans l m)) = wire (pw m)" "wire (pw (TransProxyDelChanByChanId env ch m)) = wire (pw m)"
  "wire (pw (TransProxyAddChanItem env c m)) = wire (pw m)" "wire (pw (snd (TransProxySetChiperSide env ch side m))) = wire (pw m)"
  by (simp_all add: set_chans_def TransProxyDelChanByChanId_def TransProxyAddChanItem_def TransProxySetChiperSide_def
      split: option.split)

lemma chan_list_pw: "pw m = pw m' \<Longrightarrow> chan_list env m = chan_list env m'"
  by (simp add: chan_list_def)

lemma chan_list_set_chans: "chan_lock (sess env) \<Longrightarrow> chan_list env (set_chans l m) = Some l"
  by (simp add: chan_list_def set_chans_def)

lemma chan_list_lock: "chan_list env m = Some l \<Longrightarrow> chan_lock (sess env) \<and> g_proxyChannelList (pw m) = Some l"
  by (simp add: chan_list_def split: option.splits if_splits)

definition posted_packet :: "mgr_world \<Rightarrow> byte list \<Rightarrow> int \<Rightarrow> ConnPostData" where
  "posted_packet m buf pri = \<lparr>d_module = MODULE_PROXY_CHANNEL, d_seq = msgSeq (pw m), d_flag = of_int pri, d_pid = 0,
     d_len = int (length buf), d_buf = Some buf\<rparr>"

lemma send_out_one:
  "wire (pw (send_out env [(cid, buf, pri)] m)) = wire (pw m) @ [(cid, posted_packet m buf pri)]"
  "chan_list env (send_out env [(cid, buf, pri)] m) = chan_list env m"
  by (simp_all add: send_out_def TransProxyTransSendMsg_def posted_packet_def chan_list_def Let_def)

lemma send_out_nil [simp]: "send_out env [] m = m"
  by (simp add: send_out_def)

text \<open>A started handshake that put a packet on the connection has sent its message.\<close>

lemma handshake_started:
  assumes "TransProxyGetChanByChanId env ch m = Some a" "m_site env ChanItem" "\<forall>c d. 0 \<le> s_post (sess env) c d"
    and "wire (pw (TransProxyOpenProxyChannelSuccess env ch m)) = wire (pw m) @ [(connId a, d)]"
  shows "\<exists>buf m'. TransProxyHandshake (m_json env) (menv env m) (send_code env m) (TransProxySetChiperSide env) a m =
      ((SOFTBUS_OK, [(connId a, buf, CONN_HIGH)]), m') \<and> d_buf d = Some buf \<and>
    TransProxyOpenProxyChannelSuccess env ch m = send_out env [(connId a, buf, CONN_HIGH)] m'"
proof -
  have ok: "send_code env m0 c buf pri = SOFTBUS_OK" for m0 c buf pri
    using assms(3) by (simp add: send_code_def TransProxyTransSendMsg_def Let_def not_less)
  obtain ret out m' where h: "TransProxyHandshake (m_json env) (menv env m) (send_code env m) (TransProxySetChiperSide env) a m =
      ((ret, out), m')" by (metis prod.collapse)
  then have w: "wire (pw m') = wire (pw m)" and r: "ret = SOFTBUS_OK \<and> (\<exists>buf. out = [(connId a, buf, CONN_HIGH)]) \<or> ret = SOFTBUS_ERR \<and> out = []"
    by (auto simp: TransProxyHandshake_def ok Let_def split: option.splits prod.splits if_splits
        dest: arg_cong [where f = "\<lambda>x. wire (pw (snd x))"])
  show ?thesis
  proof (cases "ret = SOFTBUS_ERR")
    case True
    with r have "out = []" by auto
    with True assms(1,2,4) h w show ?thesis by (simp add: TransProxyOpenProxyChannelSuccess_def)
  next
    case False
    with r obtain buf where o: "ret = SOFTBUS_OK" "out = [(connId a, buf, CONN_HIGH)]" by auto
    then have "TransProxyOpenProxyChannelSuccess env ch m = send_out env [(connId a, buf, CONN_HIGH)] m'"
      using assms(1,2) h by (simp add: TransProxyOpenProxyChannelSuccess_def)
    with assms(4) w have "d = posted_packet m' buf CONN_HIGH" by (simp add: send_out_one)
    then have "d_buf d = Some buf" by (simp add: posted_packet_def)
    with h o \<open>TransProxyOpenProxyChannelSuccess env ch m = send_out env [(connId a, buf, CONN_HIGH)] m'\<close>
    show ?thesis by blast
  qed
qed

lemma GetLocalInfo_keeps:
  assumes "TransProxyGetLocalInfo env c = Some c'"
  shows "identity c' = identity c \<and> sessionKey (appInfo c') = sessionKey (appInfo c) \<and> appType (appInfo c') = appType (appInfo c) \<and>
    (\<exists>u. udid env DEVICE_ID_SIZE_MAX = Some u \<and> deviceId (myData (appInfo c')) = u)"
  using assms by (auto simp: TransProxyGetLocalInfo_def upd_myData_def bind_eq_Some_conv split: if_splits)

text \<open>The channel a device makes of a handshake it accepts.\<close>

definition accepted :: "16 word \<Rightarrow> ProxyMessage \<Rightarrow> ProxyChannelInfo \<Rightarrow> ProxyChannelInfo" where
  "accepted newId msg c = c\<lparr>p_isServer := True, status := PROXY_CHANNEL_STATUS_COMPLETED, connId := m_connId msg,
     myId := newId, channelId := sint newId, peerId := m_peerId (msgHead msg), chiperSide := m_chiperSide msg\<rparr>"

lemma DelChan_added:
  assumes "chan_list env m = Some (sl_add c l)" "channelId c = ch"
  shows "chan_list env (TransProxyDelChanByChanId env ch m) = Some l"
  using assms chan_list_lock [OF assms(1)]
  by (simp add: TransProxyDelChanByChanId_def chan_list_set_chans sl_del_first_def sl_add_def)

lemma handshake_accepted:
  assumes parse: "TransProxyParseMessage (menv env m) bytes (zero_msg\<lparr>m_connId := cid\<rparr>) = (SOFTBUS_OK, msg)"
    "m_type (msgHead msg) = PROXYCHANNEL_MSG_TYPE_HANDSHAKE"
    "TransProxyUnpackHandshakeMsg (m_json env) (cstr (m_data msg)) zero_chan = (SOFTBUS_OK, c)"
    and recv: "TransProxyOnDataReceived env cid MODULE_PROXY_CHANNEL (Some bytes) m = Some m1"
    and lists: "chan_list env m = Some l" "chan_list env m1 = Some l1" "length (lst l1) = Suc (length (lst l))"
  shows "\<exists>c' newId b buf m3. TransProxyGetLocalInfo env c = Some c' \<and> b = accepted newId msg c' \<and> lst l1 = b # lst l \<and>
    TransProxyAckHandshake (m_json env) (menv env m3) (send_code env m3) cid b = (SOFTBUS_OK, [(cid, buf, CONN_HIGH)]) \<and>
    wire (pw m1) = wire (pw m) @ [(cid, posted_packet m3 buf CONN_HIGH)]"
proof -
  have cid: "m_connId msg = cid" using ParseMessage_connId [OF parse(1)] by simp
  have same: False if "pw m1 = pw m" using that lists chan_list_pw [OF that, of env] by simp
  have h: "TransProxyProcessHandshakeMsg env msg m = Some m1"
    using recv parse by (simp add: TransProxyOnDataReceived_def TransProxyonMessageReceived_def)
  obtain newId m0 where id: "TransProxyGetNewMyId env m = (newId, m0)" by (cases "TransProxyGetNewMyId env m")
  then have p0: "pw m0 = pw m" using pw_frames(8) [of env m] by simp
  show ?thesis
  proof (cases "TransProxyGetLocalInfo env c")
    case None
    with h parse(3) same show ?thesis by (auto simp: TransProxyProcessHandshakeMsg_def split: if_splits)
  next
    case (Some c')
    obtain ret m2 where o: "OnProxyChannelOpened env (sint newId) (appInfo c') True m0 = (ret, m2)"
      by (cases "OnProxyChannelOpened env (sint newId) (appInfo c') True m0")
    then have p2: "pw m2 = pw m" using p0 pw_frames(3) [of env "sint newId" "appInfo c'" True m0] by simp
    then have l2: "chan_list env m2 = Some l" using lists(1) chan_list_pw by metis
    let ?b = "accepted newId msg c'"
    let ?m3 = "TransProxyAddChanItem env ?b m2"
    have l3: "chan_list env ?m3 = Some (sl_add ?b l)"
      using l2 chan_list_lock [OF l2] by (simp add: TransProxyAddChanItem_def chan_list_set_chans)
    obtain r out where a: "TransProxyAckHandshake (m_json env) (menv env ?m3) (send_code env ?m3) cid ?b = (r, out)"
      by (cases "TransProxyAckHandshake (m_json env) (menv env ?m3) (send_code env ?m3) cid ?b")
    have site: "m_site env ChanItem" using h same by (auto simp: TransProxyProcessHandshakeMsg_def split: if_splits)
    have ok: "ret = SOFTBUS_OK" using h same site Some id o p2 parse(3) by (auto simp: TransProxyProcessHandshakeMsg_def split: if_splits)
    then have m1: "m1 = (if r \<noteq> SOFTBUS_OK
        then TransProxyDelChanByChanId env (sint newId) (snd (OnProxyChannelClosed env (sint newId) (appInfo ?b) (send_out env out ?m3)))
        else TransCreateConnByConnId env cid (send_out env out ?m3))"
      using h site Some id o parse(3) l2 a
      by (auto simp: TransProxyProcessHandshakeMsg_def Let_def cid accepted_def split: prod.splits if_splits)
    have out: "out = [] \<and> r \<noteq> SOFTBUS_OK \<or> (\<exists>buf. out = [(cid, buf, CONN_HIGH)])"
      using a by (auto simp: TransProxyAckHandshake_def Let_def split: option.splits)
    have l4: "chan_list env (send_out env out ?m3) = Some (sl_add ?b l)" using out l3 by (auto simp: send_out_one)
    have r: "r = SOFTBUS_OK"
    proof (rule ccontr)
      assume "r \<noteq> SOFTBUS_OK"
      then have "m1 = TransProxyDelChanByChanId env (sint newId)
          (snd (OnProxyChannelClosed env (sint newId) (appInfo ?b) (send_out env out ?m3)))" using m1 by simp
      then have "chan_list env m1 = Some l"
        using DelChan_added [of env _ ?b l "sint newId"] l4 chan_list_pw [OF pw_frames(5)] by (simp add: accepted_def)
      with lists(2,3) show False by simp
    qed
    with out obtain buf where b: "out = [(cid, buf, CONN_HIGH)]" by auto
    have "chan_list env m1 = Some (sl_add ?b l)" using m1 r l4 chan_list_pw [OF pw_frames(7)] by simp
    then have "lst l1 = ?b # lst l" using lists(2) by (simp add: sl_add_def)
    moreover have "wire (pw m1) = wire (pw m) @ [(cid, posted_packet ?m3 buf CONN_HIGH)]"
      using m1 r b p2 by (simp add: send_out_one)
    ultimately show ?thesis using Some a r b by blast
  qed
qed

section \<open>The opening device\<close>

text \<open>The channels of a device have numbers of their own, and the channel identifier is the number.\<close>

definition numbered :: "ProxyChannelInfo list \<Rightarrow> bool" where
  "numbered cs \<longleftrightarrow> distinct (map myId cs) \<and> (\<forall>c \<in> set cs. channelId c = sint (myId c))"

lemma find_unique: "x \<in> set xs \<Longrightarrow> P x \<Longrightarrow> (\<And>y. y \<in> set xs \<Longrightarrow> P y \<Longrightarrow> y = x) \<Longrightarrow> find P xs = Some x"
  by (induction xs) fastforce+

lemma numbered_unique: "numbered cs \<Longrightarrow> a \<in> set cs \<Longrightarrow> c \<in> set cs \<Longrightarrow> myId c = myId a \<Longrightarrow> c = a"
  by (auto simp: numbered_def distinct_map dest: inj_onD)

lemma numbered_find:
  assumes "numbered cs" "a \<in> set cs"
  shows "find (\<lambda>c. channelId c = channelId a) cs = Some a"
  using assms numbered_unique [OF assms] by (intro find_unique) (auto simp: numbered_def signed_word_eqI)

lemma numbered_upd:
  assumes "numbered cs" "\<And>c. myId (f c) = myId c \<and> channelId (f c) = channelId c" "find P cs = Some a"
  shows "numbered (upd_first P f cs)" "f a \<in> set (upd_first P f cs)"
proof -
  have "map myId (upd_first P f cs) = map myId cs" by (rule map_upd_first) (simp add: assms(2))
  with assms(1,2) show "numbered (upd_first P f cs)" by (auto simp: numbered_def elim!: in_upd_firstE)
  show "f a \<in> set (upd_first P f cs)" using assms(3) by (induction cs) (auto split: if_splits)
qed

lemma handshake_side:
  assumes "TransProxyHandshake lib (menv env m) send (TransProxySetChiperSide env) a m = ((SOFTBUS_OK, out), m')"
    and "chan_list env m = Some l" "numbered (lst l)" "a \<in> set (lst l)" "chiperSide a = CLIENT_SIDE_FLAG"
    and side: "\<And>opt p sd c. TransProxyGetConnectOption env (connId a) = Some opt \<Longrightarrow> m_enc env opt p = Some (sd, c) \<Longrightarrow> sd = s"
    and "s = CLIENT_SIDE_FLAG \<or> s = SERVER_SIDE_FLAG"
  shows "\<exists>l'. chan_list env m' = Some l' \<and> numbered (lst l') \<and> a\<lparr>chiperSide := s\<rparr> \<in> set (lst l')"
proof -
  let ?h = "\<lparr>m_type = msg_type_byte PROXYCHANNEL_MSG_TYPE_HANDSHAKE, chiper = ENCRYPTED, m_myId = myId a,
    m_peerId = INVALID_CHANNEL_ID, reserved = 0\<rparr>"
  obtain p buf h' where p: "TransProxyPackMessage (menv env m) ?h (connId a) p = Some (buf, h')"
    and st: "(if chiper h' AND AUTH_SERVER_SIDE \<noteq> 0 then TransProxySetChiperSide env (channelId a) SERVER_SIDE_FLAG m
      else (SOFTBUS_OK, m)) = (SOFTBUS_OK, m')"
    using assms(1) by (auto simp: TransProxyHandshake_def Let_def split: option.splits prod.splits if_splits)
  have c: "chiper h' AND AUTH_SERVER_SIDE \<noteq> 0 \<longleftrightarrow> s = SERVER_SIDE_FLAG"
    using p side by (auto simp: TransProxyPackMessage_def menv_def Let_def split: option.splits if_splits)
  show ?thesis
  proof (cases "s = SERVER_SIDE_FLAG")
    case True
    have f: "find (\<lambda>c. channelId c = channelId a) (lst l) = Some a" by (rule numbered_find [OF assms(3,4)])
    then have "m' = set_chans (sl_upd_first (\<lambda>c. channelId c = channelId a) (\<lambda>c. c\<lparr>chiperSide := s\<rparr>) l) m"
      using st c True assms(2) by (simp add: TransProxySetChiperSide_def)
    then show ?thesis
      using numbered_upd [OF assms(3) _ f, of "\<lambda>c. c\<lparr>chiperSide := s\<rparr>"] chan_list_lock [OF assms(2)]
      by (auto simp: chan_list_set_chans sl_upd_first_def)
  next
    case False
    with assms(5,7) have "a\<lparr>chiperSide := s\<rparr> = a" by simp
    with False st c assms(2-4) show ?thesis by simp
  qed
qed

lemma ack_completes:
  assumes "TransProxyParseMessage (menv env m) bytes (zero_msg\<lparr>m_connId := cid\<rparr>) = (SOFTBUS_OK, msg)"
    "m_type (msgHead msg) = PROXYCHANNEL_MSG_TYPE_HANDSHAKE_ACK" "m_myId (msgHead msg) = myId a"
    "TransProxyUnpackHandshakeAckMsg (m_json env) (cstr (m_data msg)) zero_chan = (SOFTBUS_OK, c)" "identity c = identity a"
    and "m_site env ChanItem" "chan_list env m = Some l" "numbered (lst l)" "a \<in> set (lst l)"
  shows "\<exists>m' a'. TransProxyOnDataReceived env cid MODULE_PROXY_CHANNEL (Some bytes) m = Some m' \<and>
    TransProxyGetChanByChanId env (channelId a) m' = Some a' \<and> status a' = PROXY_CHANNEL_STATUS_COMPLETED \<and>
    peerId a' = m_peerId (msgHead msg) \<and> myId a' = myId a \<and> sessionKey (appInfo a') = sessionKey (appInfo a)"
proof -
  let ?i = "c\<lparr>myId := m_myId (msgHead msg), peerId := m_peerId (msgHead msg)\<rparr>"
  have f: "find (ack_matches ?i) (lst l) = Some a"
    using assms(3,5,9) numbered_unique [OF assms(8,9)] by (intro find_unique) (auto simp: ack_matches_def)
  let ?l = "sl_upd_first (ack_matches ?i) (acked ?i) l"
  let ?m = "snd (OnProxyChannelOpened env (channelId (acked ?i a)) (appInfo (acked ?i a)) False (set_chans ?l m))"
  have k: "myId (acked ?i x) = myId x \<and> channelId (acked ?i x) = channelId x" for x by (simp add: acked_def)
  have "TransProxyOnDataReceived env cid MODULE_PROXY_CHANNEL (Some bytes) m = Some ?m"
    using assms(1,2,4,6,7) f
    by (simp add: TransProxyOnDataReceived_def TransProxyonMessageReceived_def TransProxyProcessHandshakeAckMsg_def
        TransProxyUpdateAckInfo_def)
  moreover have "chan_list env ?m = Some ?l"
    using chan_list_lock [OF assms(7)] chan_list_pw [OF pw_frames(3)] chan_list_set_chans by metis
  moreover have "find (\<lambda>x. channelId x = channelId (acked ?i a)) (lst ?l) = Some (acked ?i a)"
    using numbered_upd [OF assms(8) k f] by (intro numbered_find) (simp_all add: sl_upd_first_def)
  ultimately show ?thesis
    by (simp add: TransProxyGetChanByChanId_def k) (simp add: acked_def)
qed

section \<open>A channel opens on both devices\<close>

lemma ciphers_match_menv:
  "ciphers_match (menv eA mA) cA (menv eB mB) cB \<Longrightarrow> ciphers_match (menv eA mA') cA (menv eB mB') cB"
  by (simp add: ciphers_match_def menv_def)

text \<open>Each end reports one side for its connection, and the two are opposite.\<close>

definition sides_opposite :: "mgr_env \<Rightarrow> 32 word \<Rightarrow> mgr_env \<Rightarrow> 32 word \<Rightarrow> int \<Rightarrow> bool" where
  "sides_opposite eA cA eB cB s \<longleftrightarrow> (s = CLIENT_SIDE_FLAG \<or> s = SERVER_SIDE_FLAG) \<and>
     (\<forall>opt p sd c. TransProxyGetConnectOption eA cA = Some opt \<longrightarrow> m_enc eA opt p = Some (sd, c) \<longrightarrow> sd = s) \<and>
     (\<forall>opt p sd c. TransProxyGetConnectOption eB cB = Some opt \<longrightarrow> m_enc eB opt p = Some (sd, c) \<longrightarrow> sd = 1 - s)"

lemma channel_opens:
  assumes start: "chan_list eA mA = Some lA" "numbered (lst lA)" "a \<in> set (lst lA)" "chiperSide a = CLIENT_SIDE_FLAG" "info_ok a"
    "m_site eA ChanItem" "\<forall>c d. 0 \<le> s_post (sess eA) c d"
    "mA1 = TransProxyLoopMsgHandler eA (LOOP_HANDSHAKE_MSG (channelId a)) mA" "wire (pw mA1) = wire (pw mA) @ [(connId a, dA)]"
    and accept: "TransProxyOnDataReceived eB cidB MODULE_PROXY_CHANNEL (Some (drop 24 (the (d_buf dA)))) mB = Some mB1"
    "chan_list eB mB = Some lB" "chan_list eB mB1 = Some lB1" "length (lst lB1) = Suc (length (lst lB))"
    "\<forall>u. udid eB DEVICE_ID_SIZE_MAX = Some u \<longrightarrow> length u < DEVICE_ID_SIZE_MAX"
    and libraries: "lib_ok (m_json eA) (m_json eB)" "lib_ok (m_json eB) (m_json eA)"
    and ciphers: "ciphers_match (menv eA mA) (connId a) (menv eB mB) cidB" "ciphers_match (menv eB mB) cidB (menv eA mA) (connId a)"
    "sides_opposite eA (connId a) eB cidB s"
  shows "\<exists>b dB mA2 a'. lst lB1 = b # lst lB \<and> status b = PROXY_CHANNEL_STATUS_COMPLETED \<and> peerId b = myId a \<and>
    identity b = identity a \<and> (appType (appInfo a) \<noteq> APP_TYPE_AUTH \<longrightarrow> sessionKey (appInfo b) = sessionKey (appInfo a)) \<and>
    wire (pw mB1) = wire (pw mB) @ [(cidB, dB)] \<and>
    TransProxyOnDataReceived eA (connId a) MODULE_PROXY_CHANNEL (Some (drop 24 (the (d_buf dB)))) mA1 = Some mA2 \<and>
    TransProxyGetChanByChanId eA (channelId a) mA2 = Some a' \<and> status a' = PROXY_CHANNEL_STATUS_COMPLETED \<and>
    peerId a' = myId b \<and> myId a' = peerId b \<and> sessionKey (appInfo a') = sessionKey (appInfo a)"
proof -
  have ga: "TransProxyGetChanByChanId eA (channelId a) mA = Some a"
    using start(1) numbered_find [OF start(2,3)] by (simp add: TransProxyGetChanByChanId_def)
  have m1: "mA1 = TransProxyOpenProxyChannelSuccess eA (channelId a) mA" using start(8) by (simp add: TransProxyLoopMsgHandler_def)
  obtain buf m' where h: "TransProxyHandshake (m_json eA) (menv eA mA) (send_code eA mA) (TransProxySetChiperSide eA) a mA =
      ((SOFTBUS_OK, [(connId a, buf, CONN_HIGH)]), m')" "d_buf dA = Some buf" "mA1 = send_out eA [(connId a, buf, CONN_HIGH)] m'"
    using handshake_started [OF ga start(6,7), of dA] start(9) m1 by auto
  obtain msg c where p: "TransProxyParseMessage (menv eB mB) (drop 24 buf) (zero_msg\<lparr>m_connId := cidB\<rparr>) = (SOFTBUS_OK, msg)"
    "m_type (msgHead msg) = PROXYCHANNEL_MSG_TYPE_HANDSHAKE" "m_peerId (msgHead msg) = myId a"
    "TransProxyUnpackHandshakeMsg (m_json eB) (cstr (m_data msg)) zero_chan = (SOFTBUS_OK, c)" "identity c = identity a"
    "appType (appInfo a) \<noteq> APP_TYPE_AUTH \<longrightarrow> sessionKey (appInfo c) = sessionKey (appInfo a)"
    using handshake_parses [OF h(1) libraries(1) start(5), of "menv eB mB" "zero_msg\<lparr>m_connId := cidB\<rparr>" zero_chan] ciphers(1)
    by auto
  from handshake_accepted [OF p(1,2,4) _ accept(2-4)] accept(1) h(2) obtain c' newId b bufB m3 where
    b: "TransProxyGetLocalInfo eB c = Some c'" "b = accepted newId msg c'" "lst lB1 = b # lst lB"
    and ack: "TransProxyAckHandshake (m_json eB) (menv eB m3) (send_code eB m3) cidB b = (SOFTBUS_OK, [(cidB, bufB, CONN_HIGH)])"
    and wB: "wire (pw mB1) = wire (pw mB) @ [(cidB, posted_packet m3 bufB CONN_HIGH)]" by auto
  note keep = GetLocalInfo_keeps [OF b(1)]
  have bf: "status b = PROXY_CHANNEL_STATUS_COMPLETED" "peerId b = myId a" "identity b = identity a" "appInfo b = appInfo c'"
    using b(2) p(3,5) keep by (simp_all add: accepted_def)
  obtain l' where l': "chan_list eA m' = Some l'" "numbered (lst l')" "a\<lparr>chiperSide := s\<rparr> \<in> set (lst l')"
    using handshake_side [OF h(1) start(1-4), of s] ciphers(3) unfolding sides_opposite_def by blast
  then have l1: "chan_list eA mA1 = Some l'" by (simp add: h(3) send_out_one)
  have ch: "channelId a = sint (myId a)" using start(2,3) by (simp add: numbered_def)
  have "pm_side (menv eA mA1) (sint (myId a)) = Some s"
    using l1 numbered_find [OF l'(2,3)] ch by (simp add: menv_def TransProxyGetChiperSide_def)
  moreover have "s = 1 - sd" if "TransProxyGetConnectOption eB cidB = Some opt" "m_enc eB opt p = Some (sd, e)" for opt p sd e
  proof -
    have "sd = 1 - s" using ciphers(3) that unfolding sides_opposite_def by blast
    then show ?thesis by simp
  qed
  ultimately have known: "side_known (menv eB m3) cidB (menv eA mA1) payload (sint (peerId b))" for payload
    using bf(2) by (simp add: side_known_def menv_def)
  have "length (identity b) \<le> IDENTITY_LEN" "length (deviceId (myData (appInfo b))) < DEVICE_ID_SIZE_MAX"
    using start(5) bf(3,4) keep accept(5) by (auto simp: info_ok_def)
  from ack_parses [OF ack libraries(2) this, of "menv eA mA1" "zero_msg\<lparr>m_connId := connId a\<rparr>" zero_chan, OF _ known]
  obtain msg2 c2 where q: "TransProxyParseMessage (menv eA mA1) (drop 24 bufB) (zero_msg\<lparr>m_connId := connId a\<rparr>) = (SOFTBUS_OK, msg2)"
    "m_type (msgHead msg2) = PROXYCHANNEL_MSG_TYPE_HANDSHAKE_ACK" "m_peerId (msgHead msg2) = myId b" "m_myId (msgHead msg2) = peerId b"
    "TransProxyUnpackHandshakeAckMsg (m_json eA) (cstr (m_data msg2)) zero_chan = (SOFTBUS_OK, c2)" "identity c2 = identity b"
    using ciphers_match_menv [OF ciphers(2), of m3 mA1] by auto
  from ack_completes [OF q(1,2) _ q(5) _ start(6) l1 l'(2,3)] q(3,4,6) bf(2,3)
  obtain mA2 a' where "TransProxyOnDataReceived eA (connId a) MODULE_PROXY_CHANNEL (Some (drop 24 bufB)) mA1 = Some mA2"
    "TransProxyGetChanByChanId eA (channelId a) mA2 = Some a'" "status a' = PROXY_CHANNEL_STATUS_COMPLETED"
    "peerId a' = myId b" "myId a' = peerId b" "sessionKey (appInfo a') = sessionKey (appInfo a)" by auto
  moreover have "the (d_buf (posted_packet m3 bufB CONN_HIGH)) = bufB" by (simp add: posted_packet_def)
  ultimately show ?thesis using b(3) bf wB p(6) keep by metis
qed

section \<open>The key store as the cipher\<close>

text \<open>
  The encryption the messages use is that of the key store. The random vector is drawn from the state the generator has at
  the time; a payload whose size is no \<^verbatim>\<open>int32_t\<close> with the overhead has no buffer.
\<close>

definition auth_cipher :: "gcm_lib \<Rightarrow> rng_env \<Rightarrow> rng \<Rightarrow> SessionKeyList list \<Rightarrow> mgr_env \<Rightarrow> mgr_env" where
  "auth_cipher lib renv g ks env = env\<lparr>
     m_enc := (\<lambda>opt p. if 2 ^ 31 \<le> int (length p + ENCRYPT_OVER_HEAD_LEN) then None
       else case AuthEncrypt lib renv ks (Some opt) (Some p) (of_nat (length p + AuthGetEncryptHeadLen)) g of
              ((ret, side, c), _) \<Rightarrow> if ret \<noteq> SOFTBUS_OK then None else Some (the side, c)),
     m_dec := (\<lambda>opt side c. case AuthDecrypt lib ks (Some opt) side (Some c) (of_nat (length c)) (of_nat (length c)) of
              None \<Rightarrow> None | Some (ret, p) \<Rightarrow> if ret \<noteq> SOFTBUS_OK then None else Some p),
     m_headLen := AuthGetEncryptHeadLen\<rparr>"

text \<open>The newest key of a device for a connection, and its key under a number.\<close>

definition last_key :: "SessionKeyList list \<Rightarrow> ConnectOption \<Rightarrow> SessionKeyList option" where
  "last_key ks opt = Option.bind (AuthGetDeviceKey opt) (\<lambda>(k, n).
     AuthGetLastSessionKey \<lparr>nd_type = co_type opt, nd_deviceKey = k, nd_deviceKeyLen = n, nd_side = 0, nd_seq = 0\<rparr> ks)"

definition key_of_seq :: "SessionKeyList list \<Rightarrow> ConnectOption \<Rightarrow> int \<Rightarrow> SessionKeyList option" where
  "key_of_seq ks opt sq = Option.bind (AuthGetDeviceKey opt) (\<lambda>(k, n).
     GetSessionKeyByDevinfo \<lparr>nd_type = co_type opt, nd_deviceKey = k, nd_deviceKeyLen = n, nd_side = 0, nd_seq = sq\<rparr> ks)"

text \<open>Two devices share a session key for their connection: it is the newest of each, found by the other under its number.\<close>

definition keys_shared ::
  "mgr_env \<Rightarrow> 32 word \<Rightarrow> SessionKeyList list \<Rightarrow> mgr_env \<Rightarrow> 32 word \<Rightarrow> SessionKeyList list \<Rightarrow> int \<Rightarrow> bool" where
  "keys_shared eA cA ksA eB cB ksB s \<longleftrightarrow> (s = CLIENT_SIDE_FLAG \<or> s = SERVER_SIDE_FLAG) \<and>
     (\<exists>optA optB kA kB. TransProxyGetConnectOption eA cA = Some optA \<and> TransProxyGetConnectOption eB cB = Some optB \<and>
        last_key ksA optA = Some kA \<and> last_key ksB optB = Some kB \<and>
        key_of_seq ksA optA (sk_seq kB) = Some kA \<and> key_of_seq ksB optB (sk_seq kA) = Some kB \<and>
        sk_sessionKey kA = sk_sessionKey kB \<and> sk_sessionKeyLen kA = sk_sessionKeyLen kB \<and>
        sk_side kA = s \<and> sk_side kB = 1 - s \<and> (\<forall>k \<in> {kA, kB}. - (2 ^ 31) \<le> sk_seq k \<and> sk_seq k < 2 ^ 31))"

lemma auth_cipher_option [simp]:
  "TransProxyGetConnectOption (auth_cipher lib renv g ks env) = TransProxyGetConnectOption env"
  by (simp add: TransProxyGetConnectOption_def auth_cipher_def fun_eq_iff)

lemma GetSessionKeyByDevinfo_side:
  "GetSessionKeyByDevinfo \<lparr>nd_type = t, nd_deviceKey = k, nd_deviceKeyLen = n, nd_side = x, nd_seq = sq\<rparr> ks =
   GetSessionKeyByDevinfo \<lparr>nd_type = t, nd_deviceKey = k, nd_deviceKeyLen = n, nd_side = 0, nd_seq = sq\<rparr> ks"
  by (simp add: GetSessionKeyByDevinfo_def dev_matches_def [abs_def])

lemma auth_cipher_enc:
  assumes "m_enc (auth_cipher lib renv g ks env) opt p = Some (sd, c)" "last_key ks opt = Some k"
  shows "sd = sk_side k \<and> length p + ENCRYPT_OVER_HEAD_LEN < 2 ^ 31 \<and> (\<exists>g'. encrypt_by_key lib renv k p g = ((SOFTBUS_OK, c), g'))"
  using assms
  by (auto simp: auth_cipher_def AuthEncrypt_def last_key_def bind_eq_Some_conv not_le split: if_splits prod.splits option.splits)

lemma auth_cipher_match:
  assumes "TransProxyGetConnectOption eA cA = Some optA" "TransProxyGetConnectOption eB cB = Some optB"
    "last_key ksA optA = Some kA" "key_of_seq ksB optB (sk_seq kA) = Some kB"
    "sk_sessionKey kB = sk_sessionKey kA" "sk_sessionKeyLen kB = sk_sessionKeyLen kA"
    "sk_side kA = CLIENT_SIDE_FLAG \<or> sk_side kA = SERVER_SIDE_FLAG" "- (2 ^ 31) \<le> sk_seq kA" "sk_seq kA < 2 ^ 31"
    "gcm_ok lib lib'" "rng_ok rA" "m_alloc eB"
  shows "ciphers_match (menv (auth_cipher lib rA gA ksA eA) mA) cA (menv (auth_cipher lib' rB gB ksB eB) mB) cB"
proof -
  obtain dk n where d: "AuthGetDeviceKey optB = Some (dk, n)"
    and g0: "GetSessionKeyByDevinfo \<lparr>nd_type = co_type optB, nd_deviceKey = dk, nd_deviceKeyLen = n, nd_side = 0, nd_seq = sk_seq kA\<rparr> ksB = Some kB"
    using assms(4) by (auto simp: key_of_seq_def bind_eq_Some_conv)
  have g: "GetSessionKeyByDevinfo \<lparr>nd_type = co_type optB, nd_deviceKey = dk, nd_deviceKeyLen = n, nd_side = x, nd_seq = sk_seq kA\<rparr> ksB = Some kB" for x
    by (subst GetSessionKeyByDevinfo_side) (rule g0)
  have "sd = sk_side kA \<and> c \<noteq> [] \<and> m_dec (auth_cipher lib' rB gB ksB eB) optB (1 - sd) c = Some p"
    if "m_enc (auth_cipher lib rA gA ksA eA) optA p = Some (sd, c)" for p sd c
  proof -
    from auth_cipher_enc [OF that assms(3)] obtain g' where e: "sd = sk_side kA" "length p + ENCRYPT_OVER_HEAD_LEN < 2 ^ 31"
      "encrypt_by_key lib rA kA p gA = ((SOFTBUS_OK, c), g')" by blast
    from encrypt_by_key_frame [OF e(3) assms(10,11) e(2)] have len: "length c = length p + ENCRYPT_OVER_HEAD_LEN" by auto
    then have "of_nat (length p) \<le> (of_nat (length c) :: 32 word)"
      using e(2) by (simp add: word_le_nat_alt unat_of_nat take_bit_nat_eq_self del: of_nat_add)
    from AuthDecrypt_by_key [OF e(3) assms(10,11) e(2) assms(8,9) d this g assms(5,6)] len e(1) show ?thesis
      by (auto simp: auth_cipher_def)
  qed
  then show ?thesis using assms(1,2,7,12) by (auto simp: ciphers_match_def menv_def) (auto simp: auth_cipher_def)
qed


text \<open>Two devices that know one session key, and the messages of one handshake.\<close>

definition demo_ack :: json where
  "demo_ack = [(JSON_KEY_IDENTITY, JStr ''I''), (JSON_KEY_DEVICE_ID, JStr ''U''), (JSON_KEY_HAS_PRIORITY, JTrue),
     (JSON_KEY_UID, JNum 0), (JSON_KEY_PID, JNum 0), (JSON_KEY_PKG_NAME, JStr ''P'')]"

definition demo_pair_lib :: json_lib where
  "demo_pair_lib = demo_lib\<lparr>
     cJSON_PrintUnformatted := (\<lambda>root. if root = demo_ack then Some ''A'' else cJSON_PrintUnformatted demo_lib root),
     cJSON_Parse := (\<lambda>t. if t = ''A'' then Some demo_ack else cJSON_Parse demo_lib t)\<rparr>"

definition demo_keys :: "int \<Rightarrow> SessionKeyList list" where
  "demo_keys side = AuthSetLocalSessionKey True (Some (demo_dev ''10.0.0.1'' side)) (Some ''u'') (Some [9]) []"

definition demo_device :: "int \<Rightarrow> mgr_env" where
  "demo_device side = auth_cipher demo_gcm demo_rng \<lparr>initFlag = True, draws = 1\<rparr> (demo_keys side) (demo_mgr\<lparr>m_json := demo_pair_lib\<rparr>)"

definition demo_shaking :: ProxyChannelInfo where
  "demo_shaking = demo_chan\<lparr>channelId := 5, status := PROXY_CHANNEL_STATUS_HANDSHAKEING\<rparr>"

definition demo_opening :: mgr_world where
  "demo_opening = set_chans \<lparr>cnt = 1, lst = [demo_shaking]\<rparr> demo_mworld"

definition demo_waiting :: mgr_world where
  "demo_waiting = set_chans \<lparr>cnt = 0, lst = []\<rparr> demo_mworld"

definition demo_started :: mgr_world where
  "demo_started = TransProxyLoopMsgHandler (demo_device 0) (LOOP_HANDSHAKE_MSG 5) demo_opening"

definition demo_bytes :: "byte list" where
  "demo_bytes = drop 24 (the (d_buf (snd (hd (wire (pw demo_started))))))"

lemma demo_sent: "map fst (wire (pw demo_started)) = [3]"
  by code_simp

lemma demo_taken:
  "map_option (\<lambda>m. map_option (\<lambda>l. length (lst l)) (g_proxyChannelList (pw m)))
     (TransProxyOnDataReceived (demo_device 1) 3 MODULE_PROXY_CHANNEL (Some demo_bytes) demo_waiting) = Some (Some 1)"
  by code_simp

lemma demo_shared: "keys_shared (demo_device 0) 3 (demo_keys 0) (demo_device 1) 3 (demo_keys 1) 0"
proof -
  let ?opt = "\<lparr>co_type = CONNECT_TCP, co_info = IpOption ''10.0.0.1'' 1\<rparr>"
  let ?k = "\<lambda>side. key_entry (demo_dev ''10.0.0.1'' side) ''u'' [9]"
  have "demo_keys side = [?k side]" for side
    unfolding demo_keys_def by (subst set_key_stored) (simp_all add: demo_dev_def room_def)
  then have "last_key (demo_keys side) ?opt = Some (?k side)" "key_of_seq (demo_keys side) ?opt 6 = Some (?k side)" for side
    by (simp_all add: last_key_def key_of_seq_def AuthGetDeviceKey_def brMac_def strcpy_s_def AuthGetLastSessionKey_def
        GetSessionKeyByDevinfo_def dev_matches_def key_entry_def demo_dev_def strncmp_eq_def)
  moreover have "TransProxyGetConnectOption (demo_device side) 3 = Some ?opt" for side
    unfolding demo_device_def auth_cipher_option by (simp add: TransProxyGetConnectOption_def demo_mgr_def)
  moreover have "sk_seq (?k side) = 6" "sk_side (?k side) = side" for side by (simp_all add: key_entry_def demo_dev_def)
  ultimately show ?thesis
    unfolding keys_shared_def
    by (intro conjI exI [of _ ?opt] exI [of _ "?k 0"] exI [of _ "?k 1"]) (auto simp: key_entry_def)
qed

lemma demo_device_simps:
  "m_alloc (demo_device side)" "m_site (demo_device side) x" "s_post (sess (demo_device side)) c d = 0"
  "chan_lock (sess (demo_device side))" "udid (demo_device side) n = Some ''U''" "m_json (demo_device side) = demo_pair_lib"
  by (simp_all add: demo_device_def auth_cipher_def demo_mgr_def demo_sess_def)

lemma demo_pair_lib_ok: "lib_ok demo_pair_lib demo_pair_lib"
  by (auto simp: lib_ok_def demo_pair_lib_def demo_lib_def split: if_splits)


end
