(* ===== verification/Pending_Packet.thy ===== *)
theory Pending_Packet
  imports Softbus_Prelude
begin

text \<open>
  The senders that wait for an acknowledgement,
  \<^verbatim>\<open>core/transmission/pending_packet/src/trans_pending_pkt.c\<close>. A sender puts an entry into the list of its
  type, waits on the condition variable of the entry and takes the entry out again. Other threads run in
  between, so \<^verbatim>\<open>ProcPendingPacket\<close> is three steps, cut where it holds no lock: entering, waking up and leaving.
  Lists and entries have addresses, because a waiting sender keeps the pointer to its list. The runs of all
  threads are the sequences of a step relation; the end of a wait, by a signal, by the time limit or without a
  reason, is a step that can be taken at any time.
\<close>

abbreviation (input) PENDING_TYPE_PROXY :: int where "PENDING_TYPE_PROXY \<equiv> 0"
abbreviation (input) PENDING_TYPE_DIRECT :: int where "PENDING_TYPE_DIRECT \<equiv> 1"
abbreviation (input) PENDING_TYPE_BUTT :: int where "PENDING_TYPE_BUTT \<equiv> 2"

section \<open>State\<close>

record PendingPktInfo =
  pk_channelId :: int
  pk_seq :: int
  pk_finded :: bool

text \<open>
  Where a thread inside \<^verbatim>\<open>ProcPendingPacket\<close> is, and its local variables: the list it entered and, after
  waking up, the value it will return. The thread of entry number \<open>i\<close> is thread number \<open>i\<close>.
\<close>

datatype pk_pc = Waiting | Woken int | Returned

record pk_thread =
  th_list :: nat
  th_pc :: pk_pc

text \<open>
  The lists ever created, \<^const>\<open>None\<close> when freed, hold the numbers of their entries; entry memory is only freed
  by its own thread.
\<close>

record pending_world =
  g_pendingList :: "nat option list"
  lists :: "nat SoftBusList option list"
  entries :: "PendingPktInfo list"
  threads :: "pk_thread list"

definition pending_start :: pending_world where
  "pending_start = \<lparr>g_pendingList = [None, None], lists = [], entries = [], threads = []\<rparr>"

section \<open>Operations\<close>

definition pk_type_ok :: "int \<Rightarrow> bool" where
  "pk_type_ok type \<longleftrightarrow> \<not> (type < PENDING_TYPE_PROXY \<or> type \<ge> PENDING_TYPE_BUTT)"

definition PendingInit :: "bool \<Rightarrow> bool \<Rightarrow> int \<Rightarrow> pending_world \<Rightarrow> int \<times> pending_world" where
  "PendingInit alloc mutexInit type w =
     (if \<not> pk_type_ok type then (SOFTBUS_ERR, w)
      else case CreateSoftBusList alloc mutexInit of
             None \<Rightarrow> (SOFTBUS_ERR, w\<lparr>g_pendingList := (g_pendingList w)[nat type := None]\<rparr>)
           | Some l \<Rightarrow> (SOFTBUS_OK, w\<lparr>g_pendingList := (g_pendingList w)[nat type := Some (length (lists w))],
                                    lists := lists w @ [Some l]\<rparr>))"

definition PendingDeinit :: "int \<Rightarrow> pending_world \<Rightarrow> pending_world" where
  "PendingDeinit type w =
     (if \<not> pk_type_ok type then w
      else case g_pendingList w ! nat type of
             None \<Rightarrow> w
           | Some a \<Rightarrow> w\<lparr>g_pendingList := (g_pendingList w)[nat type := None], lists := (lists w)[a := None]\<rparr>)"

definition pk_matches :: "int \<Rightarrow> int \<Rightarrow> PendingPktInfo \<Rightarrow> bool" where
  "pk_matches ch sq p \<longleftrightarrow> pk_seq p = sq \<and> pk_channelId p = ch"

text \<open>Up to the wait; the right value is the number of the new thread. \<^const>\<open>None\<close> is the use of a freed list.\<close>

definition ProcPendingPacket_enter ::
  "bool \<Rightarrow> int \<Rightarrow> int \<Rightarrow> int \<Rightarrow> pending_world \<Rightarrow> ((int + nat) \<times> pending_world) option" where
  "ProcPendingPacket_enter alloc ch sq type w =
     (if \<not> pk_type_ok type then Some (Inl SOFTBUS_ERR, w)
      else case g_pendingList w ! nat type of
             None \<Rightarrow> Some (Inl SOFTBUS_ERR, w)
           | Some a \<Rightarrow>
               (case lists w ! a of
                  None \<Rightarrow> None
                | Some l \<Rightarrow>
                    if find (\<lambda>i. pk_matches ch sq (entries w ! i)) (lst l) \<noteq> None then Some (Inl SOFTBUS_ERR, w)
                    else if \<not> alloc then Some (Inl SOFTBUS_MALLOC_ERR, w)
                    else Some (Inr (length (entries w)),
                      w\<lparr>lists := (lists w)[a := Some (sl_add (length (entries w)) l)],
                        entries := entries w @ [\<lparr>pk_channelId = ch, pk_seq = sq, pk_finded = False\<rparr>],
                        threads := threads w @ [\<lparr>th_list = a, th_pc = Waiting\<rparr>]\<rparr>)))"

definition ProcPendingPacket_wake :: "nat \<Rightarrow> pending_world \<Rightarrow> pending_world" where
  "ProcPendingPacket_wake i w =
     w\<lparr>threads := (threads w)[i := (threads w ! i)
         \<lparr>th_pc := Woken (if pk_finded (entries w ! i) then SOFTBUS_OK else SOFTBUS_TIMOUT)\<rparr>]\<rparr>"

definition ProcPendingPacket_leave :: "nat \<Rightarrow> pending_world \<Rightarrow> (int \<times> pending_world) option" where
  "ProcPendingPacket_leave i w =
     (case (lists w ! th_list (threads w ! i), th_pc (threads w ! i)) of
        (Some l, Woken ret) \<Rightarrow>
          Some (ret, w\<lparr>lists := (lists w)[th_list (threads w ! i) :=
                          Some (l\<lparr>cnt := cnt l - 1, lst := del_first (\<lambda>j. j = i) (lst l)\<rparr>)],
                       threads := (threads w)[i := (threads w ! i)\<lparr>th_pc := Returned\<rparr>]\<rparr>)
      | _ \<Rightarrow> None)"

definition SetPendingPacket :: "int \<Rightarrow> int \<Rightarrow> int \<Rightarrow> pending_world \<Rightarrow> (int \<times> pending_world) option" where
  "SetPendingPacket ch sq type w =
     (if \<not> pk_type_ok type then Some (SOFTBUS_ERR, w)
      else case g_pendingList w ! nat type of
             None \<Rightarrow> Some (SOFTBUS_ERR, w)
           | Some a \<Rightarrow>
               (case lists w ! a of
                  None \<Rightarrow> None
                | Some l \<Rightarrow>
                    (case find (\<lambda>i. pk_matches ch sq (entries w ! i)) (lst l) of
                       None \<Rightarrow> Some (SOFTBUS_ERR, w)
                     | Some i \<Rightarrow> Some (SOFTBUS_OK, w\<lparr>entries := (entries w)[i := (entries w ! i)\<lparr>pk_finded := True\<rparr>]\<rparr>))))"

text \<open>Signals the first entry of the channel, which changes nothing in the state: the entry may wake up anyway.\<close>

definition DelPendingPacket :: "int \<Rightarrow> int \<Rightarrow> pending_world \<Rightarrow> (int \<times> nat option) option" where
  "DelPendingPacket ch type w =
     (if \<not> pk_type_ok type then Some (SOFTBUS_ERR, None)
      else case g_pendingList w ! nat type of
             None \<Rightarrow> Some (SOFTBUS_ERR, None)
           | Some a \<Rightarrow>
               (case lists w ! a of
                  None \<Rightarrow> None
                | Some l \<Rightarrow> Some (SOFTBUS_OK, find (\<lambda>i. pk_channelId (entries w ! i) = ch) (lst l))))"

section \<open>Runs of all threads\<close>

datatype pk_event =
    EInit int
  | EDeinit int
  | EEnter int int int "int + nat"
  | EWake nat
  | ELeave nat int
  | ESet int int int int
  | EDel int int

inductive pending_step :: "pending_world \<Rightarrow> pk_event \<Rightarrow> pending_world \<Rightarrow> bool" where
  step_init: "PendingInit al mu type w = (ret, w') \<Longrightarrow> pending_step w (EInit type) w'"
| step_deinit: "pending_step w (EDeinit type) (PendingDeinit type w)"
| step_enter: "ProcPendingPacket_enter al ch sq type w = Some (res, w') \<Longrightarrow> pending_step w (EEnter ch sq type res) w'"
| step_wake: "i < length (threads w) \<Longrightarrow> th_pc (threads w ! i) = Waiting \<Longrightarrow>
    pending_step w (EWake i) (ProcPendingPacket_wake i w)"
| step_leave: "i < length (threads w) \<Longrightarrow> ProcPendingPacket_leave i w = Some (ret, w') \<Longrightarrow> pending_step w (ELeave i ret) w'"
| step_set: "SetPendingPacket ch sq type w = Some (ret, w') \<Longrightarrow> pending_step w (ESet ch sq type ret) w'"
| step_del: "DelPendingPacket ch type w = Some r \<Longrightarrow> pending_step w (EDel ch type) w"

inductive pending_run :: "pending_world \<Rightarrow> pk_event list \<Rightarrow> pending_world \<Rightarrow> bool" where
  run_nil: "pending_run w [] w"
| run_cons: "pending_step w e w1 \<Longrightarrow> pending_run w1 es w2 \<Longrightarrow> pending_run w (e # es) w2"

inductive_cases pending_stepE: "pending_step w e w'"
inductive_cases wake_stepE: "pending_step w (EWake i) w'"
inductive_cases run_nilE: "pending_run w [] w'"
inductive_cases run_consE: "pending_run w (e # es) w'"

section \<open>The invariant\<close>

text \<open>A list that is not freed has an exact count, holds exactly the threads that are inside it, and no two of them wait for the
  same number on the same channel.\<close>

definition pk_key :: "pending_world \<Rightarrow> nat \<Rightarrow> int \<times> int" where
  "pk_key w i = (pk_channelId (entries w ! i), pk_seq (entries w ! i))"

definition inside :: "pending_world \<Rightarrow> nat \<Rightarrow> nat set" where
  "inside w a = {i. i < length (threads w) \<and> th_list (threads w ! i) = a \<and> th_pc (threads w ! i) \<noteq> Returned}"

definition list_ok :: "pending_world \<Rightarrow> nat \<Rightarrow> nat SoftBusList \<Rightarrow> bool" where
  "list_ok w a l \<longleftrightarrow> wf_sl l \<and> distinct (map (pk_key w) (lst l)) \<and> set (lst l) = inside w a"

definition glob_ok :: "pending_world \<Rightarrow> bool" where
  "glob_ok w \<longleftrightarrow> length (g_pendingList w) = 2 \<and>
     (\<forall>t a. t < 2 \<longrightarrow> g_pendingList w ! t = Some a \<longrightarrow> a < length (lists w) \<and> lists w ! a \<noteq> None) \<and>
     (\<forall>t t' a. t < 2 \<longrightarrow> t' < 2 \<longrightarrow> g_pendingList w ! t = Some a \<longrightarrow> g_pendingList w ! t' = Some a \<longrightarrow> t = t')"

definition pending_inv :: "pending_world \<Rightarrow> bool" where
  "pending_inv w \<longleftrightarrow> glob_ok w \<and> length (threads w) = length (entries w) \<and>
     (\<forall>a l. a < length (lists w) \<longrightarrow> lists w ! a = Some l \<longrightarrow> list_ok w a l) \<and>
     (\<forall>i < length (threads w). th_list (threads w ! i) < length (lists w))"

lemma pk_type_ok_nat: "pk_type_ok type \<longleftrightarrow> 0 \<le> type \<and> nat type < 2"
  by (auto simp: pk_type_ok_def)

lemma pending_start_inv: "pending_inv pending_start"
  by (auto simp: pending_inv_def pending_start_def glob_ok_def less_2_cases_iff)

lemma pending_invD:
  assumes "pending_inv w" "pk_type_ok type" "g_pendingList w ! nat type = Some a"
  obtains l where "a < length (lists w)" "lists w ! a = Some l" "list_ok w a l"
proof -
  have "a < length (lists w)" "lists w ! a \<noteq> None" using assms unfolding pending_inv_def glob_ok_def pk_type_ok_nat by blast+
  moreover from this obtain l where "lists w ! a = Some l" by blast
  ultimately show thesis using assms(1) that unfolding pending_inv_def by blast
qed

lemma list_ok_cong:
  assumes "list_ok w a l" "inside w' a = inside w a" "\<And>i. i \<in> inside w a \<Longrightarrow> pk_key w' i = pk_key w i"
  shows "list_ok w' a l"
proof -
  have "map (pk_key w') (lst l) = map (pk_key w) (lst l)" using assms(1,3) by (simp add: list_ok_def)
  then show ?thesis using assms(1,2) unfolding list_ok_def by metis
qed

lemma pending_inv_lists:
  assumes "pending_inv w" "threads w' = threads w" "entries w' = entries w" "glob_ok w'" "length (lists w) \<le> length (lists w')"
    "\<And>a l. a < length (lists w') \<Longrightarrow> lists w' ! a = Some l \<Longrightarrow>
      (a < length (lists w) \<and> lists w ! a = Some l) \<or> (length (lists w) \<le> a \<and> wf_sl l \<and> lst l = [])"
  shows "pending_inv w'"
proof -
  have i: "inside w' a = inside w a" "pk_key w' = pk_key w" for a
    using assms(2,3) by (auto simp: inside_def pk_key_def)
  have e: "inside w a = {}" if "length (lists w) \<le> a" for a using assms(1) that by (auto simp: pending_inv_def inside_def)
  have "list_ok w' a l" if "a < length (lists w')" "lists w' ! a = Some l" for a l
    using assms(6) [OF that] e [of a] assms(1) by (auto simp: list_ok_def i pending_inv_def)
  then show ?thesis using assms(1-5) by (auto simp: pending_inv_def intro: less_le_trans)
qed

lemma PendingInit_inv:
  assumes "pending_inv w" "PendingInit al mu type w = (ret, w')"
  shows "pending_inv w'"
proof (cases "pk_type_ok type")
  case ok: True
  then have n: "nat type < 2" by (simp add: pk_type_ok_nat)
  have g: "glob_ok w" using assms(1) by (simp add: pending_inv_def)
  show ?thesis
  proof (cases "CreateSoftBusList al mu :: nat SoftBusList option")
    case None
    then have w': "w' = w\<lparr>g_pendingList := (g_pendingList w)[nat type := None]\<rparr>" using assms(2) ok by (simp add: PendingInit_def)
    have "glob_ok w'" using g n by (auto simp: w' glob_ok_def nth_list_update)
    then show ?thesis by (rule pending_inv_lists [OF assms(1), rotated 2]) (auto simp: w')
  next
    case (Some l)
    then have w': "w' = w\<lparr>g_pendingList := (g_pendingList w)[nat type := Some (length (lists w))], lists := lists w @ [Some l]\<rparr>"
      using assms(2) ok by (simp add: PendingInit_def)
    have "glob_ok w'"
      using g n unfolding w' glob_ok_def by (auto simp: nth_list_update nth_append less_Suc_eq split: if_splits)
    then show ?thesis
      by (rule pending_inv_lists [OF assms(1), rotated 2])
        (use wf_sl_create [OF Some] in \<open>auto simp: w' nth_append less_Suc_eq split: if_splits\<close>)
  qed
qed (use assms in \<open>simp add: PendingInit_def\<close>)

lemma PendingDeinit_inv:
  assumes "pending_inv w"
  shows "pending_inv (PendingDeinit type w)"
proof (cases "pk_type_ok type \<and> g_pendingList w ! nat type \<noteq> None")
  case True
  then obtain a where ok: "pk_type_ok type" "g_pendingList w ! nat type = Some a" by blast
  then have n: "nat type < 2" by (simp add: pk_type_ok_nat)
  have g: "glob_ok w" using assms(1) by (simp add: pending_inv_def)
  have l: "a < length (lists w)" using pending_invD [OF assms ok] by metis
  let ?w = "w\<lparr>g_pendingList := (g_pendingList w)[nat type := None], lists := (lists w)[a := None]\<rparr>"
  have "glob_ok ?w"
    using g n ok(2) unfolding glob_ok_def by (auto simp: nth_list_update split: if_splits)
  then have "pending_inv ?w"
    by (rule pending_inv_lists [OF assms(1), rotated 2]) (use l in \<open>auto simp: nth_list_update split: if_splits\<close>)
  then show ?thesis using ok by (simp add: PendingDeinit_def)
qed (use assms in \<open>auto simp: PendingDeinit_def\<close>)

text \<open>Steps of the threads change one list, or none.\<close>

lemma glob_ok_lists:
  assumes "glob_ok w" "g_pendingList w' = g_pendingList w" "length (lists w') = length (lists w)"
    "\<And>a. lists w ! a \<noteq> None \<Longrightarrow> lists w' ! a \<noteq> None"
  shows "glob_ok w'"
  using assms(1,4) unfolding glob_ok_def assms(2,3) by blast

lemma enter_cases:
  assumes "ProcPendingPacket_enter al ch sq type w = Some (res, w')" "pending_inv w"
  obtains (refused) ret where "res = Inl ret" "w' = w"
  | (entered) a l where "pk_type_ok type" "g_pendingList w ! nat type = Some a" "a < length (lists w)" "lists w ! a = Some l" "list_ok w a l"
    "(ch, sq) \<notin> pk_key w ` set (lst l)" "res = Inr (length (entries w))"
    "w' = w\<lparr>lists := (lists w)[a := Some (sl_add (length (entries w)) l)],
              entries := entries w @ [\<lparr>pk_channelId = ch, pk_seq = sq, pk_finded = False\<rparr>],
              threads := threads w @ [\<lparr>th_list = a, th_pc = Waiting\<rparr>]\<rparr>"
proof (cases "\<exists>ret. res = Inl ret")
  case True
  with assms(1) refused show thesis
    by (auto simp: ProcPendingPacket_enter_def split: if_splits option.splits)
next
  case False
  with assms(1) obtain a where a: "pk_type_ok type" "g_pendingList w ! nat type = Some a"
    by (auto simp: ProcPendingPacket_enter_def split: if_splits option.splits)
  from pending_invD [OF assms(2) a] obtain l where l: "a < length (lists w)" "lists w ! a = Some l" "list_ok w a l" .
  have "find (\<lambda>i. pk_matches ch sq (entries w ! i)) (lst l) = None"
    using assms(1) False a l(2) by (auto simp: ProcPendingPacket_enter_def split: if_splits)
  then have "(ch, sq) \<notin> pk_key w ` set (lst l)" by (auto simp: find_None_iff pk_matches_def pk_key_def)
  with a l False assms(1) show thesis
    by (intro entered) (auto simp: ProcPendingPacket_enter_def split: if_splits)
qed

lemma enter_inv:
  assumes "pending_inv w" "ProcPendingPacket_enter al ch sq type w = Some (res, w')"
  shows "pending_inv w'"
  using assms(2,1)
proof (cases rule: enter_cases)
  case (entered a l)
  let ?n = "length (entries w)"
  have n: "length (threads w) = ?n" using assms(1) by (simp add: pending_inv_def)
  have i: "inside w' b = (if b = a then insert ?n (inside w b) else inside w b)" for b
    unfolding inside_def entered(8) using n by (auto simp: nth_append less_Suc_eq)
  have k: "pk_key w' j = pk_key w j" if "j < ?n" for j using that by (simp add: pk_key_def entered(8) nth_append)
  have k': "pk_key w' ?n = (ch, sq)" by (simp add: pk_key_def entered(8))
  have b: "j < ?n" if "j \<in> inside w b" for j b using that n by (simp add: inside_def)
  have "list_ok w' b m" if bm: "b < length (lists w')" "lists w' ! b = Some m" for b m
  proof (cases "b = a")
    case True
    then have m: "m = sl_add ?n l" using bm entered(3) by (simp add: entered(8))
    have s: "set (lst l) = inside w a" using entered(5) by (simp add: list_ok_def)
    have "map (pk_key w') (lst l) = map (pk_key w) (lst l)" using s k b by simp
    then have "map (pk_key w') (lst m) = (ch, sq) # map (pk_key w) (lst l)" by (simp add: m k' del: map_eq_conv)
    then have "distinct (map (pk_key w') (lst m))" using entered(5,6) by (simp add: list_ok_def)
    then show ?thesis using entered(5) s True by (simp add: list_ok_def m i)
  next
    case False
    with bm have "list_ok w b m" using assms(1) by (simp add: entered(8) pending_inv_def)
    then show ?thesis by (rule list_ok_cong) (use False i k b in auto)
  qed
  moreover have "glob_ok w'"
    by (rule glob_ok_lists [of w]) (use assms(1) entered(3) in \<open>auto simp: pending_inv_def entered(8) nth_list_update\<close>)
  moreover have "\<forall>j < length (threads w'). th_list (threads w' ! j) < length (lists w')"
    using assms(1) entered(3) by (auto simp: pending_inv_def entered(8) nth_append less_Suc_eq)
  ultimately show ?thesis using n by (simp add: pending_inv_def entered(8))
qed (use assms(1) in simp)

lemma pending_inv_local:
  assumes "pending_inv w" "g_pendingList w' = g_pendingList w" "lists w' = lists w"
    "length (threads w') = length (threads w)" "length (entries w') = length (entries w)"
    "\<And>j. j < length (threads w) \<Longrightarrow> th_list (threads w' ! j) = th_list (threads w ! j)"
    "\<And>j. j < length (threads w) \<Longrightarrow> th_pc (threads w' ! j) = Returned \<longleftrightarrow> th_pc (threads w ! j) = Returned"
    "\<And>j. j < length (threads w) \<Longrightarrow> pk_key w' j = pk_key w j"
  shows "pending_inv w'"
proof -
  have i: "inside w' a = inside w a" for a using assms(4,6,7) by (auto simp: inside_def)
  have "list_ok w' a l" if "list_ok w a l" for a l
    by (rule list_ok_cong [OF that i]) (use assms(8) in \<open>simp add: inside_def\<close>)
  moreover have "glob_ok w'" by (rule glob_ok_lists [of w]) (use assms(1-3) in \<open>simp_all add: pending_inv_def\<close>)
  ultimately show ?thesis using assms(1,3-6) by (simp add: pending_inv_def)
qed

lemma nth_update_if: "xs[i := x] ! j = (if i = j \<and> i < length xs then x else xs ! j)"
  by (cases "i < length xs") (auto simp: nth_list_update list_update_beyond)

lemma wake_inv:
  "pending_inv w \<Longrightarrow> th_pc (threads w ! i) = Waiting \<Longrightarrow> pending_inv (ProcPendingPacket_wake i w)"
  by (rule pending_inv_local [of w])
    (auto simp: ProcPendingPacket_wake_def nth_update_if pk_key_def split: if_splits)

lemma set_cases:
  assumes "SetPendingPacket ch sq type w = Some (ret, w')"
  obtains "ret = SOFTBUS_ERR" "w' = w"
  | a l i where "ret = SOFTBUS_OK" "pk_type_ok type" "g_pendingList w ! nat type = Some a" "lists w ! a = Some l"
    "i \<in> set (lst l)" "pk_key w i = (ch, sq)"
    "w' = w\<lparr>entries := (entries w)[i := (entries w ! i)\<lparr>pk_finded := True\<rparr>]\<rparr>"
proof (cases "ret = SOFTBUS_OK")
  case True
  then obtain a l i where r: "pk_type_ok type" "g_pendingList w ! nat type = Some a" "lists w ! a = Some l"
    "find (\<lambda>i. pk_matches ch sq (entries w ! i)) (lst l) = Some i"
    "w' = w\<lparr>entries := (entries w)[i := (entries w ! i)\<lparr>pk_finded := True\<rparr>]\<rparr>"
    using assms by (auto simp: SetPendingPacket_def split: if_splits option.splits)
  show thesis by (rule that(2) [OF True r(1-3) _ _ r(5)]) (use find_SomeD [OF r(4)] in \<open>simp_all add: pk_key_def pk_matches_def\<close>)
next
  case False
  with assms that(1) show thesis by (simp add: SetPendingPacket_def split: if_splits option.splits)
qed

lemma set_inv:
  assumes "pending_inv w" "SetPendingPacket ch sq type w = Some (ret, w')"
  shows "pending_inv w'"
  using assms(2)
proof (cases rule: set_cases)
  case (2 a l i)
  have k: "pk_key w' j = pk_key w j" for j
    by (simp add: 2(7) pk_key_def nth_update_if)
  show ?thesis by (rule pending_inv_local [OF assms(1) _ _ _ _ _ _ k]) (simp_all add: 2(7))
qed (use assms(1) in simp)

lemma leave_cases:
  assumes "ProcPendingPacket_leave i w = Some (ret, w')" "pending_inv w" "i < length (threads w)"
  obtains l where "lists w ! th_list (threads w ! i) = Some l" "list_ok w (th_list (threads w ! i)) l" "th_list (threads w ! i) < length (lists w)"
    "i \<in> set (lst l)" "th_pc (threads w ! i) = Woken ret"
    "w' = w\<lparr>lists := (lists w)[th_list (threads w ! i) := Some (sl_del_first (\<lambda>j. j = i) l)],
             threads := (threads w)[i := (threads w ! i)\<lparr>th_pc := Returned\<rparr>]\<rparr>"
proof -
  let ?a = "th_list (threads w ! i)"
  obtain l where l: "lists w ! ?a = Some l" "th_pc (threads w ! i) = Woken ret"
    "w' = w\<lparr>lists := (lists w)[?a := Some (l\<lparr>cnt := cnt l - 1, lst := del_first (\<lambda>j. j = i) (lst l)\<rparr>)],
             threads := (threads w)[i := (threads w ! i)\<lparr>th_pc := Returned\<rparr>]\<rparr>"
    using assms(1) by (auto simp: ProcPendingPacket_leave_def split: option.splits pk_pc.splits)
  have a: "?a < length (lists w)" using assms(2,3) by (simp add: pending_inv_def)
  with l(1) assms(2) have ok: "list_ok w ?a l" by (simp add: pending_inv_def)
  then have m: "i \<in> set (lst l)" using assms(3) l(2) by (simp add: list_ok_def inside_def)
  have e: "sl_del_first (\<lambda>j. j = i) l = l\<lparr>cnt := cnt l - 1, lst := del_first (\<lambda>j. j = i) (lst l)\<rparr>"
    using m by (simp add: sl_del_first_def)
  show thesis by (rule that [OF l(1) ok a m l(2) l(3) [folded e]])
qed

lemma leave_inv:
  assumes "pending_inv w" "i < length (threads w)" "ProcPendingPacket_leave i w = Some (ret, w')"
  shows "pending_inv w'"
  using assms(3,1,2)
proof (cases rule: leave_cases)
  case (1 l)
  let ?a = "th_list (threads w ! i)"
  have k: "pk_key w' = pk_key w" by (simp add: pk_key_def 1(6) fun_eq_iff)
  have i: "inside w' b = inside w b - {i}" for b
    unfolding inside_def 1(6) using assms(2) by (auto simp: nth_list_update split: if_splits)
  have "list_ok w' b m" if bm: "b < length (lists w')" "lists w' ! b = Some m" for b m
  proof (cases "b = ?a")
    case True
    then have m: "m = sl_del_first (\<lambda>j. j = i) l" using bm 1(3) by (simp add: 1(6))
    have d: "distinct (map (pk_key w) (lst l))" "set (lst l) = inside w ?a" "wf_sl l" using 1(2) by (simp_all add: list_ok_def)
    then have "distinct (map (\<lambda>j. j) (lst l))" by (simp add: distinct_map)
    from del_first_eq_filter [OF this, of i] d show ?thesis
      using distinct_map_del_first [OF d(1), of "\<lambda>j. j = i"] True by (auto simp: list_ok_def m i k)
  next
    case False
    with bm have ok: "list_ok w b m" using assms(1) by (simp add: 1(6) pending_inv_def)
    have "i \<notin> inside w b" using False by (simp add: inside_def)
    with ok show ?thesis by (intro list_ok_cong [OF ok]) (auto simp: i k)
  qed
  moreover have "glob_ok w'"
    by (rule glob_ok_lists [of w]) (use assms(1) 1(3) in \<open>auto simp: pending_inv_def 1(6) nth_list_update\<close>)
  ultimately show ?thesis
    using assms(1,2) by (auto simp: pending_inv_def 1(6) nth_list_update)
qed

lemma pending_step_inv: "pending_step w e w' \<Longrightarrow> pending_inv w \<Longrightarrow> pending_inv w'"
  by (induction rule: pending_step.induct)
    (auto intro: PendingInit_inv PendingDeinit_inv enter_inv wake_inv leave_inv set_inv)

lemma pending_run_inv: "pending_run w es w' \<Longrightarrow> pending_inv w \<Longrightarrow> pending_inv w'"
  by (induction rule: pending_run.induct) (auto intro: pending_step_inv)

section \<open>Following one sender\<close>

text \<open>The thread \<open>i\<close> is inside the list \<open>a\<close> that its type still has, and its entry was found or not.\<close>

definition awaiting :: "nat \<Rightarrow> nat \<Rightarrow> int \<Rightarrow> int \<Rightarrow> int \<Rightarrow> bool \<Rightarrow> pending_world \<Rightarrow> bool" where
  "awaiting i a ch sq type found w \<longleftrightarrow> pending_inv w \<and> pk_type_ok type \<and> g_pendingList w ! nat type = Some a \<and>
     i < length (threads w) \<and> th_list (threads w ! i) = a \<and> th_pc (threads w ! i) \<noteq> Returned \<and>
     entries w ! i = \<lparr>pk_channelId = ch, pk_seq = sq, pk_finded = found\<rparr>"

lemma awaiting_listed:
  assumes "awaiting i a ch sq type b w"
  obtains l where "lists w ! a = Some l" "list_ok w a l" "i \<in> set (lst l)" "pk_key w i = (ch, sq)"
proof -
  have t: "pending_inv w" "pk_type_ok type" "g_pendingList w ! nat type = Some a" using assms by (auto simp: awaiting_def)
  from pending_invD [OF this] obtain l where l: "a < length (lists w)" "lists w ! a = Some l" "list_ok w a l" .
  show thesis by (rule that [OF l(2,3)]) (use assms l(3) in \<open>auto simp: awaiting_def list_ok_def inside_def pk_key_def\<close>)
qed

lemma listed_unique:
  assumes "list_ok w a l" "i \<in> set (lst l)" "j \<in> set (lst l)" "pk_key w i = pk_key w j"
  shows "i = j"
  using assms by (auto simp: list_ok_def distinct_map inj_on_def)

lemma enter_awaiting:
  assumes "pending_inv w" "ProcPendingPacket_enter al ch sq type w = Some (Inr i, w')"
  shows "\<exists>a. awaiting i a ch sq type False w' \<and> th_pc (threads w' ! i) = Waiting"
  using assms(2,1)
proof (cases rule: enter_cases)
  case (entered a l)
  then show ?thesis using assms(1) enter_inv [OF assms] by (auto simp: awaiting_def pending_inv_def nth_append)
qed simp

lemma found_leaves:
  assumes "awaiting i a ch sq type True w" "th_pc (threads w ! i) = Waiting"
  shows "\<exists>w'. ProcPendingPacket_leave i (ProcPendingPacket_wake i w) = Some (SOFTBUS_OK, w')"
proof -
  obtain l where "lists w ! a = Some l" using awaiting_listed [OF assms(1)] by metis
  then show ?thesis using assms by (simp add: awaiting_def ProcPendingPacket_wake_def ProcPendingPacket_leave_def)
qed

lemma awaiting_set:
  assumes "awaiting i a ch sq type b w" "SetPendingPacket ch' sq' type' w = Some (ret, w')"
  shows "awaiting i a ch sq type (b \<or> (ch' = ch \<and> sq' = sq \<and> type' = type)) w'"
    and "ch' = ch \<Longrightarrow> sq' = sq \<Longrightarrow> type' = type \<Longrightarrow> ret = SOFTBUS_OK"
proof -
  obtain l where l: "lists w ! a = Some l" "list_ok w a l" "i \<in> set (lst l)" "pk_key w i = (ch, sq)"
    using awaiting_listed [OF assms(1)] .
  have t: "pending_inv w" "pk_type_ok type" "g_pendingList w ! nat type = Some a" "i < length (entries w)"
    using assms(1) by (auto simp: awaiting_def pending_inv_def)
  have "find (\<lambda>j. pk_matches ch sq (entries w ! j)) (lst l) \<noteq> None"
    using l(3,4) by (auto simp: find_None_iff pk_matches_def pk_key_def)
  with t(2,3) l(1) assms(2) show r: "ret = SOFTBUS_OK" if "ch' = ch" "sq' = sq" "type' = type"
    using that by (auto simp: SetPendingPacket_def split: option.splits)
  show "awaiting i a ch sq type (b \<or> (ch' = ch \<and> sq' = sq \<and> type' = type)) w'"
    using assms(2)
  proof (cases rule: set_cases)
    case 1
    then have "(b \<or> (ch' = ch \<and> sq' = sq \<and> type' = type)) = b" using r by auto
    then show ?thesis using 1(2) assms(1) by simp
  next
    case (2 a' l' j)
    have same: "j = i \<longleftrightarrow> ch' = ch \<and> sq' = sq \<and> type' = type"
    proof
      assume e: "j = i"
      then have "(ch', sq') = (ch, sq)" using 2(6) l(4) by simp
      moreover have "list_ok w a' l'" using pending_invD [OF t(1) 2(2,3)] 2(4) by auto
      then have "i \<in> inside w a'" using 2(5) e by (auto simp: list_ok_def)
      then have "a' = a" using assms(1) by (simp add: inside_def awaiting_def)
      then have "type' = type" using t(1-3) 2(2,3) unfolding pending_inv_def glob_ok_def pk_type_ok_nat by (metis nat_eq_iff2 nat_0_le)
      ultimately show "ch' = ch \<and> sq' = sq \<and> type' = type" by simp
    next
      assume e: "ch' = ch \<and> sq' = sq \<and> type' = type"
      then have "l' = l" using t(3) l(1) 2(3,4) by simp
      with e 2(5,6) l listed_unique show "j = i" by metis
    qed
    show ?thesis
      using assms(1) set_inv [OF t(1) assms(2)] same t(4) unfolding awaiting_def by (auto simp: 2(7) nth_update_if)
  qed
qed

lemma awaiting_init:
  assumes "awaiting i a ch sq type b w" "type' \<noteq> type"
  shows "PendingInit al mu type' w = (ret, w') \<Longrightarrow> awaiting i a ch sq type b w'" "awaiting i a ch sq type b (PendingDeinit type' w)"
proof -
  have n: "nat type' \<noteq> nat type" if "pk_type_ok type'" using that assms unfolding awaiting_def pk_type_ok_nat by (metis nat_0_le)
  show "awaiting i a ch sq type b w'" if e: "PendingInit al mu type' w = (ret, w')"
  proof -
    have "pending_inv w'" using assms(1) e by (auto simp: awaiting_def intro: PendingInit_inv)
    then show ?thesis using assms(1) e n by (auto simp: awaiting_def PendingInit_def split: if_splits option.splits)
  qed
  have "pending_inv (PendingDeinit type' w)" using assms(1) by (auto simp: awaiting_def intro: PendingDeinit_inv)
  then show "awaiting i a ch sq type b (PendingDeinit type' w)"
    using assms(1) n by (cases "pk_type_ok type'") (auto simp: awaiting_def PendingDeinit_def split: option.splits)
qed

lemma awaiting_enter:
  assumes "awaiting i a ch sq type b w" "ProcPendingPacket_enter al ch' sq' type' w = Some (res, w')"
  shows "awaiting i a ch sq type b w' \<and> threads w' ! i = threads w ! i"
proof -
  have t: "pending_inv w" "length (threads w) = length (entries w)" using assms(1) by (auto simp: awaiting_def pending_inv_def)
  from assms(2) t(1) show ?thesis
  proof (cases rule: enter_cases)
    case (entered a' l)
    then show ?thesis using assms(1) t(2) enter_inv [OF t(1) assms(2)] by (simp add: awaiting_def nth_append)
  qed (use assms(1) in simp)
qed

lemma awaiting_wake:
  assumes "awaiting i a ch sq type b w" "th_pc (threads w ! j) = Waiting"
  shows "awaiting i a ch sq type b (ProcPendingPacket_wake j w)"
proof -
  have "pending_inv (ProcPendingPacket_wake j w)" using assms by (auto simp: awaiting_def intro: wake_inv)
  then show ?thesis using assms by (auto simp: awaiting_def ProcPendingPacket_wake_def nth_update_if)
qed

lemma awaiting_leave:
  assumes "awaiting i a ch sq type b w" "j < length (threads w)" "ProcPendingPacket_leave j w = Some (ret, w')" "j \<noteq> i"
  shows "awaiting i a ch sq type b w' \<and> threads w' ! i = threads w ! i"
proof -
  have t: "pending_inv w" using assms(1) by (simp add: awaiting_def)
  from assms(3) t assms(2) show ?thesis
  proof (cases rule: leave_cases)
    case (1 l)
    then show ?thesis using assms(1,4) leave_inv [OF t assms(2,3)] by (simp add: awaiting_def nth_update_if)
  qed
qed

text \<open>Events that leave the list of a type and the thread alone.\<close>

definition quiet :: "int \<Rightarrow> pk_event list \<Rightarrow> bool" where
  "quiet type es \<longleftrightarrow> EInit type \<notin> set es \<and> EDeinit type \<notin> set es"

lemma awaiting_step:
  assumes "pending_step w e w'" "awaiting i a ch sq type b w" "quiet type [e]" "\<forall>r. e \<noteq> ELeave i r"
  shows "awaiting i a ch sq type (b \<or> e = ESet ch sq type SOFTBUS_OK) w' \<and> (th_pc (threads w ! i) \<noteq> Waiting \<longrightarrow> threads w' ! i = threads w ! i) \<and>
    (\<forall>r. e = ESet ch sq type r \<longrightarrow> r = SOFTBUS_OK)"
  using assms(1)
proof (cases rule: pending_step.cases)
  case (step_init al mu t ret)
  have "t \<noteq> type" using step_init(1) assms(3) by (auto simp: quiet_def)
  moreover have "threads w' = threads w"
    using step_init(2) by (auto simp: PendingInit_def split: if_splits option.splits)
  ultimately show ?thesis using awaiting_init(1) [OF assms(2) _ step_init(2)] step_init(1) by simp
next
  case (step_deinit t)
  have "t \<noteq> type" using step_deinit(1) assms(3) by (auto simp: quiet_def)
  moreover have "threads w' = threads w" by (simp add: step_deinit(2) PendingDeinit_def split: option.split)
  ultimately show ?thesis using awaiting_init(2) [OF assms(2)] step_deinit by simp
next
  case (step_enter al ch' sq' t res)
  then show ?thesis using awaiting_enter [OF assms(2)] by auto
next
  case (step_wake j)
  then show ?thesis using awaiting_wake [OF assms(2)] by (cases "j = i") (auto simp: ProcPendingPacket_wake_def)
next
  case (step_leave j ret)
  then show ?thesis using awaiting_leave [OF assms(2)] assms(4) by auto
next
  case (step_set ch' sq' t ret)
  have "(e = ESet ch sq type SOFTBUS_OK) = (ch' = ch \<and> sq' = sq \<and> t = type)"
    using awaiting_set(2) [OF assms(2) step_set(2)] step_set(1) by auto
  moreover have "threads w' = threads w"
    using step_set(2) by (auto simp: SetPendingPacket_def split: if_splits option.splits)
  ultimately show ?thesis using awaiting_set [OF assms(2) step_set(2)] step_set(1) by simp
qed (use assms(2) in auto)

lemma followed_run:
  "pending_run w es w' \<Longrightarrow> awaiting i a ch sq type b w \<Longrightarrow> quiet type es \<Longrightarrow> \<forall>r. ELeave i r \<notin> set es \<Longrightarrow>
   awaiting i a ch sq type (b \<or> ESet ch sq type SOFTBUS_OK \<in> set es) w' \<and> (th_pc (threads w ! i) \<noteq> Waiting \<longrightarrow> threads w' ! i = threads w ! i) \<and>
   (\<forall>r. ESet ch sq type r \<in> set es \<longrightarrow> r = SOFTBUS_OK)"
proof (induction arbitrary: b rule: pending_run.induct)
  case (run_cons w e w1 es w2)
  have "quiet type [e]" "quiet type es" "\<forall>r. e \<noteq> ELeave i r" "\<forall>r. ELeave i r \<notin> set es"
    using run_cons.prems(2,3) by (auto simp: quiet_def)
  note t = awaiting_step [OF run_cons.hyps(1) run_cons.prems(1) this(1,3)] and q = this(2,4)
  from t run_cons.IH [OF conjunct1 [OF t] q]
  have "awaiting i a ch sq type ((b \<or> e = ESet ch sq type SOFTBUS_OK) \<or> ESet ch sq type SOFTBUS_OK \<in> set es) w2"
    "th_pc (threads w ! i) \<noteq> Waiting \<longrightarrow> threads w2 ! i = threads w ! i" "\<forall>r. ESet ch sq type r \<in> set (e # es) \<longrightarrow> r = SOFTBUS_OK"
    by auto
  moreover have "((b \<or> e = ESet ch sq type SOFTBUS_OK) \<or> ESet ch sq type SOFTBUS_OK \<in> set es) =
      (b \<or> ESet ch sq type SOFTBUS_OK \<in> set (e # es))" by auto
  ultimately show ?case by simp
qed simp

text \<open>A thread that has left does not come back.\<close>

lemma returned_step:
  assumes "pending_step w e w'" "pending_inv w" "i < length (threads w)" "th_pc (threads w ! i) = Returned \<or> (\<exists>r. e = ELeave i r)"
  shows "i < length (threads w') \<and> th_pc (threads w' ! i) = Returned"
  using assms(1)
proof (cases rule: pending_step.cases)
  case (step_enter al ch sq t res)
  from step_enter(2) assms(2) show ?thesis
    by (cases rule: enter_cases) (use assms(3,4) step_enter(1) in \<open>auto simp: nth_append\<close>)
next
  case (step_leave j ret)
  from step_leave(3) assms(2) step_leave(2) show ?thesis
    by (cases rule: leave_cases) (use assms(3,4) step_leave(1) in \<open>auto simp: nth_update_if\<close>)
next
  case (step_set ch sq t ret)
  from step_set(2) show ?thesis by (cases rule: set_cases) (use assms(3,4) step_set(1) in auto)
qed (use assms(3,4) in \<open>auto simp: PendingInit_def PendingDeinit_def ProcPendingPacket_wake_def nth_update_if
    split: if_splits option.splits\<close>)

lemma left_run:
  "pending_run w es w' \<Longrightarrow> pending_inv w \<Longrightarrow> i < length (threads w) \<Longrightarrow>
   th_pc (threads w ! i) = Returned \<or> (\<exists>r. ELeave i r \<in> set es) \<Longrightarrow> th_pc (threads w' ! i) = Returned"
proof (induction rule: pending_run.induct)
  case (run_cons w e w1 es w2)
  have l: "i < length (threads w1)"
    using run_cons.hyps(1) run_cons.prems(2)
    by (cases rule: pending_step.cases)
      (auto simp: PendingInit_def PendingDeinit_def ProcPendingPacket_enter_def ProcPendingPacket_wake_def
        ProcPendingPacket_leave_def SetPendingPacket_def split: if_splits option.splits pk_pc.splits)
  show ?case
    using run_cons.IH [OF pending_step_inv [OF run_cons.hyps(1) run_cons.prems(1)] l]
      returned_step [OF run_cons.hyps(1) run_cons.prems(1,2)] run_cons.prems(3) by auto
qed auto

text \<open>C16: A sender enters the list of its type for a channel and a number; then all threads run in any order, the sender wakes up
  for whatever reason, all threads run again, and the list of its type is neither replaced nor freed in between. Then the
  sender leaves without a fault and returns success if and only if the acknowledgement of its channel and number was reported before it woke up;
  every such report, also one that comes after it woke up and is lost, is told that it was successful. After that the number is free again, and the
  counts of all lists are the numbers of threads inside.\<close>

theorem pending_packet_acknowledged:
  assumes "pending_run pending_start es w" "ProcPendingPacket_enter alloc ch sq type w = Some (Inr i, w1)"
    "pending_run w1 es1 w2" "pending_step w2 (EWake i) w3" "pending_run w3 es2 w4"
    "quiet type (es1 @ es2)" "\<forall>r. ELeave i r \<notin> set es2"
  shows "(\<forall>r. ESet ch sq type r \<in> set (es1 @ es2) \<longrightarrow> r = SOFTBUS_OK) \<and>
    (\<exists>w5. ProcPendingPacket_leave i w4 = Some (if ESet ch sq type SOFTBUS_OK \<in> set es1 then SOFTBUS_OK else SOFTBUS_TIMOUT, w5) \<and>
      SetPendingPacket ch sq type w5 = Some (SOFTBUS_ERR, w5) \<and>
      (\<forall>a l. a < length (lists w5) \<longrightarrow> lists w5 ! a = Some l \<longrightarrow> cnt l = of_nat (card (inside w5 a))))"
proof -
  have inv: "pending_inv w" using pending_run_inv [OF assms(1) pending_start_inv] .
  have inv1: "pending_inv w1" using enter_inv [OF inv assms(2)] .
  obtain a where t1: "awaiting i a ch sq type False w1" using enter_awaiting [OF inv assms(2)] by blast
  from assms(4) have wake: "th_pc (threads w2 ! i) = Waiting" "w3 = ProcPendingPacket_wake i w2" 
    by (rule wake_stepE, simp_all)+
  have q: "quiet type es1" "quiet type es2" using assms(6) by (auto simp: quiet_def)
  have "i < length (threads w1)" using t1 by (simp add: awaiting_def)
  then have "\<forall>r. ELeave i r \<notin> set es1" using left_run [OF assms(3) inv1, of i] wake(1) by auto
  note f1 = followed_run [OF assms(3) t1 q(1) this]
  let ?b = "ESet ch sq type SOFTBUS_OK \<in> set es1" and ?r = "if ESet ch sq type SOFTBUS_OK \<in> set es1 then SOFTBUS_OK else SOFTBUS_TIMOUT"
  have t2: "awaiting i a ch sq type ?b w2" using f1 by simp
  have t3: "awaiting i a ch sq type ?b w3" using awaiting_wake [OF t2 wake(1)] by (simp add: wake(2))
  have p3: "th_pc (threads w3 ! i) = Woken ?r" using t2 by (simp add: wake(2) ProcPendingPacket_wake_def awaiting_def)
  note f2 = followed_run [OF assms(5) t3 q(2) assms(7)]
  then have t4: "awaiting i a ch sq type (?b \<or> ESet ch sq type SOFTBUS_OK \<in> set es2) w4" and p4: "th_pc (threads w4 ! i) = Woken ?r"
    using p3 by simp_all
  from awaiting_listed [OF t4] obtain l where l: "lists w4 ! a = Some l" "list_ok w4 a l" "i \<in> set (lst l)" "pk_key w4 i = (ch, sq)" .
  have tt: "pending_inv w4" "i < length (threads w4)" "th_list (threads w4 ! i) = a" "g_pendingList w4 ! nat type = Some a" "pk_type_ok type"
    using t4 by (simp_all add: awaiting_def)
  obtain w5 where w5: "ProcPendingPacket_leave i w4 = Some (?r, w5)"
    using l(1) tt(3) p4 by (simp add: ProcPendingPacket_leave_def)
  have inv5: "pending_inv w5" using leave_inv [OF tt(1,2) w5] .
  have "SetPendingPacket ch sq type w5 = Some (SOFTBUS_ERR, w5)"
    using w5 tt(1,2)
  proof (cases rule: leave_cases)
    case (1 m)
    then have m: "m = l" using l(1) tt(3) by simp
    have e: "entries w5 = entries w4" "g_pendingList w5 ! nat type = Some a" "lists w5 ! a = Some (sl_del_first (\<lambda>j. j = i) l)"
      using 1(3) tt(3,4) by (simp_all add: 1(6) m)
    have "list_ok w5 a (sl_del_first (\<lambda>j. j = i) l)"
      using pending_invD [OF inv5 tt(5) e(2)] e(3) by auto
    then have "i \<notin> set (del_first (\<lambda>j. j = i) (lst l))"
      using tt(2) by (auto simp: list_ok_def inside_def 1(6))
    then have "pk_key w4 j \<noteq> (ch, sq)" if "j \<in> set (del_first (\<lambda>j. j = i) (lst l))" for j
      using that listed_unique [OF l(2,3) in_del_firstD [OF that]] l(4) by metis
    then have "\<not> pk_matches ch sq (entries w4 ! j)" if "j \<in> set (del_first (\<lambda>j. j = i) (lst l))" for j
      using that by (fastforce simp: pk_key_def pk_matches_def)
    then have "find (\<lambda>j. pk_matches ch sq (entries w5 ! j)) (lst (sl_del_first (\<lambda>j. j = i) l)) = None"
      by (simp add: find_None_iff e(1))
    then show ?thesis using tt(5) e(2,3) by (simp add: SetPendingPacket_def)
  qed
  moreover have "cnt m = of_nat (card (inside w5 b))" if "b < length (lists w5)" "lists w5 ! b = Some m" for b m
  proof -
    have "list_ok w5 b m" using inv5 that by (simp add: pending_inv_def)
    moreover from this have "distinct (lst m)" by (simp add: list_ok_def distinct_map)
    ultimately show ?thesis using distinct_card [of "lst m"] by (simp add: list_ok_def wf_sl_def)
  qed
  moreover have "\<forall>r. ESet ch sq type r \<in> set (es1 @ es2) \<longrightarrow> r = SOFTBUS_OK" using f1 f2 by auto
  ultimately show ?thesis by (intro conjI exI [of _ w5] w5) auto
qed

text \<open>A sender waiting on channel 5 for number 7, which is acknowledged.\<close>

definition demo_ready :: pending_world where
  "demo_ready = snd (PendingInit True True PENDING_TYPE_PROXY pending_start)"

definition demo_inside :: pending_world where
  "demo_inside = snd (the (ProcPendingPacket_enter True 5 7 PENDING_TYPE_PROXY demo_ready))"

definition demo_answered :: pending_world where
  "demo_answered = snd (the (SetPendingPacket 5 7 PENDING_TYPE_PROXY demo_inside))"

lemma demo_pending_worlds:
  "demo_ready = \<lparr>g_pendingList = [Some 0, None], lists = [Some \<lparr>cnt = 0, lst = []\<rparr>], entries = [], threads = []\<rparr>"
  "demo_inside = \<lparr>g_pendingList = [Some 0, None], lists = [Some \<lparr>cnt = 1, lst = [0]\<rparr>],
     entries = [\<lparr>pk_channelId = 5, pk_seq = 7, pk_finded = False\<rparr>], threads = [\<lparr>th_list = 0, th_pc = Waiting\<rparr>]\<rparr>"
  "demo_answered = \<lparr>g_pendingList = [Some 0, None], lists = [Some \<lparr>cnt = 1, lst = [0]\<rparr>],
     entries = [\<lparr>pk_channelId = 5, pk_seq = 7, pk_finded = True\<rparr>], threads = [\<lparr>th_list = 0, th_pc = Waiting\<rparr>]\<rparr>"
  by code_simp+

theorem pending_packet_acknowledged_witness:
  "\<exists>w. ProcPendingPacket_leave 0 (ProcPendingPacket_wake 0 demo_answered) = Some (SOFTBUS_OK, w) \<and>
    SetPendingPacket 5 7 PENDING_TYPE_PROXY w = Some (SOFTBUS_ERR, w)"
proof -
  have "PendingInit True True PENDING_TYPE_PROXY pending_start = (SOFTBUS_OK, demo_ready)"
    unfolding demo_pending_worlds by code_simp
  from step_init [OF this] have r0: "pending_run pending_start [EInit PENDING_TYPE_PROXY] demo_ready" by (rule run_cons [OF _ run_nil])
  have e: "ProcPendingPacket_enter True 5 7 PENDING_TYPE_PROXY demo_ready = Some (Inr 0, demo_inside)"
    "SetPendingPacket 5 7 PENDING_TYPE_PROXY demo_inside = Some (SOFTBUS_OK, demo_answered)"
    unfolding demo_pending_worlds by code_simp+
  from step_set [OF e(2)] have r1: "pending_run demo_inside [ESet 5 7 PENDING_TYPE_PROXY SOFTBUS_OK] demo_answered"
    by (rule run_cons [OF _ run_nil])
  have s: "pending_step demo_answered (EWake 0) (ProcPendingPacket_wake 0 demo_answered)"
    by (rule step_wake) (simp_all add: demo_pending_worlds)
  from pending_packet_acknowledged [OF r0 e(1) r1 s run_nil] show ?thesis by (auto simp: quiet_def)
qed

section \<open>Freeing a list with senders inside\<close>

lemma PendingDeinit_faults:
  assumes "awaiting i a ch sq type b w"
  shows "ProcPendingPacket_leave i (PendingDeinit type w) = None"
proof -
  have t: "pending_inv w" "pk_type_ok type" "g_pendingList w ! nat type = Some a" "th_list (threads w ! i) = a"
    using assms by (simp_all add: awaiting_def)
  have "a < length (lists w)" using pending_invD [OF t(1-3)] by blast
  then show ?thesis using t(2-4) by (simp add: PendingDeinit_def ProcPendingPacket_leave_def)
qed

end
