(* ===== verification/Tdc_Channel.thy ===== *)
theory Tdc_Channel
  imports Tcp_Connect Adapter_Crypto Pending_Packet Seq_Verification "HOL-Library.Monad_Syntax"
begin

text \<open>
  The direct TCP channels of a client, \<^verbatim>\<open>sdk/transmission/trans_channel/tcp_direct/src\<close>: the channel list of
  \<^verbatim>\<open>client_trans_tcp_direct_manager.c\<close>, the framing, encryption and reassembly of packets of
  \<^verbatim>\<open>client_trans_tcp_direct_message.c\<close>, the socket events of \<^verbatim>\<open>client_trans_tcp_direct_listener.c\<close> and the
  reports of \<^verbatim>\<open>client_trans_tcp_direct_callback.c\<close>. The senders that wait for an acknowledgement are those of
  theory \<open>Pending_Packet\<close>, the encryption is that of \<open>Adapter_Crypto\<close>, the sockets are those of \<open>Tcp_Connect\<close>.
  An outer \<^const>\<open>None\<close> is the use of a null pointer, an access outside a block, or a call that does not return.
\<close>

abbreviation (input) DC_DATA_HEAD_SIZE :: nat where "DC_DATA_HEAD_SIZE \<equiv> 16"
abbreviation (input) ACK_SIZE :: nat where "ACK_SIZE \<equiv> 4"
abbreviation (input) DATA_EXTEND_LEN :: "32 word" where "DATA_EXTEND_LEN \<equiv> 44"
abbreviation (input) MIN_BUF_LEN :: "32 word" where "MIN_BUF_LEN \<equiv> 1068"
abbreviation (input) FLAG_BYTES :: "32 word" where "FLAG_BYTES \<equiv> 0"
abbreviation (input) FLAG_ACK :: "32 word" where "FLAG_ACK \<equiv> 1"
abbreviation (input) FLAG_MESSAGE :: "32 word" where "FLAG_MESSAGE \<equiv> 2"
abbreviation (input) TRANS_SESSION_BYTES :: int where "TRANS_SESSION_BYTES \<equiv> 0"
abbreviation (input) TRANS_SESSION_MESSAGE :: int where "TRANS_SESSION_MESSAGE \<equiv> 1"

section \<open>State\<close>

record TcpDataPacketHead =
  ph_magicNumber :: "32 word"
  ph_seq :: "32 word"
  ph_flags :: "32 word"
  ph_dataLen :: "32 word"

definition tcp_head_bytes :: "TcpDataPacketHead \<Rightarrow> byte list" where
  "tcp_head_bytes h = le_bytes 4 (ph_magicNumber h) @ le_bytes 4 (ph_seq h) @ le_bytes 4 (ph_flags h) @ le_bytes 4 (ph_dataLen h)"

definition bytes_tcp_head :: "byte list \<Rightarrow> TcpDataPacketHead" where
  "bytes_tcp_head bs = \<lparr>ph_magicNumber = le_word (take 4 bs), ph_seq = le_word (take 4 (drop 4 bs)),
     ph_flags = le_word (take 4 (drop 8 bs)), ph_dataLen = le_word (take 4 (drop 12 bs))\<rparr>"

text \<open>The block of a receive buffer and the place of its write pointer.\<close>

record ClientDataBuf =
  cb_channelId :: int
  cb_fd :: int
  cb_size :: "32 word"
  cb_data :: "byte list"
  cb_w :: nat

text \<open>The fields of the channel details that the code uses.\<close>

record TcpDirectChannelDetail =
  td_fd :: int
  td_channelType :: int
  td_sequence :: "32 word"
  td_verifyInfo :: SeqVerifyInfo
  td_sessionKey :: "byte list"

record TcpDirectChannelInfo =
  tc_channelId :: int
  tc_detail :: TcpDirectChannelDetail

record ChannelInfo =
  ch_channelId :: int
  ch_channelType :: int
  ch_fd :: int
  ch_sessionKey :: "byte list"

text \<open>What leaves the component: bytes on sockets, reports to the client, descriptors given back and triggers removed.\<close>

datatype tdc_out =
    TdcSent int "byte list"
  | TdcReceived int "byte list" int
  | TdcOpened string int
  | TdcOpenFailed int
  | TdcClosed int
  | TdcShutDown int
  | TdcDelTrigger int

record tdc_world =
  g_tcpDirectChannelInfoList :: "TcpDirectChannelInfo SoftBusList option"
  g_tcpDataList :: "ClientDataBuf SoftBusList option"
  g_dataBufferMaxLen :: "32 word"
  g_sessionCb :: bool
  isInitedFlag :: bool
  tdc_pending :: pending_world
  tdc_rng :: rng
  tdc_sends :: nat
  tdc_log :: "tdc_out list"

text \<open>
  The environment: outcomes of allocations, of the cipher and the random generator, of the n-th call to send on a
  socket, of the client's functions, of the base listener, of setting the keep-alive time and of the configuration.
\<close>

record tdc_env =
  t_malloc :: "32 word \<Rightarrow> bool"
  t_node :: bool
  t_list :: bool
  t_gcm :: gcm_lib
  t_rng :: rng_env
  t_send :: "nat \<Rightarrow> int \<times> (send_rc \<times> int) list"
  t_onData :: "int \<Rightarrow> byte list \<Rightarrow> int \<Rightarrow> int"
  t_onOpened :: int
  t_onOther :: int
  t_setListener :: int
  t_startClient :: int
  t_addTrigger :: int
  t_delTrigger :: int
  t_keepAlive :: int
  t_config :: "32 word option"

definition tlog :: "tdc_out \<Rightarrow> tdc_world \<Rightarrow> tdc_world" where
  "tlog a w = w\<lparr>tdc_log := tdc_log w @ [a]\<rparr>"

section \<open>Reports to the client\<close>

definition ClientTransTdcSetCallBack :: "bool \<Rightarrow> tdc_world \<Rightarrow> int \<times> tdc_world" where
  "ClientTransTdcSetCallBack cb w = (if \<not> cb then (SOFTBUS_INVALID_PARAM, w) else (SOFTBUS_OK, w\<lparr>g_sessionCb := True\<rparr>))"

definition ClientTransTdcOnSessionOpened :: "tdc_env \<Rightarrow> string \<Rightarrow> ChannelInfo \<Rightarrow> tdc_world \<Rightarrow> (int \<times> tdc_world) option" where
  "ClientTransTdcOnSessionOpened env name ch w =
     (if \<not> g_sessionCb w then None else Some (t_onOpened env, tlog (TdcOpened name (ch_channelId ch)) w))"

definition ClientTransTdcOnSessionClosed :: "tdc_env \<Rightarrow> int \<Rightarrow> tdc_world \<Rightarrow> (int \<times> tdc_world) option" where
  "ClientTransTdcOnSessionClosed env ch w = (if \<not> g_sessionCb w then None else Some (t_onOther env, tlog (TdcClosed ch) w))"

definition ClientTransTdcOnSessionOpenFailed :: "tdc_env \<Rightarrow> int \<Rightarrow> tdc_world \<Rightarrow> (int \<times> tdc_world) option" where
  "ClientTransTdcOnSessionOpenFailed env ch w = (if \<not> g_sessionCb w then None else Some (t_onOther env, tlog (TdcOpenFailed ch) w))"

definition ClientTransTdcOnDataReceived ::
  "tdc_env \<Rightarrow> int \<Rightarrow> byte list \<Rightarrow> int \<Rightarrow> tdc_world \<Rightarrow> (int \<times> tdc_world) option" where
  "ClientTransTdcOnDataReceived env ch data type w =
     (if \<not> g_sessionCb w then None else Some (t_onData env ch data type, tlog (TdcReceived ch data type) w))"

section \<open>Channels\<close>

definition TransTdcGetInfoById :: "int \<Rightarrow> tdc_world \<Rightarrow> TcpDirectChannelInfo option option" where
  "TransTdcGetInfoById ch w =
     do { l \<leftarrow> g_tcpDirectChannelInfoList w; Some (find (\<lambda>c. tc_channelId c = ch) (lst l)) }"

definition TransTdcGetInfoByFd :: "int \<Rightarrow> tdc_world \<Rightarrow> TcpDirectChannelInfo option option" where
  "TransTdcGetInfoByFd fd w =
     do { l \<leftarrow> g_tcpDirectChannelInfoList w; Some (find (\<lambda>c. td_fd (tc_detail c) = fd) (lst l)) }"

definition upd_detail :: "(TcpDirectChannelDetail \<Rightarrow> TcpDirectChannelDetail) \<Rightarrow> TcpDirectChannelInfo \<Rightarrow> TcpDirectChannelInfo" where
  "upd_detail f c = c\<lparr>tc_detail := f (tc_detail c)\<rparr>"

text \<open>The copy is taken before the number is increased.\<close>

definition TransTdcGetInfoByIdWithIncSeq :: "int \<Rightarrow> tdc_world \<Rightarrow> (TcpDirectChannelInfo option \<times> tdc_world) option" where
  "TransTdcGetInfoByIdWithIncSeq ch w =
     do { l \<leftarrow> g_tcpDirectChannelInfoList w;
          Some (find (\<lambda>c. tc_channelId c = ch) (lst l),
                w\<lparr>g_tcpDirectChannelInfoList := Some (sl_upd_first (\<lambda>c. tc_channelId c = ch)
                    (upd_detail (\<lambda>d. d\<lparr>td_sequence := td_sequence d + 1\<rparr>)) l)\<rparr>) }"

definition TransTdcCheckSeq :: "int \<Rightarrow> 32 word \<Rightarrow> tdc_world \<Rightarrow> (int \<times> tdc_world) option" where
  "TransTdcCheckSeq fd sq w =
     do { l \<leftarrow> g_tcpDirectChannelInfoList w;
          case find (\<lambda>c. td_fd (tc_detail c) = fd) (lst l) of
            None \<Rightarrow> Some (SOFTBUS_ERR, w)
          | Some c \<Rightarrow>
              do { (pass, v) \<leftarrow> SeqCheck (td_verifyInfo (tc_detail c)) sq;
                   Some (if pass then SOFTBUS_OK else SOFTBUS_ERR,
                         w\<lparr>g_tcpDirectChannelInfoList := Some (sl_upd_first (\<lambda>c. td_fd (tc_detail c) = fd)
                             (upd_detail (\<lambda>d. d\<lparr>td_verifyInfo := v\<rparr>)) l)\<rparr>) } }"

definition TransTdcReleaseFd :: "int \<Rightarrow> tdc_world \<Rightarrow> tdc_world" where
  "TransTdcReleaseFd fd w = (if fd < 0 then w else tlog (TdcShutDown fd) (tlog (TdcDelTrigger fd) w))"

text \<open>The count of the channel list is not kept: channels are linked and unlinked without changing it.\<close>

definition TransTdcCloseChannel :: "int \<Rightarrow> tdc_world \<Rightarrow> tdc_world option" where
  "TransTdcCloseChannel ch w =
     do { l \<leftarrow> g_tcpDirectChannelInfoList w;
          case find (\<lambda>c. tc_channelId c = ch) (lst l) of
            None \<Rightarrow> Some w
          | Some c \<Rightarrow>
              let w1 = (TransTdcReleaseFd (td_fd (tc_detail c)) w)
                         \<lparr>g_tcpDirectChannelInfoList := Some (l\<lparr>lst := del_first (\<lambda>c. tc_channelId c = ch) (lst l)\<rparr>)\<rparr>
              in do { _ \<leftarrow> DelPendingPacket ch PENDING_TYPE_DIRECT (tdc_pending w1); Some w1 } }"

section \<open>Sending\<close>

definition tdc_cipher :: "byte list \<Rightarrow> AesGcmCipherKey" where
  "tdc_cipher k = \<lparr>keyLen = SESSION_KEY_LENGTH, key = k, iv = replicate GCM_IV_LEN 0\<rparr>"

definition TransTdcDecrypt :: "gcm_lib \<Rightarrow> byte list \<Rightarrow> byte list \<Rightarrow> 32 word \<Rightarrow> (int \<times> byte list) option" where
  "TransTdcDecrypt lib skey mem inLen =
     (case memcpy_s SESSION_KEY_LENGTH (take SESSION_KEY_LENGTH skey) of
        None \<Rightarrow> Some (SOFTBUS_ERR, [])
      | Some k \<Rightarrow> SoftBusDecryptData lib (tdc_cipher k) mem inLen)"

definition TransTdcEncryptWithSeq ::
  "gcm_lib \<Rightarrow> rng_env \<Rightarrow> byte list \<Rightarrow> 32 word \<Rightarrow> byte list \<Rightarrow> rng \<Rightarrow> (int \<times> byte list) \<times> rng" where
  "TransTdcEncryptWithSeq lib env skey sq input g =
     (case memcpy_s SESSION_KEY_LENGTH (take SESSION_KEY_LENGTH skey) of
        None \<Rightarrow> ((SOFTBUS_ERR, []), g)
      | Some k \<Rightarrow>
          (case SoftBusEncryptDataWithSeq lib env (tdc_cipher k) input (sint sq) g of
             ((ret, out), g1) \<Rightarrow>
               if ret \<noteq> SOFTBUS_OK \<or> (of_nat (length out) :: 32 word) \<noteq> of_nat (length input) + of_nat OVERHEAD_LEN
               then ((SOFTBUS_ENCRYPT_ERR, []), g1)
               else ((SOFTBUS_OK, out), g1)))"

text \<open>The data of an acknowledgement is the number, read in host order and sent in network order.\<close>

definition TransTdcPackData ::
  "tdc_env \<Rightarrow> TcpDirectChannelInfo \<Rightarrow> byte list \<Rightarrow> 32 word \<Rightarrow> rng \<Rightarrow> (byte list option \<times> rng) option" where
  "TransTdcPackData env c data flags g =
     (let dataLen = of_nat (length data) + of_nat OVERHEAD_LEN :: 32 word
      in if \<not> SoftBusMalloc (t_malloc env) (dataLen + of_nat DC_DATA_HEAD_SIZE) then Some (None, g)
         else if flags = FLAG_ACK \<and> length data \<noteq> ACK_SIZE then None
         else
           let finalSeq = (if flags = FLAG_ACK then le_word data else td_sequence (tc_detail c));
               finalData = (if flags = FLAG_ACK then rev (le_bytes 4 finalSeq) else data);
               pktHead = \<lparr>ph_magicNumber = MAGIC_NUMBER, ph_seq = finalSeq, ph_flags = flags, ph_dataLen = dataLen\<rparr>
           in case TransTdcEncryptWithSeq (t_gcm env) (t_rng env) (td_sessionKey (tc_detail c)) finalSeq finalData g of
                ((ret, out), g1) \<Rightarrow>
                  if ret \<noteq> SOFTBUS_OK then Some (None, g1)
                  else if unat (dataLen + of_nat DC_DATA_HEAD_SIZE) < DC_DATA_HEAD_SIZE + length out then None
                  else Some (Some (tcp_head_bytes pktHead @ out), g1))"

definition TransTdcProcessPostData ::
  "tdc_env \<Rightarrow> TcpDirectChannelInfo \<Rightarrow> byte list \<Rightarrow> 32 word \<Rightarrow> tdc_world \<Rightarrow> (int \<times> tdc_world) option" where
  "TransTdcProcessPostData env c data flags w =
     do { (bufp, g) \<leftarrow> TransTdcPackData env c data flags (tdc_rng w);
          case bufp of
            None \<Rightarrow> Some (SOFTBUS_ENCRYPT_ERR, w\<lparr>tdc_rng := g\<rparr>)
          | Some buf \<Rightarrow>
              do { r \<leftarrow> SendTcpData (t_send env (tdc_sends w)) (td_fd (tc_detail c)) (length buf);
                   Some (if (of_int r :: 32 word) \<noteq> of_nat (length buf) then SOFTBUS_ERR else SOFTBUS_OK,
                         tlog (TdcSent (td_fd (tc_detail c)) (take (nat r) buf))
                           (w\<lparr>tdc_rng := g, tdc_sends := tdc_sends w + 1\<rparr>)) } }"

definition TransTdcSendBytes :: "tdc_env \<Rightarrow> int \<Rightarrow> byte list \<Rightarrow> tdc_world \<Rightarrow> (int \<times> tdc_world) option" where
  "TransTdcSendBytes env ch data w =
     do { (cp, w1) \<leftarrow> TransTdcGetInfoByIdWithIncSeq ch w;
          case cp of
            None \<Rightarrow> Some (SOFTBUS_ERR, w1)
          | Some c \<Rightarrow> TransTdcProcessPostData env c data FLAG_BYTES w1 }"

text \<open>A message waits for its acknowledgement: the right value is the number of the waiting thread.\<close>

definition TransTdcSendMessage :: "tdc_env \<Rightarrow> int \<Rightarrow> byte list \<Rightarrow> tdc_world \<Rightarrow> ((int + nat) \<times> tdc_world) option" where
  "TransTdcSendMessage env ch data w =
     do { (cp, w1) \<leftarrow> TransTdcGetInfoByIdWithIncSeq ch w;
          case cp of
            None \<Rightarrow> Some (Inl SOFTBUS_ERR, w1)
          | Some c \<Rightarrow>
              do { (ret, w2) \<leftarrow> TransTdcProcessPostData env c data FLAG_MESSAGE w1;
                   if ret \<noteq> SOFTBUS_OK then Some (Inl ret, w2)
                   else do { (res, p) \<leftarrow> ProcPendingPacket_enter (t_node env) ch (sint (td_sequence (tc_detail c)))
                               PENDING_TYPE_DIRECT (tdc_pending w2);
                             Some (res, w2\<lparr>tdc_pending := p\<rparr>) } } }"

definition TransTdcSendAck :: "tdc_env \<Rightarrow> TcpDirectChannelInfo \<Rightarrow> 32 word \<Rightarrow> tdc_world \<Rightarrow> (int \<times> tdc_world) option" where
  "TransTdcSendAck env c sq w = TransTdcProcessPostData env c (le_bytes 4 sq) FLAG_ACK w"

section \<open>Receive buffers\<close>

definition TransGetDataBufSize :: "32 word" where
  "TransGetDataBufSize = MIN_BUF_LEN"

definition TransGetDataBufMaxSize :: "tdc_env \<Rightarrow> tdc_world \<Rightarrow> int \<times> tdc_world" where
  "TransGetDataBufMaxSize env w =
     (case t_config env of
        None \<Rightarrow> (SOFTBUS_ERR, w)
      | Some maxLen \<Rightarrow> (SOFTBUS_OK, w\<lparr>g_dataBufferMaxLen := maxLen + DATA_EXTEND_LEN\<rparr>))"

definition TransAddDataBufNode :: "tdc_env \<Rightarrow> int \<Rightarrow> int \<Rightarrow> tdc_world \<Rightarrow> int \<times> tdc_world" where
  "TransAddDataBufNode env ch fd w =
     (case g_tcpDataList w of
        None \<Rightarrow> (SOFTBUS_ERR, w)
      | Some l \<Rightarrow>
          if \<not> t_node env then (SOFTBUS_ERR, w)
          else if \<not> SoftBusCalloc (t_malloc env) TransGetDataBufSize then (SOFTBUS_ERR, w)
          else (SOFTBUS_OK, w\<lparr>g_tcpDataList := Some (sl_add \<lparr>cb_channelId = ch, cb_fd = fd, cb_size = TransGetDataBufSize,
                  cb_data = replicate (unat TransGetDataBufSize) 0, cb_w = 0\<rparr> l)\<rparr>))"

definition TransDelDataBufNode :: "int \<Rightarrow> tdc_world \<Rightarrow> int \<times> tdc_world" where
  "TransDelDataBufNode ch w =
     (case g_tcpDataList w of
        None \<Rightarrow> (SOFTBUS_ERR, w)
      | Some l \<Rightarrow> (SOFTBUS_OK, w\<lparr>g_tcpDataList := Some (sl_del_first (\<lambda>n. cb_channelId n = ch) l)\<rparr>))"

definition TransDestroyDataBuf :: "tdc_world \<Rightarrow> int \<times> tdc_world" where
  "TransDestroyDataBuf w =
     (case g_tcpDataList w of
        None \<Rightarrow> (SOFTBUS_ERR, w)
      | Some l \<Rightarrow> (SOFTBUS_OK, w\<lparr>g_tcpDataList := Some (sl_remove (\<lambda>n. True) l)\<rparr>))"

definition TransGetDataBufNodeById :: "int \<Rightarrow> tdc_world \<Rightarrow> ClientDataBuf option" where
  "TransGetDataBufNodeById ch w =
     (case g_tcpDataList w of None \<Rightarrow> None | Some l \<Rightarrow> find (\<lambda>n. cb_channelId n = ch) (lst l))"

definition set_buf :: "int \<Rightarrow> ClientDataBuf \<Rightarrow> tdc_world \<Rightarrow> tdc_world" where
  "set_buf ch node w = w\<lparr>g_tcpDataList := map_option (sl_upd_first (\<lambda>n. cb_channelId n = ch) (\<lambda>_. node)) (g_tcpDataList w)\<rparr>"

section \<open>Receiving\<close>

definition TransTdcSetPendingPacket :: "int \<Rightarrow> byte list \<Rightarrow> tdc_world \<Rightarrow> (int \<times> tdc_world) option" where
  "TransTdcSetPendingPacket ch data w =
     (if length data \<noteq> ACK_SIZE then Some (SOFTBUS_ERR, w)
      else do { (ret, p) \<leftarrow> SetPendingPacket ch (sint (le_word (rev data) :: 32 word)) PENDING_TYPE_DIRECT (tdc_pending w);
                Some (if ret \<noteq> SOFTBUS_OK then SOFTBUS_ERR else SOFTBUS_OK, w\<lparr>tdc_pending := p\<rparr>) })"

definition TransTdcProcessDataByFlag ::
  "tdc_env \<Rightarrow> 32 word \<Rightarrow> 32 word \<Rightarrow> TcpDirectChannelInfo \<Rightarrow> byte list \<Rightarrow> tdc_world \<Rightarrow> (int \<times> tdc_world) option" where
  "TransTdcProcessDataByFlag env flag sq c plain w =
     (if flag = FLAG_BYTES then ClientTransTdcOnDataReceived env (tc_channelId c) plain TRANS_SESSION_BYTES w
      else if flag = FLAG_ACK then
        do { (_, w1) \<leftarrow> TransTdcSetPendingPacket (tc_channelId c) plain w; Some (SOFTBUS_OK, w1) }
      else if flag = FLAG_MESSAGE then
        do { (_, w1) \<leftarrow> TransTdcSendAck env c sq w;
             ClientTransTdcOnDataReceived env (tc_channelId c) plain TRANS_SESSION_MESSAGE w1 }
      else Some (SOFTBUS_ERR, w))"

text \<open>
  Moving the rest of the buffer to its front; a length that became negative is refused as too large. The mutex of the buffers is not part
  of the state, since every branch but one releases it: when the buffer is gone the code returns with the mutex held. The only caller,
  \<^verbatim>\<open>TransTdcProcAllData\<close>, has just found the buffer, so that branch needs another thread that removes it in between, and runs of one
  thread never take it.
\<close>

definition TransTdcProcessData :: "tdc_env \<Rightarrow> int \<Rightarrow> tdc_world \<Rightarrow> (int \<times> tdc_world) option" where
  "TransTdcProcessData env ch w =
     do { cp \<leftarrow> TransTdcGetInfoById ch w;
          case cp of
            None \<Rightarrow> Some (SOFTBUS_ERR, w)
          | Some c \<Rightarrow>
              (if g_tcpDataList w = None then None
               else case TransGetDataBufNodeById ch w of
                 None \<Rightarrow> Some (SOFTBUS_ERR, w)
               | Some node \<Rightarrow>
                   if length (cb_data node) < DC_DATA_HEAD_SIZE then None
                   else
                     let pktHead = bytes_tcp_head (cb_data node); dataLen = ph_dataLen pktHead
                     in if \<not> SoftBusCalloc (t_malloc env) (dataLen - of_nat OVERHEAD_LEN) then Some (SOFTBUS_MALLOC_ERR, w)
                        else do {
                          (ret, plain) \<leftarrow> TransTdcDecrypt (t_gcm env) (td_sessionKey (tc_detail c))
                             (drop DC_DATA_HEAD_SIZE (cb_data node)) dataLen;
                          let pos = DC_DATA_HEAD_SIZE + unat dataLen; rest = cb_w node - pos
                          in if ret \<noteq> SOFTBUS_OK then Some (SOFTBUS_DECRYPT_ERR, w)
                             else if cb_w node < pos \<or> unat (cb_size node) < rest then Some (SOFTBUS_MEM_ERR, w)
                             else TransTdcProcessDataByFlag env (ph_flags pktHead) (ph_seq pktHead) c plain
                               (set_buf ch (node\<lparr>cb_data := take rest (drop pos (cb_data node)) @ drop rest (cb_data node),
                                                 cb_w := rest\<rparr>) w) }) }"

definition TransResizeDataBuffer :: "tdc_env \<Rightarrow> ClientDataBuf \<Rightarrow> 32 word \<Rightarrow> int \<times> ClientDataBuf" where
  "TransResizeDataBuffer env oldBuf pkgLen =
     (if \<not> SoftBusCalloc (t_malloc env) pkgLen then (SOFTBUS_MEM_ERR, oldBuf)
      else case memcpy_s (unat pkgLen) (take (cb_w oldBuf) (cb_data oldBuf)) of
             None \<Rightarrow> (SOFTBUS_MEM_ERR, oldBuf)
           | Some d \<Rightarrow> (SOFTBUS_OK, oldBuf\<lparr>cb_data := d @ replicate (unat pkgLen - length d) 0, cb_size := pkgLen\<rparr>))"

partial_function (option) TransTdcProcAllData :: "tdc_env \<Rightarrow> int \<Rightarrow> tdc_world \<Rightarrow> (int \<times> tdc_world) option" where
  "TransTdcProcAllData env ch w =
     (if g_tcpDataList w = None then None
      else case TransGetDataBufNodeById ch w of
        None \<Rightarrow> Some (SOFTBUS_ERR, w)
      | Some node \<Rightarrow>
          if cb_w node < DC_DATA_HEAD_SIZE then Some (SOFTBUS_DATA_NOT_ENOUGH, w)
          else if length (cb_data node) < DC_DATA_HEAD_SIZE then None
          else
            let pktHead = bytes_tcp_head (cb_data node); pkgLen = ph_dataLen pktHead + of_nat DC_DATA_HEAD_SIZE
            in if ph_magicNumber pktHead \<noteq> MAGIC_NUMBER then Some (SOFTBUS_ERR, w)
               else if pkgLen > g_dataBufferMaxLen w then Some (SOFTBUS_ERR, w)
               else if pkgLen > cb_size node then
                 (case TransResizeDataBuffer env node pkgLen of (ret, node') \<Rightarrow> Some (ret, set_buf ch node' w))
               else if cb_w node < unat pkgLen then Some (SOFTBUS_DATA_NOT_ENOUGH, w)
               else do { (ret, w1) \<leftarrow> TransTdcProcessData env ch w;
                         if ret \<noteq> SOFTBUS_OK then Some (SOFTBUS_ERR, w1)
                         else TransTdcProcAllData env ch w1 })"

text \<open>One call to receive: the state of the socket and the bytes that arrived; the bytes that are left are returned.\<close>

definition TransTdcRecvData ::
  "tdc_env \<Rightarrow> int \<Rightarrow> int \<times> recv_rc \<Rightarrow> byte list \<Rightarrow> tdc_world \<Rightarrow> ((int \<times> byte list) \<times> tdc_world) option" where
  "TransTdcRecvData env ch round rx w =
     (if g_tcpDataList w = None then None
      else case TransGetDataBufNodeById ch w of
        None \<Rightarrow> Some ((SOFTBUS_ERR, rx), w)
      | Some node \<Rightarrow>
          if unat (cb_size node) < cb_w node then None
          else
            (case OnRecvData round (cb_fd node) (unat (cb_size node) - cb_w node) 0 rx of
               (n, d, rx') \<Rightarrow>
                 if n \<le> 0 then Some ((SOFTBUS_ERR, rx'), w)
                 else if length (cb_data node) < cb_w node + length d then None
                 else do { (ret, w1) \<leftarrow> TransTdcProcAllData env ch
                             (set_buf ch (node\<lparr>cb_data := take (cb_w node) (cb_data node) @ d @ drop (cb_w node + length d) (cb_data node),
                                               cb_w := cb_w node + length d\<rparr>) w);
                           Some ((ret, rx'), w1) }))"

definition OnDataEvent ::
  "tdc_env \<Rightarrow> int \<Rightarrow> int \<Rightarrow> int \<times> recv_rc \<Rightarrow> byte list \<Rightarrow> tdc_world \<Rightarrow> ((int \<times> byte list) \<times> tdc_world) option" where
  "OnDataEvent env events fd round rx w =
     do { cp \<leftarrow> TransTdcGetInfoByFd fd w;
          case cp of
            None \<Rightarrow> Some ((SOFTBUS_ERR, rx), w)
          | Some c \<Rightarrow>
              if events = SOFTBUS_SOCKET_IN then
                do { ((ret, rx'), w1) \<leftarrow> TransTdcRecvData env (tc_channelId c) round rx w;
                     if ret = SOFTBUS_DATA_NOT_ENOUGH then Some ((SOFTBUS_OK, rx'), w1)
                     else if ret \<noteq> SOFTBUS_OK then
                       do { w2 \<leftarrow> TransTdcCloseChannel (tc_channelId c) (snd (TransDelDataBufNode (tc_channelId c) w1));
                            (_, w3) \<leftarrow> ClientTransTdcOnSessionClosed env (tc_channelId c) w2;
                            Some ((SOFTBUS_ERR, rx'), w3) }
                     else Some ((SOFTBUS_OK, rx'), w1) }
              else Some ((SOFTBUS_OK, rx), w) }"

section \<open>Opening and initialisation\<close>

definition TransTdcCreateListener :: "tdc_env \<Rightarrow> int \<Rightarrow> tdc_world \<Rightarrow> int \<times> tdc_world" where
  "TransTdcCreateListener env fd w =
     (if \<not> isInitedFlag w \<and> t_setListener env \<noteq> SOFTBUS_OK then (SOFTBUS_ERR, w\<lparr>isInitedFlag := True\<rparr>)
      else if \<not> isInitedFlag w \<and> t_startClient env < SOFTBUS_OK then (SOFTBUS_ERR, w\<lparr>isInitedFlag := True\<rparr>)
      else (t_addTrigger env, w\<lparr>isInitedFlag := True\<rparr>))"

definition TransGetNewTcpChannel :: "tdc_env \<Rightarrow> ChannelInfo \<Rightarrow> TcpDirectChannelInfo option" where
  "TransGetNewTcpChannel env ch =
     (if \<not> t_node env then None
      else case memcpy_s SESSION_KEY_LENGTH (take SESSION_KEY_LENGTH (ch_sessionKey ch)) of
             None \<Rightarrow> None
           | Some k \<Rightarrow> Some \<lparr>tc_channelId = ch_channelId ch,
               tc_detail = \<lparr>td_fd = ch_fd ch, td_channelType = ch_channelType ch, td_sequence = 0,
                 td_verifyInfo = \<lparr>maxSeq = 0, minSeq = 0, recvBitmap = 0\<rparr>, td_sessionKey = k\<rparr>\<rparr>)"

definition ClientTransTdcOnChannelOpened ::
  "tdc_env \<Rightarrow> string option \<Rightarrow> ChannelInfo option \<Rightarrow> tdc_world \<Rightarrow> (int \<times> tdc_world) option" where
  "ClientTransTdcOnChannelOpened env namep chp w =
     (case (namep, chp) of
        (Some name, Some ch) \<Rightarrow>
          do { l \<leftarrow> g_tcpDirectChannelInfoList w;
               if find (\<lambda>c. tc_channelId c = ch_channelId ch) (lst l) \<noteq> None then Some (SOFTBUS_ERR, w)
               else case TransGetNewTcpChannel env ch of
                 None \<Rightarrow> Some (SOFTBUS_ERR, w)
               | Some item \<Rightarrow>
                   (case TransAddDataBufNode env (ch_channelId ch) (ch_fd ch) w of
                      (ret, w1) \<Rightarrow>
                        if ret \<noteq> SOFTBUS_OK then Some (SOFTBUS_ERR, w1)
                        else (case TransTdcCreateListener env (ch_fd ch) w1 of
                                (ret, w2) \<Rightarrow>
                                  if ret \<noteq> SOFTBUS_OK \<or> t_keepAlive env \<noteq> SOFTBUS_OK
                                  then Some (SOFTBUS_ERR, snd (TransDelDataBufNode (ch_channelId ch) w2))
                                  else do {
                                    (ret, w3) \<leftarrow> ClientTransTdcOnSessionOpened env name ch
                                       (w2\<lparr>g_tcpDirectChannelInfoList := Some (l\<lparr>lst := item # lst l\<rparr>)\<rparr>);
                                    Some (if ret \<noteq> SOFTBUS_OK then SOFTBUS_ERR else SOFTBUS_OK, w3) })) }
      | _ \<Rightarrow> Some (SOFTBUS_ERR, w))"

definition TransDataListInit :: "tdc_env \<Rightarrow> tdc_world \<Rightarrow> int \<times> tdc_world" where
  "TransDataListInit env w =
     (if g_tcpDataList w \<noteq> None then (SOFTBUS_OK, w)
      else case TransGetDataBufMaxSize env w of
             (ret, w1) \<Rightarrow>
               if ret \<noteq> SOFTBUS_OK then (SOFTBUS_ERR, w1)
               else (case CreateSoftBusList (t_node env) (t_list env) of
                       None \<Rightarrow> (SOFTBUS_ERR, w1)
                     | Some l \<Rightarrow> (SOFTBUS_OK, w1\<lparr>g_tcpDataList := Some l\<rparr>)))"

definition TransDataListDeinit :: "tdc_world \<Rightarrow> tdc_world" where
  "TransDataListDeinit w =
     (if g_tcpDataList w = None then w else (snd (TransDestroyDataBuf w))\<lparr>g_tcpDataList := None\<rparr>)"

definition TransTdcManagerInit :: "tdc_env \<Rightarrow> bool \<Rightarrow> tdc_world \<Rightarrow> int \<times> tdc_world" where
  "TransTdcManagerInit env cb w =
     (let w0 = w\<lparr>g_tcpDirectChannelInfoList := CreateSoftBusList (t_node env) (t_list env)\<rparr>
      in if g_tcpDirectChannelInfoList w0 = None then (SOFTBUS_ERR, w0)
         else case TransDataListInit env w0 of
           (ret, w1) \<Rightarrow>
             if ret \<noteq> SOFTBUS_OK then (SOFTBUS_ERR, w1)
             else (case ClientTransTdcSetCallBack cb w1 of
                     (ret, w2) \<Rightarrow>
                       if ret \<noteq> SOFTBUS_OK then (SOFTBUS_ERR, w2)
                       else (case PendingInit (t_node env) (t_list env) PENDING_TYPE_DIRECT (tdc_pending w2) of
                               (ret, p) \<Rightarrow> (if ret = SOFTBUS_ERR then SOFTBUS_ERR else SOFTBUS_OK, w2\<lparr>tdc_pending := p\<rparr>))))"

definition TransTdcManagerDeinit :: "tdc_world \<Rightarrow> tdc_world" where
  "TransTdcManagerDeinit w =
     (if g_tcpDirectChannelInfoList w = None then w
      else (TransDataListDeinit w)\<lparr>g_tcpDirectChannelInfoList := None, tdc_pending := PendingDeinit PENDING_TYPE_DIRECT (tdc_pending w)\<rparr>)"

definition ClientTransTdcOnChannelOpenFailed :: "tdc_env \<Rightarrow> int \<Rightarrow> tdc_world \<Rightarrow> (int \<times> tdc_world) option" where
  "ClientTransTdcOnChannelOpenFailed env ch w = ClientTransTdcOnSessionOpenFailed env ch w"

definition TransTdcGetSessionKey :: "int \<Rightarrow> nat \<Rightarrow> tdc_world \<Rightarrow> (int \<times> byte list) option" where
  "TransTdcGetSessionKey ch len w =
     do { cp \<leftarrow> TransTdcGetInfoById ch w;
          case cp of
            None \<Rightarrow> Some (SOFTBUS_ERR, [])
          | Some c \<Rightarrow>
              (case memcpy_s len (take SESSION_KEY_LENGTH (td_sessionKey (tc_detail c))) of
                 None \<Rightarrow> Some (SOFTBUS_MEM_ERR, [])
               | Some k \<Rightarrow> Some (SOFTBUS_OK, k)) }"

definition TransTdcGetHandle :: "int \<Rightarrow> tdc_world \<Rightarrow> (int \<times> int option) option" where
  "TransTdcGetHandle ch w =
     do { cp \<leftarrow> TransTdcGetInfoById ch w;
          case cp of None \<Rightarrow> Some (SOFTBUS_ERR, None) | Some c \<Rightarrow> Some (SOFTBUS_OK, Some (td_fd (tc_detail c))) }"

definition TransDisableSessionListener :: "tdc_env \<Rightarrow> int \<Rightarrow> tdc_world \<Rightarrow> (int \<times> tdc_world) option" where
  "TransDisableSessionListener env ch w =
     do { cp \<leftarrow> TransTdcGetInfoById ch w;
          case cp of
            None \<Rightarrow> Some (SOFTBUS_ERR, w)
          | Some c \<Rightarrow> if td_fd (tc_detail c) < 0 then Some (SOFTBUS_ERR, w)
                      else Some (t_delTrigger env, tlog (TdcDelTrigger (td_fd (tc_detail c))) w) }"

section \<open>The invariant\<close>

text \<open>A buffer has the size it says and its write pointer inside; all pending lists are still there.\<close>

definition buf_ok :: "ClientDataBuf \<Rightarrow> bool" where
  "buf_ok n \<longleftrightarrow> length (cb_data n) = unat (cb_size n) \<and> cb_w n \<le> unat (cb_size n)"

definition pend_ok :: "pending_world \<Rightarrow> bool" where
  "pend_ok p \<longleftrightarrow> pending_inv p \<and> (\<forall>a < length (lists p). lists p ! a \<noteq> None)"

definition tdc_inv :: "tdc_world \<Rightarrow> bool" where
  "tdc_inv w \<longleftrightarrow> g_sessionCb w \<and> pend_ok (tdc_pending w) \<and>
     (\<exists>cl. g_tcpDirectChannelInfoList w = Some cl \<and> distinct (map tc_channelId (lst cl))) \<and>
     (\<exists>l. g_tcpDataList w = Some l \<and> wf_sl l \<and> (\<forall>n \<in> set (lst l). buf_ok n))"

text \<open>What the environment is assumed to do: calls to send return, with a value of type int from waiting for the socket, and the cipher and the generator behave as documented.\<close>

definition tdc_env_ok :: "tdc_env \<Rightarrow> bool" where
  "tdc_env_ok env \<longleftrightarrow> (\<forall>n fd len. SendTcpData (t_send env n) fd len \<noteq> None) \<and> (\<forall>n. - (2 ^ 31) \<le> fst (t_send env n)) \<and> gcm_ok (t_gcm env) (t_gcm env) \<and> rng_ok (t_rng env)"

lemma set_pend_ok:
  assumes "pend_ok p"
  obtains ret p' where "SetPendingPacket ch sq type p = Some (ret, p')" "pend_ok p'"
proof (cases "SetPendingPacket ch sq type p")
  case None
  with assms show thesis unfolding SetPendingPacket_def pend_ok_def
    by (auto split: if_splits option.splits elim: pending_invD)
next
  case (Some r)
  obtain ret p' where r: "r = (ret, p')" by (cases r) auto
  have "lists p' = lists p" using Some [unfolded r] by (cases rule: set_cases) auto
  with assms set_inv [of p ch sq type ret p'] Some r have "pend_ok p'" by (auto simp: pend_ok_def)
  with Some r that show thesis by auto
qed

lemma enter_pend_ok:
  assumes "pend_ok p"
  obtains res p' where "ProcPendingPacket_enter al ch sq type p = Some (res, p')" "pend_ok p'"
proof (cases "ProcPendingPacket_enter al ch sq type p")
  case None
  with assms show thesis unfolding ProcPendingPacket_enter_def pend_ok_def
    by (auto split: if_splits option.splits elim: pending_invD)
next
  case (Some r)
  obtain res p' where r: "r = (res, p')" by (cases r) auto
  have i: "pending_inv p" using assms by (simp add: pend_ok_def)
  from Some [unfolded r] i have "\<forall>a < length (lists p'). lists p' ! a \<noteq> None"
    by (cases rule: enter_cases) (use assms in \<open>auto simp: pend_ok_def nth_update_if\<close>)
  with enter_inv [OF i Some [unfolded r]] Some r that show thesis by (auto simp: pend_ok_def)
qed

lemma del_pend_ok: "pend_ok p \<Longrightarrow> DelPendingPacket ch type p \<noteq> None"
  unfolding DelPendingPacket_def pend_ok_def by (auto split: if_splits option.splits elim: pending_invD)

section \<open>No operation faults\<close>

lemma unat_small: "n < 2 ^ 32 \<Longrightarrow> unat (of_nat n :: 32 word) = n"
  by (simp add: unat_of_nat take_bit_nat_eq_self)

text \<open>What was encrypted has the expected length and decrypts to the input under the same key, whatever follows it.\<close>

lemma EncryptWithSeq_frame:
  assumes "TransTdcEncryptWithSeq lib env skey sq p g = ((SOFTBUS_OK, out), g')" "gcm_ok lib lib'" "rng_ok env"
    "length p + OVERHEAD_LEN < 2 ^ 31"
  shows "length out = length p + OVERHEAD_LEN \<and> p \<noteq> [] \<and>
    TransTdcDecrypt lib' skey (out @ rest) (of_nat (length out)) = Some (SOFTBUS_OK, p)"
proof -
  obtain k where k: "memcpy_s SESSION_KEY_LENGTH (take SESSION_KEY_LENGTH skey) = Some k"
    "SoftBusEncryptDataWithSeq lib env (tdc_cipher k) p (sint sq) g = ((SOFTBUS_OK, out), g')"
    using assms(1) by (auto simp: TransTdcEncryptWithSeq_def split: option.splits prod.splits if_splits)
  from encrypt_seq_frame [OF k(2) assms(2-4)] show ?thesis
    by (auto simp: TransTdcDecrypt_def k(1) SoftBusDecryptDataWithSeq_def)
qed

lemma malloc_bound:
  assumes "SoftBusMalloc malloc (of_nat n)" "n < 2 ^ 32"
  shows "n \<le> 512 * 1024 * 1024"
  using assms unat_small [of n] by (auto simp: SoftBusMalloc_def word_le_nat_alt not_less split: if_splits)

lemma PackData_cases:
  assumes "tdc_env_ok env" "length data < 2 ^ 31" "flags = FLAG_ACK \<longrightarrow> length data = ACK_SIZE"
    and "sq = (if flags = FLAG_ACK then le_word data else td_sequence (tc_detail c))"
    "d = (if flags = FLAG_ACK then rev (le_bytes 4 sq) else data)"
  obtains (failed) g' where "TransTdcPackData env c data flags g = Some (None, g')"
  | (packed) out g' where
    "TransTdcPackData env c data flags g = Some (Some (tcp_head_bytes \<lparr>ph_magicNumber = MAGIC_NUMBER, ph_seq = sq,
       ph_flags = flags, ph_dataLen = of_nat (length data + OVERHEAD_LEN)\<rparr> @ out), g')"
    "TransTdcEncryptWithSeq (t_gcm env) (t_rng env) (td_sessionKey (tc_detail c)) sq d g = ((SOFTBUS_OK, out), g')"
    "length data + 44 \<le> 512 * 1024 * 1024" "length d = length data" "length out = length data + OVERHEAD_LEN"
proof -
  define n where "n = length data"
  have d: "length d = n" using assms(3) by (simp add: assms(5) n_def)
  have u: "unat (of_nat n + 44 :: 32 word) = n + 44" using assms(2) unat_small [of "n + 44"] by (simp add: n_def)
  obtain ret out g1 where e: "TransTdcEncryptWithSeq (t_gcm env) (t_rng env) (td_sessionKey (tc_detail c)) sq d g = ((ret, out), g1)"
    by (metis surj_pair)
  have pack: "TransTdcPackData env c data flags g =
      (if \<not> SoftBusMalloc (t_malloc env) (of_nat n + 44) then Some (None, g)
       else if ret \<noteq> SOFTBUS_OK then Some (None, g1)
       else if n + 44 < 16 + length out then None
       else Some (Some (tcp_head_bytes \<lparr>ph_magicNumber = MAGIC_NUMBER, ph_seq = sq, ph_flags = flags,
         ph_dataLen = of_nat (n + 28)\<rparr> @ out), g1))"
    using e u assms(3) by (auto simp: TransTdcPackData_def Let_def add.assoc n_def simp flip: assms(4,5))
  show thesis
  proof (cases "SoftBusMalloc (t_malloc env) (of_nat n + 44) \<and> ret = SOFTBUS_OK")
    case True
    then have b: "n + 44 \<le> 512 * 1024 * 1024"
      using malloc_bound [of "t_malloc env" "n + 44"] assms(2) by (simp add: n_def)
    have ok: "gcm_ok (t_gcm env) (t_gcm env)" "rng_ok (t_rng env)" "length d + OVERHEAD_LEN < 2 ^ 31"
      using assms(1) b d by (simp_all add: tdc_env_ok_def)
    from e True have "TransTdcEncryptWithSeq (t_gcm env) (t_rng env) (td_sessionKey (tc_detail c)) sq d g = ((SOFTBUS_OK, out), g1)" by simp
    from EncryptWithSeq_frame [OF this ok] d have o: "length out = n + 28" by simp
    show thesis by (rule packed [of out g1]) (use pack True o e b d in \<open>simp_all add: n_def\<close>)
  qed (use pack failed in \<open>auto split: if_splits\<close>)
qed

lemma PostData_total:
  assumes "tdc_env_ok env" "length data < 2 ^ 31" "flags = FLAG_ACK \<longrightarrow> length data = ACK_SIZE"
  shows "\<exists>ret g n out. TransTdcProcessPostData env c data flags w = Some (ret, w\<lparr>tdc_rng := g, tdc_sends := n, tdc_log := out\<rparr>)"
  using assms(1-3) refl refl
proof (cases rule: PackData_cases [where g = "tdc_rng w" and c = c])
  case (failed g')
  then show ?thesis
    by (intro exI [of _ SOFTBUS_ENCRYPT_ERR] exI [of _ g'] exI [of _ "tdc_sends w"] exI [of _ "tdc_log w"])
      (simp add: TransTdcProcessPostData_def)
next
  case (packed out g')
  obtain r where "SendTcpData (t_send env (tdc_sends w)) (td_fd (tc_detail c)) (16 + length out) = Some r"
    using assms(1) unfolding tdc_env_ok_def by blast
  then show ?thesis by (simp add: TransTdcProcessPostData_def packed(1) tcp_head_bytes_def tlog_def add.commute) blast
qed

text \<open>Steps that leave lists and configuration alone.\<close>

definition same_core :: "tdc_world \<Rightarrow> tdc_world \<Rightarrow> bool" where
  "same_core w w' \<longleftrightarrow> g_tcpDirectChannelInfoList w' = g_tcpDirectChannelInfoList w \<and> g_tcpDataList w' = g_tcpDataList w \<and>
     g_dataBufferMaxLen w' = g_dataBufferMaxLen w \<and> g_sessionCb w' = g_sessionCb w"

lemma same_core_inv: "same_core w w' \<Longrightarrow> tdc_inv w \<Longrightarrow> pend_ok (tdc_pending w') \<Longrightarrow> tdc_inv w'"
  by (simp add: same_core_def tdc_inv_def)

lemma same_core_node: "same_core w w' \<Longrightarrow> TransGetDataBufNodeById ch w' = TransGetDataBufNodeById ch w"
  by (simp add: same_core_def TransGetDataBufNodeById_def)

lemma ByFlag_total:
  assumes "tdc_env_ok env" "tdc_inv w"
  obtains ret w' where "TransTdcProcessDataByFlag env flag sq c plain w = Some (ret, w')" "same_core w w'" "tdc_inv w'"
proof -
  have i: "g_sessionCb w" "pend_ok (tdc_pending w)" using assms(2) by (simp_all add: tdc_inv_def)
  consider "flag = FLAG_BYTES" | "flag = FLAG_ACK" | "flag = FLAG_MESSAGE" | "flag \<noteq> FLAG_BYTES" "flag \<noteq> FLAG_ACK" "flag \<noteq> FLAG_MESSAGE"
    by blast
  then have "\<exists>ret w'. TransTdcProcessDataByFlag env flag sq c plain w = Some (ret, w') \<and> same_core w w' \<and> pend_ok (tdc_pending w')"
  proof cases
    case 1
    then show ?thesis using i
      by (simp add: TransTdcProcessDataByFlag_def ClientTransTdcOnDataReceived_def same_core_def tlog_def)
  next
    case 2
    obtain ret p where "SetPendingPacket (tc_channelId c) (sint (le_word (rev plain) :: 32 word)) PENDING_TYPE_DIRECT (tdc_pending w) = Some (ret, p)"
      "pend_ok p" using set_pend_ok [OF i(2)] .
    then show ?thesis using 2 i
      by (simp add: TransTdcProcessDataByFlag_def TransTdcSetPendingPacket_def same_core_def)
  next
    case 3
    obtain ret g n out where "TransTdcProcessPostData env c (le_bytes 4 sq) FLAG_ACK w = Some (ret, w\<lparr>tdc_rng := g, tdc_sends := n, tdc_log := out\<rparr>)"
      using PostData_total [OF assms(1), of "le_bytes 4 sq" FLAG_ACK c w] by auto
    then show ?thesis using 3 i
      by (simp add: TransTdcProcessDataByFlag_def TransTdcSendAck_def ClientTransTdcOnDataReceived_def same_core_def tlog_def)
  next
    case 4
    then show ?thesis using i by (simp add: TransTdcProcessDataByFlag_def same_core_def)
  qed
  then show thesis using that same_core_inv [OF _ assms(2)] by blast
qed

lemma node_set_buf:
  assumes "TransGetDataBufNodeById ch w = Some n" "cb_channelId n' = ch"
  shows "TransGetDataBufNodeById ch (set_buf ch n' w) = Some n'"
  using assms find_upd_first_same [of "\<lambda>n. cb_channelId n = ch" "\<lambda>_. n'"]
  by (auto simp: TransGetDataBufNodeById_def set_buf_def split: option.splits)

lemma set_buf_inv:
  assumes "tdc_inv w" "buf_ok n"
  shows "tdc_inv (set_buf ch n w)"
proof -
  from assms(1) obtain l where l: "g_tcpDataList w = Some l" "wf_sl l" "\<forall>n \<in> set (lst l). buf_ok n" by (auto simp: tdc_inv_def)
  have "\<forall>m \<in> set (upd_first (\<lambda>n. cb_channelId n = ch) (\<lambda>_. n) (lst l)). buf_ok m"
    using l(3) assms(2) by (auto elim: in_upd_firstE)
  with l assms(1) show ?thesis by (auto simp: tdc_inv_def set_buf_def)
qed

lemma node_ok:
  assumes "tdc_inv w" "TransGetDataBufNodeById ch w = Some n"
  shows "buf_ok n \<and> cb_channelId n = ch \<and> g_tcpDataList w \<noteq> None"
  using assms by (auto simp: tdc_inv_def TransGetDataBufNodeById_def dest!: find_SomeD)

text \<open>The bytes received and not yet taken.\<close>

definition content :: "ClientDataBuf \<Rightarrow> byte list" where
  "content n = take (cb_w n) (cb_data n)"

lemma length_content: "buf_ok n \<Longrightarrow> length (content n) = cb_w n"
  by (simp add: content_def buf_ok_def)

lemma calloc_no_wrap:
  assumes "SoftBusCalloc malloc (dl - 28)"
  shows "28 < unat dl \<and> unat dl \<le> 512 * 1024 * 1024 + 28"
proof -
  have "dl - 28 \<noteq> 0" "dl - 28 \<le> 512 * 1024 * 1024"
    using assms by (auto simp: SoftBusCalloc_def SoftBusMalloc_def split: if_splits)
  moreover from this(2) have u: "unat (dl - 28) \<le> 512 * 1024 * 1024" by (simp add: word_le_nat_alt)
  moreover have "unat dl = unat (dl - 28) + 28"
  proof -
    have "unat ((dl - 28) + 28) = unat (dl - 28) + unat (28 :: 32 word)"
      by (subst unat_add_lem [THEN iffD1]) (use u in simp_all)
    then show ?thesis by simp
  qed
  ultimately show ?thesis by (simp add: unat_eq_0 [symmetric] del: unat_eq_0)
qed

text \<open>The buffer after its first packet was taken.\<close>

definition taken :: "nat \<Rightarrow> ClientDataBuf \<Rightarrow> ClientDataBuf" where
  "taken pos n = n\<lparr>cb_data := take (cb_w n - pos) (drop pos (cb_data n)) @ drop (cb_w n - pos) (cb_data n), cb_w := cb_w n - pos\<rparr>"

lemma taken_props:
  assumes "buf_ok n" "pos \<le> cb_w n"
  shows "buf_ok (taken pos n)" "cb_w (taken pos n) = cb_w n - pos" "content (taken pos n) = drop pos (content n)"
    "cb_channelId (taken pos n) = cb_channelId n" "cb_size (taken pos n) = cb_size n" "cb_fd (taken pos n) = cb_fd n"
  using assms by (auto simp: taken_def buf_ok_def content_def drop_take)

lemma ProcessData_eq:
  assumes "TransTdcGetInfoById ch w = Some (Some c)" "TransGetDataBufNodeById ch w = Some n" "tdc_inv w" "16 \<le> cb_w n"
    "dl = ph_dataLen (bytes_tcp_head (cb_data n))"
  shows "TransTdcProcessData env ch w =
    (if \<not> SoftBusCalloc (t_malloc env) (dl - 28) then Some (SOFTBUS_MALLOC_ERR, w)
     else do { (ret, plain) \<leftarrow> TransTdcDecrypt (t_gcm env) (td_sessionKey (tc_detail c)) (drop 16 (cb_data n)) dl;
               if ret \<noteq> SOFTBUS_OK then Some (SOFTBUS_DECRYPT_ERR, w)
               else if cb_w n < 16 + unat dl then Some (SOFTBUS_MEM_ERR, w)
               else TransTdcProcessDataByFlag env (ph_flags (bytes_tcp_head (cb_data n))) (ph_seq (bytes_tcp_head (cb_data n))) c plain
                 (set_buf ch (taken (16 + unat dl) n) w) })"
proof -
  have b: "buf_ok n" "g_tcpDataList w \<noteq> None" using node_ok [OF assms(3,2)] by simp_all
  then have "16 \<le> length (cb_data n)" "\<not> unat (cb_size n) < cb_w n - (16 + unat dl)" using assms(4) by (auto simp: buf_ok_def)
  then show ?thesis using assms(1,2,5) b(2)
    by (auto simp: TransTdcProcessData_def Let_def taken_def split: Option.bind_split)
qed

lemma Decrypt_total:
  assumes "unat dl \<le> length mem"
  shows "TransTdcDecrypt lib k mem dl \<noteq> None"
  using assms
  by (auto simp: TransTdcDecrypt_def SoftBusDecryptData_def MbedAesGcmDecrypt_def Let_def memcpy_s_def word_less_nat_alt
      split: option.splits prod.splits if_splits)

lemma ProcessData_total:
  assumes "tdc_env_ok env" "tdc_inv w" "TransGetDataBufNodeById ch w = Some n" "16 \<le> cb_w n"
    "unat (ph_dataLen (bytes_tcp_head (cb_data n)) + 16) \<le> cb_w n"
  obtains ret w' where "TransTdcProcessData env ch w = Some (ret, w')" "tdc_inv w'"
    "ret = SOFTBUS_OK \<longrightarrow> (\<exists>n'. TransGetDataBufNodeById ch w' = Some n' \<and> cb_w n' < cb_w n)"
proof -
  obtain cp where cp: "TransTdcGetInfoById ch w = Some cp" using assms(2) by (auto simp: tdc_inv_def TransTdcGetInfoById_def)
  have b: "buf_ok n" "cb_channelId n = ch" using node_ok [OF assms(2,3)] by simp_all
  define dl where "dl = ph_dataLen (bytes_tcp_head (cb_data n))"
  have "\<exists>ret w'. TransTdcProcessData env ch w = Some (ret, w') \<and> tdc_inv w' \<and>
    (ret = SOFTBUS_OK \<longrightarrow> (\<exists>n'. TransGetDataBufNodeById ch w' = Some n' \<and> cb_w n' < cb_w n))"
  proof (cases "cp = None \<or> \<not> SoftBusCalloc (t_malloc env) (dl - 28)")
    case True
    then show ?thesis using cp assms(2) ProcessData_eq [OF _ assms(3,2,4) refl]
      by (cases cp) (auto simp: TransTdcProcessData_def dl_def)
  next
    case False
    then obtain c where c: "TransTdcGetInfoById ch w = Some (Some c)" using cp by auto
    have u: "unat dl + 16 \<le> cb_w n"
    proof -
      have "unat dl + 16 < 2 ^ 32" using False calloc_no_wrap by fastforce
      then have "unat (dl + 16) = unat dl + 16" by (subst unat_add_lem [THEN iffD1]) simp_all
      with assms(5) show ?thesis by (simp add: dl_def)
    qed
    then have "unat dl \<le> length (drop 16 (cb_data n))" using b by (auto simp: buf_ok_def)
    then obtain r plain where d: "TransTdcDecrypt (t_gcm env) (td_sessionKey (tc_detail c)) (drop 16 (cb_data n)) dl = Some (r, plain)"
      using Decrypt_total by fastforce
    let ?w = "set_buf ch (taken (16 + unat dl) n) w"
    have t: "buf_ok (taken (16 + unat dl) n)" "cb_w (taken (16 + unat dl) n) = cb_w n - (16 + unat dl)"
      "cb_channelId (taken (16 + unat dl) n) = ch"
      using taken_props [OF b(1), of "16 + unat dl"] u b(2) by (simp_all add: add.commute)
    obtain ret w' where f: "TransTdcProcessDataByFlag env (ph_flags (bytes_tcp_head (cb_data n))) (ph_seq (bytes_tcp_head (cb_data n))) c plain ?w
        = Some (ret, w')" "same_core ?w w'" "tdc_inv w'"
      using ByFlag_total [OF assms(1) set_buf_inv [OF assms(2) t(1)]] .
    have "TransGetDataBufNodeById ch w' = Some (taken (16 + unat dl) n)"
      using same_core_node [OF f(2)] node_set_buf [OF assms(3) t(3)] by simp
    moreover have "cb_w (taken (16 + unat dl) n) < cb_w n" using t(2) assms(4) by simp
    ultimately show ?thesis
      using ProcessData_eq [OF c assms(3,2,4) dl_def] False d f u assms(2) by (auto simp: not_less)
  qed
  then show thesis using that by blast
qed

lemma Resize_ok:
  assumes "buf_ok n" "TransResizeDataBuffer env n pkgLen = (ret, n')"
  shows "buf_ok n' \<and> cb_channelId n' = cb_channelId n"
  using assms by (auto simp: TransResizeDataBuffer_def buf_ok_def memcpy_s_def split: if_splits option.splits)

lemma ProcAllData_total:
  assumes "tdc_env_ok env" "tdc_inv w" "TransGetDataBufNodeById ch w = Some n"
  shows "\<exists>ret w'. TransTdcProcAllData env ch w = Some (ret, w') \<and> tdc_inv w'"
  using assms(2,3)
proof (induction "cb_w n" arbitrary: n w rule: less_induct)
  case less
  have b: "buf_ok n" "cb_channelId n = ch" "g_tcpDataList w \<noteq> None" using node_ok [OF less.prems] by simp_all
  let ?h = "bytes_tcp_head (cb_data n)"
  let ?p = "ph_dataLen ?h + 16"
  note unf = TransTdcProcAllData.simps [of env ch w]
  show ?case
  proof (cases "cb_w n < 16 \<or> ph_magicNumber ?h \<noteq> MAGIC_NUMBER \<or> ?p > g_dataBufferMaxLen w \<or> ?p > cb_size n \<or> cb_w n < unat ?p")
    case True
    obtain r n' where rz: "TransResizeDataBuffer env n ?p = (r, n')" by fastforce
    show ?thesis
      using True less.prems b set_buf_inv [OF less.prems(1), of n' ch] Resize_ok [OF b(1) rz]
      by (subst unf) (auto simp: Let_def rz buf_ok_def)
  next
    case False
    then have k: "16 \<le> cb_w n" "unat ?p \<le> cb_w n" by simp_all
    obtain ret w' where p: "TransTdcProcessData env ch w = Some (ret, w')" "tdc_inv w'"
      "ret = SOFTBUS_OK \<longrightarrow> (\<exists>n'. TransGetDataBufNodeById ch w' = Some n' \<and> cb_w n' < cb_w n)"
      using ProcessData_total [OF assms(1) less.prems k] .
    have len: "16 \<le> length (cb_data n)" using k(1) b(1) by (simp add: buf_ok_def)
    show ?thesis
    proof (cases "ret = SOFTBUS_OK")
      case True
      with p(3) obtain n' where "TransGetDataBufNodeById ch w' = Some n'" "cb_w n' < cb_w n" by blast
      from less.hyps [OF this(2) p(2) this(1)] show ?thesis
        using False less.prems b len p(1) True by (subst unf) (simp add: Let_def)
    qed (use False less.prems b len p in \<open>subst unf, simp add: Let_def\<close>)
  qed
qed

lemma OnRecvData_take:
  assumes "OnRecvData round fd len 0 rx = (n, d, rx')"
  shows "length d \<le> len" "0 < n \<Longrightarrow> d \<noteq> [] \<and> d @ rx' = rx"
proof -
  have "take m rx @ drop (min (length rx) m) rx = rx" for m by (cases "m \<le> length rx") simp_all
  then show "length d \<le> len" "0 < n \<Longrightarrow> d \<noteq> [] \<and> d @ rx' = rx"
    using assms by (auto simp: OnRecvData_def Let_def split: if_splits recv_rc.splits)
qed

text \<open>The buffer after bytes arrived.\<close>

definition filled :: "byte list \<Rightarrow> ClientDataBuf \<Rightarrow> ClientDataBuf" where
  "filled d n = n\<lparr>cb_data := take (cb_w n) (cb_data n) @ d @ drop (cb_w n + length d) (cb_data n), cb_w := cb_w n + length d\<rparr>"

lemma filled_props:
  assumes "buf_ok n" "cb_w n + length d \<le> unat (cb_size n)"
  shows "buf_ok (filled d n)" "cb_w (filled d n) = cb_w n + length d" "content (filled d n) = content n @ d"
    "cb_channelId (filled d n) = cb_channelId n" "cb_size (filled d n) = cb_size n" "cb_fd (filled d n) = cb_fd n"
  using assms by (auto simp: filled_def buf_ok_def content_def)

lemma RecvData_eq:
  assumes "tdc_inv w" "TransGetDataBufNodeById ch w = Some n" "OnRecvData round (cb_fd n) (unat (cb_size n) - cb_w n) 0 rx = (k, d, rx')"
  shows "TransTdcRecvData env ch round rx w =
    (if k \<le> 0 then Some ((SOFTBUS_ERR, rx'), w)
     else do { (ret, w1) \<leftarrow> TransTdcProcAllData env ch (set_buf ch (filled d n) w); Some ((ret, rx'), w1) })"
    and "cb_w n + length d \<le> unat (cb_size n)"
proof -
  have b: "buf_ok n" "g_tcpDataList w \<noteq> None" using node_ok [OF assms(1,2)] by simp_all
  then show l: "cb_w n + length d \<le> unat (cb_size n)" using OnRecvData_take(1) [OF assms(3)] by (auto simp: buf_ok_def)
  show "TransTdcRecvData env ch round rx w =
    (if k \<le> 0 then Some ((SOFTBUS_ERR, rx'), w)
     else do { (ret, w1) \<leftarrow> TransTdcProcAllData env ch (set_buf ch (filled d n) w); Some ((ret, rx'), w1) })"
    using b l assms(2,3) by (auto simp: TransTdcRecvData_def filled_def buf_ok_def)
qed

lemma RecvData_total:
  assumes "tdc_env_ok env" "tdc_inv w"
  shows "\<exists>ret rx' w'. TransTdcRecvData env ch round rx w = Some ((ret, rx'), w') \<and> tdc_inv w'"
proof (cases "TransGetDataBufNodeById ch w")
  case None
  then show ?thesis using assms(2) by (auto simp: TransTdcRecvData_def tdc_inv_def)
next
  case (Some n)
  have b: "buf_ok n" "cb_channelId n = ch" using node_ok [OF assms(2) Some] by simp_all
  obtain k d rx' where r: "OnRecvData round (cb_fd n) (unat (cb_size n) - cb_w n) 0 rx = (k, d, rx')" by (metis surj_pair)
  note e = RecvData_eq [OF assms(2) Some r]
  note f = filled_props [OF b(1) e(2)]
  have "TransGetDataBufNodeById ch (set_buf ch (filled d n) w) = Some (filled d n)" using node_set_buf [OF Some] f(4) b(2) by simp
  from ProcAllData_total [OF assms(1) set_buf_inv [OF assms(2) f(1)] this] show ?thesis
    using assms(2) unfolding e(1) by (cases "k \<le> 0") auto
qed

lemma DelDataBufNode_inv: "tdc_inv w \<Longrightarrow> tdc_inv (snd (TransDelDataBufNode ch w))"
  unfolding tdc_inv_def TransDelDataBufNode_def using in_del_firstD by fastforce

lemma tlog_inv [simp]: "tdc_inv (tlog a w) = tdc_inv w"
  by (simp add: tdc_inv_def tlog_def)

lemma ReleaseFd_core: "same_core w (TransTdcReleaseFd fd w) \<and> tdc_pending (TransTdcReleaseFd fd w) = tdc_pending w"
  by (simp add: TransTdcReleaseFd_def same_core_def tlog_def)

lemma CloseChannel_total:
  assumes "tdc_inv w"
  shows "\<exists>w'. TransTdcCloseChannel ch w = Some w' \<and> tdc_inv w' \<and> TransTdcGetInfoById ch w' = Some None \<and> g_tcpDataList w' = g_tcpDataList w"
proof -
  obtain cl where cl: "g_tcpDirectChannelInfoList w = Some cl" "distinct (map tc_channelId (lst cl))" "pend_ok (tdc_pending w)"
    using assms by (auto simp: tdc_inv_def)
  show ?thesis
  proof (cases "find (\<lambda>c. tc_channelId c = ch) (lst cl)")
    case None
    then show ?thesis using cl assms by (simp add: TransTdcCloseChannel_def TransTdcGetInfoById_def)
  next
    case (Some c)
    obtain r where "DelPendingPacket ch PENDING_TYPE_DIRECT (tdc_pending w) = Some r" using del_pend_ok [OF cl(3)] by blast
    then show ?thesis
      using Some cl assms ReleaseFd_core [of w "td_fd (tc_detail c)"] find_del_first_same [OF cl(2), of ch]
        distinct_map_del_first [OF cl(2), of "\<lambda>c. tc_channelId c = ch"]
      by (auto simp: TransTdcCloseChannel_def Let_def TransTdcGetInfoById_def tdc_inv_def same_core_def)
  qed
qed

lemma OnDataEvent_total:
  assumes "tdc_env_ok env" "tdc_inv w"
  shows "\<exists>ret rx' w'. OnDataEvent env events fd round rx w = Some ((ret, rx'), w') \<and> tdc_inv w'"
proof -
  obtain cp where cp: "TransTdcGetInfoByFd fd w = Some cp" using assms(2) by (auto simp: tdc_inv_def TransTdcGetInfoByFd_def)
  show ?thesis
  proof (cases "cp = None \<or> events \<noteq> SOFTBUS_SOCKET_IN")
    case True
    then show ?thesis using cp assms(2) by (cases cp) (auto simp: OnDataEvent_def)
  next
    case False
    then obtain c where c: "cp = Some c" by auto
    obtain ret rx' w1 where r: "TransTdcRecvData env (tc_channelId c) round rx w = Some ((ret, rx'), w1)" "tdc_inv w1"
      using RecvData_total [OF assms] by blast
    obtain w2 where d: "TransTdcCloseChannel (tc_channelId c) (snd (TransDelDataBufNode (tc_channelId c) w1)) = Some w2" "tdc_inv w2"
      using CloseChannel_total [OF DelDataBufNode_inv [OF r(2)]] by blast
    then have "g_sessionCb w2" by (simp add: tdc_inv_def)
    then show ?thesis using cp False c r d by (simp add: OnDataEvent_def ClientTransTdcOnSessionClosed_def)
  qed
qed

lemma IncSeq_inv:
  assumes "tdc_inv w"
  obtains cp w' where "TransTdcGetInfoByIdWithIncSeq ch w = Some (cp, w')" "tdc_inv w'" "tdc_pending w' = tdc_pending w"
proof -
  obtain cl where cl: "g_tcpDirectChannelInfoList w = Some cl" "distinct (map tc_channelId (lst cl))" using assms by (auto simp: tdc_inv_def)
  have "map tc_channelId (upd_first (\<lambda>c. tc_channelId c = ch) (upd_detail f) (lst cl)) = map tc_channelId (lst cl)" for f
    by (rule map_upd_first) (simp add: upd_detail_def)
  then show thesis using that assms cl by (auto simp: TransTdcGetInfoByIdWithIncSeq_def tdc_inv_def)
qed

lemma SendBytes_total:
  assumes "tdc_env_ok env" "tdc_inv w" "length data < 2 ^ 31"
  shows "\<exists>ret w'. TransTdcSendBytes env ch data w = Some (ret, w') \<and> tdc_inv w'"
proof -
  obtain cp w1 where i: "TransTdcGetInfoByIdWithIncSeq ch w = Some (cp, w1)" "tdc_inv w1" using IncSeq_inv [OF assms(2)] by metis
  show ?thesis
  proof (cases cp)
    case (Some c)
    obtain ret g n out where "TransTdcProcessPostData env c data FLAG_BYTES w1 = Some (ret, w1\<lparr>tdc_rng := g, tdc_sends := n, tdc_log := out\<rparr>)"
      using PostData_total [OF assms(1,3), of FLAG_BYTES c w1] by auto
    then show ?thesis using i Some by (simp add: TransTdcSendBytes_def tdc_inv_def)
  qed (use i in \<open>simp add: TransTdcSendBytes_def\<close>)
qed

lemma SendMessage_total:
  assumes "tdc_env_ok env" "tdc_inv w" "length data < 2 ^ 31"
  shows "\<exists>res w'. TransTdcSendMessage env ch data w = Some (res, w') \<and> tdc_inv w'"
proof -
  obtain cp w1 where i: "TransTdcGetInfoByIdWithIncSeq ch w = Some (cp, w1)" "tdc_inv w1" using IncSeq_inv [OF assms(2)] by metis
  show ?thesis
  proof (cases cp)
    case (Some c)
    obtain ret g n out where p: "TransTdcProcessPostData env c data FLAG_MESSAGE w1 = Some (ret, w1\<lparr>tdc_rng := g, tdc_sends := n, tdc_log := out\<rparr>)"
      using PostData_total [OF assms(1,3), of FLAG_MESSAGE c w1] by auto
    obtain res q where "ProcPendingPacket_enter (t_node env) ch (sint (td_sequence (tc_detail c))) PENDING_TYPE_DIRECT (tdc_pending w1) = Some (res, q)"
      "pend_ok q" using enter_pend_ok i(2) by (metis tdc_inv_def)
    then show ?thesis using i Some p by (simp add: TransTdcSendMessage_def tdc_inv_def)
  qed (use i in \<open>simp add: TransTdcSendMessage_def\<close>)
qed

lemma AddDataBufNode_inv:
  assumes "tdc_inv w" "TransAddDataBufNode env ch fd w = (ret, w')"
  shows "tdc_inv w' \<and> g_tcpDirectChannelInfoList w' = g_tcpDirectChannelInfoList w"
  using assms by (auto simp: TransAddDataBufNode_def tdc_inv_def buf_ok_def split: option.splits if_splits)

lemma ChannelOpened_total:
  assumes "tdc_inv w"
  shows "\<exists>ret w'. ClientTransTdcOnChannelOpened env namep chp w = Some (ret, w') \<and> tdc_inv w'"
proof (cases "\<exists>name ch item cl. namep = Some name \<and> chp = Some ch \<and> g_tcpDirectChannelInfoList w = Some cl \<and>
    find (\<lambda>c. tc_channelId c = ch_channelId ch) (lst cl) = None \<and> TransGetNewTcpChannel env ch = Some item")
  case False
  then show ?thesis using assms
    by (auto simp: ClientTransTdcOnChannelOpened_def tdc_inv_def split: option.splits)
next
  case True
  then obtain name ch item cl where h: "namep = Some name" "chp = Some ch" "g_tcpDirectChannelInfoList w = Some cl"
    "find (\<lambda>c. tc_channelId c = ch_channelId ch) (lst cl) = None" "TransGetNewTcpChannel env ch = Some item" by blast
  obtain r1 w1 where a: "TransAddDataBufNode env (ch_channelId ch) (ch_fd ch) w = (r1, w1)" by fastforce
  obtain r2 w2 where l: "TransTdcCreateListener env (ch_fd ch) w1 = (r2, w2)" by fastforce
  have w1: "tdc_inv w1" "g_tcpDirectChannelInfoList w1 = Some cl" using AddDataBufNode_inv [OF assms a] h(3) by simp_all
  have "w2 = w1\<lparr>isInitedFlag := True\<rparr>" using l by (auto simp: TransTdcCreateListener_def split: if_splits)
  then have w2: "tdc_inv w2" "g_tcpDirectChannelInfoList w2 = Some cl" "g_sessionCb w2" using w1 by (auto simp: tdc_inv_def)
  have "tc_channelId item = ch_channelId ch"
    using h(5) by (auto simp: TransGetNewTcpChannel_def split: if_splits option.splits)
  then have "tdc_inv (w2\<lparr>g_tcpDirectChannelInfoList := Some (cl\<lparr>lst := item # lst cl\<rparr>)\<rparr>)"
    using w2 h(4) by (auto simp: tdc_inv_def find_None_iff)
  then show ?thesis using h a l w1 w2 DelDataBufNode_inv [OF w2(1)]
    by (simp add: ClientTransTdcOnChannelOpened_def ClientTransTdcOnSessionOpened_def)
qed

lemma wake_leave_pend_ok:
  assumes "pend_ok p" "i < length (threads p)"
  shows "th_pc (threads p ! i) = Waiting \<Longrightarrow> pend_ok (ProcPendingPacket_wake i p)"
    and "th_pc (threads p ! i) = Woken r \<Longrightarrow> \<exists>ret p'. ProcPendingPacket_leave i p = Some (ret, p') \<and> pend_ok p'"
proof -
  have i: "pending_inv p" "\<forall>a < length (lists p). lists p ! a \<noteq> None" using assms(1) by (simp_all add: pend_ok_def)
  show "pend_ok (ProcPendingPacket_wake i p)" if "th_pc (threads p ! i) = Waiting"
    using i wake_inv [OF i(1) that] by (simp add: pend_ok_def ProcPendingPacket_wake_def)
  show "\<exists>ret p'. ProcPendingPacket_leave i p = Some (ret, p') \<and> pend_ok p'" if w: "th_pc (threads p ! i) = Woken r"
  proof -
    have "th_list (threads p ! i) < length (lists p)" using i(1) assms(2) by (simp add: pending_inv_def)
    then obtain ret p' where l: "ProcPendingPacket_leave i p = Some (ret, p')"
      using i(2) w by (force simp: ProcPendingPacket_leave_def)
    from l i(1) assms(2) have "\<forall>a < length (lists p'). lists p' ! a \<noteq> None"
      by (cases rule: leave_cases) (use i(2) in \<open>auto simp: nth_update_if\<close>)
    with leave_inv [OF i(1) assms(2) l] l show ?thesis by (simp add: pend_ok_def)
  qed
qed

text \<open>Everything that can happen to the component between initialisation and the end: requests of the client and of the service, socket
  events, and the waiting senders that wake up and leave.\<close>

datatype tdc_op =
    TdcOpen "string option" "ChannelInfo option"
  | TdcFail int
  | TdcSendBytes int "byte list"
  | TdcSendMessage int "byte list"
  | TdcEvent int int "int \<times> recv_rc" "byte list"
  | TdcClose int
  | TdcDisable int
  | TdcWake nat
  | TdcLeave nat

fun tdc_exec :: "tdc_env \<Rightarrow> tdc_op \<Rightarrow> tdc_world \<Rightarrow> tdc_world option" where
  "tdc_exec env (TdcOpen name ch) w = map_option snd (ClientTransTdcOnChannelOpened env name ch w)"
| "tdc_exec env (TdcFail ch) w = map_option snd (ClientTransTdcOnChannelOpenFailed env ch w)"
| "tdc_exec env (TdcSendBytes ch data) w = map_option snd (TransTdcSendBytes env ch data w)"
| "tdc_exec env (TdcSendMessage ch data) w = map_option snd (TransTdcSendMessage env ch data w)"
| "tdc_exec env (TdcEvent events fd round rx) w = map_option snd (OnDataEvent env events fd round rx w)"
| "tdc_exec env (TdcClose ch) w = TransTdcCloseChannel ch w"
| "tdc_exec env (TdcDisable ch) w = map_option snd (TransDisableSessionListener env ch w)"
| "tdc_exec env (TdcWake i) w =
     Some (if i < length (threads (tdc_pending w)) \<and> th_pc (threads (tdc_pending w) ! i) = Waiting
           then w\<lparr>tdc_pending := ProcPendingPacket_wake i (tdc_pending w)\<rparr> else w)"
| "tdc_exec env (TdcLeave i) w =
     (if i < length (threads (tdc_pending w)) \<and> (\<exists>r. th_pc (threads (tdc_pending w) ! i) = Woken r)
      then map_option (\<lambda>(ret, p). w\<lparr>tdc_pending := p\<rparr>) (ProcPendingPacket_leave i (tdc_pending w)) else Some w)"

fun tdc_run :: "(tdc_env \<times> tdc_op) list \<Rightarrow> tdc_world \<Rightarrow> tdc_world option" where
  "tdc_run [] w = Some w"
| "tdc_run ((env, a) # as) w = Option.bind (tdc_exec env a w) (tdc_run as)"

fun tdc_op_ok :: "tdc_op \<Rightarrow> bool" where
  "tdc_op_ok (TdcSendBytes ch data) = (length data < 2 ^ 31)"
| "tdc_op_ok (TdcSendMessage ch data) = (length data < 2 ^ 31)"
| "tdc_op_ok _ = True"

lemma tdc_exec_total:
  assumes "tdc_env_ok env" "tdc_inv w" "tdc_op_ok a"
  shows "\<exists>w'. tdc_exec env a w = Some w' \<and> tdc_inv w'"
proof -
  have i: "g_sessionCb w" "pend_ok (tdc_pending w)" "g_tcpDirectChannelInfoList w \<noteq> None" using assms(2) by (auto simp: tdc_inv_def)
  show ?thesis
  proof (cases a)
    case (TdcOpen name ch)
    then show ?thesis using ChannelOpened_total [OF assms(2)] by force
  next
    case (TdcFail ch)
    then show ?thesis using i assms(2) by (simp add: ClientTransTdcOnChannelOpenFailed_def ClientTransTdcOnSessionOpenFailed_def)
  next
    case (TdcSendBytes ch data)
    then show ?thesis using SendBytes_total [OF assms(1,2), of data ch] assms(3) by force
  next
    case (TdcSendMessage ch data)
    then show ?thesis using SendMessage_total [OF assms(1,2), of data ch] assms(3) by force
  next
    case (TdcEvent events fd round rx)
    then show ?thesis using OnDataEvent_total [OF assms(1,2)] by fastforce
  next
    case (TdcClose ch)
    then show ?thesis using CloseChannel_total [OF assms(2)] by auto
  next
    case (TdcDisable ch)
    then show ?thesis using i assms(2)
      by (auto simp: TransDisableSessionListener_def TransTdcGetInfoById_def split: option.splits)
  next
    case (TdcWake k)
    then show ?thesis using assms(2) wake_leave_pend_ok(1) [OF i(2)] by (auto simp: tdc_inv_def)
  next
    case (TdcLeave k)
    then show ?thesis using assms(2) wake_leave_pend_ok(2) [OF i(2)] by (fastforce simp: tdc_inv_def)
  qed
qed

lemma tdc_run_total:
  "tdc_inv w \<Longrightarrow> \<forall>(env, a) \<in> set as. tdc_env_ok env \<and> tdc_op_ok a \<Longrightarrow> \<exists>w'. tdc_run as w = Some w' \<and> tdc_inv w'"
proof (induction as arbitrary: w)
  case (Cons x as)
  obtain env a where x: "x = (env, a)" by fastforce
  obtain w1 where "tdc_exec env a w = Some w1" "tdc_inv w1" using tdc_exec_total [of env w a] Cons.prems by (auto simp: x)
  with Cons.IH [of w1] Cons.prems show ?case by (auto simp: x)
qed simp

lemma ManagerInit_inv:
  assumes "TransTdcManagerInit env cb w0 = (SOFTBUS_OK, w)" "g_tcpDataList w0 = None" "tdc_pending w0 = pending_start"
  shows "tdc_inv w"
proof -
  obtain w1 r p where i: "w = w1\<lparr>tdc_pending := p\<rparr>" "PendingInit (t_node env) (t_list env) PENDING_TYPE_DIRECT pending_start = (r, p)" "r \<noteq> SOFTBUS_ERR"
    "g_sessionCb w1" "\<exists>cl. g_tcpDirectChannelInfoList w1 = Some cl \<and> lst cl = []" "\<exists>l. g_tcpDataList w1 = Some l \<and> wf_sl l \<and> lst l = []"
    using assms wf_sl_create
    by (auto simp: TransTdcManagerInit_def Let_def TransDataListInit_def TransGetDataBufMaxSize_def ClientTransTdcSetCallBack_def
        CreateSoftBusList_def wf_sl_def split: if_splits option.splits prod.splits)
  have "pending_inv p" using PendingInit_inv [OF pending_start_inv i(2)] .
  moreover have "\<forall>a < length (lists p). lists p ! a \<noteq> None"
    using i(2,3) by (auto simp: PendingInit_def pending_start_def split: if_splits option.splits)
  ultimately show ?thesis using i by (auto simp: tdc_inv_def pend_ok_def)
qed

text \<open>C14: After a successful initialisation no sequence of operations makes the direct TCP channels of a client fault: no
  null pointer is used, no block is read or written outside its bounds, and every loop over a receive buffer ends, whatever bytes
  the peers send on the sockets and however allocations, ciphers, sockets and client functions turn out. Only calls to send
  have to return, the cipher and the random generator have to keep to their documented lengths, and the client may not send more than
  a signed length can say. All buffers stay well-formed, the channel numbers unique, and the count of the buffers exact.\<close>

theorem tdc_never_faults:
  assumes "TransTdcManagerInit env cb w0 = (SOFTBUS_OK, w)" "g_tcpDataList w0 = None" "tdc_pending w0 = pending_start"
    "\<forall>(env, a) \<in> set as. tdc_env_ok env \<and> tdc_op_ok a"
  shows "\<exists>w'. tdc_run as w = Some w' \<and> tdc_inv w'"
  using tdc_run_total [OF ManagerInit_inv [OF assms(1-3)] assms(4)] .

definition demo_tdc_env :: tdc_env where
  "demo_tdc_env = \<lparr>t_malloc = (\<lambda>n. True), t_node = True, t_list = True, t_gcm = demo_gcm, t_rng = demo_rng,
     t_send = (\<lambda>n. (1, [(SendRc 64, 0), (SendRc 0, 0)])), t_onData = (\<lambda>c d t. 0), t_onOpened = 0, t_onOther = 0,
     t_setListener = 0, t_startClient = 0, t_addTrigger = 0, t_delTrigger = 0, t_keepAlive = 0, t_config = Some 4194304\<rparr>"

definition demo_tdc_start :: tdc_world where
  "demo_tdc_start = \<lparr>g_tcpDirectChannelInfoList = None, g_tcpDataList = None, g_dataBufferMaxLen = 0, g_sessionCb = False,
     isInitedFlag = False, tdc_pending = pending_start, tdc_rng = \<lparr>initFlag = False, draws = 0\<rparr>, tdc_sends = 0, tdc_log = []\<rparr>"

definition demo_tdc_chan :: ChannelInfo where
  "demo_tdc_chan = \<lparr>ch_channelId = 4, ch_channelType = 0, ch_fd = 9, ch_sessionKey = replicate 32 7\<rparr>"

lemma demo_tdc_env_ok: "tdc_env_ok demo_tdc_env"
  by (auto simp: tdc_env_ok_def demo_tdc_env_def demo_gcm_ok demo_rng_ok SendTcpData_def Let_def)

text \<open>A channel is opened, a packet whose length wraps arrives on it, and the channel is closed for it.\<close>

definition demo_wrapping :: "byte list" where
  "demo_wrapping = tcp_head_bytes \<lparr>ph_magicNumber = MAGIC_NUMBER, ph_seq = 0, ph_flags = FLAG_BYTES, ph_dataLen = - 10\<rparr>"

theorem tdc_never_faults_witness:
  "\<exists>w'. tdc_run [(demo_tdc_env, TdcOpen (Some ''s'') (Some demo_tdc_chan)), (demo_tdc_env, TdcSendMessage 4 [1, 2]),
      (demo_tdc_env, TdcEvent SOFTBUS_SOCKET_IN 9 (0, RecvAvail 100) demo_wrapping), (demo_tdc_env, TdcWake 0), (demo_tdc_env, TdcLeave 0)]
      (snd (TransTdcManagerInit demo_tdc_env True demo_tdc_start)) = Some w' \<and> tdc_inv w'"
proof -
  have "fst (TransTdcManagerInit demo_tdc_env True demo_tdc_start) = SOFTBUS_OK" by code_simp
  then have "TransTdcManagerInit demo_tdc_env True demo_tdc_start = (SOFTBUS_OK, snd (TransTdcManagerInit demo_tdc_env True demo_tdc_start))"
    by (metis prod.collapse)
  then show ?thesis
    by (rule tdc_never_faults) (simp_all add: demo_tdc_start_def demo_tdc_env_ok)
qed

end
