(* ===== verification/Tdc_Stream.thy ===== *)
theory Tdc_Stream
  imports Tdc_Channel
begin

text \<open>
  Two clients on a direct TCP channel: the packets one sends come out of the stream of bytes at the other, however the
  stream is cut, and a message is acknowledged to its sender.
\<close>

section \<open>Packets\<close>

text \<open>A packet for the holder of a session key: flags, number and data, and its bytes.\<close>

definition is_packet :: "gcm_lib \<Rightarrow> byte list \<Rightarrow> 32 word \<Rightarrow> 32 word \<Rightarrow> byte list \<Rightarrow> byte list \<Rightarrow> bool" where
  "is_packet lib skey flags sq p f \<longleftrightarrow> (\<exists>out. f = tcp_head_bytes \<lparr>ph_magicNumber = MAGIC_NUMBER, ph_seq = sq, ph_flags = flags,
       ph_dataLen = of_nat (length p + OVERHEAD_LEN)\<rparr> @ out \<and>
     length out = length p + OVERHEAD_LEN \<and> p \<noteq> [] \<and> length p + 44 \<le> 512 * 1024 * 1024 \<and>
     (\<forall>rest. TransTdcDecrypt lib skey (out @ rest) (of_nat (length out)) = Some (SOFTBUS_OK, p)))"

lemma length_tcp_head [simp]: "length (tcp_head_bytes h) = 16"
  by (simp add: tcp_head_bytes_def)

lemma bytes_tcp_head_append [simp]: "bytes_tcp_head (tcp_head_bytes h @ rest) = h"
  by (simp add: bytes_tcp_head_def tcp_head_bytes_def)

lemma length_packet: "is_packet lib skey flags sq p f \<Longrightarrow> length f = length p + 44 \<and> p \<noteq> []"
  by (auto simp: is_packet_def)

lemma SendTcpData_range:
  "SendTcpData e fd len = Some r \<Longrightarrow> r \<le> int len \<and> min (- 1) (fst e) \<le> r"
proof -
  have l: "b \<le> n \<Longrightarrow> send_loop rs n b = Some r \<Longrightarrow> r \<le> int n \<and> - 1 \<le> r" for rs n b
    by (induction rs n b rule: send_loop.induct) (auto simp: Let_def split: if_splits)
  assume "SendTcpData e fd len = Some r"
  then show ?thesis using l [of 0 len "snd e"] by (auto simp: SendTcpData_def split: if_splits)
qed

lemma int_of_word_eq:
  assumes "(of_int r :: 32 word) = of_nat n" "- (2 ^ 31) \<le> r" "r \<le> int n" "n < 2 ^ 31"
  shows "r = int n"
proof -
  have "(of_int r :: 32 word) = of_int (int n)" using assms(1) by simp
  then have "take_bit 32 r = take_bit 32 (int n)" by (simp only: word_of_int_eq_iff len_bit0 len_num1) simp
  then have "r mod 2 ^ 32 = int n mod 2 ^ 32" by (simp add: take_bit_eq_mod)
  then obtain k where k: "r - int n = 2 ^ 32 * k" by (auto simp: mod_eq_dvd_iff elim!: dvdE)
  with assms(2-4) have "- 1 < k" "k < 1" by simp_all
  with k show ?thesis by simp
qed

lemma PostData_packet:
  assumes "TransTdcProcessPostData env c data flags w = Some (SOFTBUS_OK, w')" "tdc_env_ok env" "gcm_ok (t_gcm env) lib'"
    "length data < 2 ^ 31" "flags = FLAG_ACK \<longrightarrow> length data = ACK_SIZE"
    and "sq = (if flags = FLAG_ACK then le_word data else td_sequence (tc_detail c))"
    "d = (if flags = FLAG_ACK then rev (le_bytes 4 sq) else data)"
  shows "\<exists>f g n. w' = w\<lparr>tdc_rng := g, tdc_sends := n, tdc_log := tdc_log w @ [TdcSent (td_fd (tc_detail c)) f]\<rparr> \<and>
    is_packet lib' (td_sessionKey (tc_detail c)) flags sq d f"
  using assms(2,4,5,6,7)
proof (cases rule: PackData_cases [where g = "tdc_rng w" and c = c])
  case (failed g')
  with assms(1) show ?thesis by (simp add: TransTdcProcessPostData_def)
next
  case (packed out g')
  let ?f = "tcp_head_bytes \<lparr>ph_magicNumber = MAGIC_NUMBER, ph_seq = sq, ph_flags = flags, ph_dataLen = of_nat (length data + 28)\<rparr> @ out"
  have ok: "rng_ok (t_rng env)" "length d + OVERHEAD_LEN < 2 ^ 31" using assms(2) packed(3,4) by (simp_all add: tdc_env_ok_def)
  note e = EncryptWithSeq_frame [OF packed(2) assms(3) ok]
  obtain r where r: "SendTcpData (t_send env (tdc_sends w)) (td_fd (tc_detail c)) (length ?f) = Some r"
    using assms(2) unfolding tdc_env_ok_def by blast
  have w': "(of_int r :: 32 word) = of_nat (length ?f)"
    "w' = w\<lparr>tdc_rng := g', tdc_sends := tdc_sends w + 1, tdc_log := tdc_log w @ [TdcSent (td_fd (tc_detail c)) (take (nat r) ?f)]\<rparr>"
    using assms(1) packed(1) r by (auto simp: TransTdcProcessPostData_def tlog_def split: if_splits)
  have "r \<le> int (length ?f)" "- (2 ^ 31) \<le> r"
    using SendTcpData_range [OF r] assms(2) by (auto simp: tdc_env_ok_def dest!: spec [where x = "tdc_sends w"])
  then have "r = int (length ?f)" by (intro int_of_word_eq [OF w'(1)]) (use packed(3,5) in simp_all)
  then have "take (nat r) ?f = ?f" by simp
  moreover have "is_packet lib' (td_sessionKey (tc_detail c)) flags sq d ?f"
    unfolding is_packet_def using e packed(3-5) by (intro exI [of _ out]) simp
  ultimately show ?thesis using w'(2) by metis
qed

section \<open>One packet after another\<close>

definition received :: "tdc_world \<Rightarrow> (int \<times> byte list \<times> int) list" where
  "received w = concat (map (\<lambda>a. case a of TdcReceived ch d t \<Rightarrow> [(ch, d, t)] | _ \<Rightarrow> []) (tdc_log w))"

definition sent :: "tdc_world \<Rightarrow> byte list" where
  "sent w = concat (map (\<lambda>a. case a of TdcSent fd b \<Rightarrow> b | _ \<Rightarrow> []) (tdc_log w))"

lemma received_log:
  "received (tlog (TdcReceived ch d t) w) = received w @ [(ch, d, t)]"
  "received (set_buf ch n w) = received w"
  by (simp_all add: received_def tlog_def set_buf_def)

lemma received_post: "TransTdcProcessPostData env c data flags w = Some (r, w') \<Longrightarrow> received w' = received w"
  by (auto simp: TransTdcProcessPostData_def bind_eq_Some_conv received_def tlog_def split: option.splits)

text \<open>A client that takes everything, and enough memory.\<close>

definition tdc_willing :: "tdc_env \<Rightarrow> bool" where
  "tdc_willing env \<longleftrightarrow> tdc_env_ok env \<and> (\<forall>n. t_malloc env n) \<and> (\<forall>ch d t. t_onData env ch d t = SOFTBUS_OK)"

text \<open>A channel \<open>c\<close> with its buffer \<open>n\<close>.\<close>

definition tdc_open :: "int \<Rightarrow> TcpDirectChannelInfo \<Rightarrow> ClientDataBuf \<Rightarrow> tdc_world \<Rightarrow> bool" where
  "tdc_open ch c n w \<longleftrightarrow> tdc_inv w \<and> TransTdcGetInfoById ch w = Some (Some c) \<and> TransGetDataBufNodeById ch w = Some n"

lemma tdc_openD:
  assumes "tdc_open ch c n w"
  shows "tdc_inv w" "TransTdcGetInfoById ch w = Some (Some c)" "TransGetDataBufNodeById ch w = Some n" "buf_ok n" "cb_channelId n = ch"
    "tc_channelId c = ch" "g_tcpDataList w \<noteq> None"
  using assms node_ok [of w ch n] by (auto simp: tdc_open_def TransTdcGetInfoById_def bind_eq_Some_conv dest!: find_SomeD)

lemma tdc_open_set_buf:
  assumes "tdc_open ch c n w" "buf_ok n'" "cb_channelId n' = ch"
  shows "tdc_open ch c n' (set_buf ch n' w)"
  using assms set_buf_inv [of w n' ch] node_set_buf [of ch w n n']
  by (simp add: tdc_open_def TransTdcGetInfoById_def set_buf_def)

lemma tdc_open_core: "same_core w w' \<Longrightarrow> tdc_inv w' \<Longrightarrow> tdc_open ch c n w \<Longrightarrow> tdc_open ch c n w'"
  by (simp add: tdc_open_def same_core_node) (simp add: same_core_def TransTdcGetInfoById_def)

text \<open>What the client sees of data packets.\<close>

definition pkt_type :: "32 word \<Rightarrow> int" where
  "pkt_type flags = (if flags = FLAG_MESSAGE then TRANS_SESSION_MESSAGE else TRANS_SESSION_BYTES)"

lemma ByFlag_data:
  assumes "tdc_willing env" "tdc_inv w" "flags = FLAG_BYTES \<or> flags = FLAG_MESSAGE"
  shows "\<exists>w'. TransTdcProcessDataByFlag env flags sq c p w = Some (SOFTBUS_OK, w') \<and> same_core w w' \<and> tdc_inv w' \<and>
    received w' = received w @ [(tc_channelId c, p, pkt_type flags)]"
proof -
  have e: "tdc_env_ok env" "t_onData env ch d t = SOFTBUS_OK" "g_sessionCb w" for ch d t
    using assms(1,2) by (auto simp: tdc_willing_def tdc_inv_def)
  show ?thesis
  proof (cases "flags = FLAG_BYTES")
    case True
    then show ?thesis using e assms(2)
      by (simp add: TransTdcProcessDataByFlag_def ClientTransTdcOnDataReceived_def received_log pkt_type_def)
        (simp add: same_core_def tlog_def)
  next
    case False
    then have f: "flags = FLAG_MESSAGE" using assms(3) by simp
    obtain r g k out where p: "TransTdcProcessPostData env c (le_bytes 4 sq) FLAG_ACK w = Some (r, w\<lparr>tdc_rng := g, tdc_sends := k, tdc_log := out\<rparr>)"
      using PostData_total [OF e(1), of "le_bytes 4 sq" FLAG_ACK c w] by auto
    have "tdc_inv (w\<lparr>tdc_rng := g, tdc_sends := k, tdc_log := out\<rparr>)" using assms(2) by (simp add: tdc_inv_def)
    then show ?thesis using e p f received_post [OF p]
      by (simp add: TransTdcProcessDataByFlag_def TransTdcSendAck_def ClientTransTdcOnDataReceived_def received_log pkt_type_def)
        (simp add: same_core_def tlog_def)
  qed
qed

text \<open>Taking the packet at the front of the buffer.\<close>

lemma packet_front:
  assumes "is_packet lib skey flags sq p f" "buf_ok n" "content n = f @ left"
  shows "bytes_tcp_head (cb_data n) = \<lparr>ph_magicNumber = MAGIC_NUMBER, ph_seq = sq, ph_flags = flags, ph_dataLen = of_nat (length p + OVERHEAD_LEN)\<rparr>"
    "TransTdcDecrypt lib skey (drop 16 (cb_data n)) (of_nat (length p + OVERHEAD_LEN)) = Some (SOFTBUS_OK, p)"
    "length f \<le> cb_w n"
proof -
  have d: "cb_data n = content n @ drop (cb_w n) (cb_data n)" by (simp add: content_def)
  obtain out where o: "f = tcp_head_bytes \<lparr>ph_magicNumber = MAGIC_NUMBER, ph_seq = sq, ph_flags = flags, ph_dataLen = of_nat (length p + OVERHEAD_LEN)\<rparr> @ out"
    "length out = length p + OVERHEAD_LEN" "\<And>rest. TransTdcDecrypt lib skey (out @ rest) (of_nat (length out)) = Some (SOFTBUS_OK, p)"
    using assms(1) unfolding is_packet_def by blast
  show "bytes_tcp_head (cb_data n) = \<lparr>ph_magicNumber = MAGIC_NUMBER, ph_seq = sq, ph_flags = flags, ph_dataLen = of_nat (length p + OVERHEAD_LEN)\<rparr>"
    by (subst d) (simp only: assms(3) o(1) append_assoc bytes_tcp_head_append)
  have "drop 16 (cb_data n) = out @ left @ drop (cb_w n) (cb_data n)" by (subst d) (simp add: assms(3) o(1))
  then show "TransTdcDecrypt lib skey (drop 16 (cb_data n)) (of_nat (length p + OVERHEAD_LEN)) = Some (SOFTBUS_OK, p)"
    using o(3) [of "left @ drop (cb_w n) (cb_data n)"] by (simp add: o(2))
  show "length f \<le> cb_w n" using length_content [OF assms(2)] assms(3) by simp
qed

lemma packet_len:
  assumes "is_packet lib skey flags sq p f"
  shows "unat (of_nat (length p + OVERHEAD_LEN) :: 32 word) = length p + OVERHEAD_LEN"
    "unat (of_nat (length p + OVERHEAD_LEN) + 16 :: 32 word) = length f" "length p + 44 \<le> 512 * 1024 * 1024"
proof -
  show b: "length p + 44 \<le> 512 * 1024 * 1024" using assms by (auto simp: is_packet_def)
  then show "unat (of_nat (length p + OVERHEAD_LEN) :: 32 word) = length p + OVERHEAD_LEN" by (intro unat_small) simp
  have "(of_nat (length p + OVERHEAD_LEN) + 16 :: 32 word) = of_nat (length p + 44)" by simp
  then show "unat (of_nat (length p + OVERHEAD_LEN) + 16 :: 32 word) = length f"
    using b length_packet [OF assms] unat_small [of "length p + 44"] by (simp del: of_nat_add)
qed

lemma ProcessData_packet:
  assumes "tdc_willing env" "tdc_open ch c n w" "is_packet (t_gcm env) (td_sessionKey (tc_detail c)) flags sq p f" "content n = f @ left"
  shows "TransTdcProcessData env ch w = TransTdcProcessDataByFlag env flags sq c p (set_buf ch (taken (length f) n) w)"
    "tdc_open ch c (taken (length f) n) (set_buf ch (taken (length f) n) w)" "content (taken (length f) n) = left"
proof -
  note o = tdc_openD [OF assms(2)]
  note fr = packet_front [OF assms(3) o(4) assms(4)]
  note l = packet_len [OF assms(3)] length_packet [OF assms(3)]
  have k: "16 \<le> cb_w n" using fr(3) l(4) by simp
  have a: "SoftBusCalloc (t_malloc env) (of_nat (length p + OVERHEAD_LEN) - 28)"
  proof -
    have s: "(of_nat (length p + OVERHEAD_LEN) :: 32 word) - 28 = of_nat (length p)" by simp
    have u: "unat (of_nat (length p) :: 32 word) = length p" using l(3) by (intro unat_small) simp
    then have "(of_nat (length p) :: 32 word) \<noteq> 0" "(of_nat (length p) :: 32 word) \<le> 512 * 1024 * 1024"
      using l(3,4) by (auto simp: word_le_nat_alt)
    then show ?thesis unfolding s using assms(1) by (simp add: SoftBusCalloc_def SoftBusMalloc_def tdc_willing_def)
  qed
  have u: "16 + unat (of_nat (length p + OVERHEAD_LEN) :: 32 word) = length f" using l(1,4) by simp
  show "TransTdcProcessData env ch w = TransTdcProcessDataByFlag env flags sq c p (set_buf ch (taken (length f) n) w)"
    using ProcessData_eq [OF o(2,3,1) k refl, of env] fr(2) a fr(3) u unfolding fr(1)
    by (simp only: TcpDataPacketHead.simps u not_less) simp
  note t = taken_props [OF o(4) fr(3)]
  show "tdc_open ch c (taken (length f) n) (set_buf ch (taken (length f) n) w)" by (rule tdc_open_set_buf [OF assms(2) t(1)]) (simp add: t(4) o(5))
  show "content (taken (length f) n) = left" by (simp add: t(3) assms(4))
qed

section \<open>A stream of packets\<close>

type_synonym tdc_packet = "32 word \<times> 32 word \<times> byte list \<times> byte list"

definition pkt_fits :: "32 word \<Rightarrow> tdc_packet \<Rightarrow> bool" where
  "pkt_fits maxLen = (\<lambda>(flags, sq, p, f). length f \<le> unat maxLen)"

definition stream :: "tdc_packet list \<Rightarrow> byte list" where
  "stream qs = concat (map (\<lambda>(flags, sq, p, f). f) qs)"

text \<open>A buffer that does not hold the whole next packet, and has room.\<close>

definition waits :: "ClientDataBuf \<Rightarrow> tdc_packet list \<Rightarrow> bool" where
  "waits n qs \<longleftrightarrow> 1068 \<le> unat (cb_size n) \<and> cb_w n < unat (cb_size n) \<and>
     (case qs of [] \<Rightarrow> True | (flags, sq, p, f) # _ \<Rightarrow> cb_w n < length f)"

lemma bytes_tcp_head_take: "bytes_tcp_head (take 16 xs) = bytes_tcp_head xs"
  by (simp add: bytes_tcp_head_def drop_take min_def)

lemma head_front:
  assumes "is_packet lib skey flags sq p f" "content n @ rx = f @ rest" "buf_ok n" "16 \<le> cb_w n"
  shows "bytes_tcp_head (cb_data n) = \<lparr>ph_magicNumber = MAGIC_NUMBER, ph_seq = sq, ph_flags = flags, ph_dataLen = of_nat (length p + OVERHEAD_LEN)\<rparr>"
proof -
  have f: "16 \<le> length f" using length_packet [OF assms(1)] by simp
  have "take 16 (content n @ rx) = take 16 (f @ rest)" using assms(2) by simp
  then have "take 16 (cb_data n) = take 16 f" using f assms(3,4) by (simp add: content_def buf_ok_def min_def)
  moreover have "bytes_tcp_head f = \<lparr>ph_magicNumber = MAGIC_NUMBER, ph_seq = sq, ph_flags = flags, ph_dataLen = of_nat (length p + OVERHEAD_LEN)\<rparr>"
    using assms(1) by (auto simp: is_packet_def)
  ultimately show ?thesis by (metis bytes_tcp_head_take)
qed

lemma Resize_success:
  assumes "\<forall>m. t_malloc env m" "buf_ok n" "cb_size n < sz" "unat sz \<le> 512 * 1024 * 1024"
  shows "\<exists>n'. TransResizeDataBuffer env n sz = (SOFTBUS_OK, n') \<and> buf_ok n' \<and> content n' = content n \<and> cb_w n' = cb_w n \<and>
    cb_size n' = sz \<and> cb_fd n' = cb_fd n \<and> cb_channelId n' = cb_channelId n"
proof -
  have l: "unat (cb_size n) < unat sz" using assms(3) by (simp add: word_less_nat_alt)
  then have "SoftBusCalloc (t_malloc env) sz"
    using assms(1,4) by (auto simp: SoftBusCalloc_def SoftBusMalloc_def word_less_nat_alt)
  moreover have "memcpy_s (unat sz) (take (cb_w n) (cb_data n)) = Some (take (cb_w n) (cb_data n))"
    using l assms(2) by (auto simp: memcpy_s_def buf_ok_def)
  ultimately show ?thesis using l assms(2) by (auto simp: TransResizeDataBuffer_def buf_ok_def content_def)
qed

definition fd_of :: "int \<Rightarrow> TcpDirectChannelInfo \<Rightarrow> ClientDataBuf \<Rightarrow> tdc_world \<Rightarrow> bool" where
  "fd_of fd c n w \<longleftrightarrow> 0 \<le> fd \<and> cb_fd n = fd \<and> TransTdcGetInfoByFd fd w = Some (Some c)"

text \<open>The events of one socket, as long as it has bytes: each takes at most as many as the socket has at that moment.\<close>

fun tdc_events :: "tdc_env \<Rightarrow> int \<Rightarrow> nat list \<Rightarrow> byte list \<Rightarrow> tdc_world \<Rightarrow> (byte list \<times> tdc_world) option" where
  "tdc_events env fd [] rx w = Some (rx, w)"
| "tdc_events env fd (m # ms) rx w =
     (if rx = [] then Some (rx, w)
      else do { ((ret, rx'), w') \<leftarrow> OnDataEvent env SOFTBUS_SOCKET_IN fd (0, RecvAvail m) rx w; tdc_events env fd ms rx' w' })"

lemma waits_empty:
  assumes "waits n qs" "content n = stream qs" "buf_ok n"
  shows "qs = []"
proof (cases qs)
  case (Cons q qs')
  then show ?thesis using assms length_content [OF assms(3)]
    by (cases q) (simp add: waits_def stream_def)
qed simp

text \<open>
  What is done with the packets of a stream: a kind of packets, a view of the state and what a packet does to it. Packets of the
  kind are consumed without an error, and moving bytes in the buffers does not show in the view.
\<close>

locale packet_sink =
  fixes good :: "tdc_env \<Rightarrow> TcpDirectChannelInfo \<Rightarrow> tdc_packet \<Rightarrow> bool"
    and view :: "tdc_world \<Rightarrow> 'v"
    and upd :: "TcpDirectChannelInfo \<Rightarrow> tdc_packet \<Rightarrow> 'v \<Rightarrow> 'v"
  assumes good_packet: "good env c (flags, sq, p, f) \<Longrightarrow> is_packet (t_gcm env) (td_sessionKey (tc_detail c)) flags sq p f"
    and consume: "good env c (flags, sq, p, f) \<Longrightarrow> tdc_willing env \<Longrightarrow> tdc_inv w \<Longrightarrow>
      \<exists>w'. TransTdcProcessDataByFlag env flags sq c p w = Some (SOFTBUS_OK, w') \<and> same_core w w' \<and> tdc_inv w' \<and>
        view w' = upd c (flags, sq, p, f) (view w)"
    and view_buf: "view (set_buf ch n w) = view w"
begin

lemma ProcAll_stream:
  assumes "tdc_willing env" "tdc_open ch c n w" "\<forall>q \<in> set qs. good env c q \<and> pkt_fits (g_dataBufferMaxLen w) q"
    "content n @ rx = stream qs" "1068 \<le> unat (cb_size n)"
  shows "\<exists>ret w' n' k. TransTdcProcAllData env ch w = Some (ret, w') \<and> ret \<in> {SOFTBUS_OK, SOFTBUS_DATA_NOT_ENOUGH} \<and>
    tdc_open ch c n' w' \<and> cb_fd n' = cb_fd n \<and> g_tcpDirectChannelInfoList w' = g_tcpDirectChannelInfoList w \<and>
    g_dataBufferMaxLen w' = g_dataBufferMaxLen w \<and> view w' = fold (upd c) (take k qs) (view w) \<and>
    content n' @ rx = stream (drop k qs) \<and> waits n' (drop k qs)"
  using assms(2-5)
proof (induction qs arbitrary: n w)
  case Nil
  note o = tdc_openD [OF Nil.prems(1)]
  have "cb_w n = 0" using Nil.prems(3) length_content [OF o(4)] by (simp add: stream_def)
  then show ?case
    using Nil.prems o by (subst TransTdcProcAllData.simps) (auto simp: waits_def)
next
  case (Cons q qs)
  obtain flags sq p f where q: "q = (flags, sq, p, f)" by (cases q) auto
  note o = tdc_openD [OF Cons.prems(1)]
  have g: "good env c (flags, sq, p, f)" and pk: "is_packet (t_gcm env) (td_sessionKey (tc_detail c)) flags sq p f"
    "length f \<le> unat (g_dataBufferMaxLen w)" using Cons.prems(2) good_packet by (auto simp: q pkt_fits_def)
  have str: "content n @ rx = f @ stream qs" using Cons.prems(3) by (simp add: stream_def q)
  define sz where "sz = (of_nat (length p + OVERHEAD_LEN) + 16 :: 32 word)"
  have l: "unat sz = length f" "length f \<le> 512 * 1024 * 1024"
    using packet_len(2,3) [OF pk(1)] length_packet [OF pk(1)] unfolding sz_def by simp_all
  have fits: "\<not> g_dataBufferMaxLen w < sz" using pk(2) l(1) by (simp add: word_less_nat_alt)
  have h: "ph_magicNumber (bytes_tcp_head (cb_data n)) = MAGIC_NUMBER" "ph_dataLen (bytes_tcp_head (cb_data n)) + 16 = sz"
      "16 \<le> length (cb_data n)" if "16 \<le> cb_w n"
    using head_front [OF pk(1) str o(4) that] that o(4) by (simp_all add: sz_def buf_ok_def)
  consider "cb_w n < 16" | "16 \<le> cb_w n" "cb_size n < sz" | "16 \<le> cb_w n" "\<not> cb_size n < sz" "cb_w n < length f"
    | "16 \<le> cb_w n" "\<not> cb_size n < sz" "length f \<le> cb_w n" by linarith
  then show ?case
  proof cases
    case 1
    then have "waits n (q # qs)" using Cons.prems(4) length_packet [OF pk(1)] by (simp add: waits_def q)
    then show ?thesis using 1 o Cons.prems
      by (subst TransTdcProcAllData.simps) (auto intro!: exI [of _ n] exI [of _ 0])
  next
    case 2
    obtain n' where r: "TransResizeDataBuffer env n sz = (SOFTBUS_OK, n')" "buf_ok n'" "content n' = content n" "cb_w n' = cb_w n"
      "cb_size n' = sz" "cb_fd n' = cb_fd n" "cb_channelId n' = cb_channelId n"
      using Resize_success [OF _ o(4) 2(2)] assms(1) l by (auto simp: tdc_willing_def)
    have "TransTdcProcAllData env ch w = Some (SOFTBUS_OK, set_buf ch n' w)"
      using 2 o(3,7) h r(1) fits by (subst TransTdcProcAllData.simps) (auto simp: Let_def)
    moreover have "tdc_open ch c n' (set_buf ch n' w)" by (rule tdc_open_set_buf [OF Cons.prems(1) r(2)]) (simp add: r(7) o(5))
    moreover have "waits n' (q # qs)"
      using 2(2) Cons.prems(4) o(4) l(1) by (auto simp: waits_def q r(4,5) word_less_nat_alt buf_ok_def)
    ultimately show ?thesis using r(3,6) Cons.prems(3)
      by (intro exI [of _ SOFTBUS_OK] exI [of _ "set_buf ch n' w"] exI [of _ n'] exI [of _ 0])
        (simp add: view_buf, simp add: set_buf_def)
  next
    case 3
    have "TransTdcProcAllData env ch w = Some (SOFTBUS_DATA_NOT_ENOUGH, w)"
      using 3 o(3,7) h fits l(1) by (subst TransTdcProcAllData.simps) (auto simp: Let_def)
    moreover have "waits n (q # qs)" using 3 Cons.prems(4) l(1) by (simp add: waits_def q word_less_nat_alt)
    ultimately show ?thesis using Cons.prems
      by (intro exI [of _ SOFTBUS_DATA_NOT_ENOUGH] exI [of _ w] exI [of _ n] exI [of _ 0]) simp
  next
    case 4
    define left where "left = drop (length f) (content n)"
    have "take (length f) (content n) = f"
      using arg_cong [OF str, of "take (length f)"] 4(3) length_content [OF o(4)] by simp
    then have c: "content n = f @ left" unfolding left_def by (metis append_take_drop_id)
    then have c2: "left @ rx = stream qs" using str by simp
    note pd = ProcessData_packet [OF assms(1) Cons.prems(1) pk(1) c]
    let ?n = "taken (length f) n" and ?w = "set_buf ch (taken (length f) n) w"
    obtain w1 where w1: "TransTdcProcessDataByFlag env flags sq c p ?w = Some (SOFTBUS_OK, w1)" "same_core ?w w1" "tdc_inv w1"
      "view w1 = upd c q (view ?w)"
      using consume [OF g assms(1) tdc_openD(1) [OF pd(2)]] unfolding q by blast
    have o1: "tdc_open ch c ?n w1" by (rule tdc_open_core [OF w1(2,3) pd(2)])
    have m: "g_dataBufferMaxLen w1 = g_dataBufferMaxLen w" "g_tcpDirectChannelInfoList w1 = g_tcpDirectChannelInfoList w"
      using w1(2) by (simp_all add: same_core_def set_buf_def)
    have t: "cb_size ?n = cb_size n" "cb_fd ?n = cb_fd n" by (simp_all add: taken_def)
    obtain ret w' n' k where ih: "TransTdcProcAllData env ch w1 = Some (ret, w')" "ret \<in> {SOFTBUS_OK, SOFTBUS_DATA_NOT_ENOUGH}"
      "tdc_open ch c n' w'" "cb_fd n' = cb_fd ?n" "g_tcpDirectChannelInfoList w' = g_tcpDirectChannelInfoList w1"
      "g_dataBufferMaxLen w' = g_dataBufferMaxLen w1" "view w' = fold (upd c) (take k qs) (view w1)"
      "content n' @ rx = stream (drop k qs)" "waits n' (drop k qs)"
      using Cons.IH [OF o1] Cons.prems(2,4) c2 pd(3) by (auto simp: m t)
    have "TransTdcProcAllData env ch w = TransTdcProcAllData env ch w1"
      using 4 o(3,7) h fits l(1) pd(1) w1(1) by (subst TransTdcProcAllData.simps) (auto simp: Let_def)
    moreover have "view w' = fold (upd c) (take (Suc k) (q # qs)) (view w)" using ih(7) w1(4) by (simp add: view_buf)
    ultimately show ?thesis using ih(1-6,8,9) m t
      by (intro exI [of _ ret] exI [of _ w'] exI [of _ n'] exI [of _ "Suc k"]) simp
  qed
qed

lemma DataEvent_stream:
  assumes "tdc_willing env" "tdc_open ch c n w" "fd_of fd c n w" "0 < m" "rx \<noteq> []"
    "\<forall>q \<in> set qs. good env c q \<and> pkt_fits (g_dataBufferMaxLen w) q"
    "content n @ rx = stream qs" "waits n qs"
  shows "\<exists>rx' w' n' k. OnDataEvent env SOFTBUS_SOCKET_IN fd (wt, RecvAvail m) rx w = Some ((SOFTBUS_OK, rx'), w') \<and>
    tdc_open ch c n' w' \<and> fd_of fd c n' w' \<and> length rx' < length rx \<and> g_dataBufferMaxLen w' = g_dataBufferMaxLen w \<and>
    view w' = fold (upd c) (take k qs) (view w) \<and> content n' @ rx' = stream (drop k qs) \<and> waits n' (drop k qs)"
proof -
  note o = tdc_openD [OF assms(2)]
  have f: "0 \<le> fd" "cb_fd n = fd" "TransTdcGetInfoByFd fd w = Some (Some c)" using assms(3) by (simp_all add: fd_of_def)
  have wt: "1068 \<le> unat (cb_size n)" "cb_w n < unat (cb_size n)" using assms(8) by (simp_all add: waits_def)
  define d where "d = take (min m (unat (cb_size n) - cb_w n)) rx"
  have d: "d \<noteq> []" using assms(4,5) wt by (simp add: d_def)
  have r: "OnRecvData (wt, RecvAvail m) (cb_fd n) (unat (cb_size n) - cb_w n) 0 rx = (int (length d), d, drop (length d) rx)"
    using f(1,2) wt d unfolding OnRecvData_def Let_def snd_conv recv_rc.case d_def [symmetric] by simp
  note e = RecvData_eq [OF o(1,3) r] and rx = OnRecvData_take(2) [OF r]
  note fl = filled_props [OF o(4) e(2)]
  have o1: "tdc_open ch c (filled d n) (set_buf ch (filled d n) w)" by (rule tdc_open_set_buf [OF assms(2) fl(1)]) (simp add: fl(4) o(5))
  have "content (filled d n) @ drop (length d) rx = stream qs" using fl(3) rx d assms(7) by simp
  moreover have "g_dataBufferMaxLen (set_buf ch (filled d n) w) = g_dataBufferMaxLen w"
    "g_tcpDirectChannelInfoList (set_buf ch (filled d n) w) = g_tcpDirectChannelInfoList w" by (simp_all add: set_buf_def)
  ultimately obtain ret w' n' k where p: "TransTdcProcAllData env ch (set_buf ch (filled d n) w) = Some (ret, w')"
    "ret \<in> {SOFTBUS_OK, SOFTBUS_DATA_NOT_ENOUGH}" "tdc_open ch c n' w'" "cb_fd n' = fd" "g_tcpDirectChannelInfoList w' = g_tcpDirectChannelInfoList w"
    "g_dataBufferMaxLen w' = g_dataBufferMaxLen w" "view w' = fold (upd c) (take k qs) (view w)"
    "content n' @ drop (length d) rx = stream (drop k qs)" "waits n' (drop k qs)"
    using ProcAll_stream [OF assms(1) o1, of qs "drop (length d) rx"] assms(6) wt(1) fl(5,6) f(2) by (auto simp: view_buf)
  have "fd_of fd c n' w'" using f p(4,5) by (simp add: fd_of_def TransTdcGetInfoByFd_def)
  moreover have "OnDataEvent env SOFTBUS_SOCKET_IN fd (wt, RecvAvail m) rx w = Some ((SOFTBUS_OK, drop (length d) rx), w')"
    using f(3) o(6) e(1) d p(1,2) by (auto simp: OnDataEvent_def)
  moreover have "length (drop (length d) rx) < length rx" using d assms(5) by simp
  ultimately show ?thesis using p(3,6-9) by blast
qed

lemma events_stream:
  assumes "tdc_willing env" "tdc_open ch c n w" "fd_of fd c n w" "\<forall>m \<in> set ms. 0 < m" "length rx \<le> length ms"
    "\<forall>q \<in> set qs. good env c q \<and> pkt_fits (g_dataBufferMaxLen w) q"
    "content n @ rx = stream qs" "waits n qs"
  shows "\<exists>w' n'. tdc_events env fd ms rx w = Some ([], w') \<and> tdc_open ch c n' w' \<and> view w' = fold (upd c) qs (view w)"
  using assms(2-8)
proof (induction ms arbitrary: n w rx qs)
  case Nil
  then have "rx = []" "qs = []" using waits_empty [OF Nil.prems(7)] tdc_openD(4) [OF Nil.prems(1)] by simp_all
  then show ?case using Nil.prems(1) by auto
next
  case (Cons m ms)
  show ?case
  proof (cases "rx = []")
    case True
    then have "qs = []" using waits_empty [OF Cons.prems(7)] tdc_openD(4) [OF Cons.prems(1)] Cons.prems(6) by simp
    then show ?thesis using True Cons.prems(1) by auto
  next
    case False
    have "0 < m" using Cons.prems(3) by simp
    from DataEvent_stream [OF assms(1) Cons.prems(1,2) this False Cons.prems(5-7), of 0]
    obtain rx' w' n' k where e: "OnDataEvent env SOFTBUS_SOCKET_IN fd (0, RecvAvail m) rx w = Some ((SOFTBUS_OK, rx'), w')"
      "tdc_open ch c n' w'" "fd_of fd c n' w'" "length rx' < length rx" "g_dataBufferMaxLen w' = g_dataBufferMaxLen w"
      "view w' = fold (upd c) (take k qs) (view w)" "content n' @ rx' = stream (drop k qs)" "waits n' (drop k qs)" by blast
    have "\<forall>q \<in> set (drop k qs). good env c q \<and> pkt_fits (g_dataBufferMaxLen w') q"
      using Cons.prems(5) e(5) by (auto dest: in_set_dropD)
    with Cons.IH [OF e(2,3) _ _ _ e(7,8)] Cons.prems(3,4) e(4)
    obtain w2 n2 where i: "tdc_events env fd ms rx' w' = Some ([], w2)" "tdc_open ch c n2 w2" "view w2 = fold (upd c) (drop k qs) (view w')"
      by fastforce
    have "fold (upd c) qs (view w) = fold (upd c) (drop k qs) (fold (upd c) (take k qs) (view w))"
      by (metis append_take_drop_id fold_append comp_apply)
    then show ?thesis using False e(1,6) i by (intro exI [of _ w2] exI [of _ n2]) simp
  qed
qed

end

section \<open>Data and acknowledgements\<close>

definition is_data :: "tdc_env \<Rightarrow> TcpDirectChannelInfo \<Rightarrow> tdc_packet \<Rightarrow> bool" where
  "is_data env c = (\<lambda>(flags, sq, p, f). is_packet (t_gcm env) (td_sessionKey (tc_detail c)) flags sq p f \<and>
     (flags = FLAG_BYTES \<or> flags = FLAG_MESSAGE))"

definition is_ack :: "tdc_env \<Rightarrow> TcpDirectChannelInfo \<Rightarrow> tdc_packet \<Rightarrow> bool" where
  "is_ack env c = (\<lambda>(flags, sq, p, f). is_packet (t_gcm env) (td_sessionKey (tc_detail c)) flags sq p f \<and>
     flags = FLAG_ACK \<and> length p = ACK_SIZE)"

definition deliver_data :: "TcpDirectChannelInfo \<Rightarrow> tdc_packet \<Rightarrow> (int \<times> byte list \<times> int) list \<Rightarrow> (int \<times> byte list \<times> int) list" where
  "deliver_data c = (\<lambda>(flags, sq, p, f) v. v @ [(tc_channelId c, p, pkt_type flags)])"

definition mark_acked :: "TcpDirectChannelInfo \<Rightarrow> tdc_packet \<Rightarrow> pending_world \<Rightarrow> pending_world" where
  "mark_acked c = (\<lambda>(flags, sq, p, f) v. snd (the (SetPendingPacket (tc_channelId c) (sint (le_word (rev p) :: 32 word)) PENDING_TYPE_DIRECT v)))"

interpretation data_sink: packet_sink is_data received deliver_data
proof unfold_locales
  fix env c flags sq p f and w :: tdc_world
  assume g: "is_data env c (flags, sq, p, f)"
  then show "is_packet (t_gcm env) (td_sessionKey (tc_detail c)) flags sq p f" by (simp add: is_data_def)
  assume "tdc_willing env" "tdc_inv w"
  with g show "\<exists>w'. TransTdcProcessDataByFlag env flags sq c p w = Some (SOFTBUS_OK, w') \<and> same_core w w' \<and> tdc_inv w' \<and>
      received w' = deliver_data c (flags, sq, p, f) (received w)"
    using ByFlag_data [of env w flags sq c p] by (simp add: is_data_def deliver_data_def)
qed (simp add: received_log)

interpretation ack_sink: packet_sink is_ack tdc_pending mark_acked
proof unfold_locales
  fix env c flags sq p f and w :: tdc_world
  assume g: "is_ack env c (flags, sq, p, f)"
  then show "is_packet (t_gcm env) (td_sessionKey (tc_detail c)) flags sq p f" by (auto simp: is_ack_def)
  assume w: "tdc_willing env" "tdc_inv w"
  obtain ret q where q: "SetPendingPacket (tc_channelId c) (sint (le_word (rev p) :: 32 word)) PENDING_TYPE_DIRECT (tdc_pending w) = Some (ret, q)" "pend_ok q"
    using set_pend_ok w(2) by (metis tdc_inv_def)
  have "same_core w (w\<lparr>tdc_pending := q\<rparr>)" by (simp add: same_core_def)
  with same_core_inv [OF this w(2)] q g
  show "\<exists>w'. TransTdcProcessDataByFlag env flags sq c p w = Some (SOFTBUS_OK, w') \<and> same_core w w' \<and> tdc_inv w' \<and>
      tdc_pending w' = mark_acked c (flags, sq, p, f) (tdc_pending w)"
    by (simp add: is_ack_def TransTdcProcessDataByFlag_def TransTdcSetPendingPacket_def mark_acked_def)
qed (simp add: set_buf_def)

lemma fold_deliver:
  "fold (deliver_data c) qs v = v @ map (\<lambda>(flags, sq, p, f). (tc_channelId c, p, pkt_type flags)) qs"
  by (induction qs arbitrary: v) (auto simp: deliver_data_def)

section \<open>From sender to receiver\<close>

text \<open>Sending one after the other, with success: bytes, or messages whose senders then wait.\<close>

fun send_all :: "tdc_env \<Rightarrow> int \<Rightarrow> (bool \<times> byte list) list \<Rightarrow> tdc_world \<Rightarrow> tdc_world option" where
  "send_all env ch [] w = Some w"
| "send_all env ch ((False, d) # xs) w =
     (case TransTdcSendBytes env ch d w of Some (ret, w1) \<Rightarrow> if ret = SOFTBUS_OK then send_all env ch xs w1 else None | None \<Rightarrow> None)"
| "send_all env ch ((True, d) # xs) w =
     (case TransTdcSendMessage env ch d w of Some (Inr i, w1) \<Rightarrow> send_all env ch xs w1 | _ \<Rightarrow> None)"

definition chan_key :: "int \<Rightarrow> byte list \<Rightarrow> tdc_world \<Rightarrow> bool" where
  "chan_key ch skey w \<longleftrightarrow> (\<exists>c. TransTdcGetInfoById ch w = Some (Some c) \<and> td_sessionKey (tc_detail c) = skey)"

lemma IncSeq_key:
  assumes "TransTdcGetInfoByIdWithIncSeq ch w = Some (cp, w1)" "chan_key ch skey w"
  obtains c where "cp = Some c" "TransTdcGetInfoById ch w = Some (Some c)" "td_sessionKey (tc_detail c) = skey" "chan_key ch skey w1"
    "sent w1 = sent w" "tdc_pending w1 = tdc_pending w" "tdc_log w1 = tdc_log w"
proof -
  obtain l c where l: "g_tcpDirectChannelInfoList w = Some l" "find (\<lambda>c. tc_channelId c = ch) (lst l) = Some c" "td_sessionKey (tc_detail c) = skey"
    using assms(2) by (auto simp: chan_key_def TransTdcGetInfoById_def bind_eq_Some_conv)
  let ?f = "upd_detail (\<lambda>d. d\<lparr>td_sequence := td_sequence d + 1\<rparr>)"
  have "find (\<lambda>c. tc_channelId c = ch) (upd_first (\<lambda>c. tc_channelId c = ch) ?f (lst l)) = Some (?f c)"
    using find_upd_first_same [of "\<lambda>c. tc_channelId c = ch" ?f "lst l"] l(2) by (simp add: upd_detail_def)
  then show thesis
    by (intro that [of c]) (use assms(1) l in \<open>auto simp: TransTdcGetInfoByIdWithIncSeq_def TransTdcGetInfoById_def chan_key_def sent_def upd_detail_def\<close>)
qed

lemma sent_append: "tdc_log w' = tdc_log w @ [TdcSent fd f] \<Longrightarrow> sent w' = sent w @ f"
  by (simp add: sent_def)

lemma SendBytes_packet:
  assumes "TransTdcSendBytes env ch d w = Some (SOFTBUS_OK, w')" "chan_key ch skey w" "tdc_env_ok env" "gcm_ok (t_gcm env) lib'" "length d < 2 ^ 31"
  shows "\<exists>sq f. sent w' = sent w @ f \<and> is_packet lib' skey FLAG_BYTES sq d f \<and> chan_key ch skey w'"
proof -
  obtain cp w1 where i: "TransTdcGetInfoByIdWithIncSeq ch w = Some (cp, w1)"
    using assms(1) by (auto simp: TransTdcSendBytes_def bind_eq_Some_conv)
  from i assms(2) obtain c where c: "cp = Some c" "td_sessionKey (tc_detail c) = skey" "chan_key ch skey w1" "sent w1 = sent w" by (rule IncSeq_key)
  have p: "TransTdcProcessPostData env c d FLAG_BYTES w1 = Some (SOFTBUS_OK, w')" using assms(1) i c(1) by (simp add: TransTdcSendBytes_def)
  from PostData_packet [OF p assms(3-5) _ refl refl] c(2)
  obtain f g n where "w' = w1\<lparr>tdc_rng := g, tdc_sends := n, tdc_log := tdc_log w1 @ [TdcSent (td_fd (tc_detail c)) f]\<rparr>"
    "is_packet lib' skey FLAG_BYTES (td_sequence (tc_detail c)) d f" by auto
  with sent_append [of w' w1 "td_fd (tc_detail c)" f] c(3,4) show ?thesis by (auto simp: chan_key_def TransTdcGetInfoById_def)
qed

lemma SendMessage_packet:
  assumes "TransTdcSendMessage env ch d w = Some (Inr i, w')" "chan_key ch skey w" "tdc_env_ok env" "gcm_ok (t_gcm env) lib'" "length d < 2 ^ 31"
  obtains c f p where "TransTdcGetInfoById ch w = Some (Some c)" "sent w' = sent w @ f"
    "is_packet lib' skey FLAG_MESSAGE (td_sequence (tc_detail c)) d f" "chan_key ch skey w'"
    "ProcPendingPacket_enter (t_node env) ch (sint (td_sequence (tc_detail c))) PENDING_TYPE_DIRECT (tdc_pending w) = Some (Inr i, tdc_pending w')"
proof -
  obtain cp w1 where j: "TransTdcGetInfoByIdWithIncSeq ch w = Some (cp, w1)"
    using assms(1) by (auto simp: TransTdcSendMessage_def bind_eq_Some_conv)
  from j assms(2) obtain c where c: "cp = Some c" "TransTdcGetInfoById ch w = Some (Some c)" "td_sessionKey (tc_detail c) = skey"
    "chan_key ch skey w1" "sent w1 = sent w" "tdc_pending w1 = tdc_pending w" by (rule IncSeq_key)
  obtain w2 q where p: "TransTdcProcessPostData env c d FLAG_MESSAGE w1 = Some (SOFTBUS_OK, w2)"
    "ProcPendingPacket_enter (t_node env) ch (sint (td_sequence (tc_detail c))) PENDING_TYPE_DIRECT (tdc_pending w2) = Some (Inr i, q)"
    "w' = w2\<lparr>tdc_pending := q\<rparr>"
    using assms(1) j c(1) by (auto simp: TransTdcSendMessage_def bind_eq_Some_conv split: if_splits)
  from PostData_packet [OF p(1) assms(3-5) _ refl refl] c(3)
  obtain f g n where f: "w2 = w1\<lparr>tdc_rng := g, tdc_sends := n, tdc_log := tdc_log w1 @ [TdcSent (td_fd (tc_detail c)) f]\<rparr>"
    "is_packet lib' skey FLAG_MESSAGE (td_sequence (tc_detail c)) d f" by auto
  have "sent w' = sent w @ f" using sent_append [of w' w1 "td_fd (tc_detail c)" f] f(1) p(3) c(5) by simp
  moreover have "chan_key ch skey w'" using c(4) f(1) p(3) by (simp add: chan_key_def TransTdcGetInfoById_def)
  moreover have "ProcPendingPacket_enter (t_node env) ch (sint (td_sequence (tc_detail c))) PENDING_TYPE_DIRECT (tdc_pending w) = Some (Inr i, tdc_pending w')"
    using p(2,3) f(1) c(6) by simp
  ultimately show thesis using that c(2) f(2) by blast
qed

lemma send_all_stream:
  assumes "send_all env ch items w = Some w'" "chan_key ch skey w" "tdc_env_ok env" "gcm_ok (t_gcm env) lib'" "\<forall>(m, d) \<in> set items. length d < 2 ^ 31"
  shows "\<exists>qs. sent w' = sent w @ stream qs \<and> map (\<lambda>(flags, sq, p, f). (flags, p)) qs = map (\<lambda>(m, d). (if m then FLAG_MESSAGE else FLAG_BYTES, d)) items \<and>
    (\<forall>(flags, sq, p, f) \<in> set qs. is_packet lib' skey flags sq p f)"
  using assms(1,2,5)
proof (induction items arbitrary: w)
  case Nil
  then show ?case by (intro exI [of _ "[]"]) (simp add: stream_def)
next
  case (Cons x items)
  obtain m d where x: "x = (m, d)" by fastforce
  have "\<exists>sq f w1. sent w1 = sent w @ f \<and> is_packet lib' skey (if m then FLAG_MESSAGE else FLAG_BYTES) sq d f \<and> chan_key ch skey w1 \<and>
    send_all env ch items w1 = Some w'"
  proof (cases m)
    case True
    then obtain i w1 where s: "TransTdcSendMessage env ch d w = Some (Inr i, w1)" "send_all env ch items w1 = Some w'"
      using Cons.prems(1) by (auto simp: x split: option.splits sum.splits)
    from s(1) Cons.prems(2) assms(3,4) show ?thesis by (rule SendMessage_packet) (use Cons.prems(3) s(2) True x in auto)
  next
    case False
    then obtain w1 where s: "TransTdcSendBytes env ch d w = Some (SOFTBUS_OK, w1)" "send_all env ch items w1 = Some w'"
      using Cons.prems(1) by (auto simp: x split: option.splits if_splits)
    from SendBytes_packet [OF s(1) Cons.prems(2) assms(3,4)] Cons.prems(3) s(2) False x show ?thesis by auto
  qed
  then obtain sq f w1 where p: "sent w1 = sent w @ f" "is_packet lib' skey (if m then FLAG_MESSAGE else FLAG_BYTES) sq d f" "chan_key ch skey w1"
    "send_all env ch items w1 = Some w'" by blast
  from Cons.IH [OF p(4,3)] Cons.prems(3) obtain qs where qs: "sent w' = sent w1 @ stream qs"
    "map (\<lambda>(flags, sq, p, f). (flags, p)) qs = map (\<lambda>(m, d). (if m then FLAG_MESSAGE else FLAG_BYTES, d)) items"
    "\<forall>(flags, sq, p, f) \<in> set qs. is_packet lib' skey flags sq p f" by auto
  then show ?case using p(1,2)
    by (intro exI [of _ "(if m then FLAG_MESSAGE else FLAG_BYTES, sq, d, f) # qs"]) (auto simp: stream_def x)
qed


text \<open>C20: A client sends a message and waits. When the receiving client's acknowledgement of the number of that message has been sent
  with success and its bytes arrive at the waiting client, in pieces of any sizes, the socket events consume them and the waiting
  sender, when it wakes up, returns with success.\<close>

theorem tdc_message_acknowledged:
  assumes message: "TransTdcSendMessage eA chA d wA = Some (Inr i, wA1)" "TransTdcGetInfoById chA wA = Some (Some cA)" "tdc_inv wA" "length d < 2 ^ 31"
    and acknowledgement: "tdc_env_ok eB" "TransTdcSendAck eB cB (td_sequence (tc_detail cA)) wB = Some (SOFTBUS_OK, wB1)" "sent wB1 = sent wB @ bytes"
    "td_sessionKey (tc_detail cB) = td_sessionKey (tc_detail cA)" "gcm_ok (t_gcm eB) (t_gcm eA)"
    and answer: "tdc_willing eA" "tdc_open chA cA1 n wA1" "fd_of fd cA1 n wA1" "cb_w n = 0" "1068 \<le> unat (cb_size n)" "48 \<le> unat (g_dataBufferMaxLen wA1)"
    "\<forall>m \<in> set ms. 0 < m" "length bytes \<le> length ms"
  shows "\<exists>wA2 p. tdc_events eA fd ms bytes wA1 = Some ([], wA2) \<and>
    ProcPendingPacket_leave i (ProcPendingPacket_wake i (tdc_pending wA2)) = Some (SOFTBUS_OK, p)"
proof -
  let ?sq = "td_sequence (tc_detail cA)" and ?key = "td_sessionKey (tc_detail cA)"
  have key: "chan_key chA ?key wA" using message(2) by (simp add: chan_key_def)
  have eA: "tdc_env_ok eA" "gcm_ok (t_gcm eA) (t_gcm eA)" using answer(1) by (simp_all add: tdc_willing_def tdc_env_ok_def)
  from message(1) key eA message(4) obtain c where s: "TransTdcGetInfoById chA wA = Some (Some c)" "chan_key chA ?key wA1"
    "ProcPendingPacket_enter (t_node eA) chA (sint (td_sequence (tc_detail c))) PENDING_TYPE_DIRECT (tdc_pending wA) = Some (Inr i, tdc_pending wA1)"
    by (rule SendMessage_packet)
  have c: "c = cA" using s(1) message(2) by simp
  have "pending_inv (tdc_pending wA)" using message(3) by (simp add: tdc_inv_def pend_ok_def)
  from enter_awaiting [OF this s(3)] obtain a where aw: "awaiting i a chA (sint ?sq) PENDING_TYPE_DIRECT False (tdc_pending wA1)"
    "th_pc (threads (tdc_pending wA1) ! i) = Waiting" by (auto simp: c)
  have k1: "td_sessionKey (tc_detail cA1) = ?key" using s(2) tdc_openD(2) [OF answer(2)] by (auto simp: chan_key_def)
  let ?p = "rev (le_bytes 4 ?sq)"
  have "\<exists>f g m. wB1 = wB\<lparr>tdc_rng := g, tdc_sends := m, tdc_log := tdc_log wB @ [TdcSent (td_fd (tc_detail cB)) f]\<rparr> \<and>
      is_packet (t_gcm eA) (td_sessionKey (tc_detail cB)) FLAG_ACK ?sq ?p f"
    by (rule PostData_packet [OF acknowledgement(2) [unfolded TransTdcSendAck_def] acknowledgement(1,5)]) simp_all
  then obtain f where f: "sent wB1 = sent wB @ f" "is_packet (t_gcm eA) ?key FLAG_ACK ?sq ?p f"
    using sent_append acknowledgement(4) by fastforce
  let ?q = "(FLAG_ACK, ?sq, ?p, f)"
  have bytes: "content n @ bytes = stream [?q]" using f(1) acknowledgement(3) answer(4) by (simp add: content_def stream_def)
  have lf: "length f = 48" using length_packet [OF f(2)] by simp
  have good: "\<forall>q \<in> set [?q]. is_ack eA cA1 q \<and> pkt_fits (g_dataBufferMaxLen wA1) q"
    using f(2) k1 answer(6) lf by (simp add: is_ack_def pkt_fits_def)
  have "waits n [?q]" using answer(4,5) lf by (simp add: waits_def flip: length_greater_0_conv)
  from ack_sink.events_stream [OF answer(1-3,7,8) good bytes this]
  obtain wA2 where e: "tdc_events eA fd ms bytes wA1 = Some ([], wA2)" "tdc_pending wA2 = mark_acked cA1 ?q (tdc_pending wA1)" by auto
  have ch: "tc_channelId cA1 = chA" using tdc_openD(6) [OF answer(2)] .
  have "pend_ok (tdc_pending wA1)" using tdc_openD(1) [OF answer(2)] by (simp add: tdc_inv_def)
  then obtain ret p' where st: "SetPendingPacket chA (sint ?sq) PENDING_TYPE_DIRECT (tdc_pending wA1) = Some (ret, p')" by (rule set_pend_ok)
  then have p': "tdc_pending wA2 = p'" using e(2) by (simp add: mark_acked_def ch)
  have "awaiting i a chA (sint ?sq) PENDING_TYPE_DIRECT True p'" using awaiting_set(1) [OF aw(1) st] by simp
  moreover have "th_pc (threads p' ! i) = Waiting" using st aw(2) by (cases rule: set_cases) auto
  ultimately obtain p where "ProcPendingPacket_leave i (ProcPendingPacket_wake i p') = Some (SOFTBUS_OK, p)" using found_leaves by blast
  then show ?thesis using e(1) p' by blast
qed

section \<open>Two clients\<close>

definition demo_tdc_ready :: tdc_world where
  "demo_tdc_ready = snd (the (ClientTransTdcOnChannelOpened demo_tdc_env (Some ''s'') (Some demo_tdc_chan)
     (snd (TransTdcManagerInit demo_tdc_env True demo_tdc_start))))"

definition demo_tdc_info :: TcpDirectChannelInfo where
  "demo_tdc_info = \<lparr>tc_channelId = 4, tc_detail = \<lparr>td_fd = 9, td_channelType = 0, td_sequence = 0,
     td_verifyInfo = \<lparr>maxSeq = 0, minSeq = 0, recvBitmap = 0\<rparr>, td_sessionKey = replicate 32 7\<rparr>\<rparr>"

definition demo_tdc_info1 :: TcpDirectChannelInfo where
  "demo_tdc_info1 = demo_tdc_info\<lparr>tc_detail := (tc_detail demo_tdc_info)\<lparr>td_sequence := 1\<rparr>\<rparr>"

definition demo_tdc_buf :: ClientDataBuf where
  "demo_tdc_buf = \<lparr>cb_channelId = 4, cb_fd = 9, cb_size = 1068, cb_data = replicate 1068 0, cb_w = 0\<rparr>"

lemma demo_tdc_ready_eq:
  "demo_tdc_ready = \<lparr>g_tcpDirectChannelInfoList = Some \<lparr>cnt = 0, lst = [demo_tdc_info]\<rparr>,
     g_tcpDataList = Some \<lparr>cnt = 1, lst = [demo_tdc_buf]\<rparr>, g_dataBufferMaxLen = 4194348, g_sessionCb = True, isInitedFlag = True,
     tdc_pending = \<lparr>g_pendingList = [None, Some 0], lists = [Some \<lparr>cnt = 0, lst = []\<rparr>], entries = [], threads = []\<rparr>,
     tdc_rng = \<lparr>initFlag = False, draws = 0\<rparr>, tdc_sends = 0, tdc_log = [TdcOpened ''s'' 4]\<rparr>"
  by (simp add: demo_tdc_ready_def demo_tdc_env_def demo_tdc_chan_def demo_tdc_start_def TransTdcManagerInit_def Let_def
      CreateSoftBusList_def TransDataListInit_def TransGetDataBufMaxSize_def ClientTransTdcSetCallBack_def PendingInit_def pk_type_ok_def
      pending_start_def ClientTransTdcOnChannelOpened_def TransGetNewTcpChannel_def memcpy_s_def TransAddDataBufNode_def
      SoftBusCalloc_def SoftBusMalloc_def TransGetDataBufSize_def TransTdcCreateListener_def ClientTransTdcOnSessionOpened_def
      tlog_def sl_add_def demo_tdc_info_def demo_tdc_buf_def)

lemma demo_tdc_open: "tdc_open 4 demo_tdc_info demo_tdc_buf demo_tdc_ready" "fd_of 9 demo_tdc_info demo_tdc_buf demo_tdc_ready"
proof -
  have "pend_ok (tdc_pending demo_tdc_ready)"
    by (auto simp: demo_tdc_ready_eq pend_ok_def pending_inv_def glob_ok_def less_2_cases_iff list_ok_def wf_sl_def inside_def)
  then have "tdc_inv demo_tdc_ready"
    by (simp add: tdc_inv_def) (simp add: demo_tdc_ready_eq wf_sl_def buf_ok_def demo_tdc_buf_def)
  then show "tdc_open 4 demo_tdc_info demo_tdc_buf demo_tdc_ready" "fd_of 9 demo_tdc_info demo_tdc_buf demo_tdc_ready"
    by (simp_all add: tdc_open_def fd_of_def TransTdcGetInfoById_def TransTdcGetInfoByFd_def TransGetDataBufNodeById_def)
      (simp_all add: demo_tdc_ready_eq demo_tdc_info_def demo_tdc_buf_def)
qed

lemma demo_tdc_willing: "tdc_willing demo_tdc_env"
  using demo_tdc_env_ok by (simp add: tdc_willing_def) (simp add: demo_tdc_env_def)


theorem tdc_message_acknowledged_witness:
  "\<exists>wA wB wA2 p. TransTdcSendMessage demo_tdc_env 4 [3] demo_tdc_ready = Some (Inr 0, wA) \<and>
    TransTdcSendAck demo_tdc_env demo_tdc_info 0 demo_tdc_ready = Some (SOFTBUS_OK, wB) \<and>
    tdc_events demo_tdc_env 9 (replicate 48 1) (sent wB) wA = Some ([], wA2) \<and>
    ProcPendingPacket_leave 0 (ProcPendingPacket_wake 0 (tdc_pending wA2)) = Some (SOFTBUS_OK, p)"
proof -
  have "map_option fst (TransTdcSendMessage demo_tdc_env 4 [3] demo_tdc_ready) = Some (Inr 0)"
    "map_option (\<lambda>(r, w). (r, length (sent w))) (TransTdcSendAck demo_tdc_env demo_tdc_info 0 demo_tdc_ready) = Some (SOFTBUS_OK, 48)"
    unfolding demo_tdc_ready_eq by code_simp+
  then obtain wA wB where w: "TransTdcSendMessage demo_tdc_env 4 [3] demo_tdc_ready = Some (Inr 0, wA)"
    "TransTdcSendAck demo_tdc_env demo_tdc_info 0 demo_tdc_ready = Some (SOFTBUS_OK, wB)" "length (sent wB) = 48" by auto
  have after: "map_option (\<lambda>(r, w). (TransTdcGetInfoById 4 w = Some (Some demo_tdc_info1), TransTdcGetInfoByFd 9 w = Some (Some demo_tdc_info1),
      TransGetDataBufNodeById 4 w = Some demo_tdc_buf, g_dataBufferMaxLen w)) (TransTdcSendMessage demo_tdc_env 4 [3] demo_tdc_ready) =
      Some (True, True, True, 4194348)"
    unfolding demo_tdc_ready_eq by code_simp
  have inv: "tdc_inv demo_tdc_ready" using demo_tdc_open(1) by (rule tdc_openD)
  with SendMessage_total [OF demo_tdc_env_ok, of demo_tdc_ready "[3]" 4] w(1) have "tdc_inv wA" by simp
  with after w(1) have wA: "tdc_open 4 demo_tdc_info1 demo_tdc_buf wA" "fd_of 9 demo_tdc_info1 demo_tdc_buf wA" "g_dataBufferMaxLen wA = 4194348"
    by (simp_all add: tdc_open_def fd_of_def demo_tdc_buf_def)
  have r: "sent demo_tdc_ready = []" by (simp add: demo_tdc_ready_eq sent_def)
  have b: "cb_w demo_tdc_buf = 0" "cb_size demo_tdc_buf = 1068" by (simp_all add: demo_tdc_buf_def)
  have i: "td_sequence (tc_detail demo_tdc_info) = 0" by (simp add: demo_tdc_info_def)
  have g: "gcm_ok (t_gcm demo_tdc_env) (t_gcm demo_tdc_env)" using demo_tdc_env_ok by (simp add: tdc_env_ok_def)
  have "\<exists>wA2 p. tdc_events demo_tdc_env 9 (replicate 48 1) (sent wB) wA = Some ([], wA2) \<and>
    ProcPendingPacket_leave 0 (ProcPendingPacket_wake 0 (tdc_pending wA2)) = Some (SOFTBUS_OK, p)"
    by (rule tdc_message_acknowledged [OF w(1) tdc_openD(2) [OF demo_tdc_open(1)] inv _ demo_tdc_env_ok w(2) [folded i] _ refl g demo_tdc_willing wA(1,2) b(1)])
      (simp_all add: w(3) r b wA(3))
  then show ?thesis using w(1,2) by blast
qed

end
