(* ===== verification/Ble_Trans.thy ===== *)
theory Ble_Trans
  imports Tcp_Connect Proxy_Message
begin

text \<open>
  The Bluetooth Low Energy transport, first part: the state of
  \<^verbatim>\<open>core/connection/ble/src/softbus_ble_connection.c\<close> with the lookups of connections, and the cutting and
  reassembling of packets of \<^verbatim>\<open>core/connection/ble/src/softbus_ble_trans_manager.c\<close>. A node of the
  connection list is known by its position. The bluetooth stack, locks and allocations are outcomes of the environment;
  what is asked of the stack and reported to the connection manager is recorded. The theorem of this theory
  sends a packet in slices and reassembles it from the slices in any order.
\<close>

section \<open>Types\<close>

abbreviation (input) SOFTBUS_BLECONNECTION_GETCONNINFO_ERROR :: int where "SOFTBUS_BLECONNECTION_GETCONNINFO_ERROR \<equiv> - 4973"
abbreviation (input) SOFTBUS_BLECONNECTION_MUTEX_LOCK_ERROR :: int where "SOFTBUS_BLECONNECTION_MUTEX_LOCK_ERROR \<equiv> - 4971"
abbreviation (input) SOFTBUS_BLECONNECTION_GATT_CLIENT_NOT_SUPPORT :: int where
  "SOFTBUS_BLECONNECTION_GATT_CLIENT_NOT_SUPPORT \<equiv> - 4970"
abbreviation (input) MAX_DATA_LEN :: nat where "MAX_DATA_LEN \<equiv> 4096"
abbreviation (input) MAX_CACHE_NUM_PER_CONN :: nat where "MAX_CACHE_NUM_PER_CONN \<equiv> 3"
abbreviation (input) BLE_HEAD :: nat where "BLE_HEAD \<equiv> 16"
abbreviation (input) MTU_HEADER_SIZE :: int where "MTU_HEADER_SIZE \<equiv> 3"
abbreviation (input) MODULE_CONNECTION :: "32 word" where "MODULE_CONNECTION \<equiv> 11"
abbreviation (input) MODULE_BLE_NET :: "32 word" where "MODULE_BLE_NET \<equiv> 100"
abbreviation (input) ERANGE :: int where "ERANGE \<equiv> 34"

record BleTransHeader =
  bh_seq :: "32 word"
  bh_size :: "32 word"
  bh_offset :: "32 word"
  bh_total :: "32 word"

record BleRecvCache =
  rc_isUsed :: bool
  rc_seq :: "32 word"
  rc_currentSize :: "32 word"
  rc_cache :: "byte list option"

datatype BleConnectionState =
    BLE_CONNECTION_STATE_CONNECTING | BLE_CONNECTION_STATE_CONNECTED | BLE_CONNECTION_STATE_BASIC_INFO_EXCHANGED
  | BLE_CONNECTION_STATE_CLOSING | BLE_CONNECTION_STATE_CLOSED

record BleConnectionInfo =
  b_halConnId :: int
  b_connId :: "32 word"
  b_btBinaryAddr :: "byte list"
  b_info :: ConnectionInfo
  b_state :: BleConnectionState
  b_refCount :: "32 word"
  b_mtu :: int
  b_peerType :: int
  b_peerDevId :: string
  b_recvCache :: "BleRecvCache list"

datatype GattServiceState =
    BLE_GATT_SERVICE_INITIAL | BLE_GATT_SERVICE_ADDING | BLE_GATT_SERVICE_ADDED | BLE_GATT_SERVICE_STARTING
  | BLE_GATT_SERVICE_STARTED | BLE_GATT_SERVICE_STOPPING | BLE_GATT_SERVICE_DELETING | BLE_GATT_SERVICE_INVALID

record SoftBusGattService =
  gs_state :: GattServiceState
  gs_svcId :: int
  gs_bleConnCharaId :: int
  gs_bleConnDesId :: int
  gs_bleNetCharaId :: int
  gs_bleNetDesId :: int

record SendQueueNode =
  sn_halConnId :: int
  sn_connectionId :: "32 word"
  sn_pid :: int
  sn_flag :: "32 word"
  sn_isServer :: bool
  sn_isInner :: "32 word"
  sn_module :: "32 word"
  sn_seq :: "32 word"
  sn_len :: int
  sn_data :: "byte list"

text \<open>A message of the loop: its kind, its two arguments and the identifier it carries.\<close>

datatype BleConnLoopMsg = ADD_SERVICE_MSG string | ADD_CHARA_MSG "32 word" "32 word" string | ADD_DESCRIPTOR_MSG "32 word" string

datatype ble_act =
    GattsNotify int int "byte list"
  | GattsDisconnect "byte list" int
  | GattsStartService int | GattsStopService int | GattsDeleteService int
  | GattsAddService string | GattsAddCharacteristic int string "32 word" "32 word" | GattsAddDescriptor int string "32 word"
  | GattsSendResponse int int "byte list"
  | BleUpConnected "32 word" ConnectionInfo
  | BleUpDisconnected "32 word" ConnectionInfo
  | BleUpData "32 word" ConnModule "64 word" "byte list" int

text \<open>
  The static variables. The queue of outgoing packets is kept as the list of its nodes, which is how the
  lock-free queue behaves (theories \<open>Lock_Free_Queue\<close> and \<open>Queue_Concurrent\<close>); \<open>sendLock\<close> tells whether its mutex is
  held.
\<close>

record ble_world =
  g_conection_list :: "BleConnectionInfo list"
  nextConnectionId :: "16 word"
  g_gattService :: SoftBusGattService
  g_connectCallback :: bool
  g_sendQueue :: "SendQueueNode list option"
  sendLock :: bool
  basicInfoSeq :: "32 word"
  loopMsgs :: "BleConnLoopMsg list"
  ble_acts :: "ble_act list"

text \<open>
  The environment of one call: the connection lock, the allocation of structures, of blocks by size and of loop messages
  by number, the result of a notification by content and of the other calls of the stack, the JSON library,
  the identifier of this device, the scan of a printed address, and what a freed connection node reads as.
\<close>

record ble_env =
  bt_lock :: bool
  bt_node :: bool
  bt_malloc :: "32 word \<Rightarrow> bool"
  bt_msg :: "nat \<Rightarrow> bool"
  bt_notify :: "byte list \<Rightarrow> int"
  bt_stack :: int
  bt_register :: int
  bt_json :: json_lib
  bt_udid :: "string option"
  bt_scan :: "string \<Rightarrow> int \<times> byte list"
  bt_freed :: "32 word \<times> ConnectionInfo"

definition ble_do :: "ble_act \<Rightarrow> ble_world \<Rightarrow> ble_world" where
  "ble_do a w = w\<lparr>ble_acts := ble_acts w @ [a]\<rparr>"

section \<open>Lookups\<close>

text \<open>
  The loops of the lookups leave the running pointer at the first match, or at the last entry of the list when none matches.
\<close>

fun find_index :: "('a \<Rightarrow> bool) \<Rightarrow> 'a list \<Rightarrow> nat option" where
  "find_index P [] = None"
| "find_index P (x # xs) = (if P x then Some 0 else map_option Suc (find_index P xs))"

definition match_or_last :: "('a \<Rightarrow> bool) \<Rightarrow> 'a list \<Rightarrow> nat option" where
  "match_or_last P xs =
     (case find_index P xs of
        Some i \<Rightarrow> Some i
      | None \<Rightarrow> if xs = [] then None else Some (length xs - 1))"

definition GetBleConnInfoByConnId :: "ble_env \<Rightarrow> 32 word \<Rightarrow> ble_world \<Rightarrow> nat option" where
  "GetBleConnInfoByConnId env cid w =
     (if \<not> bt_lock env then None else match_or_last (\<lambda>n. b_connId n = cid) (g_conection_list w))"

definition GetBleConnInfoByHalConnId :: "ble_env \<Rightarrow> int \<Rightarrow> ble_world \<Rightarrow> nat option" where
  "GetBleConnInfoByHalConnId env hal w =
     (if \<not> bt_lock env then None else match_or_last (\<lambda>n. b_halConnId n = hal) (g_conection_list w))"

definition GetBleAttrHandle :: "32 word \<Rightarrow> ble_world \<Rightarrow> int" where
  "GetBleAttrHandle m w =
     (if m = MODULE_BLE_NET then gs_bleNetCharaId (g_gattService w) else gs_bleConnCharaId (g_gattService w))"

definition upd_conn :: "nat \<Rightarrow> (BleConnectionInfo \<Rightarrow> BleConnectionInfo) \<Rightarrow> ble_world \<Rightarrow> ble_world" where
  "upd_conn i f w = w\<lparr>g_conection_list := (g_conection_list w)[i := f (g_conection_list w ! i)]\<rparr>"

section \<open>Receiving slices\<close>

text \<open>The header of a slice: four fields in network order.\<close>

definition ble_head_bytes :: "BleTransHeader \<Rightarrow> byte list" where
  "ble_head_bytes h = rev (le_bytes 4 (bh_seq h)) @ rev (le_bytes 4 (bh_size h)) @ rev (le_bytes 4 (bh_offset h)) @ rev (le_bytes 4 (bh_total h))"

definition bytes_ble_head :: "byte list \<Rightarrow> BleTransHeader" where
  "bytes_ble_head bs = \<lparr>bh_seq = le_word (rev (take 4 bs)), bh_size = le_word (rev (take 4 (drop 4 bs))),
     bh_offset = le_word (rev (take 4 (drop 8 bs))), bh_total = le_word (rev (take 4 (drop 12 bs)))\<rparr>"

definition GetTransHeader :: "byte list \<Rightarrow> 32 word \<Rightarrow> (int \<times> BleTransHeader) option" where
  "GetTransHeader value len =
     (if length value < BLE_HEAD then None
      else
        let header = bytes_ble_head value
        in Some (if bh_size header \<noteq> len - of_nat BLE_HEAD \<or> sint (bh_total header) < sint (bh_size header + bh_offset header) \<or>
                    sint (bh_offset header) < 0 \<or> sint (bh_total header) > int MAX_DATA_LEN
                 then SOFTBUS_ERR else SOFTBUS_OK, header))"

text \<open>The search of a slot: the one that collects the packet, and the first free one seen before.\<close>

fun cache_loop :: "32 word \<Rightarrow> nat \<Rightarrow> nat option \<Rightarrow> BleRecvCache list \<Rightarrow> nat option \<times> nat option" where
  "cache_loop sq i avail [] = (None, avail)"
| "cache_loop sq i avail (c # cs) =
     (if \<not> rc_isUsed c then cache_loop sq (i + 1) (if avail = None then Some i else avail) cs
      else if rc_seq c = sq then (Some i, avail)
      else cache_loop sq (i + 1) avail cs)"

text \<open>The slot for a slice; the slots are changed when a new one is taken.\<close>

definition cache_slot :: "ble_env \<Rightarrow> 32 word \<Rightarrow> BleRecvCache list \<Rightarrow> nat option \<times> BleRecvCache list" where
  "cache_slot env sq cs =
     (case cache_loop sq 0 None cs of
        (Some i, avail) \<Rightarrow> (Some i, cs)
      | (None, None) \<Rightarrow> (None, cs)
      | (None, Some a) \<Rightarrow>
          let c = (cs ! a)\<lparr>rc_isUsed := True, rc_currentSize := 0, rc_seq := sq\<rparr>
          in if rc_cache c = None
             then if SoftBusCalloc (bt_malloc env) (of_nat MAX_DATA_LEN)
                  then (Some a, cs[a := c\<lparr>rc_cache := Some (replicate MAX_DATA_LEN 0)\<rparr>])
                  else (None, cs[a := c\<lparr>rc_isUsed := False\<rparr>])
             else (Some a, cs[a := c]))"

text \<open>
  The result of a reception: the bytes at the returned pointer, the length and the index stored through the out pointers.
  The copy fails when the rest of the block behind the offset is empty, negative or too small, and then clears that rest.
\<close>

definition cache_store :: "BleTransHeader \<Rightarrow> byte list \<Rightarrow> nat \<Rightarrow> BleRecvCache list \<Rightarrow> ((byte list \<times> 32 word \<times> int) option \<times> BleRecvCache list) option" where
  "cache_store header body i cs =
     (case rc_cache (cs ! i) of
        None \<Rightarrow> None
      | Some mem \<Rightarrow>
          let off = unat (bh_offset header);
              size = unat (bh_size header)
          in if off \<ge> MAX_DATA_LEN \<or> size > MAX_DATA_LEN - off
             then Some (None, cs[i := (cs ! i)\<lparr>rc_cache := Some (take off mem @ replicate (MAX_DATA_LEN - off) 0), rc_isUsed := False\<rparr>])
             else if length mem < off + size \<or> length body < size then None
             else
               let mem' = take off mem @ take size body @ drop (off + size) mem;
                   c = (cs ! i)\<lparr>rc_cache := Some mem', rc_currentSize := rc_currentSize (cs ! i) + bh_size header\<rparr>
               in Some (if rc_currentSize c = bh_total header then Some (mem', bh_total header, int i) else None, cs[i := c]))"

definition BleTransRecv ::
  "ble_env \<Rightarrow> int \<Rightarrow> byte list option \<Rightarrow> ble_world \<Rightarrow> ((byte list \<times> 32 word \<times> int) option \<times> ble_world) option" where
  "BleTransRecv env hal valuep w =
     (case valuep of
        None \<Rightarrow> Some (None, w)
      | Some value \<Rightarrow>
          (case GetBleConnInfoByHalConnId env hal w of
             None \<Rightarrow> Some (None, w)
           | Some t \<Rightarrow>
               (case GetTransHeader value (of_nat (length value)) of
                  None \<Rightarrow> None
                | Some (ret, header) \<Rightarrow>
                    if ret \<noteq> SOFTBUS_OK then Some (None, w)
                    else if bh_size header = bh_total header
                    then Some (Some (drop BLE_HEAD value, bh_total header, - 1), w)
                    else
                      (case cache_slot env (bh_seq header) (b_recvCache (g_conection_list w ! t)) of
                         (None, cs) \<Rightarrow> Some (None, upd_conn t (b_recvCache_update (\<lambda>_. cs)) w)
                       | (Some i, cs) \<Rightarrow>
                           map_option (\<lambda>(res, cs'). (res, upd_conn t (b_recvCache_update (\<lambda>_. cs')) w))
                             (cache_store header (drop BLE_HEAD value) i cs)))))"

definition BleTransCacheFree :: "ble_env \<Rightarrow> int \<Rightarrow> int \<Rightarrow> ble_world \<Rightarrow> ble_world option" where
  "BleTransCacheFree env hal index w =
     (case GetBleConnInfoByHalConnId env hal w of
        None \<Rightarrow> Some w
      | Some t \<Rightarrow>
          let cs = b_recvCache (g_conection_list w ! t) in
          if index < 0 \<or> nat index \<ge> length cs then None
          else Some (upd_conn t (b_recvCache_update (\<lambda>_. cs[nat index := (cs ! nat index)\<lparr>rc_cache := None, rc_isUsed := False\<rparr>])) w))"

section \<open>Sending slices\<close>

definition BleHalSend :: "ble_env \<Rightarrow> BleConnectionInfo \<Rightarrow> byte list \<Rightarrow> 32 word \<Rightarrow> ble_world \<Rightarrow> int \<times> ble_world" where
  "BleHalSend env c data m w =
     (if isServer (b_info c) then (bt_notify env data, ble_do (GattsNotify (b_halConnId c) (GetBleAttrHandle m w) data) w)
      else (SOFTBUS_ERR, w))"

text \<open>
  The loop over the slices. A slice whose length is not positive makes the copy fail; a block that is not given is
  written to all the same.
\<close>

function ble_send_loop ::
  "ble_env \<Rightarrow> BleConnectionInfo \<Rightarrow> byte list \<Rightarrow> int \<Rightarrow> int \<Rightarrow> 32 word \<Rightarrow> 32 word \<Rightarrow> int \<Rightarrow> int \<Rightarrow> ble_world \<Rightarrow> (int \<times> ble_world) option" where
  "ble_send_loop env c data len dataLenMax sq m templen offset w =
     (if templen \<le> 0 then Some (SOFTBUS_OK, w)
      else
        let sendlenth = (if templen > dataLenMax then dataLenMax else templen) in
        if sendlenth \<le> 0 then Some (ERANGE, w)
        else if \<not> SoftBusCalloc (bt_malloc env) (of_int sendlenth + of_nat BLE_HEAD) then None
        else if int (length data) < offset + sendlenth then None
        else
          let buff = ble_head_bytes \<lparr>bh_seq = sq, bh_size = of_int sendlenth, bh_offset = of_int offset, bh_total = of_int len\<rparr>
                @ take (nat sendlenth) (drop (nat offset) data)
          in case BleHalSend env c buff m w of
               (ret, w1) \<Rightarrow>
                 if ret \<noteq> SOFTBUS_OK then Some (ret, w1)
                 else ble_send_loop env c data len dataLenMax sq m (templen - sendlenth) (offset + sendlenth) w1)"
  by pat_completeness auto
termination
  by (relation "measure (\<lambda>(env, c, data, len, dataLenMax, sq, m, templen, offset, w). nat templen)") (auto split: if_splits)

definition BleTransSend ::
  "ble_env \<Rightarrow> BleConnectionInfo \<Rightarrow> byte list \<Rightarrow> int \<Rightarrow> 32 word \<Rightarrow> 32 word \<Rightarrow> ble_world \<Rightarrow> (int \<times> ble_world) option" where
  "BleTransSend env c data len sq m w =
     ble_send_loop env c data len (b_mtu c - MTU_HEADER_SIZE - int BLE_HEAD) sq m len 0 w"

section \<open>Headers\<close>

lemma ble_head_simps [simp]: "length (ble_head_bytes h) = 16" "bytes_ble_head (ble_head_bytes h @ body) = h"
  by (simp_all add: ble_head_bytes_def bytes_ble_head_def)

lemma find_index_None [simp]: "find_index P xs = None \<longleftrightarrow> (\<forall>x \<in> set xs. \<not> P x)"
  by (induction xs) auto

lemma find_index_SomeD: "find_index P xs = Some i \<Longrightarrow> i < length xs \<and> P (xs ! i) \<and> (\<forall>j < i. \<not> P (xs ! j))"
proof (induction xs arbitrary: i)
  case (Cons x xs)
  then show ?case by (auto split: if_splits simp: less_Suc_eq_0_disj)
qed simp

lemma find_index_unique:
  assumes "i < length xs" "P (xs ! i)" "\<And>j. j < length xs \<Longrightarrow> P (xs ! j) \<Longrightarrow> j = i"
  shows "find_index P xs = Some i"
proof (cases "find_index P xs")
  case None
  then show ?thesis using assms(1,2) nth_mem by auto
next
  case (Some j)
  then show ?thesis using find_index_SomeD [OF Some] assms(3) by blast
qed

lemma find_index_ex: "x \<in> set xs \<Longrightarrow> P x \<Longrightarrow> \<exists>i. find_index P xs = Some i"
  by (cases "find_index P xs") auto

lemma find_index_update: "P y = P (xs ! i) \<Longrightarrow> find_index P (xs[i := y]) = find_index P xs"
proof (induction xs arbitrary: i)
  case (Cons x xs)
  then show ?case by (cases i) auto
qed simp

lemma cache_loop_fst: "fst (cache_loop sq i av cs) = map_option ((+) i) (find_index (\<lambda>c. rc_isUsed c \<and> rc_seq c = sq) cs)"
  by (induction sq i av cs rule: cache_loop.induct) (auto simp: option.map_comp comp_def)

lemma cache_loop_snd:
  "find_index (\<lambda>c. rc_isUsed c \<and> rc_seq c = sq) cs = None \<Longrightarrow>
   snd (cache_loop sq i av cs) = (if av = None then map_option ((+) i) (find_index (\<lambda>c. \<not> rc_isUsed c) cs) else av)"
  by (induction sq i av cs rule: cache_loop.induct) (auto simp: option.map_comp comp_def intro!: option.map_cong)

lemma cache_slot_found: "find_index (\<lambda>c. rc_isUsed c \<and> rc_seq c = sq) cs = Some i \<Longrightarrow> cache_slot env sq cs = (Some i, cs)"
  using cache_loop_fst [of sq 0 None cs] by (auto simp: cache_slot_def split: prod.split option.split)

text \<open>The slots of a connection: three, each with a whole block or none, a used one with a block.\<close>

definition caches_ok :: "BleRecvCache list \<Rightarrow> bool" where
  "caches_ok cs \<longleftrightarrow> length cs = MAX_CACHE_NUM_PER_CONN \<and>
     (\<forall>c \<in> set cs. (\<forall>m. rc_cache c = Some m \<longrightarrow> length m = MAX_DATA_LEN) \<and> (rc_isUsed c \<longrightarrow> rc_cache c \<noteq> None))"

definition slot_free :: "32 word \<Rightarrow> BleRecvCache list \<Rightarrow> bool" where
  "slot_free sq cs \<longleftrightarrow> (\<forall>c \<in> set cs. rc_isUsed c \<longrightarrow> rc_seq c \<noteq> sq) \<and> (\<exists>c \<in> set cs. \<not> rc_isUsed c)"

lemma caches_ok_update: "caches_ok cs \<Longrightarrow> (\<forall>m. rc_cache c = Some m \<longrightarrow> length m = MAX_DATA_LEN) \<Longrightarrow> (rc_isUsed c \<longrightarrow> rc_cache c \<noteq> None) \<Longrightarrow> caches_ok (cs[i := c])"
  unfolding caches_ok_def using set_update_subset_insert [of cs i c] by auto

text \<open>A slot in which a packet is collected: the number of bytes that arrived, and the block.\<close>

definition collecting :: "32 word \<Rightarrow> nat \<Rightarrow> nat \<Rightarrow> byte list \<Rightarrow> BleRecvCache list \<Rightarrow> bool" where
  "collecting sq i got mem cs \<longleftrightarrow> caches_ok cs \<and> i < length cs \<and> find_index (\<lambda>c. rc_isUsed c \<and> rc_seq c = sq) cs = Some i \<and>
     rc_currentSize (cs ! i) = of_nat got \<and> rc_cache (cs ! i) = Some mem"

lemma cache_slot_new:
  assumes "caches_ok cs" "slot_free sq cs" "SoftBusCalloc (bt_malloc env) (of_nat MAX_DATA_LEN)"
  obtains i mem cs' where "cache_slot env sq cs = (Some i, cs')" "collecting sq i 0 mem cs'"
proof -
  have none: "find_index (\<lambda>c. rc_isUsed c \<and> rc_seq c = sq) cs = None" using assms(2) by (auto simp: slot_free_def)
  obtain a where a: "find_index (\<lambda>c. \<not> rc_isUsed c) cs = Some a" using assms(2) by (auto simp: slot_free_def dest: find_index_ex [where P = "\<lambda>c. \<not> rc_isUsed c"])
  have l: "cache_loop sq 0 None cs = (None, Some a)"
    using cache_loop_fst [of sq 0 None cs] cache_loop_snd [OF none, of 0 None] none a by (simp add: prod_eq_iff)
  have al: "a < length cs" using find_index_SomeD [OF a] by simp
  let ?c = "(cs ! a)\<lparr>rc_isUsed := True, rc_currentSize := 0, rc_seq := sq\<rparr>"
  have f: "find_index (\<lambda>c. rc_isUsed c \<and> rc_seq c = sq) (cs[a := c]) = Some a" if "rc_isUsed c" "rc_seq c = sq" for c
    by (rule find_index_unique) (use al that none in \<open>auto simp: nth_list_update split: if_splits\<close>)
  show thesis
  proof (cases "rc_cache (cs ! a)")
    case None
    show thesis
      by (rule that [of a "cs[a := ?c\<lparr>rc_cache := Some (replicate MAX_DATA_LEN 0)\<rparr>]" "replicate MAX_DATA_LEN 0"])
        (use None al assms(3) f in \<open>simp_all add: cache_slot_def l collecting_def caches_ok_update [OF assms(1)]\<close>)
  next
    case (Some m)
    then have "length m = MAX_DATA_LEN" using assms(1) al by (auto simp: caches_ok_def)
    then show thesis
      using that [of a "cs[a := ?c]" m] Some al f by (simp add: cache_slot_def l collecting_def caches_ok_update [OF assms(1)])
  qed
qed

lemma nth_patch: "k + length b \<le> length m \<Longrightarrow> x < length m \<Longrightarrow>
    (take k m @ b @ drop (k + length b) m) ! x = (if k \<le> x \<and> x < k + length b then b ! (x - k) else m ! x)"
  by (auto simp: nth_append min_def)

lemma cache_store_piece:
  assumes "collecting sq i got mem cs" "unat (bh_offset h) = off" "bh_size h = of_nat (length b)" "off + length b \<le> MAX_DATA_LEN" "0 < length b"
  shows "\<exists>mem' cs'. cache_store h b i cs = Some (if of_nat (got + length b) = bh_total h then Some (mem', bh_total h, int i) else None, cs') \<and>
    collecting sq i (got + length b) mem' cs' \<and>
    (\<forall>x < MAX_DATA_LEN. mem' ! x = (if off \<le> x \<and> x < off + length b then b ! (x - off) else mem ! x))"
proof -
  have lm: "length mem = MAX_DATA_LEN" using assms(1) by (auto simp: collecting_def caches_ok_def)
  have us: "unat (bh_size h) = length b" using assms(3,4) by (simp add: unat_of_nat take_bit_nat_eq_self)
  have ne: "\<not> MAX_DATA_LEN \<le> off" "\<not> MAX_DATA_LEN - off < length b" "off + length b \<le> MAX_DATA_LEN" using assms(4,5) by linarith+
  let ?mem = "take off mem @ b @ drop (off + length b) mem"
  let ?c = "(cs ! i)\<lparr>rc_cache := Some ?mem, rc_currentSize := rc_currentSize (cs ! i) + bh_size h\<rparr>"
  have fi: "find_index (\<lambda>c. rc_isUsed c \<and> rc_seq c = sq) cs = Some i" and il: "i < length cs" using assms(1) by (simp_all add: collecting_def)
  have "find_index (\<lambda>c. rc_isUsed c \<and> rc_seq c = sq) (cs[i := ?c]) = Some i" using fi by (simp add: find_index_update)
  then have "collecting sq i (got + length b) ?mem (cs[i := ?c])"
    using assms(1,3,4) lm by (auto simp: collecting_def intro!: caches_ok_update)
  moreover have "cache_store h b i cs = Some (if of_nat (got + length b) = bh_total h then Some (?mem, bh_total h, int i) else None, cs[i := ?c])"
    using assms(1-3) lm us il ne by (simp add: cache_store_def collecting_def Let_def)
  moreover have "\<forall>x < MAX_DATA_LEN. ?mem ! x = (if off \<le> x \<and> x < off + length b then b ! (x - off) else mem ! x)"
    using nth_patch [of off b mem] assms(4) lm by simp
  ultimately show ?thesis by blast
qed

section \<open>The slices of a packet\<close>

function offs :: "nat \<Rightarrow> nat \<Rightarrow> nat \<Rightarrow> nat list" where
  "offs k len off = (if off < len \<and> 0 < k then off # offs k len (off + k) else [])"
  by pat_completeness auto
termination by (relation "measure (\<lambda>(k, len, off). len - off)") auto

declare offs.simps [simp del] ble_send_loop.simps [simp del]

definition slice_data :: "nat \<Rightarrow> byte list \<Rightarrow> nat \<Rightarrow> byte list" where
  "slice_data k data off = take k (drop off data)"

definition ble_slice :: "32 word \<Rightarrow> nat \<Rightarrow> byte list \<Rightarrow> nat \<Rightarrow> byte list" where
  "ble_slice sq k data off = ble_head_bytes \<lparr>bh_seq = sq, bh_size = of_nat (length (slice_data k data off)), bh_offset = of_nat off,
     bh_total = of_nat (length data)\<rparr> @ slice_data k data off"

definition ble_slices :: "32 word \<Rightarrow> nat \<Rightarrow> byte list \<Rightarrow> byte list list" where
  "ble_slices sq k data = map (ble_slice sq k data) (offs k (length data) 0)"

lemma length_slice_data: "length (slice_data k data off) = min k (length data - off)"
  by (simp add: slice_data_def min.commute)

lemma offs_set: "0 < k \<Longrightarrow> k dvd off \<Longrightarrow> set (offs k len off) = {x. off \<le> x \<and> x < len \<and> k dvd x}"
proof (induction k len off rule: offs.induct)
  case (1 k len off)
  show ?case
  proof (cases "off < len")
    case True
    have "x = off \<or> off + k \<le> x" if x: "off \<le> x" "k dvd x" for x
    proof -
      obtain a b where ab: "x = k * a" "off = k * b" using x(2) 1(3) by (auto elim!: dvdE)
      have "k * (b + 1) \<le> k * a" if "a \<noteq> b" using x(1) 1(2) that unfolding ab by (intro mult_le_mono2) simp
      then show ?thesis using ab by (cases "a = b") auto
    qed
    then show ?thesis using True 1 by (subst offs.simps) (auto simp: dvd_add)
  qed (auto simp: offs.simps [of k len off])
qed

lemma offs_ge: "x \<in> set (offs k len off) \<Longrightarrow> off \<le> x \<and> x < len"
  by (induction k len off rule: offs.induct) (subst (asm) (2) offs.simps, auto split: if_splits)

lemma offs_distinct: "distinct (offs k len off)"
proof (induction k len off rule: offs.induct)
  case (1 k len off)
  have "off \<notin> set (offs k len (off + k))" if "0 < k" using offs_ge [of off k len "off + k"] that by auto
  with 1 show ?case by (subst offs.simps) auto
qed

lemma offs_sum: "0 < k \<Longrightarrow> (\<Sum>x \<leftarrow> offs k len off. min k (len - x)) = len - off"
proof (induction k len off rule: offs.induct)
  case (1 k len off)
  then show ?case by (subst offs.simps) auto
qed

lemma offs_step: "off < length data \<Longrightarrow> 0 < k \<Longrightarrow> offs k (length data) off = off # offs k (length data) (off + length (slice_data k data off))"
  by (subst offs.simps) (auto simp: length_slice_data min_def offs.simps)

lemma send_step:
  assumes "off < length data" "0 < k" "isServer (b_info c)"
  shows "ble_send_loop env c data (int (length data)) (int k) sq m (int (length data) - int off) (int off) w =
     (let n = length (slice_data k data off); b = ble_slice sq k data off; w1 = ble_do (GattsNotify (b_halConnId c) (GetBleAttrHandle m w) b) w in
      if \<not> SoftBusCalloc (bt_malloc env) (of_nat n + 16) then None
      else if bt_notify env b \<noteq> SOFTBUS_OK then Some (bt_notify env b, w1)
      else ble_send_loop env c data (int (length data)) (int k) sq m (int (length data) - int (off + n)) (int (off + n)) w1)"
proof -
  let ?n = "length (slice_data k data off)"
  have n: "?n = min k (length data - off)" by (rule length_slice_data)
  have s: "(if int (length data) - int off > int k then int k else int (length data) - int off) = int ?n"
    using assms(1) unfolding n min_def by presburger
  have b: "ble_head_bytes \<lparr>bh_seq = sq, bh_size = of_int (int ?n), bh_offset = of_int (int off), bh_total = of_int (int (length data))\<rparr>
      @ take (nat (int ?n)) (drop (nat (int off)) data) = ble_slice sq k data off"
    by (auto simp: ble_slice_def slice_data_def min_def)
  have "0 < ?n" "off + ?n \<le> length data" using assms(1,2) by (auto simp: n)
  then show ?thesis using assms(1,3)
    unfolding ble_send_loop.simps [where templen = "int (length data) - int off"] s Let_def b by (simp add: BleHalSend_def algebra_simps)
qed

lemma send_end: "ble_send_loop env c data (int (length data)) k sq m (int (length data) - int (length data)) off w = Some (SOFTBUS_OK, w)"
  by (simp add: ble_send_loop.simps [where templen = 0])

lemma send_slices:
  assumes "ble_send_loop env c data (int (length data)) (int k) sq m (int (length data) - int off) (int off) w = Some (SOFTBUS_OK, w')"
    "isServer (b_info c)" "0 < k" "off \<le> length data"
  shows "w' = w\<lparr>ble_acts := ble_acts w @ map (\<lambda>x. GattsNotify (b_halConnId c) (GetBleAttrHandle m w) (ble_slice sq k data x)) (offs k (length data) off)\<rparr>"
  using assms
proof (induction "length data - off" arbitrary: off w rule: less_induct)
  case less
  show ?case
  proof (cases "off < length data")
    case False
    then show ?thesis using less.prems(1,4) send_end [of env c data "int k" sq m "int off" w] by (simp add: offs.simps [of k "length data" "length data"])
  next
    case True
    let ?n = "length (slice_data k data off)" and ?w1 = "ble_do (GattsNotify (b_halConnId c) (GetBleAttrHandle m w) (ble_slice sq k data off)) w"
    have n: "0 < ?n" "off + ?n \<le> length data" using True less.prems(3) by (auto simp: length_slice_data)
    have "ble_send_loop env c data (int (length data)) (int k) sq m (int (length data) - int (off + ?n)) (int (off + ?n)) ?w1 = Some (SOFTBUS_OK, w')"
      using less.prems(1) unfolding send_step [OF True less.prems(3,2)] Let_def by (auto split: if_splits)
    from less.hyps [OF _ this less.prems(2,3) n(2)] n True
    have "w' = ?w1\<lparr>ble_acts := ble_acts ?w1 @ map (\<lambda>x. GattsNotify (b_halConnId c) (GetBleAttrHandle m ?w1) (ble_slice sq k data x)) (offs k (length data) (off + ?n))\<rparr>"
      by linarith
    then show ?thesis by (simp add: offs_step [OF True less.prems(3)] ble_do_def GetBleAttrHandle_def)
  qed
qed

lemma send_slices_total:
  assumes "isServer (b_info c)" "0 < k" "off \<le> length data" "length data < 2 ^ 29 - 16" "\<And>n. bt_malloc env n" "\<And>b. bt_notify env b = SOFTBUS_OK"
  shows "\<exists>w'. ble_send_loop env c data (int (length data)) (int k) sq m (int (length data) - int off) (int off) w = Some (SOFTBUS_OK, w')"
  using assms(3)
proof (induction "length data - off" arbitrary: off w rule: less_induct)
  case less
  show ?case
  proof (cases "off < length data")
    case False
    then show ?thesis using less.prems send_end [of env c data "int k" sq m "int off" w] by simp
  next
    case True
    let ?n = "length (slice_data k data off)"
    have n: "0 < ?n" "off + ?n \<le> length data" using True assms(2) by (auto simp: length_slice_data)
    have "unat (of_nat ?n + 16 :: 32 word) = ?n + 16" using n(2) assms(4) by (simp add: unat_word_ariths unat_of_nat)
    then have "SoftBusCalloc (bt_malloc env) (of_nat ?n + 16)"
      using n(2) assms(4,5) by (auto simp: SoftBusCalloc_def SoftBusMalloc_def word_less_nat_alt)
    moreover have "length data - (off + ?n) < length data - off" using n True by linarith
    ultimately show ?thesis unfolding send_step [OF True assms(2,1)] Let_def using less.hyps [OF _ n(2)] assms(6) by simp
  qed
qed

section \<open>Reassembling\<close>

definition size_at :: "nat \<Rightarrow> byte list \<Rightarrow> nat \<Rightarrow> nat" where
  "size_at k data off = min k (length data - off)"

definition sizes :: "nat \<Rightarrow> byte list \<Rightarrow> nat list \<Rightarrow> nat" where
  "sizes k data ps = sum_list (map (size_at k data) ps)"

lemma sizes_simps [simp]: "sizes k data [] = 0" "sizes k data (x # ps) = size_at k data x + sizes k data ps"
  "sizes k data (ps @ qs) = sizes k data ps + sizes k data qs"
  by (simp_all add: sizes_def)

text \<open>The slices at the given offsets are stored in the slot.\<close>

definition stored :: "32 word \<Rightarrow> nat \<Rightarrow> byte list \<Rightarrow> nat list \<Rightarrow> nat \<Rightarrow> byte list \<Rightarrow> BleRecvCache list \<Rightarrow> bool" where
  "stored sq k data ps i mem cs \<longleftrightarrow> collecting sq i (sizes k data ps) mem cs \<and>
     (\<forall>off \<in> set ps. \<forall>x < size_at k data off. mem ! (off + x) = data ! (off + x))"

lemma multiples_apart:
  assumes "k dvd a" "k dvd b" "(x :: nat) < k" "b \<le> a + x" "a + x < b + k"
  shows "a = b"
proof -
  obtain i j where ij: "a = k * i" "b = k * j" using assms(1,2) by (auto elim!: dvdE)
  define y where "y = a + x - b"
  have "(k * i + x) div k = i" using assms(3) by simp
  moreover have "y < k" using assms(4,5) unfolding y_def by linarith
  then have "(k * j + y) div k = j" by simp
  moreover have "k * j + y = k * i + x" using assms(4) ij by (simp add: y_def)
  ultimately show ?thesis using ij by simp
qed

lemma store_slice:
  assumes "stored sq k data ps i mem cs" "off \<notin> set ps" "\<forall>p \<in> set (off # ps). k dvd p \<and> p < length data" "length data \<le> MAX_DATA_LEN" "0 < k"
    "bh_offset h = of_nat off" "bh_size h = of_nat (size_at k data off)"
  shows "\<exists>mem' cs'. cache_store h (slice_data k data off) i cs =
      Some (if of_nat (sizes k data (off # ps)) = bh_total h then Some (mem', bh_total h, int i) else None, cs') \<and>
    stored sq k data (off # ps) i mem' cs'"
proof -
  have l: "length (slice_data k data off) = size_at k data off" by (simp add: length_slice_data size_at_def)
  have off: "off < length data" "k dvd off" using assms(3) by simp_all
  have fits: "size_at k data p \<le> k" "p \<in> set (off # ps) \<Longrightarrow> p + size_at k data p \<le> length data" for p
    using assms(3) by (auto simp: size_at_def)
  have "unat (bh_offset h) = off" using assms(4,6) off(1) by (simp add: unat_of_nat take_bit_nat_eq_self)
  moreover have "0 < length (slice_data k data off)" using assms(5) off(1) by (simp add: l size_at_def)
  moreover have "off + length (slice_data k data off) \<le> MAX_DATA_LEN" using fits(2) [of off] assms(4) by (simp add: l)
  ultimately obtain mem' cs' where s:
    "cache_store h (slice_data k data off) i cs =
      Some (if of_nat (sizes k data ps + size_at k data off) = bh_total h then Some (mem', bh_total h, int i) else None, cs')"
    "collecting sq i (sizes k data ps + size_at k data off) mem' cs'"
    "\<And>x. x < MAX_DATA_LEN \<Longrightarrow> mem' ! x = (if off \<le> x \<and> x < off + size_at k data off then slice_data k data off ! (x - off) else mem ! x)"
    using cache_store_piece [of sq i "sizes k data ps" mem cs h off "slice_data k data off"] assms(1,7) l by (auto simp: stored_def)
  have new: "mem' ! (off + x) = data ! (off + x)" if "x < size_at k data off" for x
  proof -
    have "off + x < MAX_DATA_LEN" using that fits(2) [of off] assms(4) by simp
    then show ?thesis using that off(1) by (simp add: s(3) slice_data_def size_at_def)
  qed
  have old: "mem' ! (p + x) = data ! (p + x)" if p: "p \<in> set ps" "x < size_at k data p" for p x
  proof -
    have "\<not> (off \<le> p + x \<and> p + x < off + size_at k data off)"
      using multiples_apart [of k p off x] p assms(2,3) fits(1) [of p] fits(1) [of off] off(2) by auto
    moreover have "p + x < MAX_DATA_LEN" using fits(2) [of p] p assms(4) by auto
    ultimately show ?thesis using assms(1) p by (auto simp: s(3) stored_def)
  qed
  show ?thesis using s(1,2) new old by (auto simp: stored_def add.commute)
qed

definition ble_target :: "int \<Rightarrow> nat \<Rightarrow> ble_world \<Rightarrow> bool" where
  "ble_target hal t w \<longleftrightarrow> find_index (\<lambda>n. b_halConnId n = hal) (g_conection_list w) = Some t"

abbreviation caches :: "nat \<Rightarrow> ble_world \<Rightarrow> BleRecvCache list" where
  "caches t w \<equiv> b_recvCache (g_conection_list w ! t)"

abbreviation set_caches :: "nat \<Rightarrow> BleRecvCache list \<Rightarrow> ble_world \<Rightarrow> ble_world" where
  "set_caches t cs \<equiv> upd_conn t (b_recvCache_update (\<lambda>_. cs))"

lemma ble_targetD: "ble_target hal t w \<Longrightarrow> t < length (g_conection_list w) \<and> b_halConnId (g_conection_list w ! t) = hal"
  by (auto simp: ble_target_def dest: find_index_SomeD)

lemma target_lookup: "ble_target hal t w \<Longrightarrow> bt_lock env \<Longrightarrow> GetBleConnInfoByHalConnId env hal w = Some t"
  by (simp add: GetBleConnInfoByHalConnId_def match_or_last_def ble_target_def)

lemma target_set_caches [simp]: "ble_target hal t (set_caches t' cs w) = ble_target hal t w"
  by (simp add: ble_target_def upd_conn_def find_index_update)

lemma caches_set_caches: "ble_target hal t w \<Longrightarrow> caches t (set_caches t cs w) = cs"
  using ble_targetD [of hal t w] by (simp add: upd_conn_def)

lemma GetTransHeader_slice:
  assumes "off < length data" "length data \<le> MAX_DATA_LEN"
  shows "GetTransHeader (ble_slice sq k data off) (of_nat (length (ble_slice sq k data off))) =
    Some (SOFTBUS_OK, \<lparr>bh_seq = sq, bh_size = of_nat (size_at k data off), bh_offset = of_nat off, bh_total = of_nat (length data)\<rparr>)"
proof -
  let ?n = "size_at k data off"
  have n: "?n + off \<le> length data" using assms(1) by (simp add: size_at_def)
  have l: "length (slice_data k data off) = ?n" by (simp add: length_slice_data size_at_def)
  have w: "sint (of_nat m :: 32 word) = int m" if "m \<le> MAX_DATA_LEN" for m using that by (intro sint_of_small_nat) simp
  have "sint (of_nat ?n + of_nat off :: 32 word) = int (?n + off)" using w [of "?n + off"] n assms(2) by simp
  then show ?thesis using n assms w [of off] w [of "length data"] by (simp add: GetTransHeader_def ble_slice_def l)
qed

fun recv_all :: "ble_env \<Rightarrow> int \<Rightarrow> byte list list \<Rightarrow> ble_world \<Rightarrow> ((byte list \<times> 32 word \<times> int) option list \<times> ble_world) option" where
  "recv_all env hal [] w = Some ([], w)"
| "recv_all env hal (v # vs) w =
     (case BleTransRecv env hal (Some v) w of
        None \<Rightarrow> None
      | Some (r, w1) \<Rightarrow> map_option (\<lambda>(rs, w2). (r # rs, w2)) (recv_all env hal vs w1))"

text \<open>The state of a packet of which the slices at \<open>ps\<close> have arrived; none may have.\<close>

definition arrived :: "ble_env \<Rightarrow> 32 word \<Rightarrow> nat \<Rightarrow> byte list \<Rightarrow> nat list \<Rightarrow> BleRecvCache list \<Rightarrow> bool" where
  "arrived env sq k data ps cs \<longleftrightarrow>
     (if ps = [] then caches_ok cs \<and> slot_free sq cs \<and> SoftBusCalloc (bt_malloc env) (of_nat MAX_DATA_LEN)
      else \<exists>i mem. stored sq k data ps i mem cs)"

lemma recv_slice:
  assumes t: "ble_target hal t w" "bt_lock env" and a: "arrived env sq k data ps (caches t w)"
    and off: "off \<notin> set ps" "\<forall>p \<in> set (off # ps). k dvd p \<and> p < length data" "length data \<le> MAX_DATA_LEN" "0 < k" "k < length data" "sizes k data (off # ps) \<le> length data"
  shows "\<exists>i mem cs. BleTransRecv env hal (Some (ble_slice sq k data off)) w =
      Some (if sizes k data (off # ps) = length data then Some (mem, of_nat (length data), int i) else None, set_caches t cs w) \<and>
    stored sq k data (off # ps) i mem cs"
proof -
  define h where "h = \<lparr>bh_seq = sq, bh_size = of_nat (size_at k data off), bh_offset = of_nat off, bh_total = of_nat (length data)\<rparr>"
  have inj: "(of_nat a = (of_nat (length data) :: 32 word)) = (a = length data)" if "a < 2 ^ 32" for a
    using that off(3) by (simp add: word_of_nat_eq_iff take_bit_nat_eq_self)
  obtain i mem cs where s: "cache_slot env sq (caches t w) = (Some i, cs)" "stored sq k data ps i mem cs"
  proof (cases "ps = []")
    case True
    then show thesis using a cache_slot_new [of "caches t w" sq env] that by (auto simp: arrived_def stored_def)
  next
    case False
    then obtain i mem where "stored sq k data ps i mem (caches t w)" using a by (auto simp: arrived_def)
    then show thesis using that cache_slot_found by (auto simp: stored_def collecting_def)
  qed
  obtain mem' cs' where st: "cache_store h (slice_data k data off) i cs =
      Some (if of_nat (sizes k data (off # ps)) = bh_total h then Some (mem', bh_total h, int i) else None, cs')"
    "stored sq k data (off # ps) i mem' cs'"
    using store_slice [OF s(2) off(1-4), of h] by (auto simp: h_def)
  have small: "sizes k data (off # ps) < 2 ^ 32" using off(3,6) by simp
  have "size_at k data off < length data" using off(5) by (simp add: size_at_def)
  then have "(of_nat (size_at k data off) :: 32 word) \<noteq> of_nat (length data)" using inj off(3) by simp
  then have "BleTransRecv env hal (Some (ble_slice sq k data off)) w =
      Some (if sizes k data (off # ps) = length data then Some (mem', of_nat (length data), int i) else None, set_caches t cs' w)"
    using off(2,3) s(1) st(1) inj [OF small]
    by (simp add: BleTransRecv_def target_lookup [OF t] GetTransHeader_slice flip: h_def) (simp add: ble_slice_def h_def)
  with st(2) show ?thesis by blast
qed

lemma set_caches_twice [simp]: "set_caches t cs (set_caches t cs' w) = set_caches t cs w"
  by (cases "t < length (g_conection_list w)") (simp_all add: upd_conn_def list_update_beyond)

lemma sizes_all:
  assumes "distinct ps" "set ps = set (offs k (length data) 0)" "0 < k"
  shows "sizes k data ps = length data"
proof -
  have "sizes k data ps = (\<Sum>x \<in> set ps. size_at k data x)" using assms(1) by (simp add: sizes_def sum_list_distinct_conv_sum_set)
  also have "\<dots> = (\<Sum>x \<leftarrow> offs k (length data) 0. size_at k data x)" using assms(2) offs_distinct by (simp add: sum_list_distinct_conv_sum_set)
  finally show ?thesis using offs_sum [OF assms(3), of "length data" 0] by (simp add: size_at_def)
qed

lemma stored_all:
  assumes "stored sq k data ps i mem cs" "set ps = set (offs k (length data) 0)" "0 < k" "length data \<le> MAX_DATA_LEN"
  shows "take (length data) mem = data"
proof (rule nth_equalityI)
  have l: "length mem = MAX_DATA_LEN" using assms(1) by (auto simp: stored_def collecting_def caches_ok_def)
  then show "length (take (length data) mem) = length data" using assms(4) by simp
  fix y assume "y < length (take (length data) mem)"
  then have y: "y < length data" by simp
  have le: "y - y mod k \<le> y" by simp
  then have "y - y mod k \<in> set ps" unfolding assms(2) using y assms(3) by (simp add: offs_set dvd_minus_mod)
  moreover have "y mod k < length data - (y - y mod k)" using y mod_less_eq_dividend [of y k] by linarith
  then have "y mod k < size_at k data (y - y mod k)" using assms(3) by (simp add: size_at_def)
  ultimately have "mem ! (y - y mod k + y mod k) = data ! (y - y mod k + y mod k)" using assms(1) unfolding stored_def by blast
  then show "take (length data) mem ! y = data ! y" using y by simp
qed

lemma recv_rest:
  assumes "ble_target hal t w" "bt_lock env" "arrived env sq k data ps (caches t w)" "distinct (ps @ qs)"
    "set (ps @ qs) = set (offs k (length data) 0)" "0 < k" "k < length data" "length data \<le> MAX_DATA_LEN" "qs \<noteq> []"
  shows "\<exists>i mem cs. recv_all env hal (map (ble_slice sq k data) qs) w =
      Some (replicate (length qs - 1) None @ [Some (mem, of_nat (length data), int i)], set_caches t cs w) \<and>
    stored sq k data (rev qs @ ps) i mem cs"
  using assms
proof (induction qs arbitrary: ps w)
  case (Cons off qs)
  have all: "sizes k data (ps @ off # qs) = length data" by (rule sizes_all) (use Cons.prems in auto)
  have mult: "\<forall>p \<in> set (ps @ off # qs). k dvd p \<and> p < length data" unfolding Cons.prems(5) using Cons.prems(6) by (simp add: offs_set)
  obtain i mem cs where r: "BleTransRecv env hal (Some (ble_slice sq k data off)) w =
      Some (if sizes k data (off # ps) = length data then Some (mem, of_nat (length data), int i) else None, set_caches t cs w)"
    "stored sq k data (off # ps) i mem cs"
    using recv_slice [OF Cons.prems(1-3) _ _ Cons.prems(8,6,7), of off] Cons.prems(4) mult all by auto
  show ?case
  proof (cases "qs = []")
    case True
    then show ?thesis using r all by (intro exI [of _ i] exI [of _ mem] exI [of _ cs]) auto
  next
    case False
    then obtain q qs' where q: "qs = q # qs'" by (cases qs) auto
    have "0 < size_at k data q" using mult Cons.prems(6) by (simp add: q size_at_def)
    then have ne: "sizes k data (off # ps) \<noteq> length data" using all by (simp add: q)
    have "\<exists>i mem cs'. recv_all env hal (map (ble_slice sq k data) qs) (set_caches t cs w) =
        Some (replicate (length qs - 1) None @ [Some (mem, of_nat (length data), int i)], set_caches t cs' (set_caches t cs w)) \<and>
      stored sq k data (rev qs @ off # ps) i mem cs'"
      by (rule Cons.IH) (use Cons.prems r(2) False in \<open>auto simp: arrived_def caches_set_caches\<close>)
    then show ?thesis using r(1) ne by (auto simp: q)
  qed
qed simp

lemma mset_map_ex: "mset us = mset (map f xs) \<Longrightarrow> \<exists>ys. mset ys = mset xs \<and> us = map f ys"
proof (induction us arbitrary: xs)
  case (Cons u us)
  then have "u \<in> f ` set xs" by (metis list.set_intros(1) list.set_map mset_eq_setD)
  then obtain x where x: "x \<in> set xs" "u = f x" by auto
  have "image_mset f (mset xs) - {#f x#} = mset us" using Cons.prems x(2) by (metis add_mset_remove_trivial mset.simps(2) mset_map)
  then have "mset us = mset (map f (remove1 x xs))" using x(1) by (simp add: image_mset_Diff)
  from Cons.IH [OF this] obtain ys where "mset ys = mset (remove1 x xs)" "us = map f ys" by blast
  then show ?case using x by (intro exI [of _ "x # ys"]) simp
qed simp

text \<open>One slice is returned as it came, several are collected.\<close>

lemma recv_slices:
  assumes "ble_target hal t w" "bt_lock env" "caches_ok (caches t w)" "slot_free sq (caches t w)" "SoftBusCalloc (bt_malloc env) (of_nat MAX_DATA_LEN)"
    "mset us = mset (ble_slices sq k data)" "0 < k" "data \<noteq> []" "length data \<le> MAX_DATA_LEN"
  shows "\<exists>mem i w'. recv_all env hal us w = Some (replicate (length us - 1) None @ [Some (mem, of_nat (length data), i)], w') \<and>
    take (length data) mem = data \<and>
    (i = - 1 \<and> w' = w \<or>
     (\<exists>j cs. i = int j \<and> w' = set_caches t cs w \<and> caches_ok cs \<and> find_index (\<lambda>c. rc_isUsed c \<and> rc_seq c = sq) cs = Some j))"
proof -
  obtain qs where qs: "mset qs = mset (offs k (length data) 0)" "us = map (ble_slice sq k data) qs"
    using mset_map_ex [OF assms(6) [unfolded ble_slices_def]] by blast
  have set: "set qs = set (offs k (length data) 0)" "distinct qs" using qs(1) offs_distinct by (metis mset_eq_setD, metis mset_eq_imp_distinct_iff)
  show ?thesis
  proof (cases "k < length data")
    case True
    have "0 \<in> set qs" unfolding set(1) using assms(7,8) by (simp add: offs_set)
    then have ne: "qs \<noteq> []" by auto
    have arr: "arrived env sq k data [] (caches t w)" using assms(3-5) by (simp add: arrived_def)
    have "\<exists>i mem cs. recv_all env hal (map (ble_slice sq k data) qs) w =
        Some (replicate (length qs - 1) None @ [Some (mem, of_nat (length data), int i)], set_caches t cs w) \<and> stored sq k data (rev qs @ []) i mem cs"
      by (rule recv_rest [OF assms(1,2) arr _ _ assms(7) True assms(9) ne]) (use set in simp_all)
    then obtain i mem cs where r: "recv_all env hal us w = Some (replicate (length qs - 1) None @ [Some (mem, of_nat (length data), int i)], set_caches t cs w)"
      "stored sq k data (rev qs @ []) i mem cs" using qs(2) by blast
    have "take (length data) mem = data" by (rule stored_all [OF r(2)]) (use set(1) assms in simp_all)
    moreover have "caches_ok cs \<and> find_index (\<lambda>c. rc_isUsed c \<and> rc_seq c = sq) cs = Some i" using r(2) by (simp add: stored_def collecting_def)
    moreover have "length us = length qs" by (simp add: qs(2))
    ultimately show ?thesis using r(1) by (intro exI [of _ mem] exI [of _ "int i"] exI [of _ "set_caches t cs w"]) auto
  next
    case False
    have "offs k (length data) 0 = [0]"
      using False assms(7,8) offs_step [of 0 data k] offs.simps [of k "length data" "length data"] by (simp add: length_slice_data)
    then have q: "qs = [0]" using qs(1) by simp
    have sl: "slice_data k data 0 = data" "size_at k data 0 = length data" using False by (simp_all add: slice_data_def size_at_def)
    then have "BleTransRecv env hal (Some (ble_slice sq k data 0)) w = Some (Some (data, of_nat (length data), - 1), w)"
      using assms(8,9) by (simp add: BleTransRecv_def target_lookup [OF assms(1,2)] GetTransHeader_slice) (simp add: ble_slice_def)
    then show ?thesis by (simp add: qs(2) q)
  qed
qed

lemma BleTransSend_slices:
  assumes "BleTransSend env c data (int (length data)) sq m w = Some (SOFTBUS_OK, w')" "isServer (b_info c)" "data \<noteq> []"
  shows "19 < b_mtu c \<and> w' = w\<lparr>ble_acts := ble_acts w @ map (GattsNotify (b_halConnId c) (GetBleAttrHandle m w)) (ble_slices sq (nat (b_mtu c - 19)) data)\<rparr>"
proof -
  have mtu: "19 < b_mtu c"
  proof (rule ccontr)
    assume n: "\<not> 19 < b_mtu c"
    then have "b_mtu c - 19 < int (length data)" by (smt (verit) of_nat_0_le_iff assms(3) length_greater_0_conv of_nat_0_less_iff)
    with n assms(1,3) show False by (simp add: BleTransSend_def ble_send_loop.simps [where templen = "int (length data)"])
  qed
  then have "BleTransSend env c data (int (length data)) sq m w =
      ble_send_loop env c data (int (length data)) (int (nat (b_mtu c - 19))) sq m (int (length data) - int 0) (int 0) w"
    by (simp add: BleTransSend_def)
  with assms(1) have l: "ble_send_loop env c data (int (length data)) (int (nat (b_mtu c - 19))) sq m (int (length data) - int 0) (int 0) w = Some (SOFTBUS_OK, w')"
    by simp
  show ?thesis using send_slices [OF l assms(2)] mtu by (simp add: ble_slices_def comp_def)
qed

lemma BleTransSend_total:
  assumes "isServer (b_info c)" "19 < b_mtu c" "length data < 2 ^ 29 - 16" "\<And>n. bt_malloc env n" "\<And>b. bt_notify env b = SOFTBUS_OK"
  shows "\<exists>w'. BleTransSend env c data (int (length data)) sq m w = Some (SOFTBUS_OK, w')"
  using send_slices_total [of c "nat (b_mtu c - 19)" 0 data env sq m w] assms by (simp add: BleTransSend_def)

text \<open>C12: A packet of at most 4096 bytes is sent in slices as large as the negotiated size of a transfer allows. When the slices arrive
  at a peer in any order, at a connection with a free slot and none collecting the same number, every slice but the last to arrive is
  kept back, and the last returns a block that starts with exactly the packet, and its length.\<close>

theorem ble_slices_any_order:
  assumes sender: "BleTransSend eA c data (int (length data)) sq m wA = Some (SOFTBUS_OK, wA')" "isServer (b_info c)"
    "ble_acts wA' = ble_acts wA @ map (GattsNotify (b_halConnId c) (GetBleAttrHandle m wA)) vs"
    and packet: "data \<noteq> []" "length data \<le> MAX_DATA_LEN"
    and receiver: "ble_target hal t wB" "bt_lock eB" "caches_ok (caches t wB)" "slot_free sq (caches t wB)" "SoftBusCalloc (bt_malloc eB) (of_nat MAX_DATA_LEN)"
    and arrival: "mset us = mset vs"
  shows "\<exists>mem i wB'. recv_all eB hal us wB = Some (replicate (length us - 1) None @ [Some (mem, of_nat (length data), i)], wB') \<and>
    take (length data) mem = data"
proof -
  have s: "19 < b_mtu c" "map (GattsNotify (b_halConnId c) (GetBleAttrHandle m wA)) vs =
      map (GattsNotify (b_halConnId c) (GetBleAttrHandle m wA)) (ble_slices sq (nat (b_mtu c - 19)) data)"
    using BleTransSend_slices [OF sender(1,2) packet(1)] sender(3) by simp_all
  have "inj (GattsNotify (b_halConnId c) (GetBleAttrHandle m wA))" by (simp add: inj_def)
  with s(2) have "vs = ble_slices sq (nat (b_mtu c - 19)) data" by (simp add: inj_map_eq_map)
  then show ?thesis using recv_slices [OF receiver, of us "nat (b_mtu c - 19)" data] arrival packet s(1) by auto
qed

definition demo_ble_env :: ble_env where
  "demo_ble_env = \<lparr>bt_lock = True, bt_node = True, bt_malloc = (\<lambda>n. True), bt_msg = (\<lambda>n. True), bt_notify = (\<lambda>b. 0), bt_stack = 0, bt_register = 0,
     bt_json = demo_lib, bt_udid = Some ''u'', bt_scan = (\<lambda>s. (6, [1, 2, 3, 4, 5, 6])), bt_freed = (0, \<lparr>isAvailable = False, isServer = False, ci_type = 0, ci_info = BleInfo [] []\<rparr>)\<rparr>"

definition demo_ble_conn :: BleConnectionInfo where
  "demo_ble_conn = \<lparr>b_halConnId = 5, b_connId = 0x30001, b_btBinaryAddr = [1, 2, 3, 4, 5, 6],
     b_info = \<lparr>isAvailable = True, isServer = True, ci_type = CONNECT_BLE, ci_info = BleInfo ''01:02:03:04:05:06'' []\<rparr>,
     b_state = BLE_CONNECTION_STATE_CONNECTED, b_refCount = 1, b_mtu = 21, b_peerType = 0, b_peerDevId = [],
     b_recvCache = replicate 3 \<lparr>rc_isUsed = False, rc_seq = 0, rc_currentSize = 0, rc_cache = None\<rparr>\<rparr>"

definition demo_ble_world :: ble_world where
  "demo_ble_world = \<lparr>g_conection_list = [demo_ble_conn], nextConnectionId = 1,
     g_gattService = \<lparr>gs_state = BLE_GATT_SERVICE_STARTED, gs_svcId = 1, gs_bleConnCharaId = 4, gs_bleConnDesId = 5, gs_bleNetCharaId = 2, gs_bleNetDesId = 3\<rparr>,
     g_connectCallback = True, g_sendQueue = Some [], sendLock = False, basicInfoSeq = 0, loopMsgs = [], ble_acts = []\<rparr>"

lemma demo_ble_ready: "ble_target 5 0 demo_ble_world" "caches_ok (caches 0 demo_ble_world)" "slot_free sq (caches 0 demo_ble_world)"
  "SoftBusCalloc (bt_malloc demo_ble_env) (of_nat MAX_DATA_LEN)"
  by (simp_all add: ble_target_def demo_ble_world_def demo_ble_conn_def caches_ok_def slot_free_def SoftBusCalloc_def SoftBusMalloc_def demo_ble_env_def)

theorem ble_slices_any_order_witness:
  "\<exists>w' mem i w2. BleTransSend demo_ble_env demo_ble_conn [1, 2, 3, 4, 5] 5 7 13 demo_ble_world = Some (SOFTBUS_OK, w') \<and>
     recv_all demo_ble_env 5 (rev (ble_slices 7 2 [1, 2, 3, 4, 5])) demo_ble_world = Some ([None, None, Some (mem, 5, i)], w2) \<and> take 5 mem = [1, 2, 3, 4, 5]"
proof -
  let ?d = "[1, 2, 3, 4, 5] :: byte list"
  have c: "isServer (b_info demo_ble_conn)" "b_mtu demo_ble_conn = 21" by (simp_all add: demo_ble_conn_def)
  obtain w' where w': "BleTransSend demo_ble_env demo_ble_conn ?d (int (length ?d)) 7 13 demo_ble_world = Some (SOFTBUS_OK, w')"
    using BleTransSend_total [of demo_ble_conn ?d demo_ble_env 7 13 demo_ble_world] c by (auto simp: demo_ble_env_def)
  have s: "ble_acts w' = ble_acts demo_ble_world @ map (GattsNotify (b_halConnId demo_ble_conn) (GetBleAttrHandle 13 demo_ble_world)) (ble_slices 7 2 ?d)"
    using BleTransSend_slices [OF w' c(1)] c(2) by simp
  have l: "length (rev (ble_slices 7 2 ?d)) = 3" by (simp add: ble_slices_def offs.simps)
  have "bt_lock demo_ble_env" by (simp add: demo_ble_env_def)
  from ble_slices_any_order [OF w' c(1) s _ _ demo_ble_ready(1) this demo_ble_ready(2-4), of "rev (ble_slices 7 2 ?d)"] l
  show ?thesis using w' by (auto simp: eval_nat_numeral)
qed

text \<open>No bytes of a slice are written outside the block of its slot: only a value shorter than the header is read beyond its end.\<close>

definition ble_conns_ok :: "ble_world \<Rightarrow> bool" where
  "ble_conns_ok w \<longleftrightarrow> (\<forall>n \<in> set (g_conection_list w). caches_ok (b_recvCache n))"

lemma match_or_last_less: "match_or_last P xs = Some i \<Longrightarrow> i < length xs"
  by (auto simp: match_or_last_def dest: find_index_SomeD split: option.splits if_splits)

lemma conns_ok_set_caches: "ble_conns_ok w \<Longrightarrow> caches_ok cs \<Longrightarrow> ble_conns_ok (set_caches t cs w)"
  unfolding ble_conns_ok_def upd_conn_def using set_update_subset_insert [of "g_conection_list w" t] by fastforce

lemma map_plus_0: "map_option ((+) (0 :: nat)) z = z"
  by (cases z) simp_all

lemma cache_slot_ok:
  assumes "caches_ok cs" "cache_slot env sq cs = (slot, cs')"
  shows "caches_ok cs' \<and> (\<forall>i. slot = Some i \<longrightarrow> i < length cs' \<and> rc_cache (cs' ! i) \<noteq> None \<and> rc_isUsed (cs' ! i))"
proof -
  obtain slot' av where l: "cache_loop sq 0 None cs = (slot', av)" by (cases "cache_loop sq 0 None cs")
  have f: "slot' = find_index (\<lambda>c. rc_isUsed c \<and> rc_seq c = sq) cs" using cache_loop_fst [of sq 0 None cs] by (simp add: l map_plus_0)
  show ?thesis
  proof (cases slot')
    case (Some i)
    then have "i < length cs \<and> rc_isUsed (cs ! i)" using find_index_SomeD [of "\<lambda>c. rc_isUsed c \<and> rc_seq c = sq" cs i] f by simp
    then show ?thesis using assms Some by (auto simp: cache_slot_def l caches_ok_def)
  next
    case None
    then have av: "av = find_index (\<lambda>c. \<not> rc_isUsed c) cs" using cache_loop_snd [of sq cs 0 None] f by (simp add: l map_plus_0)
    show ?thesis
    proof (cases av)
      case (Some a)
      then have a: "a < length cs" using av find_index_SomeD [of "\<lambda>c. \<not> rc_isUsed c" cs a] by simp
      then have "length m = MAX_DATA_LEN" if "rc_cache (cs ! a) = Some m" for m using assms(1) that by (auto simp: caches_ok_def)
      then show ?thesis using assms None Some a
        by (auto simp: cache_slot_def l Let_def split: if_splits intro!: caches_ok_update)
    qed (use assms None in \<open>simp add: cache_slot_def l\<close>)
  qed
qed

lemma cache_store_ok:
  assumes "caches_ok cs" "i < length cs" "rc_cache (cs ! i) \<noteq> None" "unat (bh_size h) \<le> length body"
  shows "\<exists>r cs'. cache_store h body i cs = Some (r, cs') \<and> caches_ok cs'"
proof -
  obtain mem where m: "rc_cache (cs ! i) = Some mem" "length mem = MAX_DATA_LEN" using assms(1-3) by (fastforce simp: caches_ok_def)
  show ?thesis
  proof (cases "unat (bh_offset h) \<ge> MAX_DATA_LEN \<or> unat (bh_size h) > MAX_DATA_LEN - unat (bh_offset h)")
    case True
    then show ?thesis using assms(1) m by (auto simp: cache_store_def Let_def intro!: caches_ok_update)
  next
    case False
    then have "unat (bh_offset h) + unat (bh_size h) \<le> MAX_DATA_LEN" by linarith
    then show ?thesis using False assms(1,4) m by (auto simp: cache_store_def Let_def intro!: caches_ok_update)
  qed
qed

lemma BleTransRecv_total:
  assumes "ble_conns_ok w" "\<And>v. vp = Some v \<Longrightarrow> 16 \<le> length v \<and> length v < 2 ^ 31"
  shows "\<exists>r w'. BleTransRecv env hal vp w = Some (r, w') \<and> ble_conns_ok w'"
proof (cases "vp = None \<or> GetBleConnInfoByHalConnId env hal w = None")
  case True
  then show ?thesis using assms(1) by (auto simp: BleTransRecv_def split: option.split)
next
  case False
  then obtain v t where v: "vp = Some v" "GetBleConnInfoByHalConnId env hal w = Some t" by auto
  have t: "caches_ok (caches t w)"
    using v(2) assms(1) by (auto simp: GetBleConnInfoByHalConnId_def ble_conns_ok_def split: if_splits dest!: match_or_last_less)
  obtain ret h where h: "GetTransHeader v (of_nat (length v)) = Some (ret, h)" using assms(2) [OF v(1)] by (simp add: GetTransHeader_def Let_def)
  show ?thesis
  proof (cases "ret \<noteq> SOFTBUS_OK \<or> bh_size h = bh_total h")
    case True
    then show ?thesis using assms(1) by (auto simp: BleTransRecv_def v h)
  next
    case False
    obtain slot cs where s: "cache_slot env (bh_seq h) (caches t w) = (slot, cs)" by (cases "cache_slot env (bh_seq h) (caches t w)")
    note ok = cache_slot_ok [OF t s]
    have "bh_size h = of_nat (length v) - 16" using False h by (auto simp: GetTransHeader_def Let_def split: if_splits)
    moreover obtain n where n: "length v = n + 16" "n < 2 ^ 31" using assms(2) [OF v(1)] by (metis add_lessD1 le_add_diff_inverse2)
    ultimately have "bh_size h = of_nat n" by simp
    then have "unat (bh_size h) \<le> length (drop 16 v)" using n by (simp add: unat_of_nat take_bit_nat_eq_self)
    then have "\<exists>r cs'. cache_store h (drop 16 v) i cs = Some (r, cs') \<and> caches_ok cs'" if "slot = Some i" for i
      using ok that by (intro cache_store_ok) auto
    then show ?thesis using False ok assms(1)
      by (cases slot) (auto simp: BleTransRecv_def v h s conns_ok_set_caches)
  qed
qed

end
