(* ===== verification/Ble_Connection.thy ===== *)
theory Ble_Connection
  imports Lock_Free_Queue Ble_Trans
begin

text \<open>
  The Bluetooth Low Energy transport, second part: \<^verbatim>\<open>core/connection/ble/src/softbus_ble_connection.c\<close>. The connections
  and their reference counts, the queue and the thread that sends, the GATT service with the callbacks by
  which the bluetooth stack drives it, and the reception of data. An operation that waits for a mutex nobody
  releases is \<^const>\<open>Blocked\<close>, one that leaves its buffers is \<^const>\<open>MemFault\<close>.
\<close>

abbreviation (input) CONNECT_REF_DECRESE :: int where "CONNECT_REF_DECRESE \<equiv> - 1"
abbreviation (input) METHOD_NOTIFY_REQUEST :: int where "METHOD_NOTIFY_REQUEST \<equiv> 1"
abbreviation (input) METHOD_NOTIFY_RESPONSE :: int where "METHOD_NOTIFY_RESPONSE \<equiv> 2"
abbreviation (input) BLE_GATT_ATT_MTU_DEFAULT_PAYLOAD :: int where "BLE_GATT_ATT_MTU_DEFAULT_PAYLOAD \<equiv> 21"
abbreviation (input) BLE_ROLE_SERVER :: int where "BLE_ROLE_SERVER \<equiv> 2"
abbreviation (input) TYPE_HEADER_SIZE :: nat where "TYPE_HEADER_SIZE \<equiv> 4"
abbreviation (input) TYPE_BASIC_INFO :: "32 word" where "TYPE_BASIC_INFO \<equiv> 1"
abbreviation (input) UUID_BUF_LEN :: nat where "UUID_BUF_LEN \<equiv> 65"
abbreviation (input) SEND_QUEUE_UNIT_NUM :: nat where "SEND_QUEUE_UNIT_NUM \<equiv> 128"
abbreviation (input) CHARA_PROPERTIES :: "32 word" where "CHARA_PROPERTIES \<equiv> 0x3E"
abbreviation (input) CHARA_PERMISSIONS :: "32 word" where "CHARA_PERMISSIONS \<equiv> 0x11"

definition SOFTBUS_SERVICE_UUID :: string where "SOFTBUS_SERVICE_UUID = ''11C8B310-80E4-4276-AFC0-F81590B2177F''"
definition SOFTBUS_CHARA_BLENET_UUID :: string where "SOFTBUS_CHARA_BLENET_UUID = ''00002B00-0000-1000-8000-00805F9B34FB''"
definition SOFTBUS_CHARA_BLECONN_UUID :: string where "SOFTBUS_CHARA_BLECONN_UUID = ''00002B01-0000-1000-8000-00805F9B34FB''"
definition SOFTBUS_DESCRIPTOR_CONFIGURE_UUID :: string where "SOFTBUS_DESCRIPTOR_CONFIGURE_UUID = ''00002902-0000-1000-8000-00805F9B34FB''"

fun io_bind :: "'a io \<Rightarrow> ('a \<Rightarrow> 'b io) \<Rightarrow> 'b io" where
  "io_bind (Ret x) f = f x"
| "io_bind Blocked f = Blocked"
| "io_bind MemFault f = MemFault"

section \<open>Connections\<close>

text \<open>An address as text: six bytes in hexadecimal with colons between them.\<close>

definition hex_text :: "byte \<Rightarrow> string" where
  "hex_text b = [''0123456789abcdef'' ! (unat b div 16), ''0123456789abcdef'' ! (unat b mod 16)]"

definition ConvertBtMacToStr :: "byte list \<Rightarrow> string" where
  "ConvertBtMacToStr binMac = tl (concat (map (\<lambda>b. CHR '':'' # hex_text b) (take 6 binMac)))"

text \<open>The counter is 16 bits wide and signed; an id that is in use makes the counter advance and is returned all the same.\<close>

definition AllocBleConnectionIdLocked :: "ble_env \<Rightarrow> ble_world \<Rightarrow> 32 word \<times> ble_world" where
  "AllocBleConnectionIdLocked env w =
     (if \<not> bt_lock env then (0, w)
      else
        let next = nextConnectionId w + 1;
            tempId = push_bit CONNECT_TYPE_SHIFT CONNECT_BLE + scast next;
            used = length (filter (\<lambda>n. b_connId n = tempId) (g_conection_list w))
        in (tempId, w\<lparr>nextConnectionId := next + of_nat used\<rparr>))"

definition empty_cache :: BleRecvCache where
  "empty_cache = \<lparr>rc_isUsed = False, rc_seq = 0, rc_currentSize = 0, rc_cache = None\<rparr>"

definition CreateBleConnectionNode :: "ble_env \<Rightarrow> ble_world \<Rightarrow> BleConnectionInfo option \<times> ble_world" where
  "CreateBleConnectionNode env w =
     (if \<not> bt_node env then (None, w)
      else case AllocBleConnectionIdLocked env w of
             (cid, w1) \<Rightarrow>
               (Some \<lparr>b_halConnId = 0, b_connId = cid, b_btBinaryAddr = replicate 6 0,
                  b_info = \<lparr>isAvailable = True, isServer = False, ci_type = CONNECT_BLE, ci_info = BleInfo [] []\<rparr>,
                  b_state = BLE_CONNECTION_STATE_CONNECTING, b_refCount = 1, b_mtu = BLE_GATT_ATT_MTU_DEFAULT_PAYLOAD,
                  b_peerType = 0, b_peerDevId = [], b_recvCache = replicate MAX_CACHE_NUM_PER_CONN empty_cache\<rparr>, w1))"

text \<open>The last server and the last client entry with the address seen until both are known.\<close>

fun addr_mac :: "conn_addr \<Rightarrow> string" where
  "addr_mac (BleInfo mac _) = mac" | "addr_mac (BrInfo mac) = mac" | "addr_mac (IpInfo address _ _) = address"

fun addr_loop :: "string \<Rightarrow> nat \<Rightarrow> nat option \<Rightarrow> nat option \<Rightarrow> BleConnectionInfo list \<Rightarrow> nat option \<times> nat option" where
  "addr_loop mac i server client [] = (server, client)"
| "addr_loop mac i server client (n # ns) =
     (if addr_mac (ci_info (b_info n)) = mac
      then let server' = (if isServer (b_info n) then Some i else server);
               client' = (if isServer (b_info n) then client else Some i)
           in if server' \<noteq> None \<and> client' \<noteq> None then (server', client') else addr_loop mac (i + 1) server' client' ns
      else addr_loop mac (i + 1) server client ns)"

definition GetBleConnInfoByAddr :: "ble_env \<Rightarrow> string \<Rightarrow> ble_world \<Rightarrow> int \<times> nat option \<times> nat option" where
  "GetBleConnInfoByAddr env mac w =
     (if \<not> bt_lock env then (SOFTBUS_BLECONNECTION_MUTEX_LOCK_ERROR, None, None)
      else (SOFTBUS_OK, addr_loop mac 0 None None (g_conection_list w)))"

definition BleConnectDevice :: "ble_env \<Rightarrow> ConnectOption \<Rightarrow> 32 word \<Rightarrow> ConnectResult option \<Rightarrow> ble_world \<Rightarrow> int \<times> ble_world" where
  "BleConnectDevice env opt rid result w = (SOFTBUS_BLECONNECTION_GATT_CLIENT_NOT_SUPPORT, w)"

section \<open>Posting\<close>

definition BleEnqueueNonBlock :: "SendQueueNode \<Rightarrow> ble_world \<Rightarrow> int \<times> ble_world" where
  "BleEnqueueNonBlock n w =
     (case g_sendQueue w of
        None \<Rightarrow> (QUEUE_INVAL, w)
      | Some q \<Rightarrow> if length q \<ge> SEND_QUEUE_UNIT_NUM - 1 then (QUEUE_FULL, w) else (0, w\<lparr>g_sendQueue := Some (q @ [n])\<rparr>))"

text \<open>After the node is queued the mutex of the queue is taken for the signal.\<close>

definition post_node :: "SendQueueNode \<Rightarrow> ble_world \<Rightarrow> (int \<times> ble_world) io" where
  "post_node n w =
     (case BleEnqueueNonBlock n w of
        (ret, w1) \<Rightarrow> if ret \<noteq> SOFTBUS_OK then Ret (ret, w1) else if sendLock w1 then Blocked else Ret (SOFTBUS_OK, w1))"

definition BlePostBytes :: "ble_env \<Rightarrow> 32 word \<Rightarrow> byte list \<Rightarrow> int \<Rightarrow> int \<Rightarrow> 32 word \<Rightarrow> ble_world \<Rightarrow> (int \<times> ble_world) io" where
  "BlePostBytes env cid data len pd flag w =
     (case GetBleConnInfoByConnId env cid w of
        None \<Rightarrow> Ret (SOFTBUS_BLECONNECTION_GETCONNINFO_ERROR, w)
      | Some i \<Rightarrow>
          if \<not> bt_node env then Ret (SOFTBUS_MALLOC_ERR, w)
          else
            let c = g_conection_list w ! i
            in post_node \<lparr>sn_halConnId = b_halConnId c, sn_connectionId = cid, sn_pid = pd, sn_flag = flag, sn_isServer = isServer (b_info c),
                 sn_isInner = 0, sn_module = 0, sn_seq = 0, sn_len = len, sn_data = data\<rparr> w)"

text \<open>The sequence number is stored over the mark of an inner packet.\<close>

definition BlePostBytesInner :: "ble_env \<Rightarrow> 32 word \<Rightarrow> 32 word \<Rightarrow> 64 word \<Rightarrow> byte list \<Rightarrow> ble_world \<Rightarrow> (int \<times> ble_world) io" where
  "BlePostBytesInner env cid m sq data w =
     (case GetBleConnInfoByConnId env cid w of
        None \<Rightarrow> Ret (SOFTBUS_BLECONNECTION_GETCONNINFO_ERROR, w)
      | Some i \<Rightarrow>
          if \<not> bt_node env then Ret (SOFTBUS_MALLOC_ERR, w)
          else
            let c = g_conection_list w ! i
            in post_node \<lparr>sn_halConnId = b_halConnId c, sn_connectionId = cid, sn_pid = 0, sn_flag = 0, sn_isServer = isServer (b_info c),
                 sn_isInner = ucast sq, sn_module = m, sn_seq = 0, sn_len = int (length data), sn_data = data\<rparr> w)"

section \<open>Reference counts\<close>

definition AddNumToJson :: "json_lib \<Rightarrow> int \<Rightarrow> int \<Rightarrow> int \<Rightarrow> json \<Rightarrow> json option" where
  "AddNumToJson lib requestOrResponse delta cn root =
     (if requestOrResponse = METHOD_NOTIFY_REQUEST
      then Option.bind (AddNumberToJsonObject lib ''KEY_METHOD'' METHOD_NOTIFY_REQUEST root)
             (\<lambda>r1. Option.bind (AddNumberToJsonObject lib ''KEY_DELTA'' delta r1) (AddNumberToJsonObject lib ''KEY_REFERENCE_NUM'' cn))
      else Option.bind (AddNumberToJsonObject lib ''KEY_METHOD'' METHOD_NOTIFY_RESPONSE root) (AddNumberToJsonObject lib ''KEY_REFERENCE_NUM'' cn))"

definition SendRefMessage :: "ble_env \<Rightarrow> int \<Rightarrow> 32 word \<Rightarrow> int \<Rightarrow> int \<Rightarrow> ble_world \<Rightarrow> ble_world io" where
  "SendRefMessage env delta cid cn requestOrResponse w =
     (if \<not> cJSON_CreateObject (bt_json env) then Ret w
      else case AddNumToJson (bt_json env) requestOrResponse delta cn [] of
             None \<Rightarrow> Ret w
           | Some json \<Rightarrow>
               (case cJSON_PrintUnformatted (bt_json env) json of
                  None \<Rightarrow> Ret w
                | Some text \<Rightarrow>
                    let dataLen = length text + 1 + 24;
                        head = \<lparr>magic = MAGIC_NUMBER, h_module = MODULE_CONNECTION, h_seq = 1, h_flag = 0, h_len = of_nat (length text + 1)\<rparr>
                    in if \<not> SoftBusCalloc (bt_malloc env) (of_nat dataLen) then Ret w
                       else io_bind (BlePostBytes env cid (head_bytes head @ cstr_bytes text) (int dataLen) 0 0 w) (\<lambda>(ret, w1). Ret w1)))"

definition PackRequest :: "ble_env \<Rightarrow> int \<Rightarrow> 32 word \<Rightarrow> ble_world \<Rightarrow> ble_world io" where
  "PackRequest env delta cid w =
     (if \<not> bt_lock env then Ret w
      else case find_index (\<lambda>n. b_connId n = cid) (g_conection_list w) of
             None \<Rightarrow> Ret w
           | Some i \<Rightarrow>
               let w1 = upd_conn i (b_refCount_update (\<lambda>r. r + of_int delta)) w
               in SendRefMessage env delta cid (sint (b_refCount (g_conection_list w1 ! i))) METHOD_NOTIFY_REQUEST w1)"

definition OnPackResponse :: "ble_env \<Rightarrow> int \<Rightarrow> int \<Rightarrow> 32 word \<Rightarrow> ble_world \<Rightarrow> ble_world io" where
  "OnPackResponse env delta peerRef cid w =
     (if \<not> bt_lock env then Ret w
      else case find_index (\<lambda>n. b_connId n = cid) (g_conection_list w) of
             None \<Rightarrow> Ret w
           | Some i \<Rightarrow>
               let w1 = upd_conn i (b_refCount_update (\<lambda>r. r + of_int delta)) w;
                   c = g_conection_list w1 ! i;
                   myRefCount = sint (b_refCount c)
               in if peerRef > 0 then Ret w1
                  else if myRefCount \<le> 0 then Ret (ble_do (GattsDisconnect (b_btBinaryAddr c) (b_halConnId c)) w1)
                  else SendRefMessage env delta cid myRefCount METHOD_NOTIFY_RESPONSE w1)"

definition RecvConnectedComd :: "ble_env \<Rightarrow> 32 word \<Rightarrow> json \<Rightarrow> ble_world \<Rightarrow> ble_world io" where
  "RecvConnectedComd env cid data w =
     (case GetJsonObjectNumberItem data ''KEY_METHOD'' of
        None \<Rightarrow> Ret w
      | Some keyMethod \<Rightarrow>
          if keyMethod = METHOD_NOTIFY_REQUEST
          then (case (GetJsonObjectNumberItem data ''KEY_DELTA'', GetJsonObjectNumberItem data ''KEY_REFERENCE_NUM'') of
                  (Some keyDelta, Some keyRefernceNum) \<Rightarrow> OnPackResponse env keyDelta keyRefernceNum cid w
                | _ \<Rightarrow> Ret w)
          else if keyMethod = METHOD_NOTIFY_RESPONSE
          then (case (GetJsonObjectNumberItem data ''KEY_REFERENCE_NUM'', find_index (\<lambda>n. b_connId n = cid) (g_conection_list w)) of
                  (Some _, Some i) \<Rightarrow>
                    Ret (if b_state (g_conection_list w ! i) = BLE_CONNECTION_STATE_CLOSING
                         then upd_conn i (b_state_update (\<lambda>_. BLE_CONNECTION_STATE_CONNECTED)) w else w)
                | _ \<Rightarrow> Ret w)
          else Ret w)"

definition BleDisconnectDevice :: "ble_env \<Rightarrow> 32 word \<Rightarrow> ble_world \<Rightarrow> (int \<times> ble_world) io" where
  "BleDisconnectDevice env cid w =
     (if GetBleConnInfoByConnId env cid w = None then Ret (SOFTBUS_BLECONNECTION_GETCONNINFO_ERROR, w)
      else io_bind (PackRequest env CONNECT_REF_DECRESE cid w) (\<lambda>w1. Ret (SOFTBUS_OK, w1)))"

fun opt_mac :: "conn_target \<Rightarrow> string" where
  "opt_mac (BleOption mac _) = mac" | "opt_mac (BrOption mac) = mac" | "opt_mac (IpOption address _) = address"

definition BleDisconnectDeviceNow :: "ble_env \<Rightarrow> ConnectOption \<Rightarrow> ble_world \<Rightarrow> int \<times> ble_world" where
  "BleDisconnectDeviceNow env opt w =
     (case GetBleConnInfoByAddr env (opt_mac (co_info opt)) w of
        (ret, server, client) \<Rightarrow>
          if ret \<noteq> SOFTBUS_OK \<or> (server = None \<and> client = None) then (SOFTBUS_BLECONNECTION_GETCONNINFO_ERROR, w)
          else case server of
                 None \<Rightarrow> (SOFTBUS_BLECONNECTION_GATT_CLIENT_NOT_SUPPORT, w)
               | Some i \<Rightarrow>
                   let c = g_conection_list w ! i in
                   (case bt_scan env (addr_mac (ci_info (b_info c))) of
                      (rc, addr) \<Rightarrow> if rc < 0 then (SOFTBUS_ERR, w) else (bt_stack env, ble_do (GattsDisconnect addr (b_halConnId c)) w)))"

definition BleGetConnectionInfo :: "ble_env \<Rightarrow> 32 word \<Rightarrow> ConnectionInfo option \<Rightarrow> ble_world \<Rightarrow> int \<times> ConnectionInfo option" where
  "BleGetConnectionInfo env cid info w =
     (if \<not> bt_lock env then (SOFTBUS_ERR, info)
      else case find_index (\<lambda>n. b_connId n = cid) (g_conection_list w) of
             None \<Rightarrow> (SOFTBUS_ERR, info)
           | Some i \<Rightarrow> (SOFTBUS_OK, map_option (\<lambda>_. b_info (g_conection_list w ! i)) info))"

section \<open>The GATT service\<close>

definition upd_gatt :: "(SoftBusGattService \<Rightarrow> SoftBusGattService) \<Rightarrow> ble_world \<Rightarrow> ble_world" where
  "upd_gatt f w = w\<lparr>g_gattService := f (g_gattService w)\<rparr>"

abbreviation gatt_state :: "ble_world \<Rightarrow> GattServiceState" where
  "gatt_state w \<equiv> gs_state (g_gattService w)"

abbreviation set_gatt_state :: "GattServiceState \<Rightarrow> ble_world \<Rightarrow> ble_world" where
  "set_gatt_state st \<equiv> upd_gatt (gs_state_update (\<lambda>_. st))"

definition BleStartLocalListening :: "ble_env \<Rightarrow> ble_world \<Rightarrow> int \<times> ble_world" where
  "BleStartLocalListening env w =
     (if \<not> bt_lock env then (SOFTBUS_BLECONNECTION_MUTEX_LOCK_ERROR, w)
      else if gatt_state w = BLE_GATT_SERVICE_STARTED \<or> gatt_state w = BLE_GATT_SERVICE_STARTING then (SOFTBUS_OK, w)
      else if gatt_state w = BLE_GATT_SERVICE_ADDED
      then let w1 = ble_do (GattsStartService (gs_svcId (g_gattService w))) (set_gatt_state BLE_GATT_SERVICE_STARTING w)
           in if bt_stack env \<noteq> SOFTBUS_OK then (SOFTBUS_ERR, set_gatt_state BLE_GATT_SERVICE_ADDED w1) else (SOFTBUS_OK, w1)
      else (SOFTBUS_ERR, w))"

definition BleStopLocalListening :: "ble_env \<Rightarrow> ble_world \<Rightarrow> int \<times> ble_world" where
  "BleStopLocalListening env w =
     (if \<not> bt_lock env then (SOFTBUS_BLECONNECTION_MUTEX_LOCK_ERROR, w)
      else if gatt_state w = BLE_GATT_SERVICE_ADDED \<or> gatt_state w = BLE_GATT_SERVICE_STOPPING then (SOFTBUS_OK, w)
      else if gatt_state w = BLE_GATT_SERVICE_STARTED
      then let w1 = ble_do (GattsStopService (gs_svcId (g_gattService w))) (set_gatt_state BLE_GATT_SERVICE_STOPPING w)
           in if bt_stack env \<noteq> SOFTBUS_OK then (SOFTBUS_ERR, set_gatt_state BLE_GATT_SERVICE_STARTED w1) else (SOFTBUS_OK, w1)
      else (SOFTBUS_ERR, w))"

definition gatt_delete :: "ble_env \<Rightarrow> ble_world \<Rightarrow> ble_world" where
  "gatt_delete env w =
     (if gs_svcId (g_gattService w) \<noteq> - 1
      then let w1 = ble_do (GattsDeleteService (gs_svcId (g_gattService w))) (set_gatt_state BLE_GATT_SERVICE_DELETING w)
           in if bt_stack env \<noteq> SOFTBUS_OK then set_gatt_state BLE_GATT_SERVICE_INVALID w1 else w1
      else set_gatt_state BLE_GATT_SERVICE_INITIAL w)"

definition gatt_complete :: "SoftBusGattService \<Rightarrow> bool" where
  "gatt_complete s \<longleftrightarrow> gs_svcId s \<noteq> - 1 \<and> gs_bleConnCharaId s \<noteq> - 1 \<and> gs_bleNetCharaId s \<noteq> - 1 \<and> gs_bleConnDesId s \<noteq> - 1 \<and> gs_bleNetDesId s \<noteq> - 1"

definition UpdateGattService :: "ble_env \<Rightarrow> int \<Rightarrow> ble_world \<Rightarrow> ble_world" where
  "UpdateGattService env rst w =
     (if \<not> bt_lock env then w
      else case gatt_state w of
             BLE_GATT_SERVICE_ADDING \<Rightarrow>
               if gatt_complete (g_gattService w) then snd (BleStartLocalListening env (set_gatt_state BLE_GATT_SERVICE_ADDED w))
               else gatt_delete env w
           | BLE_GATT_SERVICE_STARTING \<Rightarrow> set_gatt_state (if rst = SOFTBUS_OK then BLE_GATT_SERVICE_STARTED else BLE_GATT_SERVICE_ADDED) w
           | BLE_GATT_SERVICE_STOPPING \<Rightarrow> set_gatt_state (if rst = SOFTBUS_OK then BLE_GATT_SERVICE_ADDED else BLE_GATT_SERVICE_STARTED) w
           | BLE_GATT_SERVICE_DELETING \<Rightarrow> set_gatt_state (if rst = SOFTBUS_OK then BLE_GATT_SERVICE_INITIAL else BLE_GATT_SERVICE_INVALID) w
           | _ \<Rightarrow> w)"

definition ResetGattService :: "ble_env \<Rightarrow> ble_world \<Rightarrow> ble_world" where
  "ResetGattService env w =
     (if \<not> bt_lock env then w
      else upd_gatt (\<lambda>s. s\<lparr>gs_svcId := - 1, gs_bleConnCharaId := - 1, gs_bleConnDesId := - 1, gs_bleNetCharaId := - 1, gs_bleNetDesId := - 1\<rparr>) (gatt_delete env w))"

text \<open>An identifier given by the stack is compared over its own length.\<close>

definition uuid_is :: "string \<Rightarrow> string \<Rightarrow> bool" where
  "uuid_is u uuid \<longleftrightarrow> u = take (length u) uuid"

definition post_loop :: "BleConnLoopMsg \<Rightarrow> ble_world \<Rightarrow> ble_world" where
  "post_loop msg w = w\<lparr>loopMsgs := loopMsgs w @ [msg]\<rparr>"

definition BleServiceAddCallback :: "ble_env \<Rightarrow> int \<Rightarrow> string option \<Rightarrow> int \<Rightarrow> ble_world \<Rightarrow> ble_world" where
  "BleServiceAddCallback env rst uuid srvcHandle w =
     (case uuid of
        None \<Rightarrow> w
      | Some u \<Rightarrow>
          if \<not> uuid_is u SOFTBUS_SERVICE_UUID then w
          else if rst \<noteq> SOFTBUS_OK then ResetGattService env w
          else if \<not> bt_lock env then w
          else if gatt_state w \<noteq> BLE_GATT_SERVICE_ADDING then w
          else
            let w1 = upd_gatt (gs_svcId_update (\<lambda>_. srvcHandle)) w in
            if \<not> bt_msg env 0 then w1
            else let w2 = post_loop (ADD_CHARA_MSG CHARA_PROPERTIES CHARA_PERMISSIONS SOFTBUS_CHARA_BLENET_UUID) w1 in
            if \<not> bt_msg env 1 then w2
            else let w3 = post_loop (ADD_DESCRIPTOR_MSG CHARA_PERMISSIONS SOFTBUS_DESCRIPTOR_CONFIGURE_UUID) w2 in
            if \<not> bt_msg env 2 then w3
            else post_loop (ADD_CHARA_MSG CHARA_PROPERTIES CHARA_PERMISSIONS SOFTBUS_CHARA_BLECONN_UUID) w3)"

definition BleCharacteristicAddCallback :: "ble_env \<Rightarrow> int \<Rightarrow> string option \<Rightarrow> int \<Rightarrow> int \<Rightarrow> ble_world \<Rightarrow> ble_world" where
  "BleCharacteristicAddCallback env rst uuid srvcHandle characteristicHandle w =
     (case uuid of
        None \<Rightarrow> w
      | Some u \<Rightarrow>
          if srvcHandle = gs_svcId (g_gattService w) \<and> uuid_is u SOFTBUS_CHARA_BLENET_UUID
          then if rst \<noteq> SOFTBUS_OK then ResetGattService env w
               else if \<not> bt_lock env then w
               else if gatt_state w \<noteq> BLE_GATT_SERVICE_ADDING then w
               else upd_gatt (gs_bleNetCharaId_update (\<lambda>_. characteristicHandle)) w
          else if srvcHandle = gs_svcId (g_gattService w) \<and> uuid_is u SOFTBUS_CHARA_BLECONN_UUID
          then if rst \<noteq> SOFTBUS_OK then ResetGattService env w
               else if \<not> bt_lock env then w
               else if gatt_state w \<noteq> BLE_GATT_SERVICE_ADDING then w
               else
                 let w1 = upd_gatt (gs_bleConnCharaId_update (\<lambda>_. characteristicHandle)) w in
                 if \<not> bt_msg env 0 then w1
                 else post_loop (ADD_DESCRIPTOR_MSG CHARA_PERMISSIONS SOFTBUS_DESCRIPTOR_CONFIGURE_UUID) w1
          else w)"

definition BleDescriptorAddCallback :: "ble_env \<Rightarrow> int \<Rightarrow> string option \<Rightarrow> int \<Rightarrow> int \<Rightarrow> ble_world \<Rightarrow> ble_world" where
  "BleDescriptorAddCallback env rst uuid srvcHandle descriptorHandle w =
     (case uuid of
        None \<Rightarrow> w
      | Some u \<Rightarrow>
          if srvcHandle = gs_svcId (g_gattService w) \<and> uuid_is u SOFTBUS_DESCRIPTOR_CONFIGURE_UUID
          then if rst \<noteq> SOFTBUS_OK then ResetGattService env w
               else if \<not> bt_lock env then w
               else if gatt_state w \<noteq> BLE_GATT_SERVICE_ADDING then w
               else if gs_bleNetDesId (g_gattService w) = - 1 then upd_gatt (gs_bleNetDesId_update (\<lambda>_. descriptorHandle)) w
               else UpdateGattService env 0 (upd_gatt (gs_bleConnDesId_update (\<lambda>_. descriptorHandle)) w)
          else w)"

definition service_callback :: "ble_env \<Rightarrow> int \<Rightarrow> int \<Rightarrow> ble_world \<Rightarrow> ble_world" where
  "service_callback env rst srvcHandle w =
     (if srvcHandle \<noteq> gs_svcId (g_gattService w) then w else UpdateGattService env rst w)"

definition BleServiceStartCallback :: "ble_env \<Rightarrow> int \<Rightarrow> int \<Rightarrow> ble_world \<Rightarrow> ble_world" where
  "BleServiceStartCallback = service_callback"

definition BleServiceStopCallback :: "ble_env \<Rightarrow> int \<Rightarrow> int \<Rightarrow> ble_world \<Rightarrow> ble_world" where
  "BleServiceStopCallback = service_callback"

definition BleServiceDeleteCallback :: "ble_env \<Rightarrow> int \<Rightarrow> int \<Rightarrow> ble_world \<Rightarrow> ble_world" where
  "BleServiceDeleteCallback = service_callback"

fun BleConnMsgHandler :: "ble_env \<Rightarrow> BleConnLoopMsg \<Rightarrow> ble_world \<Rightarrow> ble_world" where
  "BleConnMsgHandler env (ADD_SERVICE_MSG uuid) w =
     (if bt_register env \<noteq> SOFTBUS_OK then w
      else if \<not> bt_lock env then w
      else ble_do (GattsAddService (take 16 uuid)) (set_gatt_state BLE_GATT_SERVICE_ADDING w))"
| "BleConnMsgHandler env (ADD_CHARA_MSG properties permissions uuid) w =
     ble_do (GattsAddCharacteristic (gs_svcId (g_gattService w)) (take 16 uuid) properties permissions) w"
| "BleConnMsgHandler env (ADD_DESCRIPTOR_MSG permissions uuid) w =
     ble_do (GattsAddDescriptor (gs_svcId (g_gattService w)) (take 16 uuid) permissions) w"

text \<open>Bluetooth was turned on or changed its state otherwise.\<close>

definition BleConnOnBtStateChanged :: "ble_env \<Rightarrow> bool \<Rightarrow> ble_world \<Rightarrow> ble_world" where
  "BleConnOnBtStateChanged env turnOn w =
     (if turnOn \<and> bt_msg env 0 then post_loop (ADD_SERVICE_MSG SOFTBUS_SERVICE_UUID) w else w)"

section \<open>Connecting and disconnecting\<close>

definition BleConnectServerCallback :: "ble_env \<Rightarrow> int \<Rightarrow> byte list \<Rightarrow> ble_world \<Rightarrow> ble_world io" where
  "BleConnectServerCallback env hal btAddr w =
     (if \<not> bt_lock env then Ret w
      else if find_index (\<lambda>n. b_halConnId n = hal) (g_conection_list w) \<noteq> None then Ret w
      else case CreateBleConnectionNode env w of
             (None, w1) \<Rightarrow> MemFault
           | (Some n, w1) \<Rightarrow>
               let newNode = n\<lparr>b_halConnId := hal, b_btBinaryAddr := take 6 btAddr, b_state := BLE_CONNECTION_STATE_CONNECTED,
                     b_info := (b_info n)\<lparr>isServer := True, ci_info := BleInfo (ConvertBtMacToStr btAddr) []\<rparr>\<rparr>;
                   w2 = w1\<lparr>g_conection_list := g_conection_list w1 @ [newNode]\<rparr>
               in if \<not> g_connectCallback w2 then MemFault
                  else Ret (ble_do (BleUpConnected (b_connId newNode) (b_info newNode)) w2))"

text \<open>The node is freed before the connection manager is told; what it is told is what the freed memory reads as.\<close>

definition BleDisconnectServerCallback :: "ble_env \<Rightarrow> int \<Rightarrow> ble_world \<Rightarrow> ble_world io" where
  "BleDisconnectServerCallback env hal w =
     (if \<not> bt_lock env then Ret w
      else if find_index (\<lambda>n. b_halConnId n = hal) (g_conection_list w) = None then Ret w
      else
        let w1 = w\<lparr>g_conection_list := del_first (\<lambda>n. b_halConnId n = hal) (g_conection_list w)\<rparr>
        in if \<not> g_connectCallback w1 then MemFault
           else Ret (ble_do (BleUpDisconnected (fst (bt_freed env)) (snd (bt_freed env))) w1))"

definition BleMtuChangeCallback :: "ble_env \<Rightarrow> int \<Rightarrow> int \<Rightarrow> ble_world \<Rightarrow> ble_world" where
  "BleMtuChangeCallback env hal mtu w =
     (case GetBleConnInfoByConnId env (of_int hal) w of
        None \<Rightarrow> w
      | Some i \<Rightarrow> upd_conn i (b_mtu_update (\<lambda>_. mtu)) w)"

section \<open>Receiving data\<close>

definition SendSelfBasicInfo :: "ble_env \<Rightarrow> 32 word \<Rightarrow> ble_world \<Rightarrow> (int \<times> ble_world) io" where
  "SendSelfBasicInfo env cid w =
     (if \<not> cJSON_CreateObject (bt_json env) then Ret (SOFTBUS_ERR, w)
      else case bt_udid env of
             None \<Rightarrow> Ret (SOFTBUS_ERR, w)
           | Some devId \<Rightarrow>
               (case Option.bind (AddStringToJsonObject (bt_json env) ''devid'' devId []) (AddNumberToJsonObject (bt_json env) ''type'' BLE_ROLE_SERVER) of
                  None \<Rightarrow> Ret (SOFTBUS_ERR, w)
                | Some json \<Rightarrow>
                    (case cJSON_PrintUnformatted (bt_json env) json of
                       None \<Rightarrow> Ret (SOFTBUS_ERR, w)
                     | Some text \<Rightarrow>
                         if \<not> SoftBusCalloc (bt_malloc env) (of_nat (length text + 1 + TYPE_HEADER_SIZE)) then Ret (SOFTBUS_ERR, w)
                         else io_bind (BlePostBytesInner env cid MODULE_BLE_NET (scast (basicInfoSeq w)) (le_bytes 4 TYPE_BASIC_INFO @ cstr_bytes text)
                                         (w\<lparr>basicInfoSeq := basicInfoSeq w + 1\<rparr>)) (\<lambda>(ret, w1). Ret (SOFTBUS_OK, w1)))))"

text \<open>The text behind the first \<open>n\<close> bytes; it has to end inside the memory.\<close>

definition text_at :: "nat \<Rightarrow> byte list \<Rightarrow> string option" where
  "text_at n value = (if 0 \<in> set (drop n value) then Some (cstr (drop n value)) else None)"

definition PeerBasicInfoParse :: "ble_env \<Rightarrow> nat \<Rightarrow> byte list \<Rightarrow> ble_world \<Rightarrow> (int \<times> ble_world) io" where
  "PeerBasicInfoParse env i value w =
     (case text_at TYPE_HEADER_SIZE value of
        None \<Rightarrow> MemFault
      | Some text \<Rightarrow>
          (case cJSON_Parse (bt_json env) text of
             None \<Rightarrow> Ret (SOFTBUS_ERR, w)
           | Some data \<Rightarrow>
               (case GetJsonObjectStringItem data ''devid'' UUID_BUF_LEN of
                  None \<Rightarrow> Ret (SOFTBUS_ERR, w)
                | Some devid \<Rightarrow>
                    let w1 = upd_conn i (b_peerDevId_update (\<lambda>_. devid)) w in
                    (case GetJsonObjectNumberItem data ''type'' of
                       None \<Rightarrow> Ret (SOFTBUS_ERR, w1)
                     | Some t \<Rightarrow> Ret (SOFTBUS_OK, upd_conn i (b_peerType_update (\<lambda>_. t)) w1)))))"

definition BleOnDataReceived :: "ble_env \<Rightarrow> int \<Rightarrow> int \<Rightarrow> 32 word \<Rightarrow> byte list \<Rightarrow> ble_world \<Rightarrow> ble_world io" where
  "BleOnDataReceived env handle hal len value w =
     (case GetBleConnInfoByHalConnId env hal w of
        None \<Rightarrow> Ret w
      | Some i \<Rightarrow>
          let c = g_conection_list w ! i in
          if handle = gs_bleConnCharaId (g_gattService w)
          then if length value < 24 then MemFault
               else
                 let head = bytes_head value in
                 if h_module head = MODULE_CONNECTION
                 then (case text_at 24 value of
                         None \<Rightarrow> MemFault
                       | Some text \<Rightarrow>
                           (case cJSON_Parse (bt_json env) text of
                              None \<Rightarrow> Ret w
                            | Some data \<Rightarrow> RecvConnectedComd env (b_connId c) data w))
                 else if g_connectCallback w
                 then Ret (ble_do (BleUpData (b_connId c) (h_module head) (h_seq head) value (sint (h_len head + 24))) w)
                 else Ret w
          else if b_state c = BLE_CONNECTION_STATE_BASIC_INFO_EXCHANGED
          then if g_connectCallback w then Ret (ble_do (BleUpData (b_connId c) MODULE_BLE_NET 0 value (sint len)) w) else MemFault
          else io_bind (PeerBasicInfoParse env i value w)
                 (\<lambda>(ret, w1). if ret \<noteq> SOFTBUS_OK then Ret w1
                    else io_bind (SendSelfBasicInfo env (b_connId c) (upd_conn i (b_state_update (\<lambda>_. BLE_CONNECTION_STATE_BASIC_INFO_EXCHANGED)) w1))
                           (\<lambda>(ret, w2). Ret w2)))"

definition BleRequestReadCallback :: "int \<Rightarrow> int \<Rightarrow> ble_world \<Rightarrow> ble_world" where
  "BleRequestReadCallback hal transId w = ble_do (GattsSendResponse hal transId (cstr_bytes ''not support!'')) w"

definition BleRequestWriteCallback :: "ble_env \<Rightarrow> int \<Rightarrow> int \<Rightarrow> int \<Rightarrow> bool \<Rightarrow> byte list \<Rightarrow> ble_world \<Rightarrow> ble_world io" where
  "BleRequestWriteCallback env hal transId attrHandle needRsp value w =
     (if attrHandle \<noteq> gs_bleConnCharaId (g_gattService w) \<and> attrHandle \<noteq> gs_bleNetCharaId (g_gattService w) then Ret w
      else
        let w1 = (if needRsp then ble_do (GattsSendResponse hal transId value) w else w) in
        case BleTransRecv env hal (Some value) w1 of
          None \<Rightarrow> MemFault
        | Some (None, w2) \<Rightarrow> Ret w2
        | Some (Some (mem, len, index), w2) \<Rightarrow>
            io_bind (BleOnDataReceived env attrHandle hal len mem w2)
              (\<lambda>w3. if index = - 1 then Ret w3
                 else case BleTransCacheFree env hal index w3 of None \<Rightarrow> MemFault | Some w4 \<Rightarrow> Ret w4))"

section \<open>The thread that sends\<close>

definition SendBleData :: "ble_env \<Rightarrow> SendQueueNode \<Rightarrow> ble_world \<Rightarrow> (int \<times> ble_world) io" where
  "SendBleData env n w =
     (if \<not> sn_isServer n then Ret (SOFTBUS_ERR, w)
      else case GetBleConnInfoByConnId env (sn_connectionId n) w of
             None \<Rightarrow> Ret (SOFTBUS_ERR, w)
           | Some i \<Rightarrow>
               let c = g_conection_list w ! i;
                   send = (\<lambda>sq m. case BleTransSend env c (sn_data n) (sn_len n) sq m w of None \<Rightarrow> MemFault | Some r \<Rightarrow> Ret r)
               in if sn_isInner n \<noteq> 0 then send (sn_seq n) (sn_module n)
                  else if length (sn_data n) < 24 then MemFault
                  else send (ucast (h_seq (bytes_head (sn_data n)))) (h_module (bytes_head (sn_data n))))"

text \<open>
  Taking the next node: the thread waits when the queue is empty, and is woken by a signal. Only on the
  way through the wait is the mutex released again.
\<close>

datatype deq = DeqWait | DeqNode "SendQueueNode option"

definition dequeue :: "ble_world \<Rightarrow> (deq \<times> ble_world) io" where
  "dequeue w =
     (case g_sendQueue w of
        Some (n # q) \<Rightarrow> Ret (DeqNode (Some n), w\<lparr>g_sendQueue := Some q\<rparr>)
      | _ \<Rightarrow> Ret (DeqNode None, w))"

definition BleDequeueBlock :: "bool \<Rightarrow> ble_world \<Rightarrow> (deq \<times> ble_world) io" where
  "BleDequeueBlock woken w =
     (if sendLock w then Blocked
      else if woken then dequeue w
      else if g_sendQueue w = Some [] then Ret (DeqWait, w)
      else dequeue (w\<lparr>sendLock := True\<rparr>))"

text \<open>One round of the loop of \<^verbatim>\<open>BleSendTask\<close>: whether the thread now waits, and the state.\<close>

definition BleSendTask :: "ble_env \<Rightarrow> bool \<Rightarrow> ble_world \<Rightarrow> (bool \<times> ble_world) io" where
  "BleSendTask env woken w =
     io_bind (BleDequeueBlock woken w)
       (\<lambda>(d, w1). case d of
          DeqWait \<Rightarrow> Ret (True, w1)
        | DeqNode None \<Rightarrow> Ret (False, w1)
        | DeqNode (Some n) \<Rightarrow> io_bind (SendBleData env n w1) (\<lambda>(ret, w2). Ret (False, w2)))"

section \<open>Start\<close>

definition io_option :: "'a io \<Rightarrow> 'a option" where
  "io_option r = (case r of Ret x \<Rightarrow> Some x | _ \<Rightarrow> None)"

definition InitBleInterface :: "(ble_env, ble_world) ConnectFuncInterface" where
  "InitBleInterface =
     \<lparr>ConnectDevice = Some BleConnectDevice,
      PostBytes = Some (\<lambda>env cid data len pd flag w. io_option (BlePostBytes env cid data len pd flag w)),
      DisconnectDevice = Some (\<lambda>env cid w. io_option (BleDisconnectDevice env cid w)),
      DisconnectDeviceNow = Some BleDisconnectDeviceNow,
      GetConnectionInfo = Some BleGetConnectionInfo,
      StartLocalListening = Some (\<lambda>env info. BleStartLocalListening env),
      StopLocalListening = Some (\<lambda>env info. BleStopLocalListening env)\<rparr>"

definition BleQueueInit :: "bool \<Rightarrow> bool \<Rightarrow> ble_world \<Rightarrow> int \<times> ble_world" where
  "BleQueueInit alloc thread w =
     (if \<not> alloc then (SOFTBUS_ERR, w\<lparr>g_sendQueue := None\<rparr>)
      else if \<not> thread then (SOFTBUS_ERR, w\<lparr>g_sendQueue := None, sendLock := False\<rparr>)
      else (SOFTBUS_OK, w\<lparr>g_sendQueue := Some [], sendLock := False\<rparr>))"

definition ConnInitBle ::
  "bool \<Rightarrow> bool \<Rightarrow> bool \<Rightarrow> int \<Rightarrow> int \<Rightarrow> bool \<Rightarrow> ble_world \<Rightarrow> (ble_env, ble_world) ConnectFuncInterface option \<times> ble_world" where
  "ConnInitBle looper alloc thread addListener enableBt cb w =
     (if \<not> looper then (None, w)
      else case BleQueueInit alloc thread w of
             (ret, w1) \<Rightarrow>
               if ret \<noteq> SOFTBUS_OK then (None, w1)
               else if addListener < 0 then (None, w1)
               else if enableBt \<noteq> SOFTBUS_OK then (None, w1)
               else (Some InitBleInterface, w1\<lparr>g_connectCallback := cb\<rparr>))"

definition ble_start :: ble_world where
  "ble_start = \<lparr>g_conection_list = [], nextConnectionId = 0,
     g_gattService = \<lparr>gs_state = BLE_GATT_SERVICE_INITIAL, gs_svcId = - 1, gs_bleConnCharaId = - 1, gs_bleConnDesId = - 1, gs_bleNetCharaId = - 1, gs_bleNetDesId = - 1\<rparr>,
     g_connectCallback = False, g_sendQueue = None, sendLock = False, basicInfoSeq = 0, loopMsgs = [], ble_acts = []\<rparr>"

section \<open>Well-formedness\<close>

text \<open>
  Connections have different numbers of the stack, are all in server role and in one of two states; the queue keeps its bound; and a
  service that was added has all its handles.
\<close>

definition conn_ok :: "BleConnectionInfo \<Rightarrow> bool" where
  "conn_ok n \<longleftrightarrow> caches_ok (b_recvCache n) \<and> isServer (b_info n) \<and>
     (b_state n = BLE_CONNECTION_STATE_CONNECTED \<or> b_state n = BLE_CONNECTION_STATE_BASIC_INFO_EXCHANGED)"

definition gatt_ok :: "SoftBusGattService \<Rightarrow> bool" where
  "gatt_ok s \<longleftrightarrow> (gs_state s \<in> {BLE_GATT_SERVICE_ADDED, BLE_GATT_SERVICE_STARTING, BLE_GATT_SERVICE_STARTED, BLE_GATT_SERVICE_STOPPING} \<longrightarrow> gatt_complete s)"

definition ble_inv :: "ble_world \<Rightarrow> bool" where
  "ble_inv w \<longleftrightarrow> distinct (map b_halConnId (g_conection_list w)) \<and> (\<forall>n \<in> set (g_conection_list w). conn_ok n) \<and>
     gatt_ok (g_gattService w) \<and> (\<forall>q. g_sendQueue w = Some q \<longrightarrow> length q < SEND_QUEUE_UNIT_NUM)"

lemma ble_inv_conns: "ble_inv w \<Longrightarrow> ble_conns_ok w"
  by (auto simp: ble_inv_def ble_conns_ok_def conn_ok_def)

lemma inv_same: "ble_inv w \<Longrightarrow> g_conection_list w' = g_conection_list w \<Longrightarrow> g_gattService w' = g_gattService w \<Longrightarrow> g_sendQueue w' = g_sendQueue w \<Longrightarrow> ble_inv w'"
  by (simp add: ble_inv_def)

lemma inv_do [simp]: "ble_inv (ble_do a w) = ble_inv w"
  by (simp add: ble_inv_def ble_do_def)

lemma inv_post [simp]: "ble_inv (post_loop m w) = ble_inv w"
  by (simp add: ble_inv_def post_loop_def)

lemma inv_gatt: "ble_inv w \<Longrightarrow> gatt_ok (f (g_gattService w)) \<Longrightarrow> ble_inv (upd_gatt f w)"
  by (simp add: ble_inv_def upd_gatt_def)

lemma inv_upd_conn:
  assumes "ble_inv w" "\<And>n. conn_ok n \<Longrightarrow> conn_ok (f n)" "\<And>n. b_halConnId (f n) = b_halConnId n"
  shows "ble_inv (upd_conn i f w)"
proof (cases "i < length (g_conection_list w)")
  case True
  have "map b_halConnId ((g_conection_list w)[i := f (g_conection_list w ! i)]) = map b_halConnId (g_conection_list w)"
    using True assms(3) by (simp add: map_update list_update_same_conv)
  moreover have "\<forall>n \<in> set ((g_conection_list w)[i := f (g_conection_list w ! i)]). conn_ok n"
    using assms(1,2) True set_update_subset_insert [of "g_conection_list w" i] by (fastforce simp: ble_inv_def)
  ultimately show ?thesis using assms(1) unfolding ble_inv_def upd_conn_def by simp
qed (use assms(1) in \<open>simp add: upd_conn_def list_update_beyond ble_inv_def\<close>)

lemma inv_set_caches:
  assumes "ble_inv w" "caches_ok cs"
  shows "ble_inv (set_caches i cs w)"
  by (rule inv_upd_conn [OF assms(1)]) (use assms(2) in \<open>simp_all add: conn_ok_def\<close>)

lemma post_node_inv: "post_node n w = Ret (ret, w') \<Longrightarrow> ble_inv w \<Longrightarrow> ble_inv w'"
  by (auto simp: post_node_def BleEnqueueNonBlock_def ble_inv_def split: option.splits prod.splits if_splits)

lemma BlePostBytes_inv: "BlePostBytes env cid data len pd flag w = Ret (ret, w') \<Longrightarrow> ble_inv w \<Longrightarrow> ble_inv w'"
  by (auto simp: BlePostBytes_def Let_def split: option.splits if_splits dest: post_node_inv)

lemma BlePostBytesInner_inv: "BlePostBytesInner env cid m sq data w = Ret (ret, w') \<Longrightarrow> ble_inv w \<Longrightarrow> ble_inv w'"
  by (auto simp: BlePostBytesInner_def Let_def split: option.splits if_splits dest: post_node_inv)

lemma io_bind_Ret: "io_bind r f = Ret y \<longleftrightarrow> (\<exists>x. r = Ret x \<and> f x = Ret y)"
  by (cases r) auto

lemma SendRefMessage_inv: "SendRefMessage env delta cid cn rr w = Ret w' \<Longrightarrow> ble_inv w \<Longrightarrow> ble_inv w'"
  by (auto simp: SendRefMessage_def Let_def io_bind_Ret split: option.splits if_splits dest: BlePostBytes_inv)

lemma inv_ref: "ble_inv w \<Longrightarrow> ble_inv (upd_conn i (b_refCount_update f) w)"
  by (rule inv_upd_conn) (simp_all add: conn_ok_def)

lemma PackRequest_inv: "PackRequest env delta cid w = Ret w' \<Longrightarrow> ble_inv w \<Longrightarrow> ble_inv w'"
  by (auto simp: PackRequest_def Let_def split: option.splits if_splits dest: SendRefMessage_inv inv_ref)

lemma OnPackResponse_inv: "OnPackResponse env delta peer cid w = Ret w' \<Longrightarrow> ble_inv w \<Longrightarrow> ble_inv w'"
  by (auto simp: OnPackResponse_def Let_def inv_ref split: option.splits if_splits dest: SendRefMessage_inv)

lemma RecvConnectedComd_inv: "RecvConnectedComd env cid data w = Ret w' \<Longrightarrow> ble_inv w \<Longrightarrow> ble_inv w'"
  by (auto simp: RecvConnectedComd_def split: option.splits if_splits dest: OnPackResponse_inv
      intro!: inv_upd_conn simp: conn_ok_def)

lemmas gatt_defs = gatt_ok_def gatt_complete_def upd_gatt_def ble_do_def

lemma Start_inv: "ble_inv w \<Longrightarrow> ble_inv (snd (BleStartLocalListening env w))"
  by (auto simp: BleStartLocalListening_def Let_def ble_inv_def gatt_defs)

lemma Stop_inv: "ble_inv w \<Longrightarrow> ble_inv (snd (BleStopLocalListening env w))"
  by (auto simp: BleStopLocalListening_def Let_def ble_inv_def gatt_defs)

lemma gatt_delete_inv: "ble_inv w \<Longrightarrow> ble_inv (gatt_delete env w)" "gs_state (g_gattService (gatt_delete env w)) \<in> {BLE_GATT_SERVICE_DELETING, BLE_GATT_SERVICE_INVALID, BLE_GATT_SERVICE_INITIAL}"
  by (auto simp: gatt_delete_def Let_def ble_inv_def gatt_defs)

lemma Update_inv: "ble_inv w \<Longrightarrow> ble_inv (UpdateGattService env rst w)"
  by (auto simp: UpdateGattService_def gatt_delete_inv split: GattServiceState.split intro!: Start_inv inv_gatt)
    (auto simp: ble_inv_def gatt_ok_def gatt_complete_def)

lemma Reset_inv: "ble_inv w \<Longrightarrow> ble_inv (ResetGattService env w)"
  using gatt_delete_inv(2) [of env w] by (auto simp: ResetGattService_def gatt_delete_inv(1) gatt_ok_def intro!: inv_gatt)

lemma adding_inv:
  assumes "ble_inv w" "gatt_state w = BLE_GATT_SERVICE_ADDING" "gs_state (f (g_gattService w)) = gs_state (g_gattService w)"
  shows "ble_inv (upd_gatt f w)"
  using assms by (intro inv_gatt) (auto simp: gatt_ok_def)

lemma callbacks_inv:
  assumes "ble_inv w"
  shows "ble_inv (BleServiceAddCallback env rst uuid srvc w)" "ble_inv (BleCharacteristicAddCallback env rst uuid srvc h w)"
    "ble_inv (BleDescriptorAddCallback env rst uuid srvc h w)" "ble_inv (service_callback env rst srvc w)"
    "ble_inv (BleConnMsgHandler env m w)" "ble_inv (BleConnOnBtStateChanged env on w)"
proof -
  show "ble_inv (BleServiceAddCallback env rst uuid srvc w)" "ble_inv (BleCharacteristicAddCallback env rst uuid srvc h w)"
    using assms by (auto simp: BleServiceAddCallback_def BleCharacteristicAddCallback_def Let_def Reset_inv adding_inv split: option.split)
  show "ble_inv (BleDescriptorAddCallback env rst uuid srvc h w)"
    using assms by (auto simp: BleDescriptorAddCallback_def Reset_inv adding_inv Update_inv split: option.split)
  show "ble_inv (service_callback env rst srvc w)" using assms by (simp add: service_callback_def Update_inv)
  show "ble_inv (BleConnMsgHandler env m w)" using assms by (cases m) (auto intro!: inv_gatt simp: gatt_ok_def)
  show "ble_inv (BleConnOnBtStateChanged env on w)" using assms by (simp add: BleConnOnBtStateChanged_def)
qed

lemma Connect_inv:
  assumes "BleConnectServerCallback env hal addr w = Ret w'" "ble_inv w"
  shows "ble_inv w'"
proof (cases "\<not> bt_lock env \<or> find_index (\<lambda>n. b_halConnId n = hal) (g_conection_list w) \<noteq> None")
  case True
  then show ?thesis using assms by (auto simp: BleConnectServerCallback_def split: if_splits)
next
  case False
  have "caches_ok (replicate 3 empty_cache)" by (simp add: caches_ok_def empty_cache_def)
  then show ?thesis using False assms
    by (auto simp: BleConnectServerCallback_def CreateBleConnectionNode_def AllocBleConnectionIdLocked_def Let_def ble_inv_def conn_ok_def ble_do_def
        split: if_splits)
qed

lemma Disconnect_inv: "BleDisconnectServerCallback env hal w = Ret w' \<Longrightarrow> ble_inv w \<Longrightarrow> ble_inv w'"
  by (auto simp: BleDisconnectServerCallback_def ble_inv_def ble_do_def distinct_map_del_first split: if_splits dest!: in_del_firstD)

lemma Mtu_inv: "ble_inv w \<Longrightarrow> ble_inv (BleMtuChangeCallback env hal mtu w)"
  by (auto simp: BleMtuChangeCallback_def conn_ok_def split: option.split intro!: inv_upd_conn)

lemma SendSelf_inv:
  assumes "SendSelfBasicInfo env cid w = Ret (ret, w')" "ble_inv w"
  shows "ble_inv w'"
proof -
  have "ble_inv (w\<lparr>basicInfoSeq := x\<rparr>)" for x using assms(2) by (simp add: ble_inv_def)
  then show ?thesis using assms
    by (auto simp: SendSelfBasicInfo_def Let_def io_bind_Ret split: option.splits if_splits dest: BlePostBytesInner_inv)
qed

lemma PeerParse_inv: "PeerBasicInfoParse env i v w = Ret (ret, w') \<Longrightarrow> ble_inv w \<Longrightarrow> ble_inv w'"
  by (auto simp: PeerBasicInfoParse_def Let_def conn_ok_def split: option.splits intro!: inv_upd_conn)

lemma inv_exchanged: "ble_inv w \<Longrightarrow> ble_inv (upd_conn i (b_state_update (\<lambda>_. BLE_CONNECTION_STATE_BASIC_INFO_EXCHANGED)) w)"
  by (rule inv_upd_conn) (simp_all add: conn_ok_def)

lemma OnData_inv: "BleOnDataReceived env h hal len v w = Ret w' \<Longrightarrow> ble_inv w \<Longrightarrow> ble_inv w'"
  by (auto simp: BleOnDataReceived_def Let_def io_bind_Ret split: option.splits if_splits dest!: PeerParse_inv dest: SendSelf_inv RecvConnectedComd_inv inv_exchanged)

lemma TransRecv_inv:
  assumes "BleTransRecv env hal vp w = Some (r, w')" "ble_inv w"
  shows "ble_inv w'"
proof -
  have c: "caches_ok cs'" if "cache_slot env sq (caches t w) = (slot, cs)" "t < length (g_conection_list w)"
    "(case slot of None \<Rightarrow> cs' = cs | Some i \<Rightarrow> cache_store hd body i cs = Some (r', cs'))" for sq t slot cs cs' hd body r'
  proof -
    have "caches_ok (caches t w)" using that(2) assms(2) by (auto simp: ble_inv_def conn_ok_def)
    note ok = cache_slot_ok [OF this that(1)]
    show ?thesis
    proof (cases slot)
      case (Some i)
      then obtain mem where m: "rc_cache (cs ! i) = Some mem" "i < length cs" using ok by auto
      then have "length mem = MAX_DATA_LEN" using ok by (auto simp: caches_ok_def)
      then show ?thesis using that(3) Some m ok
        by (auto simp: cache_store_def Let_def split: if_splits intro!: caches_ok_update)
    qed (use that(3) ok in simp)
  qed
  show ?thesis
    using assms
    by (auto simp: BleTransRecv_def GetBleConnInfoByHalConnId_def split: option.splits prod.splits if_splits
        intro!: inv_set_caches dest: c match_or_last_less)
qed

lemma CacheFree_inv:
  assumes "BleTransCacheFree env hal i w = Some w'" "ble_inv w"
  shows "ble_inv w'"
proof (cases "GetBleConnInfoByHalConnId env hal w")
  case (Some t)
  then have "caches_ok (caches t w)"
    using assms(2) by (auto simp: GetBleConnInfoByHalConnId_def ble_inv_def conn_ok_def split: if_splits dest!: match_or_last_less)
  then show ?thesis using assms Some
    by (auto simp: BleTransCacheFree_def Let_def split: if_splits intro!: inv_set_caches caches_ok_update)
qed (use assms in \<open>simp add: BleTransCacheFree_def\<close>)

lemma Write_inv: "BleRequestWriteCallback env hal tr h rsp v w = Ret w' \<Longrightarrow> ble_inv w \<Longrightarrow> ble_inv w'"
  by (auto simp: BleRequestWriteCallback_def Let_def io_bind_Ret split: option.splits prod.splits if_splits
      dest!: TransRecv_inv OnData_inv dest: CacheFree_inv)

lemma send_loop_frame: "ble_send_loop env c data len k sq m t off w = Some (ret, w') \<Longrightarrow> \<exists>l. w' = w\<lparr>ble_acts := l\<rparr>"
proof (induction "nat t" arbitrary: t off w rule: less_induct)
  case less
  have ex: "\<exists>l. w = w\<lparr>ble_acts := l\<rparr>" by (rule exI [of _ "ble_acts w"]) simp
  show ?case
  proof (cases "t \<le> 0")
    case True
    then show ?thesis using less.prems ex by (simp add: ble_send_loop.simps [of _ _ _ _ _ _ _ t])
  next
    case False
    define n where "n = (if t > k then k else t)"
    show ?thesis
    proof (cases "n \<le> 0")
      case True
      then show ?thesis using less.prems False ex by (simp add: ble_send_loop.simps [of _ _ _ _ _ _ _ t] flip: n_def)
    next
      case pos: False
      define b where "b = ble_head_bytes \<lparr>bh_seq = sq, bh_size = of_int n, bh_offset = of_int off, bh_total = of_int len\<rparr> @ take (nat n) (drop (nat off) data)"
      obtain r w1 where s: "BleHalSend env c b m w = (r, w1)" by (cases "BleHalSend env c b m w")
      then obtain l1 where w1: "w1 = w\<lparr>ble_acts := l1\<rparr>" using ex by (auto simp: BleHalSend_def ble_do_def split: if_splits)
      have "r \<noteq> SOFTBUS_OK \<and> w' = w1 \<or> ble_send_loop env c data len k sq m (t - n) (off + n) w1 = Some (ret, w')"
        using less.prems False pos s by (auto simp: ble_send_loop.simps [of _ _ _ _ _ _ _ t] Let_def simp flip: n_def b_def split: if_splits)
      then show ?thesis using less.hyps [of "t - n" "off + n" w1] pos False by (auto simp: w1)
    qed
  qed
qed

lemma SendBleData_frame: "SendBleData env n w = Ret (ret, w') \<Longrightarrow> \<exists>l. w' = w\<lparr>ble_acts := l\<rparr>"
proof -
  have "\<exists>l. w = w\<lparr>ble_acts := l\<rparr>" by (rule exI [of _ "ble_acts w"]) simp
  then show "SendBleData env n w = Ret (ret, w') \<Longrightarrow> \<exists>l. w' = w\<lparr>ble_acts := l\<rparr>"
    by (auto simp: SendBleData_def Let_def BleTransSend_def split: if_splits option.splits dest: send_loop_frame)
qed

lemma inv_acts: "ble_inv w \<Longrightarrow> ble_inv (w\<lparr>ble_acts := l\<rparr>)"
  by (simp add: ble_inv_def)

lemma Dequeue_inv: "BleDequeueBlock woken w = Ret (d, w') \<Longrightarrow> ble_inv w \<Longrightarrow> ble_inv w'"
  by (auto simp: BleDequeueBlock_def dequeue_def ble_inv_def split: if_splits option.splits list.splits)

lemma SendTask_inv:
  assumes "BleSendTask env woken w = Ret (b, w')" "ble_inv w"
  shows "ble_inv w'"
proof -
  obtain d w1 where d: "BleDequeueBlock woken w = Ret (d, w1)" using assms(1) by (auto simp: BleSendTask_def io_bind_Ret)
  then have "ble_inv w1" using assms(2) by (rule Dequeue_inv)
  then show ?thesis using assms(1) d
    by (cases d) (auto simp: BleSendTask_def io_bind_Ret split: option.splits dest!: SendBleData_frame intro: inv_acts)
qed

section \<open>Runs of the transport\<close>

text \<open>The requests of the connection manager, the callbacks of the stack, the messages of the loop and the rounds of the sending thread.\<close>

datatype ble_op =
    BPost "32 word" "byte list" int int "32 word" | BDisconnect "32 word" | BDisconnectNow ConnectOption | BStart | BStop
  | BTurnOn bool | BLoop | BServiceAdd int "string option" int | BCharaAdd int "string option" int int | BDescAdd int "string option" int int
  | BServiceStarted int int | BServiceStopped int int | BServiceDeleted int int
  | BConnected int "byte list" | BDisconnected int | BMtu int int | BRead int int | BWrite int int int bool "byte list" | BSend bool

fun ble_step :: "ble_env \<Rightarrow> ble_op \<Rightarrow> ble_world \<Rightarrow> ble_world io" where
  "ble_step env (BPost cid data len pd flag) w = io_bind (BlePostBytes env cid data len pd flag w) (\<lambda>(r, w'). Ret w')"
| "ble_step env (BDisconnect cid) w = io_bind (BleDisconnectDevice env cid w) (\<lambda>(r, w'). Ret w')"
| "ble_step env (BDisconnectNow opt) w = Ret (snd (BleDisconnectDeviceNow env opt w))"
| "ble_step env BStart w = Ret (snd (BleStartLocalListening env w))"
| "ble_step env BStop w = Ret (snd (BleStopLocalListening env w))"
| "ble_step env (BTurnOn on) w = Ret (BleConnOnBtStateChanged env on w)"
| "ble_step env BLoop w = Ret (case loopMsgs w of [] \<Rightarrow> w | m # ms \<Rightarrow> BleConnMsgHandler env m (w\<lparr>loopMsgs := ms\<rparr>))"
| "ble_step env (BServiceAdd rst uuid srvc) w = Ret (BleServiceAddCallback env rst uuid srvc w)"
| "ble_step env (BCharaAdd rst uuid srvc h) w = Ret (BleCharacteristicAddCallback env rst uuid srvc h w)"
| "ble_step env (BDescAdd rst uuid srvc h) w = Ret (BleDescriptorAddCallback env rst uuid srvc h w)"
| "ble_step env (BServiceStarted rst srvc) w = Ret (BleServiceStartCallback env rst srvc w)"
| "ble_step env (BServiceStopped rst srvc) w = Ret (BleServiceStopCallback env rst srvc w)"
| "ble_step env (BServiceDeleted rst srvc) w = Ret (BleServiceDeleteCallback env rst srvc w)"
| "ble_step env (BConnected hal addr) w = BleConnectServerCallback env hal addr w"
| "ble_step env (BDisconnected hal) w = BleDisconnectServerCallback env hal w"
| "ble_step env (BMtu hal mtu) w = Ret (BleMtuChangeCallback env hal mtu w)"
| "ble_step env (BRead hal tr) w = Ret (BleRequestReadCallback hal tr w)"
| "ble_step env (BWrite hal tr h rsp v) w = BleRequestWriteCallback env hal tr h rsp v w"
| "ble_step env (BSend woken) w = io_bind (BleSendTask env woken w) (\<lambda>(b, w'). Ret w')"

fun ble_run :: "(ble_env \<times> ble_op) list \<Rightarrow> ble_world \<Rightarrow> ble_world io" where
  "ble_run [] w = Ret w"
| "ble_run ((env, x) # xs) w = io_bind (ble_step env x w) (ble_run xs)"

lemma ble_step_inv: "ble_step env x w = Ret w' \<Longrightarrow> ble_inv w \<Longrightarrow> ble_inv w'"
proof (cases x)
  case (BDisconnectNow opt)
  then show "ble_step env x w = Ret w' \<Longrightarrow> ble_inv w \<Longrightarrow> ble_inv w'"
    by (auto simp: BleDisconnectDeviceNow_def Let_def split: prod.splits option.splits)
next
  case BLoop
  then show "ble_step env x w = Ret w' \<Longrightarrow> ble_inv w \<Longrightarrow> ble_inv w'"
    by (auto split: list.splits intro!: callbacks_inv intro: inv_same)
qed (auto simp: io_bind_Ret BleDisconnectDevice_def BleServiceStartCallback_def BleServiceStopCallback_def BleServiceDeleteCallback_def
    BleRequestReadCallback_def callbacks_inv Start_inv Stop_inv Mtu_inv split: if_splits
    dest: BlePostBytes_inv PackRequest_inv Connect_inv Disconnect_inv Write_inv SendTask_inv)

lemma ble_run_inv: "ble_run xs w = Ret w' \<Longrightarrow> ble_inv w \<Longrightarrow> ble_inv w'"
  by (induction xs w rule: ble_run.induct) (auto simp: io_bind_Ret dest: ble_step_inv)

text \<open>C18: After a successful start, whatever requests, callbacks of the bluetooth stack, values written by peers, loop messages and rounds of the
  sending thread follow in whatever order, as long as each returns: connections have different numbers of the stack, are in server role and
  connected, their slots hold whole blocks, the send queue keeps its bound, and a service that was added, started or is being stopped has all its
  handles.\<close>

theorem ble_well_formed:
  assumes "ConnInitBle looper alloc thread addListener enableBt cb ble_start = (Some table, w0)" "ble_run xs w0 = Ret w"
  shows "ble_inv w"
proof -
  have "ble_inv w0" using assms(1)
    by (auto simp: ConnInitBle_def BleQueueInit_def ble_start_def ble_inv_def gatt_ok_def split: if_splits prod.splits)
  then show ?thesis by (rule ble_run_inv [OF assms(2)])
qed

definition demo_ble_ops :: "(ble_env \<times> ble_op) list" where
  "demo_ble_ops = [(demo_ble_env, BTurnOn True), (demo_ble_env, BLoop), (demo_ble_env, BServiceAdd 0 (Some SOFTBUS_SERVICE_UUID) 1),
     (demo_ble_env, BLoop), (demo_ble_env, BConnected 5 [1, 2, 3, 4, 5, 6]), (demo_ble_env, BWrite 5 0 2 True (replicate 20 0)), (demo_ble_env, BMtu 5 60)]"

theorem ble_well_formed_witness:
  "\<exists>w. ble_run demo_ble_ops (snd (ConnInitBle True True True 0 0 True ble_start)) = Ret w \<and> ble_inv w"
proof -
  have r: "ConnInitBle True True True 0 0 True ble_start = (Some InitBleInterface, snd (ConnInitBle True True True 0 0 True ble_start))"
    by (simp add: ConnInitBle_def BleQueueInit_def)
  have "case ble_run demo_ble_ops (snd (ConnInitBle True True True 0 0 True ble_start)) of Ret w \<Rightarrow> True | _ \<Rightarrow> False" by code_simp
  then have "\<exists>w. ble_run demo_ble_ops (snd (ConnInitBle True True True 0 0 True ble_start)) = Ret w" by (simp split: io.splits)
  then show ?thesis using ble_well_formed [OF r] by blast
qed

section \<open>The mutex of the send queue\<close>

text \<open>Nobody but the wait of the sending thread releases the mutex.\<close>

lemma lock_simps [simp]: "sendLock (upd_conn i f w) = sendLock w" "sendLock (ble_do a w) = sendLock w" "sendLock (upd_gatt g w) = sendLock w"
  "sendLock (post_loop m w) = sendLock w"
  by (simp_all add: upd_conn_def ble_do_def upd_gatt_def post_loop_def)

lemma post_lock: "post_node n w = Ret (ret, w') \<Longrightarrow> sendLock w \<longrightarrow> sendLock w'"
  by (auto simp: post_node_def BleEnqueueNonBlock_def split: option.splits prod.splits if_splits)

lemma post_bytes_lock: "BlePostBytes env cid data len pd flag w = Ret (ret, w') \<Longrightarrow> sendLock w \<longrightarrow> sendLock w'"
  "BlePostBytesInner env cid m sq data w = Ret (ret, w') \<Longrightarrow> sendLock w \<longrightarrow> sendLock w'"
  by (auto simp: BlePostBytes_def BlePostBytesInner_def Let_def split: option.splits if_splits dest!: post_lock)

lemma ref_lock: "SendRefMessage env delta cid cn rr w = Ret w' \<Longrightarrow> sendLock w \<longrightarrow> sendLock w'"
  by (auto simp: SendRefMessage_def Let_def io_bind_Ret split: option.splits if_splits dest!: post_bytes_lock)

lemma pack_lock: "PackRequest env delta cid w = Ret w' \<Longrightarrow> sendLock w \<longrightarrow> sendLock w'"
  "OnPackResponse env delta peer cid w = Ret w' \<Longrightarrow> sendLock w \<longrightarrow> sendLock w'"
  by (auto simp: PackRequest_def OnPackResponse_def Let_def split: option.splits if_splits dest!: ref_lock)

lemma recv_comd_lock: "RecvConnectedComd env cid data w = Ret w' \<Longrightarrow> sendLock w \<longrightarrow> sendLock w'"
  by (auto simp: RecvConnectedComd_def split: option.splits if_splits dest!: pack_lock)

lemma gatt_lock [simp]:
  "sendLock (snd (BleStartLocalListening env w)) = sendLock w" "sendLock (snd (BleStopLocalListening env w)) = sendLock w"
  "sendLock (gatt_delete env w) = sendLock w"
  by (simp_all add: BleStartLocalListening_def BleStopLocalListening_def gatt_delete_def Let_def)

lemma gatt_lock_update [simp]: "sendLock (UpdateGattService env rst w) = sendLock w" "sendLock (ResetGattService env w) = sendLock w"
  by (simp_all add: UpdateGattService_def ResetGattService_def split: GattServiceState.split)

lemma callbacks_lock [simp]:
  "sendLock (BleServiceAddCallback env rst uuid srvc w) = sendLock w" "sendLock (BleCharacteristicAddCallback env rst uuid srvc h w) = sendLock w"
  "sendLock (BleDescriptorAddCallback env rst uuid srvc h w) = sendLock w" "sendLock (service_callback env rst srvc w) = sendLock w"
  "sendLock (BleConnMsgHandler env m w) = sendLock w" "sendLock (BleConnOnBtStateChanged env on w) = sendLock w"
  "sendLock (BleMtuChangeCallback env hal mtu w) = sendLock w" "sendLock (BleRequestReadCallback hal tr w) = sendLock w"
  "sendLock (snd (BleDisconnectDeviceNow env opt w)) = sendLock w"
  by (simp_all add: BleServiceAddCallback_def BleCharacteristicAddCallback_def BleDescriptorAddCallback_def service_callback_def BleConnOnBtStateChanged_def
      BleMtuChangeCallback_def BleRequestReadCallback_def BleDisconnectDeviceNow_def Let_def split: option.split prod.split)
    (cases m; simp)

lemma trans_recv_lock: "BleTransRecv env hal vp w = Some (r, w') \<Longrightarrow> sendLock w' = sendLock w"
  by (auto simp: BleTransRecv_def split: option.splits prod.splits if_splits)

lemma cache_free_lock: "BleTransCacheFree env hal i w = Some w' \<Longrightarrow> sendLock w' = sendLock w"
  by (auto simp: BleTransCacheFree_def Let_def split: option.splits if_splits)

lemma basic_info_lock: "PeerBasicInfoParse env i v w = Ret (ret, w') \<Longrightarrow> sendLock w' = sendLock w"
  "SendSelfBasicInfo env cid w = Ret (ret, w') \<Longrightarrow> sendLock w \<longrightarrow> sendLock w'"
  by (auto simp: PeerBasicInfoParse_def SendSelfBasicInfo_def Let_def io_bind_Ret split: option.splits if_splits dest!: post_bytes_lock)

lemma on_data_lock: "BleOnDataReceived env h hal len v w = Ret w' \<Longrightarrow> sendLock w \<longrightarrow> sendLock w'"
  by (auto simp: BleOnDataReceived_def Let_def io_bind_Ret split: option.splits if_splits dest!: recv_comd_lock basic_info_lock)

lemma write_lock: "BleRequestWriteCallback env hal tr h rsp v w = Ret w' \<Longrightarrow> sendLock w \<longrightarrow> sendLock w'"
  by (auto simp: BleRequestWriteCallback_def Let_def io_bind_Ret split: option.splits prod.splits if_splits
      dest!: trans_recv_lock on_data_lock dest: cache_free_lock)

lemma connect_lock: "BleConnectServerCallback env hal addr w = Ret w' \<Longrightarrow> sendLock w' = sendLock w"
  "BleDisconnectServerCallback env hal w = Ret w' \<Longrightarrow> sendLock w' = sendLock w"
  by (auto simp: BleConnectServerCallback_def BleDisconnectServerCallback_def CreateBleConnectionNode_def AllocBleConnectionIdLocked_def Let_def
      split: if_splits)

lemma step_lock: "ble_step env x w = Ret w' \<Longrightarrow> sendLock w \<longrightarrow> sendLock w'"
  by (cases x) (auto simp: io_bind_Ret BleDisconnectDevice_def BleServiceStartCallback_def BleServiceStopCallback_def BleServiceDeleteCallback_def
      BleSendTask_def BleDequeueBlock_def split: if_splits list.splits dest!: post_bytes_lock pack_lock write_lock connect_lock)

lemma run_lock: "sendLock w \<Longrightarrow> ble_run xs w = Ret w' \<Longrightarrow> sendLock w'"
  by (induction xs w rule: ble_run.induct) (auto simp: io_bind_Ret dest!: step_lock)

text \<open>C40: When the sending thread finds a packet in the queue without having to wait, it sends that packet and keeps the mutex of
  the queue. From then on, whatever happens, its next round never returns: no further packet is sent, and whoever posts one for a known connection
  while the queue has room does not return.\<close>

theorem ble_send_thread_stops:
  assumes "g_sendQueue w = Some (n # q)" "\<not> sendLock w" "BleSendTask env False w = Ret (b, w1)" "ble_run xs w1 = Ret w2"
  shows "BleSendTask env' woken w2 = Blocked \<and>
    (GetBleConnInfoByConnId env' cid w2 \<noteq> None \<and> bt_node env' \<and> g_sendQueue w2 = Some q' \<and> length q' < 127 \<longrightarrow>
     BlePostBytes env' cid data len pd flag w2 = Blocked)"
proof -
  have "sendLock w1" using assms(1-3)
    by (auto simp: BleSendTask_def BleDequeueBlock_def dequeue_def io_bind_Ret dest!: SendBleData_frame)
  then have l: "sendLock w2" using assms(4) by (rule run_lock)
  then show ?thesis
    by (auto simp: BleSendTask_def BleDequeueBlock_def BlePostBytes_def post_node_def BleEnqueueNonBlock_def Let_def)
qed

definition demo_ref_data :: "byte list" where
  "demo_ref_data = head_bytes \<lparr>magic = MAGIC_NUMBER, h_module = 13, h_seq = 9, h_flag = 0, h_len = 2\<rparr> @ [5, 6]"

definition demo_posted :: ble_world where
  "demo_posted = demo_ble_world\<lparr>g_sendQueue := Some [\<lparr>sn_halConnId = 5, sn_connectionId = 0x30001, sn_pid = 0, sn_flag = 0, sn_isServer = True,
     sn_isInner = 0, sn_module = 0, sn_seq = 0, sn_len = 26, sn_data = demo_ref_data\<rparr>]\<rparr>"

theorem ble_send_thread_stops_witness:
  "\<exists>w1. BleSendTask demo_ble_env False demo_posted = Ret (False, w1) \<and> BleSendTask demo_ble_env True w1 = Blocked \<and>
     BlePostBytes demo_ble_env 0x30001 demo_ref_data 26 0 0 w1 = Blocked"
proof -
  let ?w = "demo_ble_world\<lparr>g_sendQueue := Some [], sendLock := True\<rparr>"
  have d: "length demo_ref_data = 26" "bytes_head demo_ref_data = \<lparr>magic = MAGIC_NUMBER, h_module = 13, h_seq = 9, h_flag = 0, h_len = 2\<rparr>"
    by (simp_all add: demo_ref_data_def bytes_head_def head_bytes_def)
  have c: "isServer (b_info demo_ble_conn)" "b_mtu demo_ble_conn = 21" "b_connId demo_ble_conn = 0x30001" by (simp_all add: demo_ble_conn_def)
  obtain w1 where s: "BleTransSend demo_ble_env demo_ble_conn demo_ref_data (int (length demo_ref_data)) 9 13 ?w = Some (SOFTBUS_OK, w1)"
    using BleTransSend_total [of demo_ble_conn demo_ref_data demo_ble_env 9 13 ?w] c d(1) by (auto simp: demo_ble_env_def)
  then obtain l where l: "w1 = ?w\<lparr>ble_acts := l\<rparr>" using send_loop_frame unfolding BleTransSend_def by blast
  have w1: "BleSendTask demo_ble_env False demo_posted = Ret (False, w1)"
    using s d c by (simp add: BleSendTask_def BleDequeueBlock_def dequeue_def demo_posted_def demo_ble_world_def SendBleData_def
        GetBleConnInfoByConnId_def match_or_last_def demo_ble_env_def)
  have q: "g_sendQueue w1 = Some []" "GetBleConnInfoByConnId demo_ble_env 0x30001 w1 \<noteq> None"
    by (simp_all add: l demo_ble_world_def GetBleConnInfoByConnId_def match_or_last_def demo_ble_env_def)
  have "BleSendTask demo_ble_env True w1 = Blocked \<and> (GetBleConnInfoByConnId demo_ble_env 0x30001 w1 \<noteq> None \<and> bt_node demo_ble_env \<and>
      g_sendQueue w1 = Some [] \<and> length ([] :: SendQueueNode list) < 127 \<longrightarrow> BlePostBytes demo_ble_env 0x30001 demo_ref_data 26 0 0 w1 = Blocked)"
    by (rule ble_send_thread_stops [OF _ _ w1, of _ _ "[]"]) (simp_all add: demo_posted_def demo_ble_world_def)
  then show ?thesis using w1 q by (simp add: demo_ble_env_def)
qed

section \<open>Defects of the connections\<close>

text \<open>A packet for an unknown connection is queued for the last connection of the list.\<close>

lemma BlePostBytes_unknown:
  assumes "find_index (\<lambda>n. b_connId n = cid) (g_conection_list w) = None" "g_conection_list w \<noteq> []" "bt_lock env" "bt_node env"
    "g_sendQueue w = Some q" "length q < 127" "\<not> sendLock w"
  shows "\<exists>n. BlePostBytes env cid data len pd flag w = Ret (SOFTBUS_OK, w\<lparr>g_sendQueue := Some (q @ [n])\<rparr>) \<and>
    sn_halConnId n = b_halConnId (last (g_conection_list w)) \<and> sn_data n = data"
  using assms
  by (simp add: BlePostBytes_def GetBleConnInfoByConnId_def match_or_last_def post_node_def BleEnqueueNonBlock_def Let_def last_conv_nth del: find_index_None)
    (rule exI, rule conjI, rule refl, simp)

text \<open>
  The stack names connections by its own numbers, which never are connection ids: the size of a transfer negotiated for any connection is
  set for the last.
\<close>

lemma BleMtuChangeCallback_last:
  assumes "\<forall>n \<in> set (g_conection_list w). b_connId n \<noteq> of_int hal" "g_conection_list w \<noteq> []" "bt_lock env"
  shows "BleMtuChangeCallback env hal mtu w = upd_conn (length (g_conection_list w) - 1) (b_mtu_update (\<lambda>_. mtu)) w"
proof -
  have "find_index (\<lambda>n. b_connId n = of_int hal) (g_conection_list w) = None" using assms(1) by simp
  then show ?thesis using assms(2,3) by (simp add: BleMtuChangeCallback_def GetBleConnInfoByConnId_def match_or_last_def del: find_index_None)
qed

text \<open>The request with which a device gives up a connection is ignored by every peer, because negative numbers are not read.\<close>

lemma ble_disconnect_ignored:
  assumes "AddNumToJson lib METHOD_NOTIFY_REQUEST CONNECT_REF_DECRESE cn [] = Some json"
  shows "RecvConnectedComd env cid json w = Ret w"
  using assms by (auto simp: AddNumToJson_def AddNumberToJsonObject_def RecvConnectedComd_def GetJsonObjectNumberItem_def bind_eq_Some_conv split: if_splits)

end
