(* ===== verification/Ble_Service.thy ===== *)
theory Ble_Service
  imports Ble_Connection
begin

text \<open>
  The Bluetooth Low Energy transport, third part: its GATT service under a stack that answers every request, in every interleaving of
  the answers with the messages of the loop, and the way of a packet from the connection manager of one device to
  that of another.
\<close>

section \<open>Registration of the service\<close>

text \<open>
  The stack answers the requests it got in their order. A state is the transport and the number of answered requests; \<open>hnd\<close>
  gives the handle the stack assigns with its answer to the request of a number.
\<close>

fun gatt_answer :: "(nat \<Rightarrow> int) \<Rightarrow> ble_env \<Rightarrow> nat \<Rightarrow> ble_act \<Rightarrow> ble_world \<Rightarrow> ble_world" where
  "gatt_answer hnd env k (GattsAddService u) w = BleServiceAddCallback env 0 (Some u) (hnd k) w"
| "gatt_answer hnd env k (GattsAddCharacteristic s u _ _) w = BleCharacteristicAddCallback env 0 (Some u) s (hnd k) w"
| "gatt_answer hnd env k (GattsAddDescriptor s u _) w = BleDescriptorAddCallback env 0 (Some u) s (hnd k) w"
| "gatt_answer hnd env k (GattsStartService s) w = BleServiceStartCallback env 0 s w"
| "gatt_answer hnd env k (GattsStopService s) w = BleServiceStopCallback env 0 s w"
| "gatt_answer hnd env k (GattsDeleteService s) w = BleServiceDeleteCallback env 0 s w"
| "gatt_answer hnd env k _ w = w"

inductive gatt_step :: "(nat \<Rightarrow> int) \<Rightarrow> ble_env \<Rightarrow> ble_world \<times> nat \<Rightarrow> ble_world \<times> nat \<Rightarrow> bool" for hnd env where
  loop: "loopMsgs w = m # ms \<Longrightarrow> gatt_step hnd env (w, k) (BleConnMsgHandler env m (w\<lparr>loopMsgs := ms\<rparr>), k)"
| answer: "k < length (ble_acts w) \<Longrightarrow> gatt_step hnd env (w, k) (gatt_answer hnd env k (ble_acts w ! k) w, Suc k)"

inductive_cases gatt_stepE: "gatt_step hnd env (w, k) s"

abbreviation (input) "MSG_S \<equiv> ADD_SERVICE_MSG SOFTBUS_SERVICE_UUID"
abbreviation (input) "MSG_N \<equiv> ADD_CHARA_MSG CHARA_PROPERTIES CHARA_PERMISSIONS SOFTBUS_CHARA_BLENET_UUID"
abbreviation (input) "MSG_C \<equiv> ADD_CHARA_MSG CHARA_PROPERTIES CHARA_PERMISSIONS SOFTBUS_CHARA_BLECONN_UUID"
abbreviation (input) "MSG_D \<equiv> ADD_DESCRIPTOR_MSG CHARA_PERMISSIONS SOFTBUS_DESCRIPTOR_CONFIGURE_UUID"

text \<open>The state after \<open>i\<close> messages of the loop and \<open>j\<close> answers of the stack.\<close>

definition gatt_msgs :: "nat \<Rightarrow> nat \<Rightarrow> BleConnLoopMsg list" where
  "gatt_msgs i j = drop i (take (if j = 0 then 1 else if j < 4 then 4 else 5) [MSG_S, MSG_N, MSG_D, MSG_C, MSG_D])"

definition gatt_reqs :: "int \<Rightarrow> nat \<Rightarrow> nat \<Rightarrow> ble_act list" where
  "gatt_reqs s i j = take i [GattsAddService (take 16 SOFTBUS_SERVICE_UUID),
       GattsAddCharacteristic s (take 16 SOFTBUS_CHARA_BLENET_UUID) CHARA_PROPERTIES CHARA_PERMISSIONS,
       GattsAddDescriptor s (take 16 SOFTBUS_DESCRIPTOR_CONFIGURE_UUID) CHARA_PERMISSIONS,
       GattsAddCharacteristic s (take 16 SOFTBUS_CHARA_BLECONN_UUID) CHARA_PROPERTIES CHARA_PERMISSIONS,
       GattsAddDescriptor s (take 16 SOFTBUS_DESCRIPTOR_CONFIGURE_UUID) CHARA_PERMISSIONS]
     @ (if j \<ge> 5 then [GattsStartService s] else [])"

definition gatt_of :: "(nat \<Rightarrow> int) \<Rightarrow> nat \<Rightarrow> nat \<Rightarrow> SoftBusGattService" where
  "gatt_of h i j =
     \<lparr>gs_state = (if i = 0 then BLE_GATT_SERVICE_INITIAL else if j < 5 then BLE_GATT_SERVICE_ADDING
        else if j = 5 then BLE_GATT_SERVICE_STARTING else BLE_GATT_SERVICE_STARTED),
      gs_svcId = (if j \<ge> 1 then h 0 else - 1), gs_bleConnCharaId = (if j \<ge> 4 then h 3 else - 1), gs_bleConnDesId = (if j \<ge> 5 then h 4 else - 1),
      gs_bleNetCharaId = (if j \<ge> 2 then h 1 else - 1), gs_bleNetDesId = (if j \<ge> 3 then h 2 else - 1)\<rparr>"

definition gatt_at :: "(nat \<Rightarrow> int) \<Rightarrow> ble_world \<Rightarrow> nat \<Rightarrow> nat \<Rightarrow> ble_world" where
  "gatt_at h w i j = w\<lparr>g_gattService := gatt_of h i j, loopMsgs := gatt_msgs i j, ble_acts := gatt_reqs (h 0) i j\<rparr>"

definition gatt_phases :: "(nat \<times> nat) list" where
  "gatt_phases = [(0, 0), (1, 0), (1, 1), (2, 1), (2, 2), (3, 1), (3, 2), (3, 3), (4, 1), (4, 2), (4, 3), (4, 4), (5, 4), (5, 5), (5, 6)]"

definition stack_answers :: "(nat \<Rightarrow> int) \<Rightarrow> ble_env \<Rightarrow> bool" where
  "stack_answers h env \<longleftrightarrow> bt_lock env \<and> bt_register env = SOFTBUS_OK \<and> bt_stack env = SOFTBUS_OK \<and> (\<forall>n. bt_msg env n) \<and> (\<forall>n. h n \<noteq> - 1)"

lemma uuid_simps [simp]: "uuid_is (take 16 SOFTBUS_SERVICE_UUID) SOFTBUS_SERVICE_UUID"
  "uuid_is (take 16 SOFTBUS_CHARA_BLENET_UUID) SOFTBUS_CHARA_BLENET_UUID" "\<not> uuid_is (take 16 SOFTBUS_CHARA_BLECONN_UUID) SOFTBUS_CHARA_BLENET_UUID"
  "uuid_is (take 16 SOFTBUS_CHARA_BLECONN_UUID) SOFTBUS_CHARA_BLECONN_UUID"
  "uuid_is (take 16 SOFTBUS_DESCRIPTOR_CONFIGURE_UUID) SOFTBUS_DESCRIPTOR_CONFIGURE_UUID"
  by code_simp+

lemmas gatt_at_defs = gatt_at_def gatt_of_def gatt_msgs_def gatt_reqs_def

lemma gatt_phase_cases:
  assumes "(i, j) \<in> set gatt_phases"
  obtains "i = 0" "j = 0" | "i = 1" "j = 0" | "i = 1" "j = 1" | "i = 2" "j = 1" | "i = 2" "j = 2" | "i = 3" "j = 1" | "i = 3" "j = 2" | "i = 3" "j = 3"
  | "i = 4" "j = 1" | "i = 4" "j = 2" | "i = 4" "j = 3" | "i = 4" "j = 4" | "i = 5" "j = 4" | "i = 5" "j = 5" | "i = 5" "j = 6"
  using assms unfolding gatt_phases_def by auto

lemma gatt_loop:
  assumes "stack_answers h env" "(i, j) \<in> set gatt_phases" "loopMsgs (gatt_at h w i j) = m # ms"
  shows "(i + 1, j) \<in> set gatt_phases \<and> BleConnMsgHandler env m ((gatt_at h w i j)\<lparr>loopMsgs := ms\<rparr>) = gatt_at h w (i + 1) j"
  using assms(2)
  by (cases rule: gatt_phase_cases)
    (use assms(1,3) in \<open>simp_all add: gatt_phases_def gatt_at_defs stack_answers_def upd_gatt_def ble_do_def, auto simp: upd_gatt_def ble_do_def\<close>)

lemma gatt_answered:
  assumes "stack_answers h env" "(i, j) \<in> set gatt_phases" "j < length (ble_acts (gatt_at h w i j))"
  shows "(i, j + 1) \<in> set gatt_phases \<and> gatt_answer h env j (ble_acts (gatt_at h w i j) ! j) (gatt_at h w i j) = gatt_at h w i (j + 1)"
  using assms(2)
  by (cases rule: gatt_phase_cases)
    (use assms(1,3) in \<open>simp_all add: gatt_phases_def gatt_at_defs stack_answers_def upd_gatt_def ble_do_def BleServiceAddCallback_def BleCharacteristicAddCallback_def
        BleDescriptorAddCallback_def BleServiceStartCallback_def service_callback_def UpdateGattService_def gatt_complete_def BleStartLocalListening_def
        post_loop_def Let_def\<close>)

lemma gatt_phase_step:
  assumes "stack_answers h env" "(i, j) \<in> set gatt_phases" "gatt_step h env (gatt_at h w i j, j) s"
  shows "\<exists>i' j'. (i', j') \<in> set gatt_phases \<and> i' + j' = i + j + 1 \<and> s = (gatt_at h w i' j', j')"
proof -
  from assms(3) consider m ms where "loopMsgs (gatt_at h w i j) = m # ms" "s = (BleConnMsgHandler env m ((gatt_at h w i j)\<lparr>loopMsgs := ms\<rparr>), j)"
    | "j < length (ble_acts (gatt_at h w i j))" "s = (gatt_answer h env j (ble_acts (gatt_at h w i j) ! j) (gatt_at h w i j), Suc j)"
    by (elim gatt_stepE) auto
  then show ?thesis
  proof cases
    case (1 m ms)
    then show ?thesis using gatt_loop [OF assms(1,2), of w m ms] by (intro exI [of _ "i + 1"] exI [of _ j]) simp
  next
    case 2
    then show ?thesis using gatt_answered [OF assms(1,2), of w] by (intro exI [of _ i] exI [of _ "j + 1"]) simp
  qed
qed

lemma gatt_phase_run:
  assumes "stack_answers h env" "(gatt_step h env ^^ n) (gatt_at h w 0 0, 0) s"
  shows "\<exists>i j. (i, j) \<in> set gatt_phases \<and> i + j = n \<and> s = (gatt_at h w i j, j)"
  using assms(2)
proof (induction n arbitrary: s)
  case 0
  then show ?case by (simp add: gatt_phases_def)
next
  case (Suc n)
  then obtain s1 where s1: "(gatt_step h env ^^ n) (gatt_at h w 0 0, 0) s1" "gatt_step h env s1 s" by auto
  from Suc.IH [OF s1(1)] obtain i j where ij: "(i, j) \<in> set gatt_phases" "i + j = n" "s1 = (gatt_at h w i j, j)" by blast
  from gatt_phase_step [OF assms(1) ij(1), of w s] s1(2) ij(2,3) show ?case by auto
qed

lemma gatt_phase_enabled:
  assumes "(i, j) \<in> set gatt_phases" "i + j < 11"
  shows "\<exists>s. gatt_step h env (gatt_at h w i j, j) s"
proof -
  have "loopMsgs (gatt_at h w i j) \<noteq> [] \<or> j < length (ble_acts (gatt_at h w i j))"
    using assms(1) by (cases rule: gatt_phase_cases) (use assms(2) in \<open>simp_all add: gatt_at_defs\<close>)
  then show ?thesis by (cases "loopMsgs (gatt_at h w i j)") (auto intro: gatt_step.intros)
qed

text \<open>C17: Bluetooth is turned on while no service is registered. If the stack answers every request with success, in order but at any time relative to the
  messages of the loop, then after at most eleven steps nothing more happens, and as long as something can happen it does: after exactly
  eleven steps, whatever their order, the service is started with the handles the stack assigned to the service, its
  two characteristics and their descriptors.\<close>

theorem gatt_service_starts:
  assumes "stack_answers hnd env" "g_gattService w = g_gattService ble_start" "loopMsgs w = []" "ble_acts w = []"
    "(gatt_step hnd env ^^ n) (BleConnOnBtStateChanged env True w, 0) (w', k)"
  shows "n \<le> 11 \<and> (n < 11 \<longrightarrow> (\<exists>s. gatt_step hnd env (w', k) s)) \<and>
    (n = 11 \<longrightarrow> loopMsgs w' = [] \<and> k = length (ble_acts w') \<and>
       g_gattService w' = \<lparr>gs_state = BLE_GATT_SERVICE_STARTED, gs_svcId = hnd 0, gs_bleConnCharaId = hnd 3, gs_bleConnDesId = hnd 4,
         gs_bleNetCharaId = hnd 1, gs_bleNetDesId = hnd 2\<rparr>)"
proof -
  have "BleConnOnBtStateChanged env True w = gatt_at hnd w 0 0"
    using assms(1-4) by (simp add: BleConnOnBtStateChanged_def stack_answers_def post_loop_def gatt_at_defs ble_start_def)
  then have "(gatt_step hnd env ^^ n) (gatt_at hnd w 0 0, 0) (w', k)" using assms(5) by simp
  from gatt_phase_run [OF assms(1) this]
  obtain i j where ij: "(i, j) \<in> set gatt_phases" "i + j = n" "w' = gatt_at hnd w i j" "k = j" by auto
  have "n \<le> 11" "n = 11 \<longrightarrow> i = 5 \<and> j = 6" using ij(1,2) by (cases rule: gatt_phase_cases; simp)+
  moreover have "n < 11 \<longrightarrow> (\<exists>s. gatt_step hnd env (w', k) s)" using gatt_phase_enabled [OF ij(1)] ij(2-4) by simp
  ultimately show ?thesis using ij(3,4) by (simp add: gatt_at_defs)
qed

text \<open>One order of the steps: a message of the loop whenever there is one.\<close>

definition gatt_next :: "(nat \<Rightarrow> int) \<Rightarrow> ble_env \<Rightarrow> ble_world \<times> nat \<Rightarrow> ble_world \<times> nat" where
  "gatt_next hnd env = (\<lambda>(w, k). case loopMsgs w of
      m # ms \<Rightarrow> (BleConnMsgHandler env m (w\<lparr>loopMsgs := ms\<rparr>), k)
    | [] \<Rightarrow> if k < length (ble_acts w) then (gatt_answer hnd env k (ble_acts w ! k) w, Suc k) else (w, k))"

lemma gatt_next_reach: "(gatt_step hnd env)\<^sup>*\<^sup>* s ((gatt_next hnd env ^^ n) s)"
proof (induction n)
  case (Suc n)
  have "(gatt_step hnd env)\<^sup>*\<^sup>* s' (gatt_next hnd env s')" for s'
    by (cases s') (auto simp: gatt_next_def split: list.split intro!: r_into_rtranclp gatt_step.intros)
  with Suc show ?case by (simp add: rtranclp_trans)
qed simp

definition demo_hnd :: "nat \<Rightarrow> int" where
  "demo_hnd n = int n + 1"

theorem gatt_service_starts_witness:
  "\<exists>w' k. (gatt_step demo_hnd demo_ble_env ^^ 11) (BleConnOnBtStateChanged demo_ble_env True ble_start, 0) (w', k) \<and> gs_bleConnCharaId (g_gattService w') = 4"
proof -
  have a: "stack_answers demo_hnd demo_ble_env" by (simp add: stack_answers_def demo_ble_env_def demo_hnd_def)
  have b: "loopMsgs ble_start = []" "ble_acts ble_start = []" by (simp_all add: ble_start_def)
  have run: "n \<le> 11 \<Longrightarrow> \<exists>w' k. (gatt_step demo_hnd demo_ble_env ^^ n) (BleConnOnBtStateChanged demo_ble_env True ble_start, 0) (w', k)" for n
  proof (induction n)
    case (Suc n)
    then obtain w' k where r: "(gatt_step demo_hnd demo_ble_env ^^ n) (BleConnOnBtStateChanged demo_ble_env True ble_start, 0) (w', k)" by auto
    then obtain s where "gatt_step demo_hnd demo_ble_env (w', k) s" using gatt_service_starts [OF a refl b r] Suc.prems by auto
    then show ?case using r by (cases s) auto
  qed simp
  from run [of 11] obtain w' k where r: "(gatt_step demo_hnd demo_ble_env ^^ 11) (BleConnOnBtStateChanged demo_ble_env True ble_start, 0) (w', k)" by auto
  then show ?thesis using gatt_service_starts [OF a refl b r] by (auto simp: demo_hnd_def)
qed

text \<open>
  When bluetooth is turned on again the old handles are still there. The descriptor of the first characteristic is then taken for that of
  the second, the service is started before the second characteristic is known, and the handle of that one stays the old.
\<close>

lemma gatt_restart_keeps_old_handles:
  assumes "stack_answers hnd env" "g_gattService w = \<lparr>gs_state = BLE_GATT_SERVICE_STARTED, gs_svcId = s, gs_bleConnCharaId = cc, gs_bleConnDesId = cd,
      gs_bleNetCharaId = nc, gs_bleNetDesId = nd\<rparr>" "loopMsgs w = []" "ble_acts w = []" "cc \<noteq> - 1" "nd \<noteq> - 1"
  shows "\<exists>w' k. (gatt_step hnd env)\<^sup>*\<^sup>* (BleConnOnBtStateChanged env True w, 0) (w', k) \<and>
    gatt_state w' = BLE_GATT_SERVICE_STARTED \<and> gs_svcId (g_gattService w') = hnd 0 \<and> gs_bleConnCharaId (g_gattService w') = cc \<and> gs_bleNetDesId (g_gattService w') = nd"
proof -
  define f where "f = gatt_next hnd env"
  have pow: "(f ^^ 9) s0 = f (f (f (f (f (f (f (f (f s0))))))))" for s0 by (simp add: eval_nat_numeral)
  let ?s = "(f ^^ 9) (BleConnOnBtStateChanged env True w, 0)"
  have "gatt_state (fst ?s) = BLE_GATT_SERVICE_STARTED \<and> gs_svcId (g_gattService (fst ?s)) = hnd 0 \<and> gs_bleConnCharaId (g_gattService (fst ?s)) = cc \<and> gs_bleNetDesId (g_gattService (fst ?s)) = nd"
    using assms unfolding pow
    by (simp add: f_def gatt_next_def stack_answers_def BleConnOnBtStateChanged_def upd_gatt_def ble_do_def BleServiceAddCallback_def BleCharacteristicAddCallback_def
        BleDescriptorAddCallback_def BleServiceStartCallback_def service_callback_def UpdateGattService_def gatt_complete_def BleStartLocalListening_def
        post_loop_def Let_def)
  then show ?thesis using gatt_next_reach [of hnd env "(BleConnOnBtStateChanged env True w, 0)" 9] unfolding f_def by (metis prod.collapse)
qed

section \<open>From one connection manager to another\<close>

text \<open>The slices of a packet written by a peer, one by one and without a request for an answer.\<close>

fun write_all :: "ble_env \<Rightarrow> int \<Rightarrow> int \<Rightarrow> byte list list \<Rightarrow> ble_world \<Rightarrow> ble_world io" where
  "write_all env hal h [] w = Ret w"
| "write_all env hal h (v # vs) w = io_bind (BleRequestWriteCallback env hal 0 h False v w) (write_all env hal h vs)"

lemma recv_gatt: "BleTransRecv env hal vp w = Some (r, w') \<Longrightarrow> g_gattService w' = g_gattService w"
  by (auto simp: BleTransRecv_def upd_conn_def split: option.splits prod.splits if_splits)

lemma write_recv:
  assumes "recv_all env hal us w = Some (replicate (length us - 1) None @ [Some (mem, len, index)], w')" "us \<noteq> []"
    "h = gs_bleConnCharaId (g_gattService w)"
  shows "write_all env hal h us w = io_bind (BleOnDataReceived env h hal len mem w')
    (\<lambda>w3. if index = - 1 then Ret w3 else case BleTransCacheFree env hal index w3 of None \<Rightarrow> MemFault | Some w4 \<Rightarrow> Ret w4)"
  using assms
proof (induction us arbitrary: w)
  case (Cons u us)
  obtain r w1 where r: "BleTransRecv env hal (Some u) w = Some (r, w1)" using Cons.prems(1) by (auto split: option.splits)
  show ?case
  proof (cases us)
    case Nil
    then show ?thesis using Cons.prems r
      by (cases "BleOnDataReceived env h hal len mem w'") (auto simp: BleRequestWriteCallback_def split: option.split)
  next
    case (Cons u2 us2)
    then have "r = None" "recv_all env hal us w1 = Some (replicate (length us - 1) None @ [Some (mem, len, index)], w')"
      using Cons.prems(1) r by auto
    moreover have "h = gs_bleConnCharaId (g_gattService w1)" using Cons.prems(3) recv_gatt [OF r] by simp
    ultimately show ?thesis using Cons.IH [of w1] Cons.prems(3) r Cons by (auto simp: BleRequestWriteCallback_def)
  qed
qed simp

text \<open>The connection of a receiver that is able to collect a packet.\<close>

definition ble_ready :: "ble_env \<Rightarrow> int \<Rightarrow> nat \<Rightarrow> 32 word \<Rightarrow> ble_world \<Rightarrow> bool" where
  "ble_ready env hal t sq w \<longleftrightarrow> ble_target hal t w \<and> bt_lock env \<and> caches_ok (caches t w) \<and> slot_free sq (caches t w) \<and>
     SoftBusCalloc (bt_malloc env) (of_nat MAX_DATA_LEN) \<and> g_connectCallback w"

lemma conn_set_caches: "ble_target hal t w \<Longrightarrow> b_connId (g_conection_list (set_caches t cs w) ! t) = b_connId (g_conection_list w ! t)"
  using ble_targetD [of hal t w] by (simp add: upd_conn_def)

lemma bytes_head_append: "24 \<le> length xs \<Longrightarrow> bytes_head (xs @ ys) = bytes_head xs"
  by (simp add: bytes_head_def)

lemma write_packet:
  assumes "ble_ready env hal t sq w" "mset us = mset (ble_slices sq k data)" "0 < k" "24 \<le> length data" "length data \<le> MAX_DATA_LEN"
    "h_module (bytes_head data) \<noteq> MODULE_CONNECTION" "h_len (bytes_head data) + 24 = of_nat (length data)"
  shows "\<exists>mem w'. write_all env hal (gs_bleConnCharaId (g_gattService w)) us w = Ret w' \<and> take (length data) mem = data \<and>
    ble_acts w' = ble_acts w @ [BleUpData (b_connId (g_conection_list w ! t)) (h_module (bytes_head data)) (h_seq (bytes_head data)) mem (int (length data))]"
proof -
  note rd = assms(1) [unfolded ble_ready_def]
  have ne: "data \<noteq> []" using assms(4) by auto
  from rd recv_slices [of hal t w env sq us k data] assms(2,3,5) ne
  obtain mem i w1 where r: "recv_all env hal us w = Some (replicate (length us - 1) None @ [Some (mem, of_nat (length data), i)], w1)"
    "take (length data) mem = data"
    "i = - 1 \<and> w1 = w \<or> (\<exists>j cs. i = int j \<and> w1 = set_caches t cs w \<and> caches_ok cs \<and> find_index (\<lambda>c. rc_isUsed c \<and> rc_seq c = sq) cs = Some j)" by blast
  have us: "us \<noteq> []" using r(1) by auto
  have "ble_target hal t w1" "b_connId (g_conection_list w1 ! t) = b_connId (g_conection_list w ! t)" using rd r(3) conn_set_caches by auto
  moreover have "g_gattService w1 = g_gattService w \<and> g_connectCallback w1 \<and> ble_acts w1 = ble_acts w" using rd r(3) by (auto simp: upd_conn_def)
  ultimately have w1: "ble_target hal t w1" "g_gattService w1 = g_gattService w" "g_connectCallback w1" "ble_acts w1 = ble_acts w"
    "b_connId (g_conection_list w1 ! t) = b_connId (g_conection_list w ! t)" by simp_all
  have "mem = data @ drop (length data) mem" using r(2) by (metis append_take_drop_id)
  then have hd: "bytes_head mem = bytes_head data" "24 \<le> length mem"
    using assms(4) bytes_head_append [of data "drop (length data) mem"] by (simp, metis le_add1 le_trans length_append)
  let ?a = "BleUpData (b_connId (g_conection_list w ! t)) (h_module (bytes_head data)) (h_seq (bytes_head data)) mem (int (length data))"
  have "sint (of_nat (length data) :: 32 word) = int (length data)" using assms(5) by (intro sint_of_small_nat) simp
  then have d: "BleOnDataReceived env (gs_bleConnCharaId (g_gattService w)) hal (of_nat (length data)) mem w1 = Ret (ble_do ?a w1)"
    using w1 rd assms(6,7) hd by (simp add: BleOnDataReceived_def target_lookup Let_def)
  have t1: "ble_target hal t (ble_do ?a w1)" using w1(1) by (simp add: ble_target_def ble_do_def)
  have "\<exists>w4. BleTransCacheFree env hal i (ble_do ?a w1) = Some w4 \<and> ble_acts w4 = ble_acts w @ [?a]" if "i \<noteq> - 1"
  proof -
    from r(3) that obtain j cs where j: "i = int j" "w1 = set_caches t cs w" "find_index (\<lambda>c. rc_isUsed c \<and> rc_seq c = sq) cs = Some j" by auto
    have "caches t (ble_do ?a w1) = cs" using j(2) caches_set_caches [of hal t w cs] rd by (simp add: ble_do_def)
    moreover have "j < length cs" using find_index_SomeD [OF j(3)] by simp
    ultimately show ?thesis using rd w1(4) by (simp add: BleTransCacheFree_def target_lookup [OF t1] j(1)) (simp add: upd_conn_def ble_do_def)
  qed
  then show ?thesis
    unfolding write_recv [OF r(1) us refl] d using r(2) w1(4) by (cases "i = - 1") (auto simp: ble_do_def)
qed

text \<open>Posting a packet while the sending thread waits, and the round of the thread that is woken by it.\<close>

lemma ConnPostBytes_ble:
  assumes cm: "ConnTypeCheck cm CONNECT_BLE = SOFTBUS_OK" "transport cm CONNECT_BLE = InitBleInterface" "conn_type cid = CONNECT_BLE"
    and d: "d_buf data = Some buf" "int (length buf) = d_len data" "24 < d_len data"
    and w: "bt_lock env" "bt_node env" "find_index (\<lambda>n. b_connId n = cid) (g_conection_list w) = Some i" "g_sendQueue w = Some []" "\<not> sendLock w"
    and c: "isServer (b_info (g_conection_list w ! i))" "19 < b_mtu (g_conection_list w ! i)"
    and e: "\<And>n. bt_malloc env n" "\<And>b. bt_notify env b = SOFTBUS_OK" "d_len data \<le> int MAX_DATA_LEN"
  shows "\<exists>w1 w2. ConnPostBytes env cid (Some data) cm w = Some ((SOFTBUS_OK, False), w1) \<and> BleSendTask env True w1 = Ret (False, w2) \<and>
    ble_acts w2 = ble_acts w @ map (GattsNotify (b_halConnId (g_conection_list w ! i)) (GetBleAttrHandle (d_module data) w))
      (ble_slices (ucast (d_seq data)) (nat (b_mtu (g_conection_list w ! i) - 19)) (packet data))"
proof -
  let ?c = "g_conection_list w ! i" and ?h = "\<lparr>magic = MAGIC_NUMBER, h_module = d_module data, h_seq = d_seq data, h_flag = d_flag data, h_len = of_int (d_len data - 24)\<rparr>"
  have p: "packet data = head_bytes ?h @ drop 24 buf" "length (packet data) = length buf" using d by (simp_all add: packet_def)
  have hd: "bytes_head (packet data) = ?h" by (simp add: p(1) bytes_head_def head_bytes_def)
  define n where "n = \<lparr>sn_halConnId = b_halConnId ?c, sn_connectionId = cid, sn_pid = d_pid data, sn_flag = d_flag data, sn_isServer = isServer (b_info ?c),
    sn_isInner = 0, sn_module = 0, sn_seq = 0, sn_len = d_len data, sn_data = packet data\<rparr>"
  have l: "GetBleConnInfoByConnId env cid w' = Some i" if "g_conection_list w' = g_conection_list w" for w'
    using w(1,3) that by (simp add: GetBleConnInfoByConnId_def match_or_last_def)
  have "BlePostBytes env cid (packet data) (d_len data) (d_pid data) (d_flag data) w = Ret (SOFTBUS_OK, w\<lparr>g_sendQueue := Some [n]\<rparr>)"
    using w by (simp add: BlePostBytes_def l post_node_def BleEnqueueNonBlock_def n_def Let_def)
  then have post: "ConnPostBytes env cid (Some data) cm w = Some ((SOFTBUS_OK, False), w\<lparr>g_sendQueue := Some [n]\<rparr>)"
    using cm d p(1) by (simp add: ConnPostBytes_def ConnGetHeadSize_def InitBleInterface_def io_option_def Let_def)
  obtain w2 where s: "BleTransSend env ?c (packet data) (int (length (packet data))) (ucast (d_seq data)) (d_module data) w = Some (SOFTBUS_OK, w2)"
    using BleTransSend_total [OF c, of "packet data" env "ucast (d_seq data)" "d_module data" w] e p(2) d(2) by auto
  have "packet data \<noteq> []" using p(2) d by auto
  note sl = BleTransSend_slices [OF s c(1) this]
  have "w\<lparr>g_sendQueue := Some []\<rparr> = w" using w(4) by simp
  then have run: "BleSendTask env True (w\<lparr>g_sendQueue := Some [n]\<rparr>) = Ret (False, w2)"
    using w(5) c(1) s p(2) d l [OF refl] hd by (simp add: BleSendTask_def BleDequeueBlock_def dequeue_def SendBleData_def n_def)
  have "ble_acts w2 = ble_acts w @ map (GattsNotify (b_halConnId ?c) (GetBleAttrHandle (d_module data) w)) (ble_slices (ucast (d_seq data)) (nat (b_mtu ?c - 19)) (packet data))"
    using sl by simp
  with post run show ?thesis by blast
qed


definition demo_ble_data :: ConnPostData where
  "demo_ble_data = \<lparr>d_module = 13, d_seq = 9, d_flag = 0, d_pid = 0, d_len = 26, d_buf = Some (replicate 24 0 @ [5, 6])\<rparr>"

definition demo_ble_listener :: ConnListenerNode where
  "demo_ble_listener = \<lparr>moduleId = 13, callback = \<lparr>OnConnected = Some 1, OnDisconnected = Some 2, OnDataReceived = Some 3\<rparr>\<rparr>"

definition demo_ble_cm :: "(ble_env, ble_world) ConnManager" where
  "demo_ble_cm = conn_manager_start\<lparr>g_connManager := [None, None, None, Some InitBleInterface], g_listenerList := Some \<lparr>cnt = 1, lst = [demo_ble_listener]\<rparr>\<rparr>"

lemma demo_ble_cm_ok: "ConnTypeCheck demo_ble_cm CONNECT_BLE = SOFTBUS_OK" "transport demo_ble_cm CONNECT_BLE = InitBleInterface" "conn_inv demo_ble_cm"
  "demo_ble_listener \<in> set (listeners demo_ble_cm)"
proof -
  have "\<not> CONNECT_TYPE_MAX \<le> CONNECT_BLE" by (simp add: word_le_nat_alt)
  then show "ConnTypeCheck demo_ble_cm CONNECT_BLE = SOFTBUS_OK" "transport demo_ble_cm CONNECT_BLE = InitBleInterface" "conn_inv demo_ble_cm"
    "demo_ble_listener \<in> set (listeners demo_ble_cm)"
    by (simp_all add: demo_ble_cm_def conn_manager_start_def ConnTypeCheck_def transport_def conn_inv_def listeners_def wf_sl_def node_ok_def ModuleCheck_def demo_ble_listener_def)
qed


text \<open>After 32767 connections the signed counter turns negative and new ids belong to the bluetooth classic transport.\<close>

lemma AllocBleConnectionIdLocked_type:
  assumes "bt_lock env"
  shows "conn_type (fst (AllocBleConnectionIdLocked env w)) = (if sint (nextConnectionId w + 1) < 0 then CONNECT_BR else CONNECT_BLE)"
proof -
  define n where "n = nextConnectionId w + 1"
  define x where "x = (push_bit 16 3 + scast n :: 32 word)"
  have r: "- 32768 \<le> sint n" "sint n < 32768" using sint_greater_eq [of n] sint_less [of n] by simp_all
  have "x = of_int (0x30000 + sint n)" by (simp add: x_def)
  then have "uint x = take_bit 32 (0x30000 + sint n)" by (simp only: unsigned_of_int) simp
  also have "\<dots> = 0x30000 + sint n" using r by (intro take_bit_int_eq_self) simp_all
  finally have u: "uint x = 0x30000 + sint n" .
  have "uint (drop_bit 16 x) = (0x30000 + sint n) div 65536" by (simp add: drop_bit_eq_div uint_div u)
  also have "\<dots> = (if sint n < 0 then 2 else 3)" using r by auto
  finally have "drop_bit 16 x = (if sint n < 0 then 2 else 3)" by (simp add: word_uint_eq_iff)
  then show ?thesis using assms by (simp add: AllocBleConnectionIdLocked_def Let_def conn_type_def x_def n_def)
qed

end
