(* ===== verification/Spec2Isabelle.thy ===== *)
theory Spec2Isabelle
  imports Common_List Seq_Verification Queue_Concurrent Softbus_Utils Lnn_State_Machine Lnn_Map Tcp_Connect
    Trans_Session_Manager Proxy_Network Proxy_Handshake Tdc_Stream Ble_Service
begin

text \<open>
  Verification of the core of the distributed soft bus, the service that finds devices, connects them and carries
  sessions of their applications. The sources are C; paths below are relative to \<^verbatim>\<open>src/\<close>.

  \<^bold>\<open>The program.\<close> A packet of an application goes through a channel (a proxy channel of the service, or a direct TCP channel of the
  client library), where it is encrypted and cut into slices. A proxy channel hands its messages to the connection
  manager, which puts a header before each and gives it to a transport (TCP or Bluetooth Low Energy here). The transport
  of the peer reassembles the packet and reports it to its connection manager, which calls the listener of the module
  named in the header, and so back up. Session keys come from the key store of the authentication. Below all parts are
  the intrusive lists, the lock-free queue, the message loop, the filter of sequence numbers and the utilities.

  \<^bold>\<open>Theories and sources.\<close>
  \<^item> \<open>Softbus_Prelude\<close>: return codes, the bounded copies of the C library, little-endian fields, loops over lists that look for
    the first match, the counted list of \<^verbatim>\<open>core/common/utils/softbus_utils.c\<close>, allocation limits, and the contract
    \<open>keyed_registry\<close>.
  \<^item> \<open>Common_List\<close>: the pointers of \<^verbatim>\<open>core/common/include/common_list.h\<close> as a heap of nodes.
  \<^item> \<open>Seq_Verification\<close>: \<^verbatim>\<open>core/common/security/sequence_verification\<close>, on 32-bit words.
  \<^item> \<open>Lock_Free_Queue\<close>, \<open>Queue_Concurrent\<close>: \<^verbatim>\<open>core/common/queue/softbus_queue.c\<close>, first without interference, then with the atomic
    steps of any number of threads interleaved.
  \<^item> \<open>Softbus_Utils\<close>: the conversions and timers of \<^verbatim>\<open>core/common/utils/softbus_utils.c\<close>.
  \<^item> \<open>Message_Handler\<close>: \<^verbatim>\<open>core/common/message_handler/message_handler.c\<close>; the loop thread is cut at its lock regions.
  \<^item> \<open>Lnn_State_Machine\<close>: the engine \<^verbatim>\<open>lnn_state_machine.c\<close> of the network builder on top of that loop.
  \<^item> \<open>Lnn_Map\<close>: the hash map \<^verbatim>\<open>lnn_map.c\<close> of the ledger and its iterator.
  \<^item> \<open>Conn_Manager\<close>: \<^verbatim>\<open>core/connection/manager/softbus_conn_manager.c\<close>; a transport is a record of functions, as
    \<^verbatim>\<open>ConnectFuncInterface\<close> is.
  \<^item> \<open>Tcp_Connect\<close>: \<^verbatim>\<open>core/connection/tcp/src/softbus_tcp_connect_manager.c\<close> and the sending and receiving of
    \<^verbatim>\<open>softbus_tcp_socket.c\<close>.
  \<^item> \<open>Ble_Trans\<close>, \<open>Ble_Connection\<close>, \<open>Ble_Service\<close>: \<^verbatim>\<open>core/connection/ble/src\<close>, the slices of
    \<^verbatim>\<open>softbus_ble_trans_manager.c\<close>, then the connections, the GATT service and the sending thread of
    \<^verbatim>\<open>softbus_ble_connection.c\<close>, then the two under a stack that answers and with the connection managers of two devices.
  \<^item> \<open>Trans_Session_Manager\<close>: \<^verbatim>\<open>core/transmission/session/src/trans_session_manager.c\<close>.
  \<^item> \<open>Pending_Packet\<close>: \<^verbatim>\<open>core/transmission/pending_packet/src/trans_pending_pkt.c\<close>, the steps of all threads interleaved.
  \<^item> \<open>Adapter_Crypto\<close>: \<^verbatim>\<open>adapter/common/mbedtls/softbus_adapter_crypto.c\<close> over the mbedtls functions.
  \<^item> \<open>Auth_Session_Key\<close>: \<^verbatim>\<open>core/authentication/src/auth_sessionkey.c\<close> and the parts of \<^verbatim>\<open>auth_common.c\<close> it uses.
  \<^item> \<open>Proxy_Message\<close>, \<open>Proxy_Session\<close>, \<open>Proxy_Conn\<close>, \<open>Proxy_Manager\<close>, \<open>Proxy_Network\<close>, \<open>Proxy_Handshake\<close>:
    \<^verbatim>\<open>core/transmission/trans_channel/proxy/src\<close>. In this order: messages with their JSON and control functions, session
    data, connections with the loop messages, channels with the timer, initialisation with the networking channels, and the
    handshake of two devices.
  \<^item> \<open>Tdc_Channel\<close>, \<open>Tdc_Stream\<close>: \<^verbatim>\<open>sdk/transmission/trans_channel/tcp_direct/src\<close>, one client, then two.

  \<^bold>\<open>Conventions.\<close> Definitions have the names of the C functions. A structure is a record and an enumeration a datatype. The static
  variables of a file are a record (\<open>ble_world\<close>, \<open>tdc_world\<close>, ...) that its functions take and return. Return codes are integers;
  machine integers are words wherever they can wrap. A pointer that the code tests for NULL is an option where callers can
  pass NULL; where every caller passes an object it is the object. Mutexes, allocations, system calls, the JSON library, mbedtls and the bluetooth
  stack are fields of an environment argument, so that every branch on their failure is in the model. A use of a null pointer, an access
  outside a block, or a call that does not return is an outer \<^const>\<open>None\<close>, or \<open>Blocked\<close> and \<open>MemFault\<close> of type \<open>io\<close> in the transports. What
  a component calls outside the model is recorded in a list of its state. Log output is left out.

  \<^bold>\<open>Contracts.\<close> The laws a client relies on are locales, interpreted on the definitions of the code:
  \<open>keyed_registry\<close> by the listeners of the connection manager, the TCP connections and the session servers; \<open>intrusive_list\<close> by
  the list macros; \<open>bounded_fifo\<close> by the queue; \<open>message_looper\<close> by the message loop; \<open>kv_map\<close> by the hash map; \<open>packet_sink\<close>
  by the data and by the acknowledgements of a direct channel.

  \<^bold>\<open>What is shown.\<close>
  \<^item> From end to end (C1 to C6): a packet over TCP arrives unchanged when no round of the receiver splits its header; a packet over BLE
    arrives unchanged in any order of its slices; session data over a proxy channel arrives once and unchanged, except for the sizes
    whose last slice has at most 16 bytes, which the peer drops; the packets of a direct channel arrive in order however the stream is cut;
    a proxy channel opens on both devices; keys agree as long as they are in the store.
  \<^item> Refinement (C7, C9, C10, C15): the queue is a bounded list, the hash map and the session servers are finite maps, the filter
    is a window of distances.
  \<^item> Interleavings (C8, C11, C16, C17, C26): queue, message loop, waiting senders and the start of the GATT service.
  \<^item> Invariants and safety (C13, C14, C18, C19, C21, C22, C28, C29, C32): descriptors, buffers, lists and states stay well formed
    under every sequence of operations.
  \<^item> The remaining properties describe single operations on all their branches, loops that end, and defects: C23, C24, C34, C36,
    C39 and C40 state what the code does where it does not do what it means to.

  \<^bold>\<open>Bounds and fuel.\<close> Only the loops over pointers and over the map iterator carry fuel; C25 and C31 show that the number of entries is
  enough. \<open>TransTdcProcAllData\<close> is a partial function, and C14 shows that it returns. \<open>BleSendTask\<close> is one round of a loop that
  is meant to run for ever. All other loops are recursive functions that are total. The capacities (128 slots of the BLE
  send queue, 20 session keys, 100 channel numbers, 32 session servers, 4096 bytes of a BLE packet) are those of the code.

  \<^bold>\<open>Not modelled.\<close>
  \<^item> The bluetooth classic transport (\<^verbatim>\<open>br_connection.c\<close>) and discovery: they drive platform stacks and nstackx.
  \<^item> The network builder, the ledgers, lanes and time synchronisation: clients of the modelled state machine and map; what the
    channels ask of them is a parameter.
  \<^item> The authentication sessions, which are driven by the HiChain library; only their key store is modelled.
  \<^item> The service side of direct, datagram and authentication channels, the channel manager and the session service.
  \<^item> The socket listener, thread pool, IPC frame, permissions, logging and platform adapters: system calls and marshalling.
  \<^item> The nstackx components, a library of their own.
  \<^item> In the modelled parts: data races on fields that the code reads without a lock, except in \<open>Queue_Concurrent\<close>; freeing is
    modelled only where a later use of the freed object is; mutexes are part of the state only where the code keeps one locked
    (the send queue of BLE), the exception is named at \<open>TransTdcProcessData\<close>.
\<close>

section \<open>From one connection manager to another\<close>

text \<open>C1: A packet posted on a TCP connection reaches the listener of its module on the peer with
  its sequence number and exactly its payload. The sender's connection manager writes the header,
  its TCP transport sends header and payload on the socket of the connection and frees the buffer
  once; when the stream of the receiver starts with these bytes, cut into rounds in any way that
  does not split the header, the receiver's transport reassembles the packet and its connection
  manager calls the one registered function with the bytes behind the header.\<close>

theorem tcp_packet_end_to_end:
  assumes sender: "ConnTypeCheck cm CONNECT_TCP = SOFTBUS_OK" "transport cm CONNECT_TCP = tcp_interface u"
    "conn_type cid = CONNECT_TCP" "e_lock env" "g_tcpConnInfoList w \<noteq> None"
    "find (\<lambda>n. connectionId n = cid) (conns w) = Some item" "0 \<le> node_fd item"
    "SendTcpData (e_send env) (node_fd item) (length buf) = Some (d_len data)"
    and packet: "d_buf data = Some buf" "int (length buf) = d_len data" "24 < d_len data" "d_len data < 2 ^ 31"
    and receiver: "g_tcpListener w'" "0 \<le> fd" "d_len data - 24 \<le> g_tcpMaxLen w'"
    "e_rx env' = packet data @ rest" "e_recv env' = (wt, RecvAvail n) # rounds" "0 \<le> wt" "24 \<le> n"
    "enough rounds (nat (d_len data - 24))" "e_alloc env' (of_int (d_len data))"
    and listener: "conn_inv cm'" "node \<in> set (listeners cm')" "moduleId node = d_module data"
  shows "(\<exists>w1. ConnPostBytes env cid (Some data) cm w = Some ((SOFTBUS_OK, False), w1) \<and>
      acts w1 = acts w @ [SendTcp (node_fd item) (packet data), FreeData]) \<and>
    TcpOnDataEvent env' SOFTBUS_SOCKET_IN fd w' =
      Ret (SOFTBUS_OK, report (UpData (CalTcpConnectionId fd) (d_module data) (d_seq data) (packet data) (d_len data)) w') \<and>
    ConnManagerRecvData True (CalTcpConnectionId fd) (d_module data) (d_seq data) (Some (packet data)) (d_len data) cm' =
      Some [CallData (the (OnDataReceived (callback node))) (CalTcpConnectionId fd) (d_module data) (d_seq data)
        (drop 24 buf) (d_len data - 24)]"
proof (intro conjI)
  show "\<exists>w1. ConnPostBytes env cid (Some data) cm w = Some ((SOFTBUS_OK, False), w1) \<and>
      acts w1 = acts w @ [SendTcp (node_fd item) (packet data), FreeData]"
    using ConnPostBytes_tcp [OF sender(1-3) packet(1-3) sender(4-8)] by blast
  show "TcpOnDataEvent env' SOFTBUS_SOCKET_IN fd w' =
      Ret (SOFTBUS_OK, report (UpData (CalTcpConnectionId fd) (d_module data) (d_seq data) (packet data) (d_len data)) w')"
    using packet(3) by (intro TcpOnDataEvent_packet [OF receiver(1,2) packet(1,2) _ packet(4) receiver(3-9)]) simp
  have "filter (\<lambda>n. moduleId n = d_module data) (listeners cm') = [node]"
    using listener filter_key_single [of moduleId "listeners cm'" node] by (simp add: conn_inv_def)
  then show "ConnManagerRecvData True (CalTcpConnectionId fd) (d_module data) (d_seq data) (Some (packet data)) (d_len data) cm' =
      Some [CallData (the (OnDataReceived (callback node))) (CalTcpConnectionId fd) (d_module data) (d_seq data)
        (drop 24 buf) (d_len data - 24)]"
    using packet(1,3) by (simp add: ConnManagerRecvData_inv [OF listener(1)] ConnGetHeadSize_def packet_def)
qed

definition wire_data :: ConnPostData where
  "wire_data = \<lparr>d_module = 13, d_seq = 9, d_flag = 0, d_pid = 0, d_len = 26,
     d_buf = Some (replicate 24 0 @ [5, 6])\<rparr>"

definition wire_node :: TcpConnInfoNode where
  "wire_node = \<lparr>connectionId = 0x10007, t_info = demo_info\<lparr>ci_info := IpInfo ''10.0.0.2'' 0 7\<rparr>\<rparr>"

definition wire_listener :: ConnListenerNode where
  "wire_listener = \<lparr>moduleId = 13,
     callback = \<lparr>OnConnected = Some 1, OnDisconnected = Some 2, OnDataReceived = Some 3\<rparr>\<rparr>"

lemma wire_rounds: "enough [(0, RecvAgain), (1, RecvAvail (Suc 0)), (1, RecvAvail 5)] 2"
  by (simp add: numeral_2_eq_2)

lemma wire_type: "\<not> CONNECT_TYPE_MAX \<le> CONNECT_TCP"
  by (simp add: word_le_nat_alt)

theorem tcp_packet_end_to_end_witness:
  "\<exists>(cm :: (tcp_env, tcp_world) ConnManager) env w1.
     ConnPostBytes env 0x10007 (Some wire_data) cm
       (demo_world\<lparr>g_tcpConnInfoList := Some \<lparr>cnt = 1, lst = [wire_node]\<rparr>\<rparr>) = Some ((SOFTBUS_OK, False), w1) \<and>
     acts w1 = acts (demo_world\<lparr>g_tcpConnInfoList := Some \<lparr>cnt = 1, lst = [wire_node]\<rparr>\<rparr>)
       @ [SendTcp (node_fd wire_node) (packet wire_data), FreeData]"
  by (rule exI, rule exI, rule tcp_packet_end_to_end [where
      cm = "conn_manager_start\<lparr>g_connManager := [None, Some (tcp_interface demo_info), None, None]\<rparr>"
      and u = demo_info and env = "(demo_env [] [])\<lparr>e_send := (1, [(SendRc 26, 1)])\<rparr>"
      and buf = "replicate 24 0 @ [5, 6]"
      and w' = "demo_world\<lparr>g_tcpListener := True, g_tcpMaxLen := 3072\<rparr>" and fd = 7
      and env' = "demo_env [(1, RecvAvail 24), (0, RecvAgain), (1, RecvAvail 1), (1, RecvAvail 5)] (packet wire_data @ [])"
      and rest = "[]" and wt = 1 and n = 24 and rounds = "[(0, RecvAgain), (1, RecvAvail 1), (1, RecvAvail 5)]"
      and cm' = "conn_manager_start\<lparr>g_listenerList := Some \<lparr>cnt = 1, lst = [wire_listener]\<rparr>\<rparr>"
      and node = wire_listener, THEN conjunct1])
    (simp_all add: conn_manager_start_def ConnTypeCheck_def transport_def conn_type_def demo_env_def demo_world_def
      wire_node_def demo_info_def conns_def SendTcpData_def wire_data_def wire_listener_def conn_inv_def
      listeners_def wf_sl_def node_ok_def ModuleCheck_def wire_rounds wire_type)

end
